(* ===== verification/Rfb_Prelude.thy ===== *)
theory Rfb_Prelude
  imports Main "HOL-Library.Word"
begin

text \<open>
  Shared vocabulary of the development: the machine types of the C code, the byte encodings
  that the server uses on the wire (network order) and in memory (host order), and the generic
  lemmas on words and lists that several components need.

  The target of the sources is an LP64 macOS host: \<open>int\<close> has 32 bits and \<open>unsigned long\<close> 64.
\<close>

unbundle bit_operations_syntax

type_synonym u8 = "8 word"
type_synonym u16 = "16 word"
type_synonym u32 = "32 word"
type_synonym ulong = "64 word"

named_theorems rfb_simps \<open>equations that evaluate the encoders and the guards of the server\<close>
named_theorems len_simps \<open>lengths of the byte sequences the server builds\<close>

section \<open>Byte encodings\<close>

subsection \<open>Network order: what htons and htonl store in memory\<close>

definition be16 :: "int \<Rightarrow> u8 list" where
  "be16 n = [word_of_int (n div 256), word_of_int n]"

definition be32 :: "int \<Rightarrow> u8 list" where
  "be32 n = [word_of_int (n div 2 ^ 24), word_of_int (n div 2 ^ 16),
             word_of_int (n div 2 ^ 8), word_of_int n]"

definition rd16 :: "u8 list \<Rightarrow> int" where
  "rd16 bs = uint (bs ! 0) * 256 + uint (bs ! 1)"

definition rd32 :: "u8 list \<Rightarrow> int" where
  "rd32 bs = uint (bs ! 0) * 2 ^ 24 + uint (bs ! 1) * 2 ^ 16 + uint (bs ! 2) * 2 ^ 8 + uint (bs ! 3)"

lemma length_be16 [simp, len_simps]: "length (be16 n) = 2"
  by (simp add: be16_def)

lemma length_be32 [simp, len_simps]: "length (be32 n) = 4"
  by (simp add: be32_def)

lemma uint_byte_of_int: "uint (word_of_int n :: u8) = n mod 256"
  by (simp add: uint_word_of_int)

lemma rd16_be16: "rd16 (be16 n @ bs) = n mod 2 ^ 16"
proof -
  have "n mod 65536 = n div 256 mod 256 * 256 + n mod 256"
    using zmod_zmult2_eq [of 256 n 256] by simp
  then show ?thesis
    by (simp add: rd16_def be16_def uint_byte_of_int)
qed

lemma mod_step256: "0 \<le> k \<Longrightarrow> (n::int) mod (256 * k) = 256 * (n div 256 mod k) + n mod 256"
  by (rule zmod_zmult2_eq)

lemma div_256_256: "(n::int) div 256 div 256 = n div 65536"
  and div_256_65536: "(n::int) div 65536 div 256 = n div 16777216"
  by (simp_all add: zdiv_zmult2_eq [symmetric])

lemma rd32_Cons4: "rd32 (a # b # c # d # bs)
    = uint a * 16777216 + uint b * 65536 + uint c * 256 + uint d"
  by (simp add: rd32_def)

lemma be32_bytes: "be32 n @ bs = word_of_int (n div 16777216) # word_of_int (n div 65536)
    # word_of_int (n div 256) # word_of_int n # bs"
  by (simp add: be32_def)

lemma rd32_be32: "rd32 (be32 n @ bs) = n mod 4294967296"
proof -
  have "n mod 4294967296 = 256 * (n div 256 mod 16777216) + n mod 256"
    using mod_step256 [of 16777216 n] by simp
  moreover have "n div 256 mod 16777216 = 256 * (n div 65536 mod 65536) + n div 256 mod 256"
    using mod_step256 [of 65536 "n div 256"] by (simp add: div_256_256)
  moreover have "n div 65536 mod 65536 = 256 * (n div 16777216 mod 256) + n div 65536 mod 256"
    using mod_step256 [of 256 "n div 65536"] by (simp add: div_256_65536)
  ultimately have "n mod 4294967296 = n div 16777216 mod 256 * 16777216
      + n div 65536 mod 256 * 65536 + n div 256 mod 256 * 256 + n mod 256"
    by linarith
  then show ?thesis
    by (simp only: be32_bytes rd32_Cons4 uint_byte_of_int)
qed

lemma rd16_range: "0 \<le> rd16 bs \<and> rd16 bs < 2 ^ 16"
proof -
  have "uint (bs ! 0) < 256" "uint (bs ! 1) < 256"
    using uint_lt2p [of "bs ! 0"] uint_lt2p [of "bs ! 1"] by simp_all
  then show ?thesis by (simp add: rd16_def)
qed

lemma rd32_range: "0 \<le> rd32 bs \<and> rd32 bs < 2 ^ 32"
proof -
  have "uint (bs ! i) < 256" for i
    using uint_lt2p [of "bs ! i"] by simp
  from this [of 0] this [of 1] this [of 2] this [of 3] show ?thesis by (simp add: rd32_def)
qed

subsection \<open>Host order: how pixels lie in memory\<close>

text \<open>
  A pixel of \<open>bpp\<close> bits stored through a \<open>CARD8\<close>, \<open>CARD16\<close> or \<open>CARD32\<close> pointer; \<open>le\<close> is the
  byte order of the host.
\<close>

definition le_bytes :: "nat \<Rightarrow> u32 \<Rightarrow> u8 list" where
  "le_bytes n p = map (\<lambda>i. ucast (drop_bit (8 * i) p)) [0..<n]"

definition host_bytes :: "bool \<Rightarrow> nat \<Rightarrow> u32 \<Rightarrow> u8 list" where
  "host_bytes le bpp p = (if le then le_bytes (bpp div 8) p else rev (le_bytes (bpp div 8) p))"

lemma length_le_bytes [simp, len_simps]: "length (le_bytes n p) = n"
  by (simp add: le_bytes_def)

lemma length_host_bytes [simp, len_simps]: "length (host_bytes le bpp p) = bpp div 8"
  by (simp add: host_bytes_def)

section \<open>Lists\<close>

lemma length_concat_map_const:
  "(\<And>x. x \<in> set xs \<Longrightarrow> length (f x) = k) \<Longrightarrow> length (concat (map f xs)) = k * length xs"
  by (induction xs) auto

lemma take_append_take_drop: "take n xs @ take m (drop n xs) = take (n + m) xs"
  by (simp add: take_add)

end
