(* ===== verification/D3des.thy ===== *)
theory D3des
  imports Rfb_Prelude
begin

text \<open>
  \<^verbatim>\<open>OSXvnc-server/d3des.c\<close>: the block cipher behind VNC authentication. The state of the C module is the
  static array \<open>KnL\<close> of 32 cooked subkeys; \<open>deskey\<close> returns its new contents and \<open>des\<close>
  takes them. Words are \<open>unsigned long\<close>, 64 bits wide on the target, so the rotations of
  \<open>desfunc\<close> leave bits above bit 31 behind, as they do in the compiled code.

  The theory ends with the round trip: a block encrypted under a key schedule built with
  \<open>EN0\<close> decrypts to itself under the one built with \<open>DE1\<close>.
\<close>

unbundle bit_operations_syntax

section \<open>The tables\<close>

datatype des_mode = EN0 | DE1

definition bytebit :: "u8 list" where
  "bytebit = [0x01, 0x02, 0x04, 0x08, 0x10, 0x20, 0x40, 0x80]"

definition bigbyte :: "ulong list" where
  "bigbyte = [
    0x800000, 0x400000, 0x200000, 0x100000,
    0x80000, 0x40000, 0x20000, 0x10000,
    0x8000, 0x4000, 0x2000, 0x1000,
    0x800, 0x400, 0x200, 0x100,
    0x80, 0x40, 0x20, 0x10,
    0x8, 0x4, 0x2, 0x1]"

definition pc1 :: "nat list" where
  "pc1 = [
    56, 48, 40, 32, 24, 16, 8, 0, 57, 49, 41, 33, 25, 17,
    9, 1, 58, 50, 42, 34, 26, 18, 10, 2, 59, 51, 43, 35,
    62, 54, 46, 38, 30, 22, 14, 6, 61, 53, 45, 37, 29, 21,
    13, 5, 60, 52, 44, 36, 28, 20, 12, 4, 27, 19, 11, 3]"

definition totrot :: "nat list" where
  "totrot = [1, 2, 4, 6, 8, 10, 12, 14, 15, 17, 19, 21, 23, 25, 27, 28]"

definition pc2 :: "nat list" where
  "pc2 = [
    13, 16, 10, 23, 0, 4, 2, 27, 14, 5, 20, 9,
    22, 18, 11, 3, 25, 7, 15, 6, 26, 19, 12, 1,
    40, 51, 30, 36, 46, 54, 29, 39, 50, 44, 32, 47,
    43, 48, 38, 55, 33, 52, 45, 41, 49, 35, 28, 31]"

definition SP1 :: "ulong list" where
  "SP1 = [
    0x01010400, 0x00000000, 0x00010000, 0x01010404,
    0x01010004, 0x00010404, 0x00000004, 0x00010000,
    0x00000400, 0x01010400, 0x01010404, 0x00000400,
    0x01000404, 0x01010004, 0x01000000, 0x00000004,
    0x00000404, 0x01000400, 0x01000400, 0x00010400,
    0x00010400, 0x01010000, 0x01010000, 0x01000404,
    0x00010004, 0x01000004, 0x01000004, 0x00010004,
    0x00000000, 0x00000404, 0x00010404, 0x01000000,
    0x00010000, 0x01010404, 0x00000004, 0x01010000,
    0x01010400, 0x01000000, 0x01000000, 0x00000400,
    0x01010004, 0x00010000, 0x00010400, 0x01000004,
    0x00000400, 0x00000004, 0x01000404, 0x00010404,
    0x01010404, 0x00010004, 0x01010000, 0x01000404,
    0x01000004, 0x00000404, 0x00010404, 0x01010400,
    0x00000404, 0x01000400, 0x01000400, 0x00000000,
    0x00010004, 0x00010400, 0x00000000, 0x01010004]"

definition SP2 :: "ulong list" where
  "SP2 = [
    0x80108020, 0x80008000, 0x00008000, 0x00108020,
    0x00100000, 0x00000020, 0x80100020, 0x80008020,
    0x80000020, 0x80108020, 0x80108000, 0x80000000,
    0x80008000, 0x00100000, 0x00000020, 0x80100020,
    0x00108000, 0x00100020, 0x80008020, 0x00000000,
    0x80000000, 0x00008000, 0x00108020, 0x80100000,
    0x00100020, 0x80000020, 0x00000000, 0x00108000,
    0x00008020, 0x80108000, 0x80100000, 0x00008020,
    0x00000000, 0x00108020, 0x80100020, 0x00100000,
    0x80008020, 0x80100000, 0x80108000, 0x00008000,
    0x80100000, 0x80008000, 0x00000020, 0x80108020,
    0x00108020, 0x00000020, 0x00008000, 0x80000000,
    0x00008020, 0x80108000, 0x00100000, 0x80000020,
    0x00100020, 0x80008020, 0x80000020, 0x00100020,
    0x00108000, 0x00000000, 0x80008000, 0x00008020,
    0x80000000, 0x80100020, 0x80108020, 0x00108000]"

definition SP3 :: "ulong list" where
  "SP3 = [
    0x00000208, 0x08020200, 0x00000000, 0x08020008,
    0x08000200, 0x00000000, 0x00020208, 0x08000200,
    0x00020008, 0x08000008, 0x08000008, 0x00020000,
    0x08020208, 0x00020008, 0x08020000, 0x00000208,
    0x08000000, 0x00000008, 0x08020200, 0x00000200,
    0x00020200, 0x08020000, 0x08020008, 0x00020208,
    0x08000208, 0x00020200, 0x00020000, 0x08000208,
    0x00000008, 0x08020208, 0x00000200, 0x08000000,
    0x08020200, 0x08000000, 0x00020008, 0x00000208,
    0x00020000, 0x08020200, 0x08000200, 0x00000000,
    0x00000200, 0x00020008, 0x08020208, 0x08000200,
    0x08000008, 0x00000200, 0x00000000, 0x08020008,
    0x08000208, 0x00020000, 0x08000000, 0x08020208,
    0x00000008, 0x00020208, 0x00020200, 0x08000008,
    0x08020000, 0x08000208, 0x00000208, 0x08020000,
    0x00020208, 0x00000008, 0x08020008, 0x00020200]"

definition SP4 :: "ulong list" where
  "SP4 = [
    0x00802001, 0x00002081, 0x00002081, 0x00000080,
    0x00802080, 0x00800081, 0x00800001, 0x00002001,
    0x00000000, 0x00802000, 0x00802000, 0x00802081,
    0x00000081, 0x00000000, 0x00800080, 0x00800001,
    0x00000001, 0x00002000, 0x00800000, 0x00802001,
    0x00000080, 0x00800000, 0x00002001, 0x00002080,
    0x00800081, 0x00000001, 0x00002080, 0x00800080,
    0x00002000, 0x00802080, 0x00802081, 0x00000081,
    0x00800080, 0x00800001, 0x00802000, 0x00802081,
    0x00000081, 0x00000000, 0x00000000, 0x00802000,
    0x00002080, 0x00800080, 0x00800081, 0x00000001,
    0x00802001, 0x00002081, 0x00002081, 0x00000080,
    0x00802081, 0x00000081, 0x00000001, 0x00002000,
    0x00800001, 0x00002001, 0x00802080, 0x00800081,
    0x00002001, 0x00002080, 0x00800000, 0x00802001,
    0x00000080, 0x00800000, 0x00002000, 0x00802080]"

definition SP5 :: "ulong list" where
  "SP5 = [
    0x00000100, 0x02080100, 0x02080000, 0x42000100,
    0x00080000, 0x00000100, 0x40000000, 0x02080000,
    0x40080100, 0x00080000, 0x02000100, 0x40080100,
    0x42000100, 0x42080000, 0x00080100, 0x40000000,
    0x02000000, 0x40080000, 0x40080000, 0x00000000,
    0x40000100, 0x42080100, 0x42080100, 0x02000100,
    0x42080000, 0x40000100, 0x00000000, 0x42000000,
    0x02080100, 0x02000000, 0x42000000, 0x00080100,
    0x00080000, 0x42000100, 0x00000100, 0x02000000,
    0x40000000, 0x02080000, 0x42000100, 0x40080100,
    0x02000100, 0x40000000, 0x42080000, 0x02080100,
    0x40080100, 0x00000100, 0x02000000, 0x42080000,
    0x42080100, 0x00080100, 0x42000000, 0x42080100,
    0x02080000, 0x00000000, 0x40080000, 0x42000000,
    0x00080100, 0x02000100, 0x40000100, 0x00080000,
    0x00000000, 0x40080000, 0x02080100, 0x40000100]"

definition SP6 :: "ulong list" where
  "SP6 = [
    0x20000010, 0x20400000, 0x00004000, 0x20404010,
    0x20400000, 0x00000010, 0x20404010, 0x00400000,
    0x20004000, 0x00404010, 0x00400000, 0x20000010,
    0x00400010, 0x20004000, 0x20000000, 0x00004010,
    0x00000000, 0x00400010, 0x20004010, 0x00004000,
    0x00404000, 0x20004010, 0x00000010, 0x20400010,
    0x20400010, 0x00000000, 0x00404010, 0x20404000,
    0x00004010, 0x00404000, 0x20404000, 0x20000000,
    0x20004000, 0x00000010, 0x20400010, 0x00404000,
    0x20404010, 0x00400000, 0x00004010, 0x20000010,
    0x00400000, 0x20004000, 0x20000000, 0x00004010,
    0x20000010, 0x20404010, 0x00404000, 0x20400000,
    0x00404010, 0x20404000, 0x00000000, 0x20400010,
    0x00000010, 0x00004000, 0x20400000, 0x00404010,
    0x00004000, 0x00400010, 0x20004010, 0x00000000,
    0x20404000, 0x20000000, 0x00400010, 0x20004010]"

definition SP7 :: "ulong list" where
  "SP7 = [
    0x00200000, 0x04200002, 0x04000802, 0x00000000,
    0x00000800, 0x04000802, 0x00200802, 0x04200800,
    0x04200802, 0x00200000, 0x00000000, 0x04000002,
    0x00000002, 0x04000000, 0x04200002, 0x00000802,
    0x04000800, 0x00200802, 0x00200002, 0x04000800,
    0x04000002, 0x04200000, 0x04200800, 0x00200002,
    0x04200000, 0x00000800, 0x00000802, 0x04200802,
    0x00200800, 0x00000002, 0x04000000, 0x00200800,
    0x04000000, 0x00200800, 0x00200000, 0x04000802,
    0x04000802, 0x04200002, 0x04200002, 0x00000002,
    0x00200002, 0x04000000, 0x04000800, 0x00200000,
    0x04200800, 0x00000802, 0x00200802, 0x04200800,
    0x00000802, 0x04000002, 0x04200802, 0x04200000,
    0x00200800, 0x00000000, 0x00000002, 0x04200802,
    0x00000000, 0x00200802, 0x04200000, 0x00000800,
    0x04000002, 0x04000800, 0x00000800, 0x00200002]"

definition SP8 :: "ulong list" where
  "SP8 = [
    0x10001040, 0x00001000, 0x00040000, 0x10041040,
    0x10000000, 0x10001040, 0x00000040, 0x10000000,
    0x00040040, 0x10040000, 0x10041040, 0x00041000,
    0x10041000, 0x00041040, 0x00001000, 0x00000040,
    0x10040000, 0x10000040, 0x10001000, 0x00001040,
    0x00041000, 0x00040040, 0x10040040, 0x10041000,
    0x00001040, 0x00000000, 0x00000000, 0x10040040,
    0x10000040, 0x10001000, 0x00041040, 0x00040000,
    0x00041040, 0x00040000, 0x10041000, 0x00001000,
    0x00000040, 0x10040040, 0x00001000, 0x00041040,
    0x10001000, 0x00000040, 0x10000040, 0x10040000,
    0x10040040, 0x10000000, 0x00040000, 0x10001040,
    0x00000000, 0x10041040, 0x00040040, 0x10000040,
    0x10040000, 0x10001000, 0x10001040, 0x00000000,
    0x10041040, 0x00041000, 0x00041000, 0x00001040,
    0x00001040, 0x00040040, 0x10000000, 0x10041000]"

section \<open>The key schedule\<close>

text \<open>\<open>pc1m\<close>: the 56 key bits that the permuted choice keeps, as 0 or 1.\<close>

definition pc1m :: "u8 list \<Rightarrow> u8 list" where
  "pc1m key = map (\<lambda>l. let m = l mod 8 in
      if (key ! (l div 8)) AND (bytebit ! m) \<noteq> 0 then 1 else 0) pc1"

text \<open>\<open>pcr\<close>: both 28-bit halves rotated by \<open>totrot[i]\<close>.\<close>

definition pcr :: "u8 list \<Rightarrow> nat \<Rightarrow> u8 list" where
  "pcr pm i =
     map (\<lambda>j. let l = j + totrot ! i in if l < 28 then pm ! l else pm ! (l - 28)) [0..<28] @
     map (\<lambda>j. let l = j + totrot ! i in if l < 56 then pm ! l else pm ! (l - 28)) [28..<56]"

definition kn_word :: "u8 list \<Rightarrow> nat \<Rightarrow> ulong" where
  "kn_word pr off =
     foldl (\<lambda>k j. if pr ! (pc2 ! (j + off)) \<noteq> 0 then k OR bigbyte ! j else k) 0 [0..<24]"

definition kn_pair :: "u8 list \<Rightarrow> nat \<Rightarrow> ulong \<times> ulong" where
  "kn_pair key i = (let pr = pcr (pc1m key) i in (kn_word pr 0, kn_word pr 24))"

text \<open>
  The 32 entries of the local array \<open>kn\<close>; every entry is assigned, so the zeros the list starts
  with never survive.
\<close>

definition deskey_raw :: "u8 list \<Rightarrow> des_mode \<Rightarrow> ulong list" where
  "deskey_raw key edf =
     foldl (\<lambda>kn i.
        let m = (if edf = DE1 then 2 * (15 - i) else 2 * i); n = m + 1
        in kn[m := fst (kn_pair key i), n := snd (kn_pair key i)])
       (replicate 32 0) [0..<16]"

definition cook :: "ulong \<Rightarrow> ulong \<Rightarrow> ulong list" where
  "cook raw0 raw1 =
     [push_bit 6 (raw0 AND 0x00fc0000) OR push_bit 10 (raw0 AND 0x00000fc0) OR
      drop_bit 10 (raw1 AND 0x00fc0000) OR drop_bit 6 (raw1 AND 0x00000fc0),
      push_bit 12 (raw0 AND 0x0003f000) OR push_bit 16 (raw0 AND 0x0000003f) OR
      drop_bit 4 (raw1 AND 0x0003f000) OR (raw1 AND 0x0000003f)]"

definition usekey :: "ulong list \<Rightarrow> ulong list" where
  "usekey frm = map (\<lambda>i. frm ! i) [0..<32]"

definition cookey :: "ulong list \<Rightarrow> ulong list" where
  "cookey raw1 = usekey (concat (map (\<lambda>i. cook (raw1 ! (2 * i)) (raw1 ! (2 * i + 1))) [0..<16]))"

text \<open>\<open>deskey\<close> returns the new value of the static array \<open>KnL\<close>.\<close>

definition deskey :: "u8 list \<Rightarrow> des_mode \<Rightarrow> ulong list" where
  "deskey key edf = cookey (deskey_raw key edf)"

definition cpkey :: "ulong list \<Rightarrow> ulong list" where
  "cpkey KnL = map (\<lambda>i. KnL ! i) [0..<32]"

section \<open>One block\<close>

definition scrunch :: "u8 list \<Rightarrow> ulong \<times> ulong" where
  "scrunch b =
     (push_bit 24 (ucast (b ! 0)) OR push_bit 16 (ucast (b ! 1)) OR
      push_bit 8 (ucast (b ! 2)) OR ucast (b ! 3),
      push_bit 24 (ucast (b ! 4)) OR push_bit 16 (ucast (b ! 5)) OR
      push_bit 8 (ucast (b ! 6)) OR ucast (b ! 7))"

definition unscrun :: "ulong \<times> ulong \<Rightarrow> u8 list" where
  "unscrun w =
     [ucast (drop_bit 24 (fst w) AND 0xff), ucast (drop_bit 16 (fst w) AND 0xff),
      ucast (drop_bit 8 (fst w) AND 0xff), ucast (fst w AND 0xff),
      ucast (drop_bit 24 (snd w) AND 0xff), ucast (drop_bit 16 (snd w) AND 0xff),
      ucast (drop_bit 8 (snd w) AND 0xff), ucast (snd w AND 0xff)]"

text \<open>The initial permutation, the sixteen half rounds, and the final permutation of \<open>desfunc\<close>.\<close>

definition initial_perm :: "ulong \<Rightarrow> ulong \<Rightarrow> ulong \<times> ulong" where
  "initial_perm leftt right =
    (let work = (drop_bit 4 leftt XOR right) AND 0x0f0f0f0f;
         right = right XOR work;
         leftt = leftt XOR push_bit 4 work;
         work = (drop_bit 16 leftt XOR right) AND 0x0000ffff;
         right = right XOR work;
         leftt = leftt XOR push_bit 16 work;
         work = (drop_bit 2 right XOR leftt) AND 0x33333333;
         leftt = leftt XOR work;
         right = right XOR push_bit 2 work;
         work = (drop_bit 8 right XOR leftt) AND 0x00ff00ff;
         leftt = leftt XOR work;
         right = right XOR push_bit 8 work;
         right = (push_bit 1 right OR (drop_bit 31 right AND 1)) AND 0xffffffff;
         work = (leftt XOR right) AND 0xaaaaaaaa;
         leftt = leftt XOR work;
         right = right XOR work;
         leftt = (push_bit 1 leftt OR (drop_bit 31 leftt AND 1)) AND 0xffffffff
     in (leftt, right))"

definition feistel :: "ulong \<Rightarrow> ulong \<Rightarrow> ulong \<Rightarrow> ulong" where
  "feistel right k0 k1 =
    (let work = push_bit 28 right OR drop_bit 4 right;
         work = work XOR k0;
         fval = SP7 ! unat (work AND 0x3f);
         fval = fval OR SP5 ! unat (drop_bit 8 work AND 0x3f);
         fval = fval OR SP3 ! unat (drop_bit 16 work AND 0x3f);
         fval = fval OR SP1 ! unat (drop_bit 24 work AND 0x3f);
         work = right XOR k1;
         fval = fval OR SP8 ! unat (work AND 0x3f);
         fval = fval OR SP6 ! unat (drop_bit 8 work AND 0x3f);
         fval = fval OR SP4 ! unat (drop_bit 16 work AND 0x3f);
         fval = fval OR SP2 ! unat (drop_bit 24 work AND 0x3f)
     in fval)"

fun des_rounds :: "nat \<Rightarrow> ulong list \<Rightarrow> ulong \<Rightarrow> ulong \<Rightarrow> ulong \<times> ulong" where
  "des_rounds 0 keys leftt right = (leftt, right)"
| "des_rounds (Suc n) keys leftt right =
    (let leftt = leftt XOR feistel right (keys ! 0) (keys ! 1);
         right = right XOR feistel leftt (keys ! 2) (keys ! 3)
     in des_rounds n (drop 4 keys) leftt right)"

definition final_perm :: "ulong \<Rightarrow> ulong \<Rightarrow> ulong \<times> ulong" where
  "final_perm leftt right =
    (let right = push_bit 31 right OR drop_bit 1 right;
         work = (leftt XOR right) AND 0xaaaaaaaa;
         leftt = leftt XOR work;
         right = right XOR work;
         leftt = push_bit 31 leftt OR drop_bit 1 leftt;
         work = (drop_bit 8 leftt XOR right) AND 0x00ff00ff;
         right = right XOR work;
         leftt = leftt XOR push_bit 8 work;
         work = (drop_bit 2 leftt XOR right) AND 0x33333333;
         right = right XOR work;
         leftt = leftt XOR push_bit 2 work;
         work = (drop_bit 16 right XOR leftt) AND 0x0000ffff;
         leftt = leftt XOR work;
         right = right XOR push_bit 16 work;
         work = (drop_bit 4 right XOR leftt) AND 0x0f0f0f0f;
         leftt = leftt XOR work;
         right = right XOR push_bit 4 work
     in (right, leftt))"

definition desfunc :: "ulong \<times> ulong \<Rightarrow> ulong list \<Rightarrow> ulong \<times> ulong" where
  "desfunc block keys =
    (let (leftt, right) = initial_perm (fst block) (snd block);
         (leftt, right) = des_rounds 8 keys leftt right
     in final_perm leftt right)"

definition des :: "ulong list \<Rightarrow> u8 list \<Rightarrow> u8 list" where
  "des KnL inblock = unscrun (desfunc (scrunch inblock) KnL)"

section \<open>Delta swaps\<close>

text \<open>
  Both permutations are sequences of delta swaps, which exchange the bits of two words that a mask
  selects. A delta swap is its own inverse; \<open>low32\<close> reads the 32 bits of a word that matter, and
  \<open>clean\<close> says that there are no others.
\<close>

definition dswap :: "nat \<Rightarrow> ulong \<Rightarrow> ulong \<times> ulong \<Rightarrow> ulong \<times> ulong" where
  "dswap k m p = (let w = (drop_bit k (fst p) XOR snd p) AND m
     in (fst p XOR push_bit k w, snd p XOR w))"

definition fits :: "nat \<Rightarrow> ulong \<Rightarrow> bool" where
  "fits k m \<longleftrightarrow> take_bit (32 - k) m = m"

lemma fits_bit: "fits k m \<Longrightarrow> bit m n \<Longrightarrow> n < 32 - k"
  unfolding fits_def by (metis bit_take_bit_iff)

lemma drop_push_mask: "fits k m \<Longrightarrow> drop_bit k (push_bit k (x AND m)) = x AND m"
  by (rule bit_word_eqI) (auto simp: bit_simps dest: fits_bit)

lemma dswap_dswap:
  assumes "fits k m" shows "dswap k m (dswap k m p) = p"
proof -
  define w where "w = (drop_bit k (fst p) XOR snd p) AND m"
  have "drop_bit k (push_bit k w) = w"
    unfolding w_def using assms by (rule drop_push_mask)
  then have "(drop_bit k (fst p XOR push_bit k w) XOR (snd p XOR w)) AND m = w"
    by (simp add: w_def) (rule bit_word_eqI, auto simp: bit_simps)
  then show ?thesis
    by (simp add: dswap_def Let_def w_def [symmetric] xor.assoc prod_eq_iff)
qed

definition low32 :: "ulong \<times> ulong \<Rightarrow> ulong \<times> ulong" where
  "low32 p = (take_bit 32 (fst p), take_bit 32 (snd p))"

lemma low32_dswap:
  assumes "fits k m" shows "low32 (dswap k m p) = dswap k m (low32 p)"
proof -
  have eq: "(drop_bit k (take_bit 32 (fst p)) XOR take_bit 32 (snd p)) AND m
      = (drop_bit k (fst p) XOR snd p) AND m"
    using assms by (intro bit_word_eqI) (auto simp: bit_simps dest: fits_bit)
  have "take_bit 32 (push_bit k (x AND m)) = push_bit k (x AND m)" for x
    using assms by (intro bit_word_eqI) (auto simp: bit_simps dest!: fits_bit)
  moreover have "take_bit 32 (x AND m) = x AND m" for x
    using assms by (intro bit_word_eqI) (auto simp: bit_simps dest!: fits_bit)
  ultimately show ?thesis
    by (simp add: low32_def dswap_def Let_def eq del: take_bit_and push_bit_and push_bit_xor)
qed

definition rol32 :: "ulong \<Rightarrow> ulong" where
  "rol32 x = (push_bit 1 x OR (drop_bit 31 x AND 1)) AND 0xffffffff"

definition ror64 :: "ulong \<Rightarrow> ulong" where
  "ror64 x = push_bit 31 x OR drop_bit 1 x"

lemma mask32: "(0xffffffff :: ulong) = mask 32"
  by (simp add: mask_eq_exp_minus_1)

lemma rol32_fits: "take_bit 32 (rol32 x) = rol32 x"
  by (simp add: rol32_def mask32 take_bit_eq_mask [symmetric])

lemma bit_ror64: "bit (ror64 x) n \<longleftrightarrow> n < 64 \<and> (31 \<le> n \<and> bit x (n - 31) \<or> bit x (Suc n))"
  unfolding ror64_def
  by (auto simp only: bit_or_iff bit_push_bit_iff bit_drop_bit_eq o_def possible_bit_word
      len_num0 len_num1 len_bit0 len_bit1 plus_1_eq_Suc dest: bit_imp_le_length)

lemma bit_rol32: "bit (rol32 x) n \<longleftrightarrow> n < 32 \<and> (if n = 0 then bit x 31 else bit x (n - 1))"
  unfolding rol32_def mask32
  by (cases n) (auto simp only: bit_or_iff bit_and_iff bit_mask_iff bit_push_bit_iff bit_drop_bit_eq
      o_def bit_1_iff possible_bit_word, auto)

lemma ror_rol: "take_bit 32 x = x \<Longrightarrow> take_bit 32 (ror64 (rol32 x)) = x"
proof (rule bit_word_eqI)
  fix n assume x: "take_bit 32 x = x" and n: "n < LENGTH(64)"
  have hi: "bit x n \<Longrightarrow> n < 32" for n by (metis bit_take_bit_iff x)
  show "bit (take_bit 32 (ror64 (rol32 x))) n = bit x n"
    using n hi [of n]
    by (auto simp: bit_take_bit_iff bit_ror64 bit_rol32 less_Suc_eq_le)
qed

lemma rol_ror: "take_bit 32 x = x \<Longrightarrow> rol32 (take_bit 32 (ror64 x)) = x"
proof (rule bit_word_eqI)
  fix n assume x: "take_bit 32 x = x" and n: "n < LENGTH(64)"
  have hi: "bit x n \<Longrightarrow> n < 32" for n by (metis bit_take_bit_iff x)
  show "bit (rol32 (take_bit 32 (ror64 x))) n = bit x n"
    using n hi [of n] hi [of "Suc n"] hi [of "n - 1"] hi [of 32]
    by (cases n) (auto simp: bit_take_bit_iff bit_ror64 bit_rol32)
qed

lemma fits_masks [simp]: "fits 4 0x0f0f0f0f" "fits 16 0x0000ffff" "fits 2 0x33333333"
  "fits 8 0x00ff00ff" "fits 0 0xaaaaaaaa"
  by (simp_all add: fits_def)

lemma dswap_swap: "dswap 0 m (prod.swap p) = prod.swap (dswap 0 m p)"
  by (simp add: dswap_def Let_def xor.commute)

lemma let_dswap:
  "(let w = (drop_bit k a XOR b) AND m; b' = b XOR w; a' = a XOR push_bit k w in F a' b')
   = (let p = dswap k m (a, b) in F (fst p) (snd p))"
  by (simp add: dswap_def Let_def)

lemma let_dswap0:
  "(let w = (a XOR b) AND m; a' = a XOR w; b' = b XOR w in F a' b')
   = (let p = dswap 0 m (a, b) in F (fst p) (snd p))"
  by (simp add: dswap_def Let_def)


lemma initial_perm_dswaps:
  "initial_perm l r =
    (let p = dswap 16 0x0000ffff (dswap 4 0x0f0f0f0f (l, r));
         q = dswap 8 0x00ff00ff (dswap 2 0x33333333 (prod.swap p));
         s = dswap 0 0xaaaaaaaa (snd q, rol32 (fst q))
     in (rol32 (fst s), snd s))"
  unfolding initial_perm_def let_dswap let_dswap0 rol32_def [symmetric]
  by (simp only: Let_def prod.collapse prod.swap_def)

lemma final_perm_dswaps:
  "final_perm l r =
    (let s = dswap 0 0xaaaaaaaa (l, ror64 r);
         q = dswap 2 0x33333333 (dswap 8 0x00ff00ff (ror64 (fst s), snd s))
     in dswap 4 0x0f0f0f0f (dswap 16 0x0000ffff (prod.swap q)))"
  unfolding final_perm_def let_dswap let_dswap0 ror64_def [symmetric]
  by (simp only: Let_def prod.collapse prod.swap_def)

definition clean :: "ulong \<Rightarrow> bool" where
  "clean x \<longleftrightarrow> take_bit 32 x = x"

lemma low32_clean: "low32 p = p \<longleftrightarrow> clean (fst p) \<and> clean (snd p)"
  by (auto simp: low32_def clean_def prod_eq_iff)

lemma clean_rol32 [simp]: "clean (rol32 x)"
  by (simp add: clean_def rol32_fits)

lemma clean_dswap_fst:
  assumes "fits k m" and "clean (fst p)" shows "clean (fst (dswap k m p))"
proof -
  have "take_bit 32 (push_bit k (x AND m)) = push_bit k (x AND m)" for x
    using assms(1) by (intro bit_word_eqI) (auto simp: bit_simps dest!: fits_bit)
  with assms(2) show ?thesis
    by (simp add: clean_def dswap_def Let_def del: push_bit_and push_bit_xor)
qed

lemma clean_dswap:
  assumes "fits k m" and "clean (fst p)" and "clean (snd p)"
  shows "clean (fst (dswap k m p))" and "clean (snd (dswap k m p))"
  using low32_dswap [OF assms(1), of p] assms(2,3) low32_clean [of p] low32_clean [of "dswap k m p"]
  by simp_all

lemma low32_low32 [simp]: "low32 (low32 p) = low32 p"
  by (simp add: low32_def)

lemma clean_low32 [simp]: "clean (fst (low32 p))" "clean (snd (low32 p))"
  by (simp_all add: low32_def clean_def)

lemma low32_pair: "clean a \<Longrightarrow> clean b \<Longrightarrow> low32 (a, b) = (a, b)"
  by (simp add: low32_def clean_def)

lemma low32_swap: "low32 (prod.swap p) = prod.swap (low32 p)"
  by (simp add: low32_def prod.swap_def)

lemma low32_ror_rol: "clean a \<Longrightarrow> low32 (ror64 (rol32 a), b) = low32 (a, b)"
  using ror_rol [of a] by (simp add: low32_def clean_def)

text \<open>The final permutation undoes the initial one, with the halves exchanged.\<close>

lemma final_initial:
  assumes "clean l" and "clean r"
  shows "low32 (final_perm (snd (initial_perm l r)) (fst (initial_perm l r))) = (l, r)"
proof -
  define p where "p = dswap 16 0x0000ffff (dswap 4 0x0f0f0f0f (l, r))"
  define q where "q = dswap 8 0x00ff00ff (dswap 2 0x33333333 (prod.swap p))"
  define s where "s = dswap 0 0xaaaaaaaa (snd q, rol32 (fst q))"
  have cp: "clean (fst p)" "clean (snd p)"
    unfolding p_def using assms by (auto intro!: clean_dswap)
  have cq: "clean (fst q)" "clean (snd q)"
    unfolding q_def using cp by (auto intro!: clean_dswap)
  have cs: "clean (fst s)" "clean (snd s)"
    unfolding s_def using cq by (auto intro!: clean_dswap)
  define s' where "s' = dswap 0 0xaaaaaaaa (snd s, ror64 (rol32 (fst s)))"
  have cs': "clean (fst s')" unfolding s'_def using cs by (auto intro: clean_dswap_fst)
  have "low32 (snd s, ror64 (rol32 (fst s))) = prod.swap s"
    using cs by (simp add: low32_def clean_def ror_rol prod.swap_def)
  then have "low32 s' = dswap 0 0xaaaaaaaa (prod.swap s)"
    by (simp add: s'_def low32_dswap)
  also have "\<dots> = (rol32 (fst q), snd q)"
    by (simp add: dswap_swap s_def dswap_dswap)
  finally have s': "low32 s' = (rol32 (fst q), snd q)" .
  then have fs': "fst s' = rol32 (fst q)" and ss': "take_bit 32 (snd s') = snd q"
    using cs' by (simp_all add: low32_def clean_def)
  have lq: "low32 (ror64 (fst s'), snd s') = q"
    using cq by (simp add: fs' low32_def ss' ror_rol clean_def)
  define q' where "q' = dswap 2 0x33333333 (dswap 8 0x00ff00ff (ror64 (fst s'), snd s'))"
  have "low32 q' = dswap 2 0x33333333 (dswap 8 0x00ff00ff q)"
    by (simp add: q'_def low32_dswap lq)
  then have lq': "low32 q' = prod.swap p"
    by (simp add: q_def dswap_dswap)
  have "final_perm (snd s) (rol32 (fst s)) = dswap 4 0x0f0f0f0f (dswap 16 0x0000ffff (prod.swap q'))"
    by (simp add: final_perm_dswaps Let_def q'_def s'_def)
  then have "low32 (final_perm (snd s) (rol32 (fst s))) = (l, r)"
    by (simp add: low32_dswap low32_swap lq' p_def dswap_dswap)
  then show ?thesis
    by (simp add: initial_perm_dswaps Let_def s_def q_def p_def)
qed

lemma initial_final:
  assumes "clean l" and "clean r"
  defines "out \<equiv> low32 (final_perm l r)"
  shows "initial_perm (fst out) (snd out) = (r, l)"
proof -
  define s where "s = dswap 0 0xaaaaaaaa (l, ror64 r)"
  define q where "q = dswap 2 0x33333333 (dswap 8 0x00ff00ff (ror64 (fst s), snd s))"
  have cs: "clean (fst s)" unfolding s_def using assms(1) by (auto intro: clean_dswap_fst)
  have out: "out = dswap 4 0x0f0f0f0f (dswap 16 0x0000ffff (prod.swap (low32 q)))"
    by (simp add: out_def final_perm_dswaps Let_def low32_dswap low32_swap q_def s_def)
  have p: "dswap 16 0x0000ffff (dswap 4 0x0f0f0f0f out) = prod.swap (low32 q)"
    by (simp add: out dswap_dswap)
  have q: "dswap 8 0x00ff00ff (dswap 2 0x33333333 (low32 q)) = low32 (ror64 (fst s), snd s)"
    by (simp add: q_def low32_dswap dswap_dswap)
  have "(take_bit 32 (snd s), rol32 (take_bit 32 (ror64 (fst s)))) = prod.swap (low32 s)"
    using cs by (simp add: low32_def clean_def rol_ror prod.swap_def)
  then have s: "dswap 0 0xaaaaaaaa (take_bit 32 (snd s), rol32 (take_bit 32 (ror64 (fst s))))
      = (take_bit 32 (ror64 r), l)"
    using assms(1)
    by (simp add: dswap_swap low32_dswap [symmetric]) (simp add: s_def dswap_dswap low32_def clean_def)
  have "initial_perm (fst out) (snd out) = (rol32 (take_bit 32 (ror64 r)), l)"
    using p q s by (simp add: initial_perm_dswaps Let_def low32_def)
  then show ?thesis
    using assms(2) by (simp add: rol_ror clean_def)
qed

section \<open>The half rounds\<close>

lemma and_3f: "unat ((x :: ulong) AND 0x3f) < 64"
proof -
  have "x AND 0x3f = take_bit 6 x"
    by (simp add: take_bit_eq_mask mask_eq_exp_minus_1)
  moreover have "unat (take_bit 6 x) = take_bit 6 (unat x)"
    by (rule unsigned_take_bit_eq)
  ultimately show ?thesis
    using take_bit_nat_less_exp [of 6 "unat x"] by simp
qed

lemma length_SP:
  "length SP1 = 64" "length SP2 = 64" "length SP3 = 64" "length SP4 = 64"
  "length SP5 = 64" "length SP6 = 64" "length SP7 = 64" "length SP8 = 64"
  by (simp_all add: SP1_def SP2_def SP3_def SP4_def SP5_def SP6_def SP7_def SP8_def)

lemma clean_SP:
  "list_all clean SP1" "list_all clean SP2" "list_all clean SP3" "list_all clean SP4"
  "list_all clean SP5" "list_all clean SP6" "list_all clean SP7" "list_all clean SP8"
  by (simp_all add: SP1_def SP2_def SP3_def SP4_def SP5_def SP6_def SP7_def SP8_def clean_def)

lemma clean_SP_nth [simp]:
  "clean (SP1 ! unat (x AND 0x3f))" "clean (SP2 ! unat (x AND 0x3f))"
  "clean (SP3 ! unat (x AND 0x3f))" "clean (SP4 ! unat (x AND 0x3f))"
  "clean (SP5 ! unat (x AND 0x3f))" "clean (SP6 ! unat (x AND 0x3f))"
  "clean (SP7 ! unat (x AND 0x3f))" "clean (SP8 ! unat (x AND 0x3f))"
  for x :: ulong
  using clean_SP and_3f [of x] by (simp_all add: list_all_length length_SP)

lemma clean_or [simp]: "clean x \<Longrightarrow> clean y \<Longrightarrow> clean (x OR y)"
  and clean_xor [simp]: "clean x \<Longrightarrow> clean y \<Longrightarrow> clean (x XOR y)"
  by (simp_all add: clean_def)

lemma clean_feistel [simp]: "clean (feistel r k0 k1)"
  by (simp add: feistel_def Let_def)

text \<open>Half rounds in the textbook form: each one replaces \<open>(l, r)\<close> by \<open>(r, l XOR f r)\<close>.\<close>

definition half_round :: "ulong \<times> ulong \<Rightarrow> ulong \<times> ulong \<Rightarrow> ulong \<times> ulong" where
  "half_round k p = (snd p, fst p XOR feistel (snd p) (fst k) (snd k))"

fun key_pairs :: "ulong list \<Rightarrow> (ulong \<times> ulong) list" where
  "key_pairs (a # b # ks) = (a, b) # key_pairs ks"
| "key_pairs _ = []"

lemma des_rounds_half:
  "length keys = 4 * n \<Longrightarrow> des_rounds n keys l r = fold half_round (key_pairs keys) (l, r)"
proof (induction n arbitrary: keys l r)
  case 0
  then show ?case by simp
next
  case (Suc n)
  then obtain a b c d ks where keys: "keys = a # b # c # d # ks" "length ks = 4 * n"
    by (auto simp: numeral_eq_Suc length_Suc_conv)
  then show ?case
    using Suc.IH [OF keys(2)] by (simp add: Let_def half_round_def)
qed

lemma half_round_undo: "half_round k (prod.swap (half_round k p)) = prod.swap p"
  by (simp add: half_round_def xor.assoc prod_eq_iff)

lemma fold_half_rounds_undo:
  "fold half_round (rev ks) (prod.swap (fold half_round ks p)) = prod.swap p"
  by (induction ks arbitrary: p) (simp_all add: half_round_undo)

lemma clean_fold_half:
  "clean (fst p) \<Longrightarrow> clean (snd p) \<Longrightarrow>
    clean (fst (fold half_round ks p)) \<and> clean (snd (fold half_round ks p))"
  by (induction ks arbitrary: p) (simp_all add: half_round_def)

lemma clean_initial_perm:
  assumes "clean l" and "clean r"
  shows "clean (fst (initial_perm l r)) \<and> clean (snd (initial_perm l r))"
  using assms by (simp add: initial_perm_dswaps Let_def clean_dswap)

lemma desfunc_half:
  "length keys = 32 \<Longrightarrow> desfunc b keys =
    (let p = fold half_round (key_pairs keys) (initial_perm (fst b) (snd b))
     in final_perm (fst p) (snd p))"
  by (simp add: desfunc_def Let_def des_rounds_half split_beta)

lemma desfunc_undo:
  assumes "length ks = 32" and "length ks' = 32" and rev: "key_pairs ks' = rev (key_pairs ks)"
    and c: "clean (fst b)" "clean (snd b)"
  shows "low32 (desfunc (low32 (desfunc b ks)) ks') = b"
proof -
  define i where "i = initial_perm (fst b) (snd b)"
  define p where "p = fold half_round (key_pairs ks) i"
  have ci: "clean (fst i)" "clean (snd i)"
    unfolding i_def using clean_initial_perm [OF c] by simp_all
  have cp: "clean (fst p)" "clean (snd p)"
    unfolding p_def using clean_fold_half [OF ci] by simp_all
  have "desfunc (low32 (desfunc b ks)) ks'
      = (let q = fold half_round (rev (key_pairs ks)) (prod.swap p) in final_perm (fst q) (snd q))"
    using initial_final [OF cp] assms(1,2)
    by (simp add: desfunc_half rev Let_def i_def [symmetric] p_def [symmetric] prod.swap_def)
  also have "\<dots> = final_perm (snd i) (fst i)"
    by (simp add: p_def fold_half_rounds_undo Let_def)
  finally show ?thesis
    using final_initial [OF c] by (simp add: i_def)
qed

section \<open>Blocks and bytes\<close>

lemma bit_byte_at:
  "bit (push_bit k (ucast (ucast (drop_bit k x AND 0xff) :: u8) :: ulong)) n
    \<longleftrightarrow> k \<le> n \<and> n < k + 8 \<and> bit x n" for x :: ulong
proof -
  have m: "(0xff :: ulong) = mask 8" by (simp add: mask_eq_exp_minus_1)
  show ?thesis
    unfolding m by (auto simp: bit_simps dest: bit_imp_le_length)
qed

lemma scrunch_unscrun: "scrunch (unscrun w) = low32 w"
proof -
  have "push_bit 24 (ucast (ucast (drop_bit 24 x AND 0xff) :: u8))
     OR push_bit 16 (ucast (ucast (drop_bit 16 x AND 0xff) :: u8))
     OR push_bit 8 (ucast (ucast (drop_bit 8 x AND 0xff) :: u8))
     OR push_bit 0 (ucast (ucast (drop_bit 0 x AND 0xff) :: u8)) = take_bit 32 x" for x :: ulong
    by (rule bit_word_eqI) (auto simp: bit_or_iff bit_byte_at bit_take_bit_iff
      simp del: drop_bit_0 push_bit_0_id)
  then show ?thesis
    by (simp add: scrunch_def unscrun_def low32_def)
qed

lemma bit_scrunch_byte: "bit (push_bit k (ucast (b :: u8) :: ulong)) n \<longleftrightarrow> k \<le> n \<and> n < 64 \<and> bit b (n - k)"
  by (auto simp: bit_simps)

definition word_of4 :: "u8 \<Rightarrow> u8 \<Rightarrow> u8 \<Rightarrow> u8 \<Rightarrow> ulong" where
  "word_of4 c d e f = push_bit 24 (ucast c) OR push_bit 16 (ucast d) OR push_bit 8 (ucast e) OR ucast f"

lemma byte_bit_less: "bit (c :: u8) n \<Longrightarrow> n < 8"
  using bit_imp_le_length [of c n] by simp

lemma bit_word_of4:
  "bit (word_of4 c d e f) n \<longleftrightarrow>
     24 \<le> n \<and> bit c (n - 24) \<or> 16 \<le> n \<and> bit d (n - 16) \<or> 8 \<le> n \<and> bit e (n - 8) \<or> bit f n"
proof -
  have "bit c (n - 24) \<Longrightarrow> n < 64" "bit d (n - 16) \<Longrightarrow> n < 64" "bit e (n - 8) \<Longrightarrow> n < 64"
    "bit f n \<Longrightarrow> n < 64"
    using byte_bit_less [of c "n - 24"] byte_bit_less [of d "n - 16"] byte_bit_less [of e "n - 8"]
      byte_bit_less [of f n] by auto
  then show ?thesis
    unfolding word_of4_def by (auto simp: bit_or_iff bit_scrunch_byte bit_ucast_iff)
qed

lemma bit_low_byte: "bit (ucast (w AND 0xff) :: u8) n \<longleftrightarrow> n < 8 \<and> bit w n" for w :: ulong
proof -
  have m: "(0xff :: ulong) = mask 8" by (simp add: mask_eq_exp_minus_1)
  show ?thesis
    unfolding m by (auto simp: bit_simps dest: bit_imp_le_length)
qed

lemma word_of4_bytes:
  "ucast (drop_bit 24 (word_of4 c d e f) AND 0xff) = c"
  "ucast (drop_bit 16 (word_of4 c d e f) AND 0xff) = d"
  "ucast (drop_bit 8 (word_of4 c d e f) AND 0xff) = e"
  "ucast (word_of4 c d e f AND 0xff) = f"
  by (rule bit_word_eqI, auto simp: bit_low_byte bit_drop_bit_eq bit_word_of4 dest: byte_bit_less)+

lemma unscrun_scrunch: "length b = 8 \<Longrightarrow> unscrun (scrunch b) = b"
proof -
  assume "length b = 8"
  then have "b = [b ! 0, b ! 1, b ! 2, b ! 3, b ! 4, b ! 5, b ! 6, b ! 7]"
    by (intro nth_equalityI) (auto simp: less_Suc_eq numeral_eq_Suc)
  then show ?thesis
    by (simp add: unscrun_def scrunch_def word_of4_def [symmetric] word_of4_bytes)
qed

lemma clean_scrunch: "clean (fst (scrunch b))" "clean (snd (scrunch b))"
proof -
  have "clean (word_of4 c d e f)" for c d e f
    unfolding clean_def
    by (rule bit_word_eqI) (auto simp: bit_take_bit_iff bit_word_of4 dest: byte_bit_less)
  then show "clean (fst (scrunch b))" "clean (snd (scrunch b))"
    by (simp_all add: scrunch_def word_of4_def)
qed

section \<open>The key schedule\<close>

lemma upt_16: "[0..<16] = [0, 1, 2, 3, 4, 5, 6, 7, 8, 9, 10, 11, 12, 13, 14, 15 :: nat]"
  by (simp add: upt_rec)

definition cooked :: "u8 list \<Rightarrow> nat \<Rightarrow> ulong \<times> ulong" where
  "cooked key i = (let c = cook (fst (kn_pair key i)) (snd (kn_pair key i)) in (c ! 0, c ! 1))"

lemma pair_updates:
  fixes A B :: "nat \<Rightarrow> ulong"
  assumes "n \<le> 16" and "inj_on p {..<16}" and "\<And>i. i < 16 \<Longrightarrow> p i < 16" and "length kn0 = 32"
  defines "kn \<equiv> foldl (\<lambda>kn i. kn[2 * p i := A i, 2 * p i + 1 := B i]) kn0 [0..<n]"
  shows "length kn = 32 \<and> (\<forall>i<n. kn ! (2 * p i) = A i \<and> kn ! (2 * p i + 1) = B i)"
  unfolding kn_def using assms(1)
proof (induction n)
  case 0
  then show ?case using assms(4) by simp
next
  case (Suc n)
  let ?kn = "foldl (\<lambda>kn i. kn[2 * p i := A i, 2 * p i + 1 := B i]) kn0 [0..<n]"
  from Suc have IH: "length ?kn = 32" "\<forall>i<n. ?kn ! (2 * p i) = A i \<and> ?kn ! (2 * p i + 1) = B i"
    by simp_all
  have pn: "p n < 16" using Suc.prems assms(3) by simp
  have "p i \<noteq> p n" "p n \<noteq> p i" if "i < n" for i
    using inj_onD [OF assms(2), of i n] that Suc.prems by auto
  moreover have "2 * p i \<noteq> Suc (2 * p n)" "Suc (2 * p n) \<noteq> 2 * p i" "2 * p n \<noteq> Suc (2 * p i)" for i
    by presburger+
  ultimately show ?case
    using IH pn by (auto simp: nth_list_update less_Suc_eq)
qed

lemma deskey_raw_nth:
  fixes edf :: des_mode
  assumes "i < 16"
  defines "j \<equiv> (if edf = DE1 then 15 - i else i)"
  shows "deskey_raw key edf ! (2 * j) = fst (kn_pair key i)"
    and "deskey_raw key edf ! (2 * j + 1) = snd (kn_pair key i)"
proof -
  let ?p = "\<lambda>i::nat. if edf = DE1 then 15 - i else i"
  have "inj_on ?p {..<16}" by (auto simp: inj_on_def)
  from pair_updates [OF order_refl this, of "replicate 32 0" "\<lambda>i. fst (kn_pair key i)"
      "\<lambda>i. snd (kn_pair key i)"] assms(1)
  have "deskey_raw key edf ! (2 * j) = fst (kn_pair key i) \<and>
      deskey_raw key edf ! (2 * j + 1) = snd (kn_pair key i)"
    by (auto simp: deskey_raw_def Let_def j_def if_distrib [of "(*) 2"] cong: if_cong)
  then show "deskey_raw key edf ! (2 * j) = fst (kn_pair key i)"
    and "deskey_raw key edf ! (2 * j + 1) = snd (kn_pair key i)" by simp_all
qed

lemma key_pairs_concat:
  "key_pairs (concat (map (\<lambda>i. cook (f i) (g i)) xs))
    = map (\<lambda>i. (cook (f i) (g i) ! 0, cook (f i) (g i) ! 1)) xs"
proof (induction xs)
  case (Cons x xs)
  obtain c0 c1 where "cook (f x) (g x) = [c0, c1]" by (simp add: cook_def)
  with Cons show ?case by simp
qed simp

lemma length_cook_concat: "length (concat (map (\<lambda>i. cook (f i) (g i)) xs)) = 2 * length xs"
  by (rule length_concat_map_const) (simp add: cook_def)

lemma usekey_id: "length ks = 32 \<Longrightarrow> usekey ks = ks"
  using map_nth [of ks] by (simp add: usekey_def)

lemma length_deskey [simp]: "length (deskey key edf) = 32"
  by (simp add: deskey_def cookey_def usekey_def)

lemma key_pairs_deskey_raw:
  "key_pairs (deskey key edf) =
    map (\<lambda>i. let r = deskey_raw key edf; c = cook (r ! (2 * i)) (r ! (2 * i + 1)) in (c ! 0, c ! 1))
      [0..<16]"
  by (simp add: deskey_def cookey_def usekey_id length_cook_concat key_pairs_concat Let_def
    del: upt_conv_Cons_Cons)

lemma key_pairs_EN0: "key_pairs (deskey key EN0) = map (cooked key) [0..<16]"
  using deskey_raw_nth [of _ key EN0]
  by (auto simp: key_pairs_deskey_raw cooked_def Let_def intro!: map_cong)

lemma key_pairs_DE1: "key_pairs (deskey key DE1) = rev (map (cooked key) [0..<16])"
proof -
  have "key_pairs (deskey key DE1) = map (\<lambda>i. cooked key (15 - i)) [0..<16]"
    unfolding key_pairs_deskey_raw
  proof (intro map_cong refl)
    fix i assume "i \<in> set [0..<16 :: nat]"
    then have i: "i < 16" by simp
    then have "15 - i < 16" "15 - (15 - i) = i" by auto
    with deskey_raw_nth [of "15 - i" key DE1]
    show "(let r = deskey_raw key DE1; c = cook (r ! (2 * i)) (r ! (2 * i + 1)) in (c ! 0, c ! 1))
        = cooked key (15 - i)"
      by (simp add: cooked_def Let_def)
  qed
  also have "\<dots> = rev (map (cooked key) [0..<16])"
    by (simp add: upt_16)
  finally show ?thesis .
qed

lemma unscrun_low32: "unscrun (low32 w) = unscrun w"
proof -
  have "ucast (drop_bit k (take_bit 32 x) AND 0xff) = (ucast (drop_bit k x AND 0xff) :: u8)"
    if "k \<le> 24" for k and x :: ulong
    using that by (intro bit_word_eqI) (auto simp: bit_low_byte bit_drop_bit_eq bit_take_bit_iff)
  from this [of 24] this [of 16] this [of 8] this [of 0] show ?thesis
    by (simp add: unscrun_def low32_def del: drop_bit_take_bit)
qed

section \<open>The block cipher interface\<close>

text \<open>What the password code relies on: a keyed permutation of 8-byte blocks with its inverse.\<close>

locale block_cipher =
  fixes enc_sched dec_sched :: "u8 list \<Rightarrow> 'k"
    and crypt :: "'k \<Rightarrow> u8 list \<Rightarrow> u8 list"
  assumes crypt_length: "length (crypt s b) = 8"
    and crypt_undo: "length b = 8 \<Longrightarrow> crypt (dec_sched k) (crypt (enc_sched k) b) = b"
begin

lemma crypt_inject:
  "length b = 8 \<Longrightarrow> length c = 8 \<Longrightarrow> crypt (enc_sched k) b = crypt (enc_sched k) c \<longleftrightarrow> b = c"
  by (metis crypt_undo)

lemma crypt_blocks_undo:
  "length bs = 16 \<Longrightarrow>
    crypt (dec_sched k) (crypt (enc_sched k) (take 8 bs)) @
    crypt (dec_sched k) (crypt (enc_sched k) (drop 8 bs)) = bs"
  by (simp add: crypt_undo)

end

lemma length_des [simp]: "length (des ks b) = 8"
  by (simp add: des_def unscrun_def)

lemma des_undo: "length b = 8 \<Longrightarrow> des (deskey key DE1) (des (deskey key EN0) b) = b"
proof -
  assume len: "length b = 8"
  have "low32 (desfunc (low32 (desfunc (scrunch b) (deskey key EN0))) (deskey key DE1)) = scrunch b"
    by (rule desfunc_undo) (simp_all add: key_pairs_EN0 key_pairs_DE1 clean_scrunch)
  then have "unscrun (desfunc (low32 (desfunc (scrunch b) (deskey key EN0))) (deskey key DE1))
      = unscrun (scrunch b)"
    by (metis unscrun_low32)
  then show ?thesis
    using len by (simp add: des_def scrunch_unscrun unscrun_scrunch)
qed

lemma des_undo_dec:
  assumes len: "length b = 8"
  shows "des (deskey key EN0) (des (deskey key DE1) b) = b"
proof -
  have "low32 (desfunc (low32 (desfunc (scrunch b) (deskey key DE1))) (deskey key EN0)) = scrunch b"
    by (rule desfunc_undo) (simp_all add: key_pairs_EN0 key_pairs_DE1 clean_scrunch)
  then have "unscrun (desfunc (low32 (desfunc (scrunch b) (deskey key DE1))) (deskey key EN0))
      = unscrun (scrunch b)"
    by (metis unscrun_low32)
  then show ?thesis
    using len by (simp add: des_def scrunch_unscrun unscrun_scrunch)
qed

text \<open>Both directions of the cipher are permutations of the blocks, each undoing the other.\<close>

interpretation vnc_des: block_cipher "\<lambda>k. deskey k EN0" "\<lambda>k. deskey k DE1" des
  by unfold_locales (simp_all add: des_undo)

interpretation vnc_des_dec: block_cipher "\<lambda>k. deskey k DE1" "\<lambda>k. deskey k EN0" des
  by unfold_locales (simp_all add: des_undo_dec)

text \<open>
  C25: the cipher and its inverse cancel: for every key, decrypting with the key register built for
  \<open>DE1\<close> undoes encrypting with the one built for \<open>EN0\<close>, and encrypting undoes decrypting, on every
  eight byte block.
\<close>

theorem des_round_trip:
  assumes "length b = 8"
  shows "des (deskey key DE1) (des (deskey key EN0) b) = b \<and>
    des (deskey key EN0) (des (deskey key DE1) b) = b"
  using des_undo [OF assms] des_undo_dec [OF assms] by simp

theorem des_round_trip_witness:
  "des (deskey [0, 1, 2, 3, 4, 5, 6, 7] DE1) (des (deskey [0, 1, 2, 3, 4, 5, 6, 7] EN0) [8, 7, 6, 5, 4, 3, 2, 1])
     = [8, 7, 6, 5, 4, 3, 2, 1] \<and>
   des (deskey [0, 1, 2, 3, 4, 5, 6, 7] EN0) (des (deskey [0, 1, 2, 3, 4, 5, 6, 7] DE1) [8, 7, 6, 5, 4, 3, 2, 1])
     = [8, 7, 6, 5, 4, 3, 2, 1]"
  by (rule des_round_trip) simp

section \<open>The key bits that count\<close>

lemma pc1_range: "list_all (\<lambda>l. l div 8 < 8 \<and> l mod 8 < 7) pc1"
  by (simp add: pc1_def)

lemma bytebit_low: "m < 7 \<Longrightarrow> (bytebit ! m) AND 0x7f = bytebit ! m"
proof -
  have "list_all (\<lambda>m. (bytebit ! m) AND 0x7f = bytebit ! m) [0..<7]"
    by (simp add: bytebit_def upt_rec)
  then show "m < 7 \<Longrightarrow> (bytebit ! m) AND 0x7f = bytebit ! m"
    by (simp add: list_all_iff)
qed

lemma pc1m_low_bits:
  assumes "length key = 8"
  shows "pc1m (map (\<lambda>b. b AND 0x7f) key) = pc1m key"
proof -
  have "(key ! (l div 8) AND 0x7f) AND bytebit ! (l mod 8) = key ! (l div 8) AND bytebit ! (l mod 8)"
    if "l \<in> set pc1" for l
    using that pc1_range bytebit_low [of "l mod 8"]
    by (simp add: list_all_iff and.assoc and.commute [of "0x7f"])
  moreover have "l div 8 < length key" if "l \<in> set pc1" for l
    using that pc1_range assms by (simp add: list_all_iff)
  ultimately show ?thesis
    by (auto simp: pc1m_def Let_def)
qed

end
