(* ===== verification/Vncauth.thy ===== *)
theory Vncauth
  imports D3des
begin

text \<open>
  \<^verbatim>\<open>OSXvnc-server/vncauth.c\<close>: storing the server password under a fixed key, and the
  challenge-response primitives. C strings are byte lists read up to the first NUL. The file system
  is a record of file contents and modes; libc's random number generator is a parameter.
\<close>

unbundle bit_operations_syntax

section \<open>C strings\<close>

definition cstr :: "u8 list \<Rightarrow> u8 list" where
  "cstr p = takeWhile (\<lambda>b. b \<noteq> 0) p"

definition strlen :: "u8 list \<Rightarrow> nat" where
  "strlen p = length (cstr p)"

text \<open>\<open>strncpy\<close> with a count of 8: at most 8 bytes of the string, padded with NULs.\<close>

definition strncpy8 :: "u8 list \<Rightarrow> u8 list" where
  "strncpy8 p = take 8 (cstr p @ replicate 8 0)"

text \<open>The padding loops of the C code (\<^verbatim>\<open>if (i < strlen(passwd)) ... else 0\<close>).\<close>

definition pad8 :: "u8 list \<Rightarrow> u8 list" where
  "pad8 p = map (\<lambda>i. if i < strlen p then p ! i else 0) [0..<8]"

lemma length_strncpy8 [simp]: "length (strncpy8 p) = 8"
  by (simp add: strncpy8_def)

lemma length_pad8 [simp]: "length (pad8 p) = 8"
  by (simp add: pad8_def)

lemma cstr_nth: "i < strlen p \<Longrightarrow> cstr p ! i = p ! i"
  by (simp add: strlen_def cstr_def takeWhile_nth)

lemma pad8_strncpy8: "pad8 p = strncpy8 p"
  by (rule nth_equalityI) (auto simp: pad8_def strncpy8_def nth_append cstr_nth strlen_def)

lemma cstr_no_nul: "0 \<notin> set (cstr p)"
  by (auto simp: cstr_def dest: set_takeWhileD)

lemma takeWhile_nul_append: "0 \<notin> set xs \<Longrightarrow> takeWhile (\<lambda>b. b \<noteq> (0::u8)) (xs @ 0 # ys) = xs"
  by (induction xs) auto

lemma cstr_padded: "0 \<notin> set xs \<Longrightarrow> cstr (take n (xs @ replicate m 0) @ [0]) = take n xs"
proof -
  assume xs: "0 \<notin> set xs"
  then have t: "0 \<notin> set (take n xs)" by (meson in_set_takeD)
  show ?thesis
  proof (cases "take (n - length xs) (replicate m (0 :: u8))")
    case Nil
    then show ?thesis
      using takeWhile_nul_append [OF t, of "[]"] by (simp add: cstr_def)
  next
    case (Cons b bs)
    then have "b = 0" by (metis in_set_replicate in_set_takeD list.set_intros(1))
    then show ?thesis
      using takeWhile_nul_append [OF t, of "bs @ [0]"] Cons by (simp add: cstr_def)
  qed
qed

lemma cstr_pad8: "cstr (pad8 p @ [0]) = take 8 (cstr p)"
  using cstr_padded [OF cstr_no_nul, of 8 p 8] by (simp only: pad8_strncpy8 strncpy8_def)

section \<open>The password file\<close>

definition fixedkey :: "u8 list" where
  "fixedkey = [23, 82, 107, 6, 35, 78, 88, 7]"

record filesys =
  contents :: "string \<Rightarrow> u8 list option"
  writable :: "string \<Rightarrow> bool"
  fmode :: "string \<Rightarrow> nat"

text \<open>\<open>S_IRUSR | S_IWUSR\<close>\<close>

definition owner_rw :: nat where
  "owner_rw = 384"

definition vncEncryptPasswd :: "u8 list \<Rightarrow> u8 list" where
  "vncEncryptPasswd passwd =
    (let encryptedPasswd = strncpy8 passwd;
         KnL = deskey fixedkey EN0;
         encryptedPasswd = des KnL encryptedPasswd
     in strncpy8 encryptedPasswd)"

definition vncEncryptAndStorePasswd :: "u8 list \<Rightarrow> string \<Rightarrow> filesys \<Rightarrow> int \<times> filesys" where
  "vncEncryptAndStorePasswd passwd fname fs =
    (if \<not> writable fs fname then (1, fs)
     else
       let fs = fs\<lparr>fmode := (fmode fs)(fname := owner_rw)\<rparr>;
           encryptedPasswd = pad8 passwd;
           KnL = deskey fixedkey EN0;
           encryptedPasswd = des KnL encryptedPasswd
       in (0, fs\<lparr>contents := (contents fs)(fname \<mapsto> encryptedPasswd)\<rparr>))"

text \<open>
  \<open>None\<close> is the null pointer. \<open>fopen\<close> fails for the null name (\<open>fname = None\<close>) and for a file that
  is not there; a file of fewer than 8 bytes hits \<open>EOF\<close>. The result is the C array of 9 bytes.
\<close>

definition vncDecryptPasswdFromFile :: "string option \<Rightarrow> filesys \<Rightarrow> u8 list option" where
  "vncDecryptPasswdFromFile fname fs =
    (case fname of None \<Rightarrow> None
     | Some f \<Rightarrow>
        (case contents fs f of None \<Rightarrow> None
         | Some bs \<Rightarrow>
            if length bs < 8 then None
            else
              let passwd = take 8 bs;
                  KnL = deskey fixedkey DE1;
                  passwd = des KnL passwd
              in Some (passwd @ [0])))"

definition storepasswd_main :: "u8 list list \<Rightarrow> string \<Rightarrow> filesys \<Rightarrow> int \<times> filesys" where
  "storepasswd_main argv fname fs =
    (if length argv \<noteq> 3 then (1, fs)
     else let (r, fs) = vncEncryptAndStorePasswd (argv ! 1) fname fs
          in if r \<noteq> 0 then (1, fs) else (0, fs))"

section \<open>Challenge and response\<close>

definition CHALLENGESIZE :: nat where
  "CHALLENGESIZE = 16"

text \<open>\<open>rng seed i\<close> is the \<open>i\<close>-th value of \<open>random()\<close> after \<open>srandom(seed)\<close>; \<open>now\<close> is \<open>time(0)\<close>.\<close>

definition vncRandomBytes :: "(nat \<Rightarrow> nat \<Rightarrow> nat) \<Rightarrow> nat \<Rightarrow> u8 list" where
  "vncRandomBytes rng now =
    (let seed = now mod 2 ^ 32
     in map (\<lambda>i. of_nat (rng seed i) AND 255) [0..<CHALLENGESIZE])"

definition vncEncryptBytes :: "u8 list \<Rightarrow> u8 list \<Rightarrow> u8 list" where
  "vncEncryptBytes bytes passwd =
    (let key = pad8 passwd; KnL = deskey key EN0
     in des KnL (take 8 bytes) @ des KnL (take 8 (drop 8 bytes)))"

lemma length_vncRandomBytes [simp]: "length (vncRandomBytes rng now) = 16"
  by (simp add: vncRandomBytes_def CHALLENGESIZE_def)

lemma length_vncEncryptBytes [simp]: "length (vncEncryptBytes bytes passwd) = 16"
  by (simp add: vncEncryptBytes_def Let_def)

section \<open>What the functions guarantee\<close>


lemma stored_password_read_back:
  assumes "writable fs f"
  shows "vncDecryptPasswdFromFile (Some f) (snd (vncEncryptAndStorePasswd p f fs)) = Some (pad8 p @ [0])"
  using assms by (simp add: vncEncryptAndStorePasswd_def vncDecryptPasswdFromFile_def vnc_des.crypt_undo)

text \<open>
  C26: A password stored by vncEncryptAndStorePasswd is the string that vncDecryptPasswdFromFile
  returns, cut to its first eight characters; the file ends up readable by its owner only.
\<close>

theorem stored_password_round_trip:
  assumes "writable fs f"
  shows "\<exists>fs'. vncEncryptAndStorePasswd p f fs = (0, fs') \<and> fmode fs' f = owner_rw \<and>
    (\<exists>pw. vncDecryptPasswdFromFile (Some f) fs' = Some pw \<and> cstr pw = take 8 (cstr p))"
  using stored_password_read_back [OF assms, of p] assms
  by (auto simp: vncEncryptAndStorePasswd_def Let_def cstr_pad8)

definition demo_fs :: filesys where
  "demo_fs = \<lparr>contents = (\<lambda>_. None), writable = (\<lambda>_. True), fmode = (\<lambda>_. 420)\<rparr>"

theorem stored_password_round_trip_witness:
  "\<exists>fs'. vncEncryptAndStorePasswd [0x70, 0x77, 0] ''vncpasswd'' demo_fs = (0, fs') \<and>
    fmode fs' ''vncpasswd'' = owner_rw \<and>
    (\<exists>pw. vncDecryptPasswdFromFile (Some ''vncpasswd'') fs' = Some pw \<and>
      cstr pw = take 8 (cstr [0x70, 0x77, 0]))"
proof -
  have "writable demo_fs ''vncpasswd''" by (simp add: demo_fs_def)
  then show ?thesis by (rule stored_password_round_trip)
qed

lemma take_drop_16: "length c = 16 \<Longrightarrow> take 8 c @ take 8 (drop 8 c) = c"
  by (simp add: take_append_take_drop)

lemma vncEncryptBytes_inject:
  assumes "length c = 16" and "length c' = 16"
  shows "vncEncryptBytes c p = vncEncryptBytes c' p \<longleftrightarrow> c = c'"
proof
  assume "vncEncryptBytes c p = vncEncryptBytes c' p"
  then have "take 8 c = take 8 c'" "take 8 (drop 8 c) = take 8 (drop 8 c')"
    using assms by (simp_all add: vncEncryptBytes_def Let_def vnc_des.crypt_inject)
  then show "c = c'"
    using take_drop_16 [OF assms(1)] take_drop_16 [OF assms(2)] by metis
qed simp

text \<open>\<open>strncpy\<close> leaves a block of eight bytes as it is exactly when nothing but NULs follows a NUL.\<close>

definition nul_tail :: "u8 list \<Rightarrow> bool" where
  "nul_tail b \<longleftrightarrow> (\<forall>c \<in> set (drop (strlen b) b). c = 0)"

lemma strncpy8_id: "length b = 8 \<Longrightarrow> strncpy8 b = b \<longleftrightarrow> nul_tail b"
proof -
  assume len: "length b = 8"
  have split: "b = cstr b @ drop (strlen b) b"
    by (simp add: cstr_def strlen_def flip: dropWhile_eq_drop)
  have le: "length (cstr b) \<le> 8"
    using len length_takeWhile_le [of "\<lambda>b. b \<noteq> 0" b] by (simp add: cstr_def)
  then have "strncpy8 b = cstr b @ replicate (8 - strlen b) 0"
    by (simp add: strncpy8_def strlen_def)
  then have "strncpy8 b = b \<longleftrightarrow> drop (strlen b) b = replicate (8 - strlen b) 0"
    using split by (metis same_append_eq)
  also have "\<dots> \<longleftrightarrow> nul_tail b"
    using len by (auto simp: nul_tail_def replicate_eqI)
  finally show ?thesis .
qed

text \<open>
  vncEncryptPasswd copies the ciphertext with strncpy, so its result decrypts to the password
  exactly when the ciphertext has no byte other than NUL after a NUL byte; in the remaining cases
  the stored password is lost.
\<close>

lemma vncEncryptPasswd_decrypts_iff:
  "des (deskey fixedkey DE1) (vncEncryptPasswd p) = pad8 p
    \<longleftrightarrow> nul_tail (des (deskey fixedkey EN0) (pad8 p))"
proof -
  define c where "c = des (deskey fixedkey EN0) (pad8 p)"
  have c: "length c = 8" "des (deskey fixedkey DE1) c = pad8 p"
    by (simp_all add: c_def vnc_des.crypt_undo)
  have r: "vncEncryptPasswd p = strncpy8 c"
    by (simp add: vncEncryptPasswd_def c_def pad8_strncpy8)
  have "des (deskey fixedkey DE1) (strncpy8 c) = pad8 p \<longleftrightarrow> strncpy8 c = c"
    using c vnc_des_dec.crypt_inject [of "strncpy8 c" c fixedkey] by simp
  then show ?thesis
    using strncpy8_id [OF c(1)] by (simp add: r c_def)
qed

end
