(* ===== verification/Sockets.thy ===== *)
theory Sockets
  imports Rfb_Prelude
begin

text \<open>
  \<^verbatim>\<open>OSXvnc-server/sockets.c\<close>: the blocking transfer of exact byte counts on a client socket. What
  the kernel answers to successive \<open>read\<close>, \<open>write\<close> and \<open>select\<close> calls is a script carried in the
  connection, so a theorem about every script is one about every behaviour of the peer and the
  network. An exhausted read script is a peer that stays silent, an exhausted write script one that
  accepts everything.
\<close>

section \<open>The kernel side\<close>

text \<open>What \<open>select\<close> answers when a call would have blocked.\<close>

datatype sel_ev = SelReady | SelTimeout | SelError nat

text \<open>
  One call of \<open>read\<close>: data the peer sent (a chunk is handed out in pieces no longer than the call
  asks for; an empty chunk is the end of the stream), or -1 with an \<open>errno\<close> and the answer of the
  \<open>select\<close> that may follow. One call of \<open>write\<close> accepts at most the given number of bytes.
\<close>

datatype rd_ev = RdData "u8 list" | RdFail nat sel_ev

datatype wr_ev = WrOk nat | WrFail nat sel_ev

definition EWOULDBLOCK :: nat where "EWOULDBLOCK = 35"
definition EAGAIN :: nat where "EAGAIN = 35"
definition ETIMEDOUT :: nat where "ETIMEDOUT = 60"
definition EBADF :: nat where "EBADF = 9"

definition rfbMaxClientWait :: nat where
  "rfbMaxClientWait = 20000"

text \<open>
  \<open>sock\<close> is the descriptor (-1 after rfbCloseClient), \<open>sent\<close> everything the kernel took from the
  server, oldest byte first. \<open>exited\<close> records a call of \<open>exit(1)\<close>: the process is gone and no later
  call has an effect.
\<close>

record conn =
  sock :: int
  rdev :: "rd_ev list"
  wrev :: "wr_ev list"
  sent :: "u8 list"
  errno :: nat
  exited :: bool

section \<open>The functions\<close>

definition rfbCloseClient :: "'b conn_scheme \<Rightarrow> 'b conn_scheme" where
  "rfbCloseClient cl = cl\<lparr>sock := -1\<rparr>"

text \<open>The loop of ReadExact: what it returns, the bytes stored, the rest of the script, \<open>errno\<close>.\<close>

fun read_loop :: "nat \<Rightarrow> rd_ev list \<Rightarrow> u8 list \<Rightarrow> nat \<Rightarrow> int \<times> u8 list \<times> rd_ev list \<times> nat" where
  "read_loop len [] buf e = (if len = 0 then (1, buf, [], e) else (-1, buf, [], ETIMEDOUT))"
| "read_loop len (RdData bs # es) buf e =
    (if len = 0 then (1, buf, RdData bs # es, e)
     else if bs = [] then (0, buf, es, e)
     else if length bs \<le> len then read_loop (len - length bs) es (buf @ bs) e
     else (1, buf @ take len bs, RdData (drop len bs) # es, e))"
| "read_loop len (RdFail n s # es) buf e =
    (if len = 0 then (1, buf, RdFail n s # es, e)
     else if n \<noteq> EWOULDBLOCK \<and> n \<noteq> EAGAIN then (-1, buf, es, n)
     else (case s of SelError m \<Rightarrow> (-1, buf, es, m)
           | SelTimeout \<Rightarrow> (-1, buf, es, ETIMEDOUT)
           | SelReady \<Rightarrow> read_loop len es buf n))"

definition ReadExact :: "nat \<Rightarrow> 'b conn_scheme \<Rightarrow> int \<times> u8 list \<times> 'b conn_scheme" where
  "ReadExact len cl =
    (if len = 0 then (1, [], cl)
     else if exited cl \<or> sock cl < 0 then (-1, [], cl\<lparr>errno := EBADF\<rparr>)
     else let (r, buf, es, e) = read_loop len (rdev cl) [] (errno cl)
          in (r, buf, cl\<lparr>rdev := es, errno := e\<rparr>))"

text \<open>
  The loop of WriteExact. \<open>waited\<close> is \<open>totalTimeWaited\<close>; the result is the returned value, the bytes
  written, the rest of the script, \<open>errno\<close> and whether the process exited.
\<close>

fun write_loop :: "u8 list \<Rightarrow> wr_ev list \<Rightarrow> nat \<Rightarrow> u8 list \<Rightarrow> nat
    \<Rightarrow> int \<times> u8 list \<times> wr_ev list \<times> nat \<times> bool" where
  "write_loop buf [] waited out e = (1, out @ buf, [], e, False)"
| "write_loop buf (WrOk n # es) waited out e =
    (if buf = [] then (1, out, WrOk n # es, e, False)
     else if n > 0 then write_loop (drop n buf) es waited (out @ take n buf) e
     else (-1, out, es, e, True))"
| "write_loop buf (WrFail n s # es) waited out e =
    (if buf = [] then (1, out, WrFail n s # es, e, False)
     else if n \<noteq> EWOULDBLOCK \<and> n \<noteq> EAGAIN then (-1, out, es, n, False)
     else (case s of SelError m \<Rightarrow> (-1, out, es, m, False)
           | SelTimeout \<Rightarrow>
               (if waited + 5000 \<ge> rfbMaxClientWait then (-1, out, es, ETIMEDOUT, False)
                else write_loop buf es (waited + 5000) out n)
           | SelReady \<Rightarrow> write_loop buf es 0 out n))"

definition WriteExact :: "u8 list \<Rightarrow> 'b conn_scheme \<Rightarrow> int \<times> 'b conn_scheme" where
  "WriteExact buf cl =
    (if buf = [] then (1, cl)
     else if exited cl \<or> sock cl < 0 then (-1, cl\<lparr>errno := EBADF\<rparr>)
     else let (r, out, es, e, ex) = write_loop buf (wrev cl) 0 [] (errno cl)
          in (r, cl\<lparr>wrev := es, sent := sent cl @ out, errno := e, exited := ex\<rparr>))"

section \<open>What they guarantee\<close>

text \<open>The bytes a read script still holds, up to the first end of stream or failure.\<close>

fun incoming :: "rd_ev list \<Rightarrow> u8 list" where
  "incoming [] = []"
| "incoming (RdData bs # es) = (if bs = [] then [] else bs @ incoming es)"
| "incoming (RdFail n s # es) =
    (if (n = EWOULDBLOCK \<or> n = EAGAIN) \<and> s = SelReady then incoming es else [])"

lemma read_loop_success:
  "read_loop len es buf e = (r, out, es', e') \<Longrightarrow>
    (r = 1 \<longleftrightarrow> len \<le> length (incoming es)) \<and> r \<in> {-1, 0, 1} \<and>
    (r = 1 \<longrightarrow> out = buf @ take len (incoming es) \<and> incoming es' = drop len (incoming es))"
proof (induction len es buf e arbitrary: r out es' e' rule: read_loop.induct)
  case (2 len bs es buf e)
  show ?case
  proof (cases "len = 0 \<or> bs = [] \<or> len < length bs")
    case True
    with 2(2) show ?thesis by (auto split: if_splits)
  next
    case False
    with 2(2) have "read_loop (len - length bs) es (buf @ bs) e = (r, out, es', e')" by auto
    from 2(1) [OF _ _ _ this] False show ?thesis by auto
  qed
next
  case (3 len n s es buf e)
  then show ?case by (cases s) (auto split: if_splits)
qed (auto split: if_splits)

lemma write_loop_success:
  "write_loop buf es w out e = (r, out', es', e', ex) \<Longrightarrow>
    r \<in> {-1, 1} \<and> (r = 1 \<longrightarrow> out' = out @ buf \<and> \<not> ex) \<and>
    (\<exists>k \<le> length buf. out' = out @ take k buf \<and> (r = -1 \<longrightarrow> k < length buf))"
proof (induction buf es w out e arbitrary: r out' es' e' ex rule: write_loop.induct)
  case (2 buf n es w out e)
  show ?case
  proof (cases "buf = [] \<or> n = 0")
    case True
    with 2(2) show ?thesis by (auto split: if_splits intro: exI [of _ 0])
  next
    case False
    with 2(2) have "write_loop (drop n buf) es w (out @ take n buf) e = (r, out', es', e', ex)" by auto
    from 2(1) [OF _ _ this] False
    obtain k where k: "r \<in> {-1, 1}" "r = 1 \<longrightarrow> out' = out @ buf \<and> \<not> ex" "k \<le> length buf - n"
      "out' = out @ take n buf @ take k (drop n buf)" "r = -1 \<longrightarrow> k < length buf - n"
      by auto
    have "out' = out @ take (n + k) buf" using k(4) by (simp add: take_add)
    with k show ?thesis
      by (intro conjI exI [of _ "min (n + k) (length buf)"]) (auto simp: min_def)
  qed
next
  case (3 buf n s es w out e)
  then show ?case by (cases s) (auto split: if_splits intro: exI [of _ 0])
qed auto

section \<open>Transfers that succeed or close the connection\<close>

text \<open>
  The pattern of every caller: a read that does not return 1, or a write that returns -1, is logged
  and the client is closed.
\<close>

definition read_or_close :: "nat \<Rightarrow> 'b conn_scheme \<Rightarrow> 'b conn_scheme + u8 list \<times> 'b conn_scheme" where
  "read_or_close n cl =
    (let (r, bs, cl) = ReadExact n cl in if r \<le> 0 then Inl (rfbCloseClient cl) else Inr (bs, cl))"

definition write_or_close :: "u8 list \<Rightarrow> 'b conn_scheme \<Rightarrow> bool \<times> 'b conn_scheme" where
  "write_or_close buf cl =
    (let (r, cl) = WriteExact buf cl in if r < 0 then (False, rfbCloseClient cl) else (True, cl))"

text \<open>A client that can be written to without a failure, for the applications of the properties.\<close>

definition writable_conn :: "'b conn_scheme \<Rightarrow> bool" where
  "writable_conn cl \<longleftrightarrow> \<not> exited cl \<and> 0 \<le> sock cl \<and> wrev cl = []"

lemma WriteExact_cases:
  assumes "WriteExact buf cl = (r, cl')"
  shows "r = 1 \<and> sent cl' = sent cl @ buf \<or>
    r = -1 \<and> (\<exists>k < length buf. sent cl' = sent cl @ take k buf)"
proof (cases "buf = [] \<or> exited cl \<or> sock cl < 0")
  case True
  with assms show ?thesis by (auto simp: WriteExact_def split: if_splits)
next
  case False
  obtain r' out es e ex where w: "write_loop buf (wrev cl) 0 [] (errno cl) = (r', out, es, e, ex)"
    by (metis prod_cases5)
  from write_loop_success [OF w] False assms show ?thesis
    by (auto simp: WriteExact_def w)
qed

lemma WriteExact_frame:
  "WriteExact buf cl = (r, cl') \<Longrightarrow> sock cl' = sock cl \<and> rdev cl' = rdev cl \<and> conn.more cl' = conn.more cl"
  by (auto simp: WriteExact_def split: if_splits prod.splits)

lemma ReadExact_cases:
  assumes "ReadExact n cl = (r, bs, cl')" "\<not> exited cl" "0 \<le> sock cl"
  shows "if n \<le> length (incoming (rdev cl))
    then r = 1 \<and> bs = take n (incoming (rdev cl)) \<and> incoming (rdev cl') = drop n (incoming (rdev cl))
    else r \<in> {-1, 0}"
proof (cases "n = 0")
  case True
  with assms show ?thesis by (auto simp: ReadExact_def)
next
  case False
  obtain r' out es e where w: "read_loop n (rdev cl) [] (errno cl) = (r', out, es, e)"
    by (metis prod_cases4)
  from read_loop_success [OF w] False assms show ?thesis by (auto simp: ReadExact_def w)
qed

lemma ReadExact_frame:
  "ReadExact n cl = (r, bs, cl') \<Longrightarrow>
    sock cl' = sock cl \<and> sent cl' = sent cl \<and> wrev cl' = wrev cl \<and> exited cl' = exited cl \<and>
    conn.more cl' = conn.more cl"
  by (auto simp: ReadExact_def split: if_splits prod.splits)

lemma ReadExact_length:
  "ReadExact n cl = (r, bs, cl') \<Longrightarrow> 0 < r \<Longrightarrow> length bs = n"
proof (cases "n = 0 \<or> exited cl \<or> sock cl < 0")
  case False
  assume r: "ReadExact n cl = (r, bs, cl')" "0 < r"
  from ReadExact_cases [OF r(1)] r(2) False show ?thesis by (auto split: if_splits)
qed (auto simp: ReadExact_def split: if_splits)

lemma read_or_close_Inr:
  assumes "read_or_close n cl = Inr (bs, cl')"
  shows "length bs = n" "conn.more cl' = conn.more cl" "sock cl' = sock cl" "sent cl' = sent cl"
    "wrev cl' = wrev cl" "exited cl' = exited cl"
proof -
  obtain r where r: "ReadExact n cl = (r, bs, cl')" "0 < r"
    using assms by (auto simp: read_or_close_def split: prod.splits if_splits)
  show "length bs = n" by (rule ReadExact_length [OF r])
  show "conn.more cl' = conn.more cl" "sock cl' = sock cl" "sent cl' = sent cl"
    "wrev cl' = wrev cl" "exited cl' = exited cl" using ReadExact_frame [OF r(1)] by simp_all
qed

lemma read_or_close_Inl: "read_or_close n cl = Inl cl' \<Longrightarrow> sock cl' = -1 \<and> sent cl' = sent cl"
proof -
  assume a: "read_or_close n cl = Inl cl'"
  obtain r bs c where r: "ReadExact n cl = (r, bs, c)" by (metis prod_cases3)
  then have "cl' = rfbCloseClient c" using a by (simp add: read_or_close_def split: if_splits)
  then show ?thesis using ReadExact_frame [OF r] by (simp add: rfbCloseClient_def)
qed

lemma write_or_close_cases:
  assumes "write_or_close buf cl = (ok, cl')"
  shows "if ok then sent cl' = sent cl @ buf \<and> sock cl' = sock cl else sock cl' = -1"
proof -
  obtain r c where r: "WriteExact buf cl = (r, c)" by fastforce
  from assms have "(ok, cl') = (if r < 0 then (False, rfbCloseClient c) else (True, c))"
    by (simp add: write_or_close_def r)
  then show ?thesis using WriteExact_cases [OF r] WriteExact_frame [OF r]
    by (auto simp: rfbCloseClient_def split: if_splits)
qed

lemma write_or_close_more [simp]: "conn.more (snd (write_or_close buf cl)) = conn.more cl"
proof -
  obtain r c where r: "WriteExact buf cl = (r, c)" by fastforce
  then show ?thesis using WriteExact_frame [OF r] by (simp add: write_or_close_def rfbCloseClient_def)
qed

section \<open>The transport as an interface\<close>

text \<open>
  What the protocol code assumes of the transport: a successful \<open>put\<close> appends exactly its bytes to
  the stream of the peer, a failed one a proper prefix; a successful \<open>get\<close> takes exactly the number
  of bytes asked for from the front of what the peer sent.
\<close>

locale exact_transport =
  fixes up :: "'c \<Rightarrow> bool" and out inp :: "'c \<Rightarrow> u8 list"
    and put :: "u8 list \<Rightarrow> 'c \<Rightarrow> int \<times> 'c" and get :: "nat \<Rightarrow> 'c \<Rightarrow> int \<times> u8 list \<times> 'c"
  assumes put_cases: "put buf c = (r, c') \<Longrightarrow>
      r = 1 \<and> out c' = out c @ buf \<or> r = -1 \<and> (\<exists>k < length buf. out c' = out c @ take k buf)"
    and get_cases: "up c \<Longrightarrow> get n c = (r, bs, c') \<Longrightarrow>
      (if n \<le> length (inp c) then r = 1 \<and> bs = take n (inp c) \<and> inp c' = drop n (inp c) else r \<in> {-1, 0})"
    and get_up: "up c \<Longrightarrow> get n c = (r, bs, c') \<Longrightarrow> up c'"
begin

text \<open>Two messages in a row arrive as their concatenation, and are read back in order.\<close>

lemma put_put:
  assumes "put a c = (1, c1)" "put b c1 = (1, c2)"
  shows "out c2 = out c @ a @ b"
  using put_cases [OF assms(1)] put_cases [OF assms(2)] by auto

lemma get_get:
  assumes "up c" "inp c = a @ b @ rest" "get (length a) c = (r1, bs1, c1)" "get (length b) c1 = (r2, bs2, c2)"
  shows "r1 = 1 \<and> bs1 = a \<and> r2 = 1 \<and> bs2 = b \<and> inp c2 = rest"
  using get_cases [OF assms(1,3)] get_cases [OF get_up [OF assms(1,3)] assms(4)] assms(2) by auto

lemma put_prefix: "put buf c = (r, c') \<Longrightarrow> \<exists>k. out c' = out c @ take k buf"
  using put_cases [of buf c r c'] by (metis order_refl take_all)

end

interpretation sockio: exact_transport "\<lambda>c. \<not> exited c \<and> 0 \<le> sock c" sent "\<lambda>c. incoming (rdev c)" WriteExact ReadExact
proof
  show "r = 1 \<and> sent c' = sent c @ buf \<or> r = -1 \<and> (\<exists>k < length buf. sent c' = sent c @ take k buf)"
    if "WriteExact buf c = (r, c')" for buf and c c' :: "'b conn_scheme" and r
    by (rule WriteExact_cases [OF that])
  show "if n \<le> length (incoming (rdev c))
    then r = 1 \<and> bs = take n (incoming (rdev c)) \<and> incoming (rdev c') = drop n (incoming (rdev c))
    else r \<in> {-1, 0}"
    if "\<not> exited c \<and> 0 \<le> sock c" "ReadExact n c = (r, bs, c')" for n and c c' :: "'b conn_scheme" and r bs
    using ReadExact_cases [OF that(2)] that(1) by simp
  show "\<not> exited c' \<and> 0 \<le> sock c'"
    if "\<not> exited c \<and> 0 \<le> sock c" "ReadExact n c = (r, bs, c')" for n and c c' :: "'b conn_scheme" and r bs
    using ReadExact_frame [OF that(2)] that(1) by simp
qed

section \<open>Properties\<close>

text \<open>
  C27: ReadExact returns 1 exactly when the peer delivers enough bytes before it stops or fails, in
  whatever pieces they come; then it stores the next bytes of the stream in order, and leaves the
  rest unread.
\<close>

theorem ReadExact_exact:
  assumes "\<not> exited cl" "0 \<le> sock cl"
  shows "case ReadExact n cl of (r, bs, cl') \<Rightarrow>
    (r = 1) = (n \<le> length (incoming (rdev cl))) \<and>
    (if r = 1 then bs @ incoming (rdev cl') = incoming (rdev cl) \<and> length bs = n else r \<in> {-1, 0})"
proof -
  obtain r bs cl' where r: "ReadExact n cl = (r, bs, cl')" by (metis prod_cases3)
  show ?thesis using ReadExact_cases [OF r assms] by (auto simp: r split: if_splits)
qed

definition demo_conn :: conn where
  "demo_conn = \<lparr>sock = 5, rdev = [RdData [1, 2], RdFail 35 SelReady, RdData [3, 4, 5]],
     wrev = [WrOk 1, WrFail 35 SelTimeout], sent = [], errno = 0, exited = False\<rparr>"

theorem ReadExact_exact_witness:
  "case ReadExact 3 demo_conn of (r, bs, cl') \<Rightarrow>
    (r = 1) = (3 \<le> length (incoming (rdev demo_conn))) \<and>
    (if r = 1 then bs @ incoming (rdev cl') = incoming (rdev demo_conn) \<and> length bs = 3 else r \<in> {-1, 0})"
  by (rule ReadExact_exact) (simp_all add: demo_conn_def)

text \<open>
  C28: WriteExact returns 1 only when the kernel took all the bytes in order, and -1 only when it
  took a proper prefix of them; it returns nothing else.
\<close>

theorem WriteExact_exact:
  "case WriteExact buf cl of (r, cl') \<Rightarrow>
    (if r = 1 then sent cl' = sent cl @ buf
     else r = -1 \<and> (\<exists>k < length buf. sent cl' = sent cl @ take k buf))"
proof -
  obtain r cl' where r: "WriteExact buf cl = (r, cl')" by fastforce
  show ?thesis using WriteExact_cases [OF r] by (auto simp: r)
qed

end
