(* ===== verification/Miregion.thy ===== *)
theory Miregion
  imports Rfb_Prelude
begin

text \<open>
  \<^verbatim>\<open>OSXvnc-server/miregion.c\<close> and the region macros of \<^verbatim>\<open>include/Xserver/regionstr.h\<close>: sets of screen
  pixels as y-x banded lists of boxes. A region is its extents and its data pointer: \<open>None\<close> is the
  null pointer of a region with a single box (the extents), \<open>Some rects\<close> the used part of an
  allocated array, \<open>Some []\<close> the empty region \<open>miEmptyData\<close>. The capacity of the array is left out.
  Regions that a function writes while it may still read them under another name are cells of a
  store, so that \<open>reg1 == reg2\<close> and \<open>newReg == reg1\<close> are what they are in C. Coordinates are
  integers; only miTranslateRegion computes new ones and clips them to \<open>short\<close>.
\<close>

section \<open>Boxes and regions\<close>

record BoxRec =
  bx1 :: int
  by1 :: int
  bx2 :: int
  by2 :: int

abbreviation box :: "int \<Rightarrow> int \<Rightarrow> int \<Rightarrow> int \<Rightarrow> BoxRec" where
  "box a b c d \<equiv> \<lparr>bx1 = a, by1 = b, bx2 = c, by2 = d\<rparr>"

record RegionRec =
  extents :: BoxRec
  rdata :: "BoxRec list option"

type_synonym rptr = nat
type_synonym rstore = "rptr \<Rightarrow> RegionRec"

definition miEmptyBox :: BoxRec where
  "miEmptyBox = box 0 0 0 0"

definition EXTENTCHECK :: "BoxRec \<Rightarrow> BoxRec \<Rightarrow> bool" where
  "EXTENTCHECK r1 r2 \<longleftrightarrow>
     \<not> (bx2 r1 \<le> bx1 r2 \<or> bx1 r1 \<ge> bx2 r2 \<or> by2 r1 \<le> by1 r2 \<or> by1 r1 \<ge> by2 r2)"

definition INBOX :: "BoxRec \<Rightarrow> int \<Rightarrow> int \<Rightarrow> bool" where
  "INBOX r x y \<longleftrightarrow> bx2 r > x \<and> bx1 r \<le> x \<and> by2 r > y \<and> by1 r \<le> y"

definition SUBSUMES :: "BoxRec \<Rightarrow> BoxRec \<Rightarrow> bool" where
  "SUBSUMES r1 r2 \<longleftrightarrow> bx1 r1 \<le> bx1 r2 \<and> bx2 r1 \<ge> bx2 r2 \<and> by1 r1 \<le> by1 r2 \<and> by2 r1 \<ge> by2 r2"

definition REGION_RECTS :: "RegionRec \<Rightarrow> BoxRec list" where
  "REGION_RECTS reg = (case rdata reg of None \<Rightarrow> [extents reg] | Some rs \<Rightarrow> rs)"

definition REGION_NUM_RECTS :: "RegionRec \<Rightarrow> nat" where
  "REGION_NUM_RECTS reg = (case rdata reg of None \<Rightarrow> 1 | Some rs \<Rightarrow> length rs)"

definition REGION_NIL :: "RegionRec \<Rightarrow> bool" where
  "REGION_NIL reg = (case rdata reg of None \<Rightarrow> False | Some rs \<Rightarrow> length rs = 0)"

text \<open>
  The consistency check of the debug build, miValidRegion. \<open>valid_boxes\<close> is its loop: \<open>b\<close> collects
  the extents, \<open>p\<close> is the box before the rest.
\<close>

fun valid_boxes :: "BoxRec \<Rightarrow> BoxRec \<Rightarrow> BoxRec list \<Rightarrow> BoxRec option" where
  "valid_boxes b p [] = Some b"
| "valid_boxes b p (n # rest) =
    (if bx1 n \<ge> bx2 n \<or> by1 n \<ge> by2 n then None
     else let b = (if bx1 n < bx1 b then b\<lparr>bx1 := bx1 n\<rparr> else b);
              b = (if bx2 n > bx2 b then b\<lparr>bx2 := bx2 n\<rparr> else b)
          in if by1 n < by1 p \<or> (by1 n = by1 p \<and> (bx1 n < bx2 p \<or> by2 n \<noteq> by2 p)) then None
             else valid_boxes b n rest)"

definition miValidRegion :: "RegionRec \<Rightarrow> bool" where
  "miValidRegion reg =
    (if bx1 (extents reg) > bx2 (extents reg) \<or> by1 (extents reg) > by2 (extents reg) then False
     else case rdata reg of
       None \<Rightarrow> True
     | Some [] \<Rightarrow> bx1 (extents reg) = bx2 (extents reg) \<and> by1 (extents reg) = by2 (extents reg)
     | Some [_] \<Rightarrow> False
     | Some (p # rest) \<Rightarrow> valid_boxes (p\<lparr>by2 := by2 (last rest)\<rparr>) p rest = Some (extents reg))"

definition miRegionsEqual :: "RegionRec \<Rightarrow> RegionRec \<Rightarrow> bool" where
  "miRegionsEqual reg1 reg2 \<longleftrightarrow>
     extents reg1 = extents reg2 \<and> REGION_NUM_RECTS reg1 = REGION_NUM_RECTS reg2 \<and>
     list_all2 (\<lambda>a b. a = b) (REGION_RECTS reg1) (REGION_RECTS reg2)"

text \<open>miRegionInit and the macro REGION_INIT; \<open>None\<close> is \<open>NullBox\<close>.\<close>

definition miRegionInit :: "BoxRec option \<Rightarrow> RegionRec" where
  "miRegionInit rect =
    (case rect of Some r \<Rightarrow> \<lparr>extents = r, rdata = None\<rparr>
     | None \<Rightarrow> \<lparr>extents = miEmptyBox, rdata = Some []\<rparr>)"

definition miRegionCreate :: "BoxRec option \<Rightarrow> RegionRec" where
  "miRegionCreate rect =
    (case rect of Some r \<Rightarrow> \<lparr>extents = r, rdata = None\<rparr>
     | None \<Rightarrow> \<lparr>extents = miEmptyBox, rdata = Some []\<rparr>)"

definition SAFE_REGION_INIT :: "BoxRec \<Rightarrow> RegionRec" where
  "SAFE_REGION_INIT r =
    (if bx2 r = bx1 r \<or> by2 r = by1 r then miRegionInit None else miRegionInit (Some r))"

definition miRegionCopy :: "rptr \<Rightarrow> rptr \<Rightarrow> rstore \<Rightarrow> rstore" where
  "miRegionCopy dst src s = (if dst = src then s else s(dst := s src))"

definition miRegionReset :: "rptr \<Rightarrow> BoxRec \<Rightarrow> rstore \<Rightarrow> rstore" where
  "miRegionReset p b s = s(p := \<lparr>extents = b, rdata = None\<rparr>)"

definition miRegionNotEmpty :: "RegionRec \<Rightarrow> bool" where
  "miRegionNotEmpty reg = (\<not> REGION_NIL reg)"

definition empty_extents :: "BoxRec \<Rightarrow> BoxRec" where
  "empty_extents e = e\<lparr>bx2 := bx1 e, by2 := by1 e\<rparr>"

definition miRegionEmpty :: "rptr \<Rightarrow> rstore \<Rightarrow> rstore" where
  "miRegionEmpty p s = s(p := \<lparr>extents = empty_extents (extents (s p)), rdata = Some []\<rparr>)"

section \<open>The generic region operator\<close>

text \<open>miCoalesce on the boxes of the new region; it returns them and the index of the previous band.\<close>

definition miCoalesce :: "BoxRec list \<Rightarrow> nat \<Rightarrow> nat \<Rightarrow> BoxRec list \<times> nat" where
  "miCoalesce rects prevStart curStart =
    (let numRects = curStart - prevStart;
         prev = take numRects (drop prevStart rects);
         cur = drop curStart rects
     in if numRects = 0 then (rects, curStart)
        else if by2 (hd prev) \<noteq> by1 (hd cur) then (rects, curStart)
        else if \<not> list_all2 (\<lambda>p c. bx1 p = bx1 c \<and> bx2 p = bx2 c) prev cur then (rects, curStart)
        else (take prevStart rects @ map (\<lambda>b. b\<lparr>by2 := by2 (hd cur)\<rparr>) prev, prevStart))"

definition Coalesce :: "BoxRec list \<Rightarrow> nat \<Rightarrow> nat \<Rightarrow> BoxRec list \<times> nat" where
  "Coalesce rects prevBand curBand =
    (if curBand - prevBand = length rects - curBand then miCoalesce rects prevBand curBand
     else (rects, curBand))"

definition miAppendNonO :: "BoxRec list \<Rightarrow> BoxRec list \<Rightarrow> int \<Rightarrow> int \<Rightarrow> BoxRec list" where
  "miAppendNonO rects r y1 y2 = rects @ map (\<lambda>b. box (bx1 b) y1 (bx2 b) y2) r"

text \<open>FindBand: the boxes of the first band of \<open>r\<close>, and those after it.\<close>

definition band_of :: "BoxRec list \<Rightarrow> BoxRec list" where
  "band_of r = takeWhile (\<lambda>b. by1 b = by1 (hd r)) r"

definition after_band :: "BoxRec list \<Rightarrow> BoxRec list" where
  "after_band r = dropWhile (\<lambda>b. by1 b = by1 (hd r)) r"

text \<open>An overlap function maps the two bands and their vertical range to the boxes it adds.\<close>

type_synonym overlap_fn = "BoxRec list \<Rightarrow> BoxRec list \<Rightarrow> int \<Rightarrow> int \<Rightarrow> BoxRec list"

text \<open>The first half of the body of the main loop: the band that only one region covers.\<close>

definition nonoverlap_step :: "bool \<Rightarrow> bool \<Rightarrow> BoxRec list \<Rightarrow> BoxRec list \<Rightarrow> int
    \<Rightarrow> BoxRec list \<Rightarrow> nat \<Rightarrow> BoxRec list \<times> nat" where
  "nonoverlap_step appendNon1 appendNon2 r1 r2 ybot rects prevBand =
    (let r1y1 = by1 (hd r1); r2y1 = by1 (hd r2) in
     if r1y1 < r2y1 then
       if appendNon1 then
         let top = max r1y1 ybot; bot = min (by2 (hd r1)) r2y1 in
         if top \<noteq> bot
         then Coalesce (miAppendNonO rects (band_of r1) top bot) prevBand (length rects)
         else (rects, prevBand)
       else (rects, prevBand)
     else if r2y1 < r1y1 then
       if appendNon2 then
         let top = max r2y1 ybot; bot = min (by2 (hd r2)) r1y1 in
         if top \<noteq> bot
         then Coalesce (miAppendNonO rects (band_of r2) top bot) prevBand (length rects)
         else (rects, prevBand)
       else (rects, prevBand)
     else (rects, prevBand))"

text \<open>The second half: the overlapping band, between \<open>ytop\<close> and the new \<open>ybot\<close>.\<close>

definition overlap_step :: "overlap_fn \<Rightarrow> BoxRec list \<Rightarrow> BoxRec list
    \<Rightarrow> BoxRec list \<Rightarrow> nat \<Rightarrow> BoxRec list \<times> nat" where
  "overlap_step overlapFunc r1 r2 rects prevBand =
    (let ytop = max (by1 (hd r1)) (by1 (hd r2)); ybot = min (by2 (hd r1)) (by2 (hd r2)) in
     if ybot > ytop
     then Coalesce (rects @ overlapFunc (band_of r1) (band_of r2) ytop ybot) prevBand (length rects)
     else (rects, prevBand))"

lemma length_after_band: "r \<noteq> [] \<Longrightarrow> length (after_band r) < length r"
  by (cases r) (simp_all add: after_band_def length_dropWhile_le less_Suc_eq_le)

text \<open>The do-while loop. It ends when a region has no boxes left; both have some when it starts.\<close>

function op_loop :: "overlap_fn \<Rightarrow> bool \<Rightarrow> bool \<Rightarrow> BoxRec list \<Rightarrow> BoxRec list \<Rightarrow> int
    \<Rightarrow> BoxRec list \<Rightarrow> nat \<Rightarrow> BoxRec list \<times> BoxRec list \<times> int \<times> BoxRec list \<times> nat" where
  "op_loop overlapFunc appendNon1 appendNon2 r1 r2 ybot rects prevBand =
    (if r1 = [] \<or> r2 = [] then (r1, r2, ybot, rects, prevBand)
     else
       let (rects, prevBand) = nonoverlap_step appendNon1 appendNon2 r1 r2 ybot rects prevBand;
           (rects, prevBand) = overlap_step overlapFunc r1 r2 rects prevBand;
           ybot = min (by2 (hd r1)) (by2 (hd r2));
           r1' = (if by2 (hd r1) = ybot then after_band r1 else r1);
           r2' = (if by2 (hd r2) = ybot then after_band r2 else r2)
       in op_loop overlapFunc appendNon1 appendNon2 r1' r2' ybot rects prevBand)"
  by pat_completeness auto
termination
  by (relation "measure (\<lambda>(_, _, _, r1, r2, _). length r1 + length r2)")
    (auto simp: min_def length_after_band add_strict_mono intro: trans_less_add1 less_le_trans)

declare op_loop.simps [simp del]

text \<open>What is done with the region that still has boxes.\<close>

definition op_finish :: "bool \<Rightarrow> bool \<Rightarrow> BoxRec list \<Rightarrow> BoxRec list \<Rightarrow> int
    \<Rightarrow> BoxRec list \<Rightarrow> nat \<Rightarrow> BoxRec list" where
  "op_finish appendNon1 appendNon2 r1 r2 ybot rects prevBand =
    (if r1 \<noteq> [] \<and> appendNon1 then
       fst (Coalesce (miAppendNonO rects (band_of r1) (max (by1 (hd r1)) ybot) (by2 (hd r1)))
         prevBand (length rects)) @ after_band r1
     else if r2 \<noteq> [] \<and> appendNon2 then
       fst (Coalesce (miAppendNonO rects (band_of r2) (max (by1 (hd r2)) ybot) (by2 (hd r2)))
         prevBand (length rects)) @ after_band r2
     else rects)"

definition op_rects :: "overlap_fn \<Rightarrow> bool \<Rightarrow> bool \<Rightarrow> BoxRec list \<Rightarrow> BoxRec list \<Rightarrow> BoxRec list" where
  "op_rects overlapFunc appendNon1 appendNon2 r1 r2 =
    (let (r1', r2', ybot, rects, prevBand) =
       op_loop overlapFunc appendNon1 appendNon2 r1 r2 (min (by1 (hd r1)) (by1 (hd r2))) [] 0
     in op_finish appendNon1 appendNon2 r1' r2' ybot rects prevBand)"

text \<open>miRegionOp: the boxes of both sources are read before the destination is overwritten.\<close>

definition miRegionOp :: "rptr \<Rightarrow> rptr \<Rightarrow> rptr \<Rightarrow> overlap_fn \<Rightarrow> bool \<Rightarrow> bool \<Rightarrow> rstore \<Rightarrow> rstore" where
  "miRegionOp newReg reg1 reg2 overlapFunc appendNon1 appendNon2 s =
    (let rects = op_rects overlapFunc appendNon1 appendNon2
                   (REGION_RECTS (s reg1)) (REGION_RECTS (s reg2))
     in s(newReg :=
          (case rects of [] \<Rightarrow> (s newReg)\<lparr>rdata := Some []\<rparr>
           | [b] \<Rightarrow> \<lparr>extents = b, rdata = None\<rparr>
           | _ \<Rightarrow> (s newReg)\<lparr>rdata := Some rects\<rparr>)))"

text \<open>One turn of the loop of miSetExtents: widen the extents to a box.\<close>

definition widen :: "BoxRec \<Rightarrow> BoxRec \<Rightarrow> BoxRec" where
  "widen e b =
    (let e = (if bx1 b < bx1 e then e\<lparr>bx1 := bx1 b\<rparr> else e)
     in if bx2 b > bx2 e then e\<lparr>bx2 := bx2 b\<rparr> else e)"

definition miSetExtents :: "RegionRec \<Rightarrow> RegionRec" where
  "miSetExtents reg =
    (case rdata reg of None \<Rightarrow> reg
     | Some rects \<Rightarrow>
        if rects = [] then reg\<lparr>extents := empty_extents (extents reg)\<rparr>
        else reg\<lparr>extents := foldl widen
          (box (bx1 (hd rects)) (by1 (hd rects)) (bx2 (last rects)) (by2 (last rects))) rects\<rparr>)"

section \<open>Intersection\<close>

function intersectO :: "int \<Rightarrow> int \<Rightarrow> BoxRec list \<Rightarrow> BoxRec list \<Rightarrow> BoxRec list" where
  "intersectO y1 y2 r1 r2 =
    (if r1 = [] \<or> r2 = [] then []
     else
       let x1 = max (bx1 (hd r1)) (bx1 (hd r2));
           x2 = min (bx2 (hd r1)) (bx2 (hd r2));
           r1' = (if bx2 (hd r1) = x2 then tl r1 else r1);
           r2' = (if bx2 (hd r2) = x2 then tl r2 else r2)
       in (if x1 < x2 then [box x1 y1 x2 y2] else []) @ intersectO y1 y2 r1' r2')"
  by pat_completeness auto
termination
  by (relation "measure (\<lambda>(_, _, r1, r2). length r1 + length r2)")
    (auto simp: min_def neq_Nil_conv)

declare intersectO.simps [simp del]

definition miIntersectO :: overlap_fn where
  "miIntersectO r1 r2 y1 y2 = intersectO y1 y2 r1 r2"

definition miIntersect :: "rptr \<Rightarrow> rptr \<Rightarrow> rptr \<Rightarrow> rstore \<Rightarrow> rstore" where
  "miIntersect newReg reg1 reg2 s =
    (let e1 = extents (s reg1); e2 = extents (s reg2) in
     if REGION_NIL (s reg1) \<or> REGION_NIL (s reg2) \<or> \<not> EXTENTCHECK e1 e2
     then s(newReg := \<lparr>extents = empty_extents (extents (s newReg)), rdata = Some []\<rparr>)
     else if rdata (s reg1) = None \<and> rdata (s reg2) = None
     then s(newReg := \<lparr>extents = box (max (bx1 e1) (bx1 e2)) (max (by1 e1) (by1 e2))
                                      (min (bx2 e1) (bx2 e2)) (min (by2 e1) (by2 e2)),
                       rdata = None\<rparr>)
     else if rdata (s reg2) = None \<and> SUBSUMES e2 e1 then miRegionCopy newReg reg1 s
     else if rdata (s reg1) = None \<and> SUBSUMES e1 e2 then miRegionCopy newReg reg2 s
     else if reg1 = reg2 then miRegionCopy newReg reg1 s
     else let s = miRegionOp newReg reg1 reg2 miIntersectO False False s
          in s(newReg := miSetExtents (s newReg)))"

section \<open>Union\<close>

text \<open>
  The merging of miUnionO: \<open>x1\<close>, \<open>x2\<close> are the sides of the current rectangle. MERGERECT either
  extends it or adds it and starts a new one. (Whether boxes overlapped is not used by any caller
  but miRegionValidate.)
\<close>

fun merge_rects :: "int \<Rightarrow> int \<Rightarrow> int \<Rightarrow> int \<Rightarrow> BoxRec list \<Rightarrow> BoxRec list" where
  "merge_rects y1 y2 x1 x2 [] = [box x1 y1 x2 y2]"
| "merge_rects y1 y2 x1 x2 (r # rs) =
    (if bx1 r \<le> x2 then merge_rects y1 y2 x1 (if x2 < bx2 r then bx2 r else x2) rs
     else box x1 y1 x2 y2 # merge_rects y1 y2 (bx1 r) (bx2 r) rs)"

text \<open>The order in which miUnionO takes the boxes of the two bands.\<close>

fun pick_leftmost :: "BoxRec list \<Rightarrow> BoxRec list \<Rightarrow> BoxRec list" where
  "pick_leftmost (a # r1) (b # r2) =
    (if bx1 a < bx1 b then a # pick_leftmost r1 (b # r2) else b # pick_leftmost (a # r1) r2)"
| "pick_leftmost [] r2 = r2"
| "pick_leftmost r1 [] = r1"

definition miUnionO :: overlap_fn where
  "miUnionO r1 r2 y1 y2 =
    (case pick_leftmost r1 r2 of [] \<Rightarrow> []
     | r # rs \<Rightarrow> merge_rects y1 y2 (bx1 r) (bx2 r) rs)"

definition miUnion :: "rptr \<Rightarrow> rptr \<Rightarrow> rptr \<Rightarrow> rstore \<Rightarrow> rstore" where
  "miUnion newReg reg1 reg2 s =
    (if reg1 = reg2 then miRegionCopy newReg reg1 s
     else if REGION_NIL (s reg1) then (if newReg \<noteq> reg2 then miRegionCopy newReg reg2 s else s)
     else if REGION_NIL (s reg2) then (if newReg \<noteq> reg1 then miRegionCopy newReg reg1 s else s)
     else if rdata (s reg1) = None \<and> SUBSUMES (extents (s reg1)) (extents (s reg2))
     then (if newReg \<noteq> reg1 then miRegionCopy newReg reg1 s else s)
     else if rdata (s reg2) = None \<and> SUBSUMES (extents (s reg2)) (extents (s reg1))
     then (if newReg \<noteq> reg2 then miRegionCopy newReg reg2 s else s)
     else
       let s = miRegionOp newReg reg1 reg2 miUnionO True True s;
           e1 = extents (s reg1); e2 = extents (s reg2)
       in s(newReg := (s newReg)\<lparr>extents := box (min (bx1 e1) (bx1 e2)) (min (by1 e1) (by1 e2))
                                                (max (bx2 e1) (bx2 e2)) (max (by2 e1) (by2 e2))\<rparr>))"

section \<open>Subtraction\<close>

text \<open>
  The loops of miSubtractO; \<open>x1\<close> is the left-most point of the minuend \<open>hd r1\<close> not yet checked.
  Where the code advances \<open>r1\<close> it moves \<open>x1\<close> to the next minuend, if there is one.
\<close>

fun subtractO :: "int \<Rightarrow> int \<Rightarrow> int \<Rightarrow> BoxRec list \<Rightarrow> BoxRec list \<Rightarrow> BoxRec list" where
  "subtractO y1 y2 x1 [] r2 = []"
| "subtractO y1 y2 x1 (a # r1) [] =
    box x1 y1 (bx2 a) y2 # subtractO y1 y2 (if r1 \<noteq> [] then bx1 (hd r1) else x1) r1 []"
| "subtractO y1 y2 x1 (a # r1) (b # r2) =
    (if bx2 b \<le> x1 then subtractO y1 y2 x1 (a # r1) r2
     else if bx1 b \<le> x1 then
       if bx2 b \<ge> bx2 a
       then subtractO y1 y2 (if r1 \<noteq> [] then bx1 (hd r1) else bx2 b) r1 (b # r2)
       else subtractO y1 y2 (bx2 b) (a # r1) r2
     else if bx1 b < bx2 a then
       box x1 y1 (bx1 b) y2 #
       (if bx2 b \<ge> bx2 a
        then subtractO y1 y2 (if r1 \<noteq> [] then bx1 (hd r1) else bx2 b) r1 (b # r2)
        else subtractO y1 y2 (bx2 b) (a # r1) r2)
     else
       (if bx2 a > x1 then [box x1 y1 (bx2 a) y2] else []) @
       subtractO y1 y2 (if r1 \<noteq> [] then bx1 (hd r1) else x1) r1 (b # r2))"

definition miSubtractO :: overlap_fn where
  "miSubtractO r1 r2 y1 y2 = subtractO y1 y2 (bx1 (hd r1)) r1 r2"

definition miSubtract :: "rptr \<Rightarrow> rptr \<Rightarrow> rptr \<Rightarrow> rstore \<Rightarrow> rstore" where
  "miSubtract regD regM regS s =
    (if REGION_NIL (s regM) \<or> REGION_NIL (s regS) \<or> \<not> EXTENTCHECK (extents (s regM)) (extents (s regS))
     then miRegionCopy regD regM s
     else if regM = regS
     then s(regD := \<lparr>extents = empty_extents (extents (s regD)), rdata = Some []\<rparr>)
     else let s = miRegionOp regD regM regS miSubtractO True False s
          in s(regD := miSetExtents (s regD)))"

text \<open>miInverse: the local region \<open>invReg\<close> lives at an address no other region has.\<close>

definition miInverse :: "rptr \<Rightarrow> rptr \<Rightarrow> BoxRec \<Rightarrow> rptr \<Rightarrow> rstore \<Rightarrow> rstore" where
  "miInverse newReg reg1 invRect invReg s =
    (if REGION_NIL (s reg1) \<or> \<not> EXTENTCHECK invRect (extents (s reg1))
     then s(newReg := \<lparr>extents = invRect, rdata = None\<rparr>)
     else let s = s(invReg := \<lparr>extents = invRect, rdata = None\<rparr>);
              s = miRegionOp newReg invReg reg1 miSubtractO True False s
          in s(newReg := miSetExtents (s newReg)))"

section \<open>Queries\<close>

text \<open>miPointInRegion returns the box that holds the point through its last argument.\<close>

fun point_loop :: "int \<Rightarrow> int \<Rightarrow> BoxRec list \<Rightarrow> BoxRec option" where
  "point_loop x y [] = None"
| "point_loop x y (b # bs) =
    (if y \<ge> by2 b then point_loop x y bs
     else if y < by1 b \<or> x < bx1 b then None
     else if x \<ge> bx2 b then point_loop x y bs
     else Some b)"

definition miPointInRegion :: "RegionRec \<Rightarrow> int \<Rightarrow> int \<Rightarrow> BoxRec option" where
  "miPointInRegion reg x y =
    (if REGION_NUM_RECTS reg = 0 \<or> \<not> INBOX (extents reg) x y then None
     else if REGION_NUM_RECTS reg = 1 then Some (extents reg)
     else point_loop x y (REGION_RECTS reg))"

datatype overlap_res = rgnOUT | rgnIN | rgnPART

text \<open>The loop of miRectIn; it returns \<open>partIn\<close> and \<open>y\<close>.\<close>

fun rect_loop :: "BoxRec \<Rightarrow> int \<Rightarrow> int \<Rightarrow> bool \<Rightarrow> bool \<Rightarrow> BoxRec list \<Rightarrow> bool \<times> int" where
  "rect_loop prect x y partIn partOut [] = (partIn, y)"
| "rect_loop prect x y partIn partOut (b # bs) =
    (if by2 b \<le> y then rect_loop prect x y partIn partOut bs
     else if by1 b > y \<and> (partIn \<or> by1 b \<ge> by2 prect) then (partIn, y)
     else
       let partOut = (by1 b > y \<or> partOut); y = max y (by1 b) in
       if bx2 b \<le> x then rect_loop prect x y partIn partOut bs
       else if bx1 b > x \<and> partIn then (partIn, y)
       else
         let partOut = (bx1 b > x \<or> partOut) in
         if bx1 b < bx2 prect \<and> partOut then (True, y)
         else
           let partIn = (bx1 b < bx2 prect \<or> partIn) in
           if bx2 b \<ge> bx2 prect then
             if by2 b \<ge> by2 prect then (partIn, by2 b)
             else rect_loop prect (bx1 prect) (by2 b) partIn partOut bs
           else (partIn, y))"

definition miRectIn :: "RegionRec \<Rightarrow> BoxRec \<Rightarrow> overlap_res" where
  "miRectIn region prect =
    (if REGION_NUM_RECTS region = 0 \<or> \<not> EXTENTCHECK (extents region) prect then rgnOUT
     else if REGION_NUM_RECTS region = 1
     then (if SUBSUMES (extents region) prect then rgnIN else rgnPART)
     else case rect_loop prect (bx1 prect) (by1 prect) False False (REGION_RECTS region) of
       (partIn, y) \<Rightarrow> if partIn then (if y < by2 prect then rgnPART else rgnIN) else rgnOUT)"

section \<open>Translation\<close>

definition MAXSHORT :: int where "MAXSHORT = 32767"
definition MINSHORT :: int where "MINSHORT = - MAXSHORT"

text \<open>What a coordinate becomes when it is stored in a \<open>short\<close>.\<close>

definition short :: "int \<Rightarrow> int" where
  "short n = sint (word_of_int n :: 16 word)"

text \<open>The bitwise tests of miTranslateRegion on the unclipped corners.\<close>

definition all_inside :: "int \<Rightarrow> int \<Rightarrow> int \<Rightarrow> int \<Rightarrow> bool" where
  "all_inside x1 y1 x2 y2 \<longleftrightarrow>
     ((x1 - MINSHORT) OR (y1 - MINSHORT) OR (MAXSHORT - x2) OR (MAXSHORT - y2)) \<ge> 0"

definition all_outside :: "int \<Rightarrow> int \<Rightarrow> int \<Rightarrow> int \<Rightarrow> bool" where
  "all_outside x1 y1 x2 y2 \<longleftrightarrow>
     ((x2 - MINSHORT) OR (y2 - MINSHORT) OR (MAXSHORT - x1) OR (MAXSHORT - y1)) \<le> 0"

text \<open>A box moved by \<open>(x, y)\<close>, each corner cut off to a \<open>short\<close>, and clipped as the code does.\<close>

definition move_box :: "int \<Rightarrow> int \<Rightarrow> BoxRec \<Rightarrow> BoxRec" where
  "move_box x y b = box (short (bx1 b + x)) (short (by1 b + y)) (short (bx2 b + x)) (short (by2 b + y))"

definition clip_box :: "int \<Rightarrow> int \<Rightarrow> BoxRec \<Rightarrow> BoxRec" where
  "clip_box x y b =
    (let x1 = bx1 b + x; y1 = by1 b + y; x2 = bx2 b + x; y2 = by2 b + y;
         r = move_box x y b;
         r = (if x1 < MINSHORT then r\<lparr>bx1 := MINSHORT\<rparr>
              else if x2 > MAXSHORT then r\<lparr>bx2 := MAXSHORT\<rparr> else r)
     in if y1 < MINSHORT then r\<lparr>by1 := MINSHORT\<rparr>
        else if y2 > MAXSHORT then r\<lparr>by2 := MAXSHORT\<rparr> else r)"

text \<open>
  The move. When every box is dropped, miSetExtents takes the left and the upper side from the first cell of the array,
  where the last box was stored, and the other two from the bytes before it, the number of boxes, which is 0.
\<close>

definition miTranslateRegion :: "RegionRec \<Rightarrow> int \<Rightarrow> int \<Rightarrow> RegionRec" where
  "miTranslateRegion reg x y =
    (let e = extents reg;
         x1 = bx1 e + x; y1 = by1 e + y; x2 = bx2 e + x; y2 = by2 e + y
     in if all_inside x1 y1 x2 y2
        then \<lparr>extents = move_box x y e, rdata = map_option (map (move_box x y)) (rdata reg)\<rparr>
        else if all_outside x1 y1 x2 y2
        then \<lparr>extents = empty_extents (move_box x y e), rdata = Some []\<rparr>
        else
          let reg' = \<lparr>extents = clip_box x y e, rdata = rdata reg\<rparr> in
          case rdata reg of None \<Rightarrow> reg'
          | Some rs \<Rightarrow>
              if rs = [] then reg'
              else
                let out = map (clip_box x y)
                      (filter (\<lambda>b. \<not> all_outside (bx1 b + x) (by1 b + y) (bx2 b + x) (by2 b + y)) rs)
                in if length out = length rs then reg'\<lparr>rdata := Some out\<rparr>
                   else (case out of [b] \<Rightarrow> \<lparr>extents = b, rdata = None\<rparr>
                         | [] \<Rightarrow> \<lparr>extents = box (bx1 (move_box x y (last rs))) (by1 (move_box x y (last rs))) 0 0, rdata = Some []\<rparr>
                         | _ \<Rightarrow> miSetExtents (reg'\<lparr>rdata := Some out\<rparr>)))"

section \<open>The widest band\<close>

function max_band :: "nat \<Rightarrow> BoxRec list \<Rightarrow> nat" where
  "max_band nMaxBand rs =
    (if rs = [] then nMaxBand
     else max_band (if length (band_of rs) > nMaxBand then length (band_of rs) else nMaxBand) (after_band rs))"
  by pat_completeness auto
termination by (relation "measure (\<lambda>(_, rs). length rs)") (auto simp: length_after_band)

declare max_band.simps [simp del]

definition miFindMaxBand :: "RegionRec \<Rightarrow> nat" where
  "miFindMaxBand prgn = max_band 0 (REGION_RECTS prgn)"

end
