(* ===== verification/Regionspec.thy ===== *)
theory Regionspec
  imports Miregion
begin

text \<open>
  What the region operators of \<^verbatim>\<open>miregion.c\<close> compute: a region is read as the set of pixels that its
  boxes cover, and the y-x banding that every operation expects is kept by every operation.
\<close>

section \<open>Points and banding\<close>

definition pts :: "BoxRec list \<Rightarrow> (int \<times> int) set" where
  "pts rs = {(x, y). \<exists>b\<in>set rs. INBOX b x y}"

text \<open>The horizontal extent of a list of boxes.\<close>

definition xin :: "BoxRec list \<Rightarrow> int \<Rightarrow> bool" where
  "xin rs x \<longleftrightarrow> (\<exists>b\<in>set rs. bx1 b \<le> x \<and> x < bx2 b)"

definition follows :: "BoxRec \<Rightarrow> BoxRec \<Rightarrow> bool" where
  "follows a b \<longleftrightarrow> (by1 a = by1 b \<and> by2 a = by2 b \<and> bx2 a < bx1 b) \<or> by2 a \<le> by1 b"

definition solid :: "BoxRec \<Rightarrow> bool" where
  "solid b \<longleftrightarrow> bx1 b < bx2 b \<and> by1 b < by2 b"

definition banded :: "BoxRec list \<Rightarrow> bool" where
  "banded rs \<longleftrightarrow> sorted_wrt follows rs \<and> (\<forall>b\<in>set rs. solid b)"

text \<open>Boxes of one band: \<open>x_sorted\<close> says they are apart and in order.\<close>

definition x_sorted :: "BoxRec list \<Rightarrow> bool" where
  "x_sorted rs \<longleftrightarrow> sorted_wrt (\<lambda>a b. bx2 a < bx1 b) rs \<and> (\<forall>b\<in>set rs. bx1 b < bx2 b)"

definition in_rows :: "int \<Rightarrow> int \<Rightarrow> BoxRec list \<Rightarrow> bool" where
  "in_rows y1 y2 rs \<longleftrightarrow> (\<forall>b\<in>set rs. by1 b = y1 \<and> by2 b = y2)"

lemma pts_Nil [simp]: "pts [] = {}"
  by (simp add: pts_def)

lemma pts_append [simp]: "pts (a @ b) = pts a \<union> pts b"
  by (auto simp: pts_def)

lemma mem_pts: "(x, y) \<in> pts rs \<longleftrightarrow> (\<exists>b\<in>set rs. INBOX b x y)"
  by (simp add: pts_def)

lemma pts_rows: "in_rows y1 y2 rs \<Longrightarrow> (x, y) \<in> pts rs \<longleftrightarrow> y1 \<le> y \<and> y < y2 \<and> xin rs x"
  by (auto simp: mem_pts in_rows_def xin_def INBOX_def)

lemma xin_Nil [simp]: "xin [] x = False"
  by (simp add: xin_def)

lemma xin_Cons [simp]: "xin (b # rs) x \<longleftrightarrow> (bx1 b \<le> x \<and> x < bx2 b) \<or> xin rs x"
  by (auto simp: xin_def)

lemma xin_append [simp]: "xin (a @ b) x \<longleftrightarrow> xin a x \<or> xin b x"
  by (auto simp: xin_def)

lemma x_sorted_Nil [simp]: "x_sorted []"
  by (simp add: x_sorted_def)

lemma x_sorted_Cons: "x_sorted (b # rs) \<longleftrightarrow> bx1 b < bx2 b \<and> (\<forall>c\<in>set rs. bx2 b < bx1 c) \<and> x_sorted rs"
  by (auto simp: x_sorted_def)

lemma in_rows_simps [simp]:
  "in_rows y1 y2 []"
  "in_rows y1 y2 (b # rs) \<longleftrightarrow> by1 b = y1 \<and> by2 b = y2 \<and> in_rows y1 y2 rs"
  "in_rows y1 y2 (a @ c) \<longleftrightarrow> in_rows y1 y2 a \<and> in_rows y1 y2 c"
  by (auto simp: in_rows_def)

lemma banded_Nil [simp]: "banded []"
  by (simp add: banded_def)

lemma banded_Cons: "banded (b # rs) \<longleftrightarrow> solid b \<and> (\<forall>c\<in>set rs. follows b c) \<and> banded rs"
  by (auto simp: banded_def)

lemma banded_append:
  "banded (a @ c) \<longleftrightarrow> banded a \<and> banded c \<and> (\<forall>x\<in>set a. \<forall>y\<in>set c. follows x y)"
  by (auto simp: banded_def sorted_wrt_append)

lemma banded_rows: "in_rows y1 y2 rs \<Longrightarrow> y1 < y2 \<Longrightarrow> banded rs \<longleftrightarrow> x_sorted rs"
  by (induction rs) (auto simp: banded_Cons x_sorted_Cons follows_def solid_def in_rows_def)

section \<open>Bands\<close>

lemma band_join: "band_of r @ after_band r = r"
  by (simp add: band_of_def after_band_def)

lemma mem_pts_split: "p \<in> pts r \<longleftrightarrow> p \<in> pts (band_of r) \<or> p \<in> pts (after_band r)"
  using pts_append [of "band_of r" "after_band r"] by (simp add: band_join)

lemma band_of_Cons: "band_of (b # rs) = b # takeWhile (\<lambda>c. by1 c = by1 b) rs"
  by (simp add: band_of_def)

lemma band_of_ne: "r \<noteq> [] \<Longrightarrow> band_of r \<noteq> []"
  by (cases r) (simp_all add: band_of_Cons)

lemma hd_band_of [simp]: "hd (band_of r) = hd r"
  by (cases r) (simp_all add: band_of_def)

lemma band_in_rows:
  assumes "banded r"
  shows "in_rows (by1 (hd r)) (by2 (hd r)) (band_of r)"
proof (cases r)
  case Nil
  then show ?thesis by (simp add: band_of_def)
next
  case (Cons b rs)
  have "by1 c = by1 b \<and> by2 c = by2 b" if "c \<in> set (takeWhile (\<lambda>c. by1 c = by1 b) rs)" for c
  proof -
    have "c \<in> set rs" "by1 c = by1 b" using set_takeWhileD [OF that] by auto
    moreover have "follows b c" "by1 b < by2 b"
      using assms \<open>c \<in> set rs\<close> by (auto simp: Cons banded_Cons solid_def)
    ultimately show ?thesis by (auto simp: follows_def)
  qed
  then have "\<forall>c\<in>set (band_of r). by1 c = by1 b \<and> by2 c = by2 b"
    unfolding Cons band_of_Cons set_simps by blast
  moreover have "hd r = b" by (simp add: Cons)
  ultimately show ?thesis by (simp only: in_rows_def)
qed

lemma banded_band:
  assumes "banded r"
  shows "banded (band_of r)" "banded (after_band r)"
proof -
  have "banded (band_of r @ after_band r)" using assms by (simp only: band_join)
  then show "banded (band_of r)" "banded (after_band r)" by (simp_all only: banded_append)
qed

lemma banded_hd: "banded r \<Longrightarrow> r \<noteq> [] \<Longrightarrow> by1 (hd r) < by2 (hd r)"
  by (cases r) (auto simp: banded_Cons solid_def)

lemma x_sorted_band: "banded r \<Longrightarrow> r \<noteq> [] \<Longrightarrow> x_sorted (band_of r)"
  using banded_rows [OF band_in_rows banded_hd] banded_band(1) by simp

lemma banded_tail_below:
  assumes "banded r" "r \<noteq> []" "c \<in> set (after_band r)"
  shows "by2 (hd r) \<le> by1 c"
proof -
  obtain b rs where r: "r = b # rs" using assms(2) by (cases r) auto
  let ?P = "\<lambda>c. by1 c = by1 b"
  have ab: "after_band r = dropWhile ?P rs" by (simp add: r after_band_def)
  then obtain d ds where d: "dropWhile ?P rs = d # ds" using assms(3) by (cases "dropWhile ?P rs") auto
  have nd: "by1 d \<noteq> by1 b" using d hd_dropWhile [of ?P rs] by auto
  have "d \<in> set rs" using d set_dropWhileD [of d ?P rs] by auto
  then have bd: "by2 b \<le> by1 d" using assms(1) nd by (auto simp: r banded_Cons follows_def)
  have "banded (d # ds)" using banded_band(2) [OF assms(1)] ab d by simp
  moreover have "c = d \<or> c \<in> set ds" using assms(3) ab d by simp
  ultimately have "by1 d \<le> by1 c"
    by (auto simp: banded_Cons follows_def solid_def)
  with bd r show ?thesis by simp
qed

lemma pts_above:
  assumes "banded r" "r \<noteq> []" "y < by1 (hd r)"
  shows "(x, y) \<notin> pts r"
proof -
  have "(x, y) \<notin> pts (band_of r)"
    using pts_rows [OF band_in_rows [OF assms(1)]] assms(3) by simp
  moreover have "(x, y) \<notin> pts (after_band r)"
  proof -
    have "by1 (hd r) < by2 (hd r)" using assms(1,2) by (auto simp: banded_def solid_def)
    then show ?thesis using banded_tail_below [OF assms(1,2)] assms(3)
      by (fastforce simp: mem_pts INBOX_def)
  qed
  ultimately show ?thesis using mem_pts_split by blast
qed

lemma pts_in_band:
  assumes "banded r" "r \<noteq> []" "y < by2 (hd r)"
  shows "(x, y) \<in> pts r \<longleftrightarrow> by1 (hd r) \<le> y \<and> xin (band_of r) x"
proof -
  have "(x, y) \<notin> pts (after_band r)"
    using banded_tail_below [OF assms(1,2)] assms(3) by (fastforce simp: mem_pts INBOX_def)
  moreover have "(x, y) \<in> pts (band_of r) \<longleftrightarrow> by1 (hd r) \<le> y \<and> xin (band_of r) x"
    using pts_rows [OF band_in_rows [OF assms(1)]] assms(3) by simp
  ultimately show ?thesis using mem_pts_split by blast
qed

lemma pts_below_band:
  assumes "banded r" "by2 (hd r) \<le> y"
  shows "(x, y) \<in> pts r \<longleftrightarrow> (x, y) \<in> pts (after_band r)"
proof -
  have "(x, y) \<notin> pts (band_of r)"
    using pts_rows [OF band_in_rows [OF assms(1)]] assms(2) by simp
  then show ?thesis using mem_pts_split by blast
qed

section \<open>Coalescing\<close>

text \<open>The boxes from index \<open>k\<close> on form one band.\<close>

definition last_band :: "BoxRec list \<Rightarrow> nat \<Rightarrow> bool" where
  "last_band rs k \<longleftrightarrow> k \<le> length rs \<and>
     (\<exists>y1 y2. in_rows y1 y2 (drop k rs) \<and> (\<forall>a\<in>set (take k rs). by2 a \<le> y1))"

definition ends_by :: "BoxRec list \<Rightarrow> int \<Rightarrow> bool" where
  "ends_by rs y \<longleftrightarrow> (\<forall>b\<in>set rs. by2 b \<le> y)"

lemma rows_of_stretched:
  "in_rows y1 y rs \<Longrightarrow> in_rows y1 y2 (map (\<lambda>b. b\<lparr>by2 := y2\<rparr>) rs)"
  by (auto simp: in_rows_def)

lemma xin_stretched: "xin (map (\<lambda>b. b\<lparr>by2 := y\<rparr>) rs) x = xin rs x"
  by (auto simp: xin_def)

lemma x_sorted_stretched: "x_sorted (map (\<lambda>b. b\<lparr>by2 := y\<rparr>) rs) = x_sorted rs"
  by (auto simp: x_sorted_def sorted_wrt_map)

lemma xin_same: "list_all2 (\<lambda>p c. bx1 p = bx1 c \<and> bx2 p = bx2 c) ps cs \<Longrightarrow> xin ps x = xin cs x"
  by (induction ps cs rule: list_all2_induct) auto

lemma banded_below:
  assumes "banded rs" "ends_by rs y1" "in_rows y1 y2 new" "x_sorted new" "y1 < y2"
  shows "banded (rs @ new)"
  using assms banded_rows [OF assms(3,5)]
  by (auto simp: banded_append ends_by_def in_rows_def follows_def)

text \<open>Adding a band below the boxes built so far, and coalescing it with the previous one.\<close>

lemma Coalesce_band:
  assumes rs: "banded rs" "ends_by rs y1" "last_band rs pb"
    and new: "in_rows y1 y2 new" "x_sorted new" "y1 < y2"
    and res: "Coalesce (rs @ new) pb (length rs) = (rs', pb')"
  shows "banded rs'" "ends_by rs' y2" "last_band rs' pb'"
    "(x, y) \<in> pts rs' \<longleftrightarrow> (x, y) \<in> pts rs \<or> (y1 \<le> y \<and> y < y2 \<and> xin new x)"
proof -
  have app: "banded (rs @ new)" "ends_by (rs @ new) y2" "last_band (rs @ new) (length rs)"
    "(x, y) \<in> pts (rs @ new) \<longleftrightarrow> (x, y) \<in> pts rs \<or> (y1 \<le> y \<and> y < y2 \<and> xin new x)"
    using banded_below [OF rs(1,2) new] rs(2) new pts_rows [OF new(1)]
    by (auto simp: ends_by_def in_rows_def last_band_def intro: order_trans)
  define prev where "prev = drop pb rs"
  define pre where "pre = take pb rs"
  have pb: "pb \<le> length rs" using rs(3) by (simp add: last_band_def)
  have rs_eq: "rs = pre @ prev" by (simp add: pre_def prev_def)
  have prev': "take (length rs - pb) (drop pb (rs @ new)) = prev"
    using pb by (simp add: prev_def)
  have pre': "take pb (rs @ new) = pre" using pb by (simp add: pre_def)
  let ?merged = "prev \<noteq> [] \<and> by2 (hd prev) = by1 (hd new) \<and>
    list_all2 (\<lambda>p c. bx1 p = bx1 c \<and> bx2 p = bx2 c) prev new"
  have "(rs', pb') = (rs @ new, length rs) \<or>
    (?merged \<and> (rs', pb') = (pre @ map (\<lambda>b. b\<lparr>by2 := by2 (hd new)\<rparr>) prev, pb))"
    using res pb prev'
    by (auto simp: Coalesce_def miCoalesce_def Let_def pre_def prev_def split: if_splits)
  then have "banded rs' \<and> ends_by rs' y2 \<and> last_band rs' pb' \<and>
      ((x, y) \<in> pts rs' \<longleftrightarrow> (x, y) \<in> pts rs \<or> (y1 \<le> y \<and> y < y2 \<and> xin new x))"
  proof (elim disjE conjE)
    assume "(rs', pb') = (rs @ new, length rs)"
    then show "banded rs' \<and> ends_by rs' y2 \<and> last_band rs' pb' \<and>
      ((x, y) \<in> pts rs' \<longleftrightarrow> (x, y) \<in> pts rs \<or> (y1 \<le> y \<and> y < y2 \<and> xin new x))"
      using app by simp
  next
    assume m: "prev \<noteq> []" "by2 (hd prev) = by1 (hd new)"
      and same: "list_all2 (\<lambda>p c. bx1 p = bx1 c \<and> bx2 p = bx2 c) prev new"
      and e: "(rs', pb') = (pre @ map (\<lambda>b. b\<lparr>by2 := by2 (hd new)\<rparr>) prev, pb)"
    have "new \<noteq> []" using m(1) same by auto
    then have hdn: "by1 (hd new) = y1" "by2 (hd new) = y2" using new(1) by (cases new; simp)+
    obtain z1 z2 where z: "in_rows z1 z2 prev" and above: "\<forall>a\<in>set pre. by2 a \<le> z1"
      using rs(3) by (auto simp: last_band_def prev_def pre_def)
    then have "z2 = y1" using m hdn by (cases prev) auto
    note z = z [unfolded this]
    let ?p = "map (\<lambda>b. b\<lparr>by2 := y2\<rparr>) prev"
    have b: "banded pre" "banded prev" "\<forall>a\<in>set pre. \<forall>b\<in>set prev. follows a b"
      using rs(1) by (simp_all add: rs_eq banded_append)
    have zy: "z1 < y1" using m(1) b(2) z by (cases prev) (auto simp: banded_Cons solid_def)
    have rows: "in_rows z1 y2 ?p" by (rule rows_of_stretched [OF z])
    have xs: "x_sorted prev" using banded_rows [OF z zy] b(2) by simp
    then have "banded ?p" using banded_rows [OF rows] zy new(3) by (simp add: x_sorted_stretched)
    moreover have "\<forall>a\<in>set pre. \<forall>b\<in>set ?p. follows a b"
      using above z by (auto simp: follows_def in_rows_def)
    ultimately have "banded rs'" using b(1) e hdn by (simp add: banded_append)
    moreover have "ends_by rs' y2"
    proof -
      have "by2 b \<le> y2" if "b \<in> set pre" for b
      proof -
        have "b \<in> set rs" using that by (simp add: rs_eq)
        then have "by2 b \<le> y1" using rs(2) by (simp add: ends_by_def)
        with new(3) show ?thesis by simp
      qed
      then show ?thesis using e hdn by (auto simp: ends_by_def)
    qed
    moreover have "last_band rs' pb'"
    proof -
      have "length pre = pb" using pb by (simp add: pre_def)
      then show ?thesis using e hdn rows above by (auto simp: last_band_def)
    qed
    moreover have "(x, y) \<in> pts rs' \<longleftrightarrow> (x, y) \<in> pts rs \<or> (y1 \<le> y \<and> y < y2 \<and> xin new x)"
      using e hdn zy new(3) xin_same [OF same, of x]
      by (auto simp: rs_eq pts_rows [OF rows] pts_rows [OF z] xin_stretched)
    ultimately show "banded rs' \<and> ends_by rs' y2 \<and> last_band rs' pb' \<and>
      ((x, y) \<in> pts rs' \<longleftrightarrow> (x, y) \<in> pts rs \<or> (y1 \<le> y \<and> y < y2 \<and> xin new x))" by blast
  qed
  then show "banded rs'" "ends_by rs' y2" "last_band rs' pb'"
    "(x, y) \<in> pts rs' \<longleftrightarrow> (x, y) \<in> pts rs \<or> (y1 \<le> y \<and> y < y2 \<and> xin new x)" by blast+
qed

end
