(* ===== verification/Regionop.thy ===== *)
theory Regionop
  imports Regionspec
begin

section \<open>The generic operator\<close>

text \<open>Which points an operation keeps: those of one region only, or of both.\<close>

definition sel :: "bool \<Rightarrow> bool \<Rightarrow> bool \<Rightarrow> bool \<Rightarrow> bool \<Rightarrow> bool" where
  "sel a1 a2 ov p q \<longleftrightarrow> (p \<and> \<not> q \<and> a1) \<or> (q \<and> \<not> p \<and> a2) \<or> (p \<and> q \<and> ov)"

lemma sel_simps [simp]:
  "sel a1 a2 ov False False = False"
  "sel a1 a2 ov p False = (p \<and> a1)"
  "sel a1 a2 ov False q = (q \<and> a2)"
  by (auto simp: sel_def)

definition op_inv :: "BoxRec list \<Rightarrow> BoxRec list \<Rightarrow> int \<Rightarrow> BoxRec list \<Rightarrow> nat \<Rightarrow> bool" where
  "op_inv r1 r2 ybot rects pb \<longleftrightarrow>
     banded r1 \<and> banded r2 \<and> banded rects \<and> ends_by rects ybot \<and> last_band rects pb \<and>
     (r1 \<noteq> [] \<longrightarrow> ybot < by2 (hd r1)) \<and> (r2 \<noteq> [] \<longrightarrow> ybot < by2 (hd r2)) \<and>
     (r1 \<noteq> [] \<and> r2 \<noteq> [] \<longrightarrow> ybot \<le> max (by1 (hd r1)) (by1 (hd r2)))"

lemma appended_rows:
  "in_rows y1 y2 (map (\<lambda>b. box (bx1 b) y1 (bx2 b) y2) r)"
  "x_sorted (map (\<lambda>b. box (bx1 b) y1 (bx2 b) y2) r) = x_sorted r"
  "xin (map (\<lambda>b. box (bx1 b) y1 (bx2 b) y2) r) x = xin r x"
  by (auto simp: in_rows_def x_sorted_def xin_def sorted_wrt_map)

lemma AppendNonO_band:
  assumes "banded rs" "ends_by rs y0" "y0 \<le> y1" "last_band rs pb" "banded r" "r \<noteq> []" "y1 < y2"
    and "Coalesce (miAppendNonO rs (band_of r) y1 y2) pb (length rs) = (rs', pb')"
  shows "banded rs'" "ends_by rs' y2" "last_band rs' pb'"
    "(x, y) \<in> pts rs' \<longleftrightarrow> (x, y) \<in> pts rs \<or> (y1 \<le> y \<and> y < y2 \<and> xin (band_of r) x)"
proof -
  have e: "ends_by rs y1" using assms(2,3) by (auto simp: ends_by_def)
  have s: "x_sorted (map (\<lambda>b. box (bx1 b) y1 (bx2 b) y2) (band_of r))"
    using x_sorted_band [OF assms(5,6)] by (simp add: appended_rows)
  note C = Coalesce_band [OF assms(1) e assms(4) appended_rows(1) s assms(7)
      assms(8) [unfolded miAppendNonO_def]]
  show "banded rs'" "ends_by rs' y2" "last_band rs' pb'" by (rule C(1-3))+
  show "(x, y) \<in> pts rs' \<longleftrightarrow> (x, y) \<in> pts rs \<or> (y1 \<le> y \<and> y < y2 \<and> xin (band_of r) x)"
    by (simp add: C(4) appended_rows)
qed

definition grown :: "BoxRec list \<Rightarrow> BoxRec list \<Rightarrow> nat \<Rightarrow> int \<Rightarrow> int \<Rightarrow> (int \<Rightarrow> int \<Rightarrow> bool) \<Rightarrow> bool" where
  "grown rs rs' pb' y1 y2 P \<longleftrightarrow> banded rs' \<and> ends_by rs' y2 \<and> last_band rs' pb' \<and>
     (\<forall>x y. (x, y) \<in> pts rs' \<longleftrightarrow> (x, y) \<in> pts rs \<or> (y1 \<le> y \<and> y < y2 \<and> P x y))"

lemma grown_trans:
  assumes "grown rs rs1 pb1 y0 y1 P" "grown rs1 rs2 pb2 y1 y2 P" "y0 \<le> y1" "y1 \<le> y2"
  shows "grown rs rs2 pb2 y0 y2 P"
  using assms by (auto simp: grown_def) 

lemma grown_none:
  assumes "banded rs" "ends_by rs y1" "last_band rs pb" "y1 \<le> y2"
    "\<And>x y. y1 \<le> y \<Longrightarrow> y < y2 \<Longrightarrow> \<not> P x y"
  shows "grown rs rs pb y1 y2 P"
  using assms by (auto simp: grown_def ends_by_def)

lemma grown_band:
  assumes "banded rs" "ends_by rs y0" "last_band rs pb" "banded r" "r \<noteq> []" "y0 < y2"
    and t: "tp = max (by1 (hd r)) y0"
    and c: "tp \<noteq> y2 \<Longrightarrow> Coalesce (miAppendNonO rs (band_of r) tp y2) pb (length rs) = (rs', pb')"
    and n: "tp = y2 \<Longrightarrow> (rs', pb') = (rs, pb)"
    and le: "by1 (hd r) \<le> y2" "y2 \<le> by2 (hd r)"
    and P: "\<And>x y. y0 \<le> y \<Longrightarrow> y < y2 \<Longrightarrow> P x y \<longleftrightarrow> (x, y) \<in> pts r"
  shows "grown rs rs' pb' y0 y2 P"
proof (cases "tp = y2")
  case True
  then have "\<And>x y. y0 \<le> y \<Longrightarrow> y < y2 \<Longrightarrow> \<not> P x y"
    using P pts_above [OF assms(4,5)] t assms(6) by (auto simp: max_def split: if_splits)
  then show ?thesis using n [OF True] grown_none [OF assms(1-3)] assms(6) by simp
next
  case False
  then have tb: "tp < y2" using le(1) assms(6) t by (auto simp: max_def split: if_splits)
  have t0: "y0 \<le> tp" using t by simp
  note A = AppendNonO_band [OF assms(1,2) t0 assms(3,4,5) tb c [OF False]]
  have "y0 \<le> y \<and> y < y2 \<and> P x y \<longleftrightarrow> tp \<le> y \<and> y < y2 \<and> xin (band_of r) x" for x y
    using P [of y x] pts_in_band [OF assms(4,5), of y x] le t by auto
  with A show ?thesis by (simp add: grown_def)
qed

lemma nonoverlap_step_grown:
  assumes inv: "op_inv r1 r2 ybot rects pb" and ne: "r1 \<noteq> []" "r2 \<noteq> []"
    and res: "nonoverlap_step a1 a2 r1 r2 ybot rects pb = (rects', pb')"
    and ybot': "ybot' = min (by2 (hd r1)) (by2 (hd r2))"
    and m: "m = max (by1 (hd r1)) (by1 (hd r2))"
  shows "grown rects rects' pb' ybot (min m ybot') (\<lambda>x y. sel a1 a2 ov ((x, y) \<in> pts r1) ((x, y) \<in> pts r2))"
    (is "grown _ _ _ _ _ ?P")
proof -
  have I: "banded r1" "banded r2" "banded rects" "ends_by rects ybot" "last_band rects pb"
    "ybot < by2 (hd r1)" "ybot < by2 (hd r2)" "ybot \<le> m"
    using inv ne by (simp_all add: op_inv_def m)
  have le: "ybot \<le> min m ybot'" using I ybot' by simp
  have b: "by1 (hd r1) < by2 (hd r1)" "by1 (hd r2) < by2 (hd r2)" using I ne banded_hd by blast+
  consider (lt) "by1 (hd r1) < by1 (hd r2)" | (gt) "by1 (hd r2) < by1 (hd r1)"
    | (eq) "by1 (hd r1) = by1 (hd r2)" by linarith
  then show ?thesis
  proof cases
    case lt
    let ?bot = "min (by2 (hd r1)) (by1 (hd r2))"
    have bot: "min m ybot' = ?bot" using lt b by (auto simp: m ybot')
    have P: "?P x y \<longleftrightarrow> (x, y) \<in> pts r1 \<and> a1" if "y < ?bot" for x y
      using pts_above [OF I(2) ne(2), of y x] that by simp
    show ?thesis
    proof (cases "a1 \<and> ybot < ?bot")
      case True
      show ?thesis unfolding bot
        by (rule grown_band [OF I(3,4,5,1) ne(1), of _ "max (by1 (hd r1)) ybot"])
          (use True res lt P b in \<open>auto simp: nonoverlap_step_def Let_def split: if_splits\<close>)
    next
      case False
      have "(rects', pb') = (rects, pb)"
        using False res lt le bot b I by (auto simp: nonoverlap_step_def Let_def max_def split: if_splits)
      then show ?thesis using grown_none [OF I(3,4,5) le] P bot False by auto
    qed
  next
    case gt
    let ?bot = "min (by2 (hd r2)) (by1 (hd r1))"
    have bot: "min m ybot' = ?bot" using gt b by (auto simp: m ybot')
    have P: "?P x y \<longleftrightarrow> (x, y) \<in> pts r2 \<and> a2" if "y < ?bot" for x y
      using pts_above [OF I(1) ne(1), of y x] that by simp
    show ?thesis
    proof (cases "a2 \<and> ybot < ?bot")
      case True
      show ?thesis unfolding bot
        by (rule grown_band [OF I(3,4,5,2) ne(2), of _ "max (by1 (hd r2)) ybot"])
          (use True res gt P b in \<open>auto simp: nonoverlap_step_def Let_def split: if_splits\<close>)
    next
      case False
      have "(rects', pb') = (rects, pb)"
        using False res gt le bot b I by (auto simp: nonoverlap_step_def Let_def max_def split: if_splits)
      then show ?thesis using grown_none [OF I(3,4,5) le] P bot False by auto
    qed
  next
    case eq
    then have "(rects', pb') = (rects, pb)" using res by (simp add: nonoverlap_step_def)
    moreover have "\<not> ?P x y" if "y < min m ybot'" for x y
      using pts_above [OF I(1) ne(1), of y x] pts_above [OF I(2) ne(2), of y x] that eq by (simp add: m)
    ultimately show ?thesis using grown_none [OF I(3,4,5) le] by simp
  qed
qed

section \<open>Overlap functions\<close>

text \<open>
  The contract between miRegionOp and the function it is given for overlapping bands, with the
  theorem that miRegionOp owes in return.
\<close>

locale band_overlap =
  fixes f :: overlap_fn and a1 a2 ov :: bool
  assumes rows: "r1 \<noteq> [] \<Longrightarrow> r2 \<noteq> [] \<Longrightarrow> in_rows y1 y2 (f r1 r2 y1 y2)"
    and apart: "x_sorted r1 \<Longrightarrow> x_sorted r2 \<Longrightarrow> r1 \<noteq> [] \<Longrightarrow> r2 \<noteq> [] \<Longrightarrow> x_sorted (f r1 r2 y1 y2)"
    and covers: "x_sorted r1 \<Longrightarrow> x_sorted r2 \<Longrightarrow> r1 \<noteq> [] \<Longrightarrow> r2 \<noteq> [] \<Longrightarrow>
      xin (f r1 r2 y1 y2) x \<longleftrightarrow> sel a1 a2 ov (xin r1 x) (xin r2 x)"
begin

lemma overlap_step_grown:
  assumes r: "banded r1" "banded r2" "r1 \<noteq> []" "r2 \<noteq> []"
    and rs: "banded rects" "ends_by rects (min m ybot')" "last_band rects pb"
    and res: "overlap_step f r1 r2 rects pb = (rects', pb')"
    and ybot': "ybot' = min (by2 (hd r1)) (by2 (hd r2))"
    and m: "m = max (by1 (hd r1)) (by1 (hd r2))"
  shows "grown rects rects' pb' (min m ybot') ybot' (\<lambda>x y. sel a1 a2 ov ((x, y) \<in> pts r1) ((x, y) \<in> pts r2))"
    (is "grown _ _ _ _ _ ?P")
proof (cases "m < ybot'")
  case True
  let ?new = "f (band_of r1) (band_of r2) m ybot'"
  have bne: "band_of r1 \<noteq> []" "band_of r2 \<noteq> []" using r band_of_ne by blast+
  have xs: "x_sorted (band_of r1)" "x_sorted (band_of r2)" using r x_sorted_band by blast+
  have e: "ends_by rects m" using rs(2) True by simp
  have C: "Coalesce (rects @ ?new) pb (length rects) = (rects', pb')"
    using res True by (simp add: overlap_step_def Let_def m ybot')
  note G = Coalesce_band [OF rs(1) e rs(3) rows [OF bne] apart [OF xs bne] True C]
  have "?P x y \<longleftrightarrow> xin ?new x" if "m \<le> y" "y < ybot'" for x y
    using that pts_in_band [OF r(1,3), of y x] pts_in_band [OF r(2,4), of y x]
    by (simp add: covers [OF xs bne] m ybot')
  with G True show ?thesis by (auto simp: grown_def)
next
  case False
  then have "(rects', pb') = (rects, pb)"
    using res [unfolded overlap_step_def Let_def, folded m ybot'] by simp
  then show ?thesis using grown_none [OF rs(1,2,3)] False by auto
qed

lemma loop_step:
  assumes inv: "op_inv r1 r2 ybot rects pb" and ne: "r1 \<noteq> []" "r2 \<noteq> []"
    and s1: "nonoverlap_step a1 a2 r1 r2 ybot rects pb = (rects1, pb1)"
    and s2: "overlap_step f r1 r2 rects1 pb1 = (rects', pb')"
    and ybot': "ybot' = min (by2 (hd r1)) (by2 (hd r2))"
  shows "grown rects rects' pb' ybot ybot' (\<lambda>x y. sel a1 a2 ov ((x, y) \<in> pts r1) ((x, y) \<in> pts r2))"
proof -
  let ?m = "max (by1 (hd r1)) (by1 (hd r2))"
  have b: "banded r1" "banded r2" "ybot \<le> min ?m ybot'"
    using inv ne by (auto simp: op_inv_def ybot')
  note G1 = nonoverlap_step_grown [OF inv ne s1 ybot' refl, of ov]
  have "grown rects1 rects' pb' (min ?m ybot') ybot'
      (\<lambda>x y. sel a1 a2 ov ((x, y) \<in> pts r1) ((x, y) \<in> pts r2))"
    by (rule overlap_step_grown [OF b(1,2) ne _ _ _ s2 ybot' refl]) (use G1 in \<open>simp_all add: grown_def\<close>)
  from grown_trans [OF G1 this b(3)] show ?thesis by simp
qed

end

definition next_band :: "BoxRec list \<Rightarrow> int \<Rightarrow> BoxRec list" where
  "next_band r y = (if by2 (hd r) = y then after_band r else r)"

lemma next_band_banded: "banded r \<Longrightarrow> banded (next_band r y)"
  by (simp add: next_band_def banded_band)

lemma next_band_pts: "banded r \<Longrightarrow> y' \<le> y \<Longrightarrow> (x, y) \<in> pts (next_band r y') \<longleftrightarrow> (x, y) \<in> pts r"
  using pts_below_band by (auto simp: next_band_def)

lemma next_band_below:
  assumes "banded r" "r \<noteq> []" "y \<le> by2 (hd r)" "next_band r y \<noteq> []"
  shows "y < by2 (hd (next_band r y))" "by2 (hd r) = y \<Longrightarrow> y \<le> by1 (hd (next_band r y))"
proof -
  show 1: "y \<le> by1 (hd (next_band r y))" if "by2 (hd r) = y"
    using banded_tail_below [OF assms(1,2) hd_in_set] assms(4) that by (simp add: next_band_def)
  show "y < by2 (hd (next_band r y))"
    using 1 banded_hd [OF next_band_banded [OF assms(1)] assms(4)] assms(3)
    by (cases "by2 (hd r) = y") (auto simp: next_band_def)
qed

lemma op_inv_step:
  assumes inv: "op_inv r1 r2 ybot rects pb" and ne: "r1 \<noteq> []" "r2 \<noteq> []"
    and ybot': "ybot' = min (by2 (hd r1)) (by2 (hd r2))"
    and g: "grown rects rects' pb' ybot ybot' P"
  shows "op_inv (next_band r1 ybot') (next_band r2 ybot') ybot' rects' pb'"
proof -
  have b: "banded r1" "banded r2" using inv by (simp_all add: op_inv_def)
  have le: "ybot' \<le> by2 (hd r1)" "ybot' \<le> by2 (hd r2)" using ybot' by simp_all
  have "ybot' \<le> max (by1 (hd (next_band r1 ybot'))) (by1 (hd (next_band r2 ybot')))"
    if "next_band r1 ybot' \<noteq> []" "next_band r2 ybot' \<noteq> []"
  proof (cases "by2 (hd r1) = ybot'")
    case True
    then show ?thesis using next_band_below(2) [OF b(1) ne(1) le(1) that(1)] by simp
  next
    case False
    then have "by2 (hd r2) = ybot'" using ybot' by (simp add: min_def split: if_splits)
    then show ?thesis using next_band_below(2) [OF b(2) ne(2) le(2) that(2)] by simp
  qed
  then show ?thesis
    using g next_band_below(1) [OF b(1) ne(1) le(1)] next_band_below(1) [OF b(2) ne(2) le(2)]
    by (auto simp: op_inv_def grown_def next_band_banded [OF b(1)] next_band_banded [OF b(2)])
qed

lemma op_finish_correct:
  assumes inv: "op_inv r1 r2 ybot rects pb" and e: "r1 = [] \<or> r2 = []"
  shows "banded (op_finish a1 a2 r1 r2 ybot rects pb)"
    "(x, y) \<in> pts (op_finish a1 a2 r1 r2 ybot rects pb) \<longleftrightarrow>
      (x, y) \<in> pts rects \<or> (ybot \<le> y \<and> sel a1 a2 ov ((x, y) \<in> pts r1) ((x, y) \<in> pts r2))"
proof -
  define rest where "rest r = fst (Coalesce (miAppendNonO rects (band_of r) (max (by1 (hd r)) ybot) (by2 (hd r)))
         pb (length rects)) @ after_band r" for r
  have I: "banded rects" "ends_by rects ybot" "last_band rects pb" using inv by (simp_all add: op_inv_def)
  have R: "banded (rest r) \<and> ((x, y) \<in> pts (rest r) \<longleftrightarrow> (x, y) \<in> pts rects \<or> ybot \<le> y \<and> (x, y) \<in> pts r)"
    if r: "banded r" "r \<noteq> []" "ybot < by2 (hd r)" for r
  proof -
    obtain rs' pb' where C: "Coalesce (miAppendNonO rects (band_of r) (max (by1 (hd r)) ybot) (by2 (hd r)))
         pb (length rects) = (rs', pb')" by fastforce
    have "max (by1 (hd r)) ybot < by2 (hd r)" using r banded_hd by simp
    note A = AppendNonO_band [OF I(1,2) max.cobounded2 I(3) r(1,2) this C]
    have "follows a c" if "a \<in> set rs'" "c \<in> set (after_band r)" for a c
      using A(2) that banded_tail_below [OF r(1,2) that(2)] by (fastforce simp: ends_by_def follows_def)
    then have "banded (rest r)" by (simp add: rest_def C banded_append A(1) banded_band(2) [OF r(1)])
    moreover have "(x, y) \<in> pts (rest r) \<longleftrightarrow> (x, y) \<in> pts rects \<or> ybot \<le> y \<and> (x, y) \<in> pts r"
    proof (cases "y < by2 (hd r)")
      case True
      then have "(x, y) \<notin> pts (after_band r)"
        using banded_tail_below [OF r(1,2)] by (fastforce simp: mem_pts INBOX_def)
      then show ?thesis using True pts_in_band [OF r(1,2) True, of x] A(4) [of x y] by (auto simp: rest_def C)
    next
      case False
      then show ?thesis using r(3) pts_below_band [OF r(1), of y x] A(4) [of x y] by (auto simp: rest_def C)
    qed
    ultimately show ?thesis by blast
  qed
  have fin: "op_finish a1 a2 r1 r2 ybot rects pb =
      (if r1 \<noteq> [] \<and> a1 then rest r1 else if r2 \<noteq> [] \<and> a2 then rest r2 else rects)"
    by (simp add: op_finish_def rest_def)
  have "banded (op_finish a1 a2 r1 r2 ybot rects pb) \<and>
    ((x, y) \<in> pts (op_finish a1 a2 r1 r2 ybot rects pb) \<longleftrightarrow>
      (x, y) \<in> pts rects \<or> (ybot \<le> y \<and> sel a1 a2 ov ((x, y) \<in> pts r1) ((x, y) \<in> pts r2)))"
    using e R [of r1] R [of r2] inv I(1) by (auto simp: fin op_inv_def)
  then show "banded (op_finish a1 a2 r1 r2 ybot rects pb)"
    "(x, y) \<in> pts (op_finish a1 a2 r1 r2 ybot rects pb) \<longleftrightarrow>
      (x, y) \<in> pts rects \<or> (ybot \<le> y \<and> sel a1 a2 ov ((x, y) \<in> pts r1) ((x, y) \<in> pts r2))" by blast+
qed

context band_overlap begin

lemma loop_correct:
  assumes "op_inv r1 r2 ybot rects pb"
    and "op_loop f a1 a2 r1 r2 ybot rects pb = (r1', r2', yb', rects', pb')"
  shows "op_inv r1' r2' yb' rects' pb' \<and> (r1' = [] \<or> r2' = []) \<and>
    ((x, y) \<in> pts rects' \<or> (yb' \<le> y \<and> sel a1 a2 ov ((x, y) \<in> pts r1') ((x, y) \<in> pts r2')) \<longleftrightarrow>
     (x, y) \<in> pts rects \<or> (ybot \<le> y \<and> sel a1 a2 ov ((x, y) \<in> pts r1) ((x, y) \<in> pts r2)))"
  using assms
proof (induction "length r1 + length r2" arbitrary: r1 r2 ybot rects pb rule: less_induct)
  case less
  show ?case
  proof (cases "r1 = [] \<or> r2 = []")
    case True
    with less.prems show ?thesis by (auto simp: op_loop.simps)
  next
    case False
    then have ne: "r1 \<noteq> []" "r2 \<noteq> []" by simp_all
    define yb where "yb = min (by2 (hd r1)) (by2 (hd r2))"
    obtain rs1 pb1 where s1: "nonoverlap_step a1 a2 r1 r2 ybot rects pb = (rs1, pb1)" by fastforce
    obtain rs2 pb2 where s2: "overlap_step f r1 r2 rs1 pb1 = (rs2, pb2)" by fastforce
    have b: "banded r1" "banded r2" using less.prems(1) by (simp_all add: op_inv_def)
    note G = loop_step [OF less.prems(1) ne s1 s2 yb_def]
    note I = op_inv_step [OF less.prems(1) ne yb_def G]
    have L: "op_loop f a1 a2 (next_band r1 yb) (next_band r2 yb) yb rs2 pb2 = (r1', r2', yb', rects', pb')"
      using less.prems(2) False s1 s2
      by (simp add: op_loop.simps [of f a1 a2 r1 r2] Let_def next_band_def yb_def)
    have "length (next_band r1 yb) + length (next_band r2 yb) < length r1 + length r2"
      using length_after_band [OF ne(1)] length_after_band [OF ne(2)]
      by (auto simp: next_band_def yb_def min_def)
    note IH = less.hyps [OF this I L]
    have "ybot \<le> yb" using less.prems(1) ne by (simp add: op_inv_def yb_def)
    with IH G next_band_pts [OF b(1), of yb y x] next_band_pts [OF b(2), of yb y x]
    show ?thesis by (auto simp: grown_def)
  qed
qed

lemma op_rects_correct:
  assumes "banded r1" "banded r2" "r1 \<noteq> []" "r2 \<noteq> []"
  shows "banded (op_rects f a1 a2 r1 r2)"
    "(x, y) \<in> pts (op_rects f a1 a2 r1 r2) \<longleftrightarrow> sel a1 a2 ov ((x, y) \<in> pts r1) ((x, y) \<in> pts r2)"
proof -
  define ybot where "ybot = min (by1 (hd r1)) (by1 (hd r2))"
  obtain r1' r2' yb rs pb where L: "op_loop f a1 a2 r1 r2 ybot [] 0 = (r1', r2', yb, rs, pb)"
    by (metis prod_cases5)
  have inv: "op_inv r1 r2 ybot [] 0"
    using assms banded_hd [of r1] banded_hd [of r2]
    by (auto simp: op_inv_def ybot_def ends_by_def last_band_def)
  note C = loop_correct [OF inv L]
  have e: "op_rects f a1 a2 r1 r2 = op_finish a1 a2 r1' r2' yb rs pb"
    by (simp add: op_rects_def L flip: ybot_def)
  show "banded (op_rects f a1 a2 r1 r2)" using C op_finish_correct(1) by (simp add: e)
  have "(x, y) \<in> pts (op_rects f a1 a2 r1 r2) \<longleftrightarrow>
      ybot \<le> y \<and> sel a1 a2 ov ((x, y) \<in> pts r1) ((x, y) \<in> pts r2)"
    using C [of x y] op_finish_correct(2) [of r1' r2' yb rs pb x y a1 a2 ov] by (simp add: e)
  moreover have "ybot \<le> y" if "(x, y) \<in> pts r1 \<or> (x, y) \<in> pts r2"
    using that pts_above [OF assms(1,3), of y x] pts_above [OF assms(2,4), of y x]
    by (fastforce simp: ybot_def)
  ultimately show "(x, y) \<in> pts (op_rects f a1 a2 r1 r2) \<longleftrightarrow> sel a1 a2 ov ((x, y) \<in> pts r1) ((x, y) \<in> pts r2)"
    by (auto simp: sel_def)
qed

end

section \<open>The three overlap functions\<close>

subsection \<open>Intersection\<close>

lemma intersectO_bounds:
  "c \<in> set (intersectO y1 y2 r1 r2) \<Longrightarrow> by1 c = y1 \<and> by2 c = y2 \<and>
     (\<exists>a\<in>set r1. bx1 a \<le> bx1 c) \<and> (\<exists>b\<in>set r2. bx1 b \<le> bx1 c)"
proof (induction y1 y2 r1 r2 rule: intersectO.induct)
  case (1 y1 y2 r1 r2)
  show ?case
  proof (cases "r1 = [] \<or> r2 = []")
    case True
    with 1(2) show ?thesis by (simp add: intersectO.simps)
  next
    case False
    let ?x1 = "max (bx1 (hd r1)) (bx1 (hd r2))" and ?x2 = "min (bx2 (hd r1)) (bx2 (hd r2))"
    let ?r1 = "if bx2 (hd r1) = ?x2 then tl r1 else r1" and ?r2 = "if bx2 (hd r2) = ?x2 then tl r2 else r2"
    have "set ?r1 \<subseteq> set r1" "set ?r2 \<subseteq> set r2" using False by (auto dest: list.set_sel(2))
    moreover have "c = box ?x1 y1 ?x2 y2 \<or> c \<in> set (intersectO y1 y2 ?r1 ?r2)"
      using 1(2) False by (subst (asm) intersectO.simps) (auto simp: Let_def split: if_splits)
    ultimately show ?thesis
      using 1(1) [OF False refl refl refl refl] False
      by (metis BoxRec.select_convs(1,2,4) hd_in_set in_mono max.cobounded1 max.cobounded2)
  qed
qed

lemma xin_tl_out: "x_sorted (a # r) \<Longrightarrow> x \<le> bx2 a \<Longrightarrow> \<not> xin r x"
  by (force simp: x_sorted_Cons xin_def)

lemma intersectO_correct:
  "x_sorted r1 \<Longrightarrow> x_sorted r2 \<Longrightarrow>
    x_sorted (intersectO y1 y2 r1 r2) \<and> (xin (intersectO y1 y2 r1 r2) x \<longleftrightarrow> xin r1 x \<and> xin r2 x)"
proof (induction y1 y2 r1 r2 rule: intersectO.induct)
  case (1 y1 y2 r1 r2)
  show ?case
  proof (cases "r1 = [] \<or> r2 = []")
    case True
    then show ?thesis by (auto simp: intersectO.simps)
  next
    case False
    then obtain a s1 b s2 where r: "r1 = a # s1" "r2 = b # s2" by (meson list.exhaust)
    let ?x1 = "max (bx1 a) (bx1 b)" and ?x2 = "min (bx2 a) (bx2 b)"
    let ?r1 = "if bx2 a = ?x2 then s1 else a # s1" and ?r2 = "if bx2 b = ?x2 then s2 else b # s2"
    have s: "x_sorted s1" "x_sorted s2" using 1(2,3) by (simp_all add: r x_sorted_Cons)
    have IH: "x_sorted (intersectO y1 y2 ?r1 ?r2) \<and> (xin (intersectO y1 y2 ?r1 ?r2) x \<longleftrightarrow> xin ?r1 x \<and> xin ?r2 x)"
      using 1(1) [OF False refl refl refl refl, unfolded r list.sel] 1(2,3) s by (simp add: r)
    have eq: "intersectO y1 y2 r1 r2 =
        (if ?x1 < ?x2 then [box ?x1 y1 ?x2 y2] else []) @ intersectO y1 y2 ?r1 ?r2"
      by (subst intersectO.simps) (simp add: r Let_def)
    have later: "?x2 < bx1 c" if c: "c \<in> set (intersectO y1 y2 ?r1 ?r2)" for c
    proof -
      obtain p q where "p \<in> set ?r1" "q \<in> set ?r2" "bx1 p \<le> bx1 c" "bx1 q \<le> bx1 c"
        using intersectO_bounds [OF c] by blast
      then show ?thesis using 1(2,3)
        by (cases "bx2 a = ?x2") (force simp: r x_sorted_Cons split: if_splits)+
    qed
    have "x_sorted (intersectO y1 y2 r1 r2)"
      using IH later by (auto simp: eq x_sorted_Cons)
    moreover have "xin (intersectO y1 y2 r1 r2) x \<longleftrightarrow> xin r1 x \<and> xin r2 x"
      using IH xin_tl_out [OF 1(2) [unfolded r], of x] xin_tl_out [OF 1(3) [unfolded r], of x]
      unfolding r eq [unfolded r] by (auto simp: min_def max_def split: if_splits)
    ultimately show ?thesis by blast
  qed
qed

interpretation inter: band_overlap miIntersectO False False True
proof
  fix r1 r2 :: "BoxRec list" and y1 y2
  show "in_rows y1 y2 (miIntersectO r1 r2 y1 y2)"
    using intersectO_bounds by (fastforce simp: in_rows_def miIntersectO_def)
next
  fix r1 r2 :: "BoxRec list" and y1 y2 x
  assume "x_sorted r1" "x_sorted r2"
  from intersectO_correct [OF this]
  show "x_sorted (miIntersectO r1 r2 y1 y2)"
    "xin (miIntersectO r1 r2 y1 y2) x = sel False False True (xin r1 x) (xin r2 x)"
    by (simp_all add: miIntersectO_def sel_def)
qed

subsection \<open>Union\<close>

lemma merge_rects_correct:
  "sorted (map bx1 rs) \<Longrightarrow> \<forall>r\<in>set rs. x1 \<le> bx1 r \<and> bx1 r < bx2 r \<Longrightarrow> x1 < x2 \<Longrightarrow>
    x_sorted (merge_rects y1 y2 x1 x2 rs) \<and> in_rows y1 y2 (merge_rects y1 y2 x1 x2 rs) \<and>
    (\<forall>c\<in>set (merge_rects y1 y2 x1 x2 rs). x1 \<le> bx1 c) \<and>
    (xin (merge_rects y1 y2 x1 x2 rs) x \<longleftrightarrow> x1 \<le> x \<and> x < x2 \<or> xin rs x)"
proof (induction y1 y2 x1 x2 rs rule: merge_rects.induct)
  case (1 y1 y2 x1 x2)
  then show ?case by (simp add: x_sorted_Cons)
next
  case (2 y1 y2 x1 x2 r rs)
  show ?case
  proof (cases "bx1 r \<le> x2")
    case True
    with 2 show ?thesis by auto
  next
    case False
    with 2 have IH: "x_sorted (merge_rects y1 y2 (bx1 r) (bx2 r) rs)"
      "in_rows y1 y2 (merge_rects y1 y2 (bx1 r) (bx2 r) rs)"
      "\<forall>c\<in>set (merge_rects y1 y2 (bx1 r) (bx2 r) rs). bx1 r \<le> bx1 c"
      "xin (merge_rects y1 y2 (bx1 r) (bx2 r) rs) x \<longleftrightarrow> bx1 r \<le> x \<and> x < bx2 r \<or> xin rs x"
      by auto
    with False 2(5) show ?thesis by (force simp: x_sorted_Cons)
  qed
qed

lemma pick_leftmost_set: "set (pick_leftmost r1 r2) = set r1 \<union> set r2"
  by (induction r1 r2 rule: pick_leftmost.induct) auto

lemma pick_leftmost_sorted:
  "sorted (map bx1 r1) \<Longrightarrow> sorted (map bx1 r2) \<Longrightarrow> sorted (map bx1 (pick_leftmost r1 r2))"
  by (induction r1 r2 rule: pick_leftmost.induct) (auto simp: pick_leftmost_set)

lemma x_sorted_starts: "x_sorted r \<Longrightarrow> sorted (map bx1 r)"
  by (induction r) (force simp: x_sorted_Cons)+

lemma miUnionO_correct:
  assumes "x_sorted r1" "x_sorted r2"
  shows "x_sorted (miUnionO r1 r2 y1 y2) \<and> in_rows y1 y2 (miUnionO r1 r2 y1 y2) \<and>
    (xin (miUnionO r1 r2 y1 y2) x \<longleftrightarrow> xin r1 x \<or> xin r2 x)"
proof (cases "pick_leftmost r1 r2")
  case Nil
  then have "r1 = []" "r2 = []" using pick_leftmost_set [of r1 r2] by simp_all
  then show ?thesis by (simp add: miUnionO_def)
next
  case (Cons r rs)
  have s: "sorted (map bx1 (r # rs))"
    using pick_leftmost_sorted [OF assms [THEN x_sorted_starts]] by (simp add: Cons)
  have w: "\<forall>c\<in>set (r # rs). bx1 c < bx2 c"
    using assms pick_leftmost_set [of r1 r2] by (auto simp: Cons x_sorted_def)
  have "xin (r # rs) x \<longleftrightarrow> xin r1 x \<or> xin r2 x"
    using pick_leftmost_set [of r1 r2] by (auto simp: xin_def Cons)
  then show ?thesis
    using s w merge_rects_correct [of rs "bx1 r" "bx2 r" y1 y2 x] by (simp add: miUnionO_def Cons)
qed

lemma pick_leftmost_Nil2 [simp]: "pick_leftmost r [] = r"
  by (cases r) simp_all

lemma miUnionO_rows:
  assumes "r1 \<noteq> []" shows "in_rows y1 y2 (miUnionO r1 r2 y1 y2)"
proof -
  have "in_rows y1 y2 (merge_rects y1 y2 x1 x2 rs)" for x1 x2 rs
    by (induction y1 y2 x1 x2 rs rule: merge_rects.induct) auto
  then show ?thesis by (simp add: miUnionO_def split: list.split)
qed

interpretation union: band_overlap miUnionO True True True
  by unfold_locales (auto simp: miUnionO_rows miUnionO_correct sel_def)

subsection \<open>Subtraction\<close>

lemma subtractO_rows: "in_rows y1 y2 (subtractO y1 y2 x1 r1 r2)"
proof (induction "length r1 + length r2" arbitrary: x1 r1 r2 rule: less_induct)
  case less
  show ?case
  proof (cases r1)
    case Nil
    then show ?thesis by simp
  next
    case (Cons a s)
    then show ?thesis by (cases r2) (simp_all add: less.hyps)
  qed
qed

text \<open>\<open>x1\<close> is inside the first minuend, and everything left of it is done.\<close>

definition sub_ok :: "int \<Rightarrow> int \<Rightarrow> int \<Rightarrow> BoxRec list \<Rightarrow> BoxRec list \<Rightarrow> int \<Rightarrow> bool" where
  "sub_ok y1 y2 x1 r1 r2 x \<longleftrightarrow> x_sorted (subtractO y1 y2 x1 r1 r2) \<and>
     (\<forall>c\<in>set (subtractO y1 y2 x1 r1 r2). x1 \<le> bx1 c) \<and>
     (xin (subtractO y1 y2 x1 r1 r2) x \<longleftrightarrow> x1 \<le> x \<and> xin r1 x \<and> \<not> xin r2 x)"

lemma sub_ok_next:
  fixes k y1 y2 x :: int and r1 r2 :: "BoxRec list"
  assumes ok: "r1 \<noteq> [] \<Longrightarrow> sub_ok y1 y2 (bx1 (hd r1)) r1 r2 x" and s: "x_sorted (a # r1)"
  defines "S \<equiv> subtractO y1 y2 (if r1 \<noteq> [] then bx1 (hd r1) else k) r1 r2"
  shows "x_sorted S" "\<forall>c\<in>set S. bx2 a < bx1 c" "xin S x \<longleftrightarrow> xin r1 x \<and> \<not> xin r2 x"
proof -
  have "x_sorted S \<and> (\<forall>c\<in>set S. bx2 a < bx1 c) \<and> (xin S x \<longleftrightarrow> xin r1 x \<and> \<not> xin r2 x)"
  proof (cases r1)
    case Nil
    then show ?thesis by (simp add: S_def)
  next
    case (Cons a' t)
    have "bx2 a < bx1 a'" "xin r1 x \<longrightarrow> bx1 a' \<le> x"
      using s by (force simp: Cons x_sorted_Cons xin_def)+
    then show ?thesis using ok by (force simp: S_def Cons sub_ok_def)
  qed
  then show "x_sorted S" "\<forall>c\<in>set S. bx2 a < bx1 c" "xin S x \<longleftrightarrow> xin r1 x \<and> \<not> xin r2 x" by blast+
qed

lemma subtractO_correct:
  "x_sorted r1 \<Longrightarrow> x_sorted r2 \<Longrightarrow> r1 \<noteq> [] \<Longrightarrow> bx1 (hd r1) \<le> x1 \<Longrightarrow> x1 < bx2 (hd r1) \<Longrightarrow>
    sub_ok y1 y2 x1 r1 r2 x"
proof (induction "length r1 + length r2" arbitrary: x1 r1 r2 rule: less_induct)
  case less
  then obtain a s where r1: "r1 = a # s" by (cases r1) auto
  have a: "bx1 a \<le> x1" "x1 < bx2 a" using less.prems by (simp_all add: r1)
  have xs: "x_sorted (a # s)" "x_sorted s" using less.prems(1) by (simp_all add: r1 x_sorted_Cons)
  have xs_out: "xin s x \<Longrightarrow> bx2 a < x" using xin_tl_out [OF xs(1), of x] by linarith
  have next_ok: "sub_ok y1 y2 (bx1 (hd s)) s r2 x" if "s \<noteq> []"
  proof -
    have "bx1 (hd s) < bx2 (hd s)" using xs(2) that by (cases s) (auto simp: x_sorted_Cons)
    then show ?thesis using less.hyps [of s r2 "bx1 (hd s)"] xs(2) less.prems(2) that by (simp add: r1)
  qed
  note N = sub_ok_next [OF next_ok xs(1)]
  show ?case
  proof (cases r2)
    case Nil
    show ?thesis using N [unfolded Nil] a xs_out
      by (fastforce simp: sub_ok_def r1 Nil x_sorted_Cons)
  next
    case (Cons b t)
    have t: "x_sorted t" and b: "bx1 b < bx2 b" using less.prems(2) by (simp_all add: Cons x_sorted_Cons)
    have t_out: "xin t x \<Longrightarrow> bx2 b < x" using xin_tl_out [of b t x] less.prems(2) Cons by fastforce
    have skip: "sub_ok y1 y2 x1' r1 t x" if "bx1 a \<le> x1'" "x1' < bx2 a" for x1'
      using less.hyps [of r1 t x1'] less.prems(1) t that by (simp add: r1 Cons)
    note N = N [unfolded Cons]
    consider (left) "bx2 b \<le> x1" | (cover) "x1 < bx2 b" "bx1 b \<le> x1" "bx2 a \<le> bx2 b"
      | (nuke) "x1 < bx2 b" "bx1 b \<le> x1" "bx2 b < bx2 a"
      | (cut) "x1 < bx1 b" "bx1 b < bx2 a" "bx2 a \<le> bx2 b"
      | (split) "x1 < bx1 b" "bx2 b < bx2 a"
      | (right) "bx2 a \<le> bx1 b" using a b by linarith
    then show ?thesis
    proof cases
      case left
      with skip [OF a] show ?thesis by (auto simp: sub_ok_def r1 Cons)
    next
      case cover
      with N [of "bx2 b"] xs_out a b show ?thesis by (fastforce simp: sub_ok_def r1 Cons)
    next
      case nuke
      with skip [of "bx2 b"] a xs_out t_out show ?thesis by (force simp: sub_ok_def r1 Cons)
    next
      case cut
      with N [of "bx2 b"] xs_out t_out a b show ?thesis
        by (fastforce simp: sub_ok_def r1 Cons x_sorted_Cons)
    next
      case split
      with skip [of "bx2 b"] a b xs_out t_out show ?thesis
        by (force simp: sub_ok_def r1 Cons x_sorted_Cons)
    next
      case right
      with N [of x1] xs_out t_out a b show ?thesis
        by (fastforce simp: sub_ok_def r1 Cons x_sorted_Cons)
    qed
  qed
qed

interpretation subtr: band_overlap miSubtractO True False False
proof
  fix r1 r2 :: "BoxRec list" and y1 y2
  show "in_rows y1 y2 (miSubtractO r1 r2 y1 y2)"
    by (simp add: miSubtractO_def subtractO_rows)
next
  fix r1 r2 :: "BoxRec list" and y1 y2 x
  assume s: "x_sorted r1" "x_sorted r2" and ne: "r1 \<noteq> []"
  have "bx1 (hd r1) < bx2 (hd r1)" using s ne by (cases r1) (auto simp: x_sorted_Cons)
  from subtractO_correct [OF s ne order_refl this, of y1 y2 x]
  have ok: "sub_ok y1 y2 (bx1 (hd r1)) r1 r2 x" .
  then show "x_sorted (miSubtractO r1 r2 y1 y2)"
    by (simp add: miSubtractO_def sub_ok_def)
  have "xin r1 x \<Longrightarrow> bx1 (hd r1) \<le> x"
    using s(1) ne by (cases r1) (force simp: x_sorted_Cons xin_def)+
  with ok show "xin (miSubtractO r1 r2 y1 y2) x = sel True False False (xin r1 x) (xin r2 x)"
    by (auto simp: miSubtractO_def sub_ok_def sel_def)
qed

end
