(* ===== verification/Regionalg.thy ===== *)
theory Regionalg
  imports Regionop
begin

section \<open>Extents\<close>

text \<open>The extents of a set of points: the smallest box around it.\<close>

definition tight :: "BoxRec \<Rightarrow> (int \<times> int) set \<Rightarrow> bool" where
  "tight e P \<longleftrightarrow> (\<forall>(x, y)\<in>P. INBOX e x y) \<and> (\<exists>y. (bx1 e, y) \<in> P) \<and> (\<exists>y. (bx2 e - 1, y) \<in> P) \<and>
     (\<exists>x. (x, by1 e) \<in> P) \<and> (\<exists>x. (x, by2 e - 1) \<in> P)"

lemma tight_unique:
  assumes "tight e P" "tight f P" shows "e = f"
proof -
  have "bx1 e = bx1 f" "bx2 e = bx2 f" "by1 e = by1 f" "by2 e = by2 f"
    using assms by (fastforce simp: tight_def INBOX_def)+
  then show ?thesis by simp
qed

lemma widen_simps [simp]:
  "bx1 (widen e b) = min (bx1 e) (bx1 b)" "bx2 (widen e b) = max (bx2 e) (bx2 b)"
  "by1 (widen e b) = by1 e" "by2 (widen e b) = by2 e"
  by (auto simp: widen_def Let_def)

lemma foldl_widen:
  "by1 (foldl widen e rs) = by1 e" "by2 (foldl widen e rs) = by2 e"
  "bx1 (foldl widen e rs) \<le> bx1 e" "bx2 e \<le> bx2 (foldl widen e rs)"
  "\<forall>b\<in>set rs. bx1 (foldl widen e rs) \<le> bx1 b \<and> bx2 b \<le> bx2 (foldl widen e rs)"
  "bx1 (foldl widen e rs) \<in> {bx1 e} \<union> bx1 ` set rs"
  "bx2 (foldl widen e rs) \<in> {bx2 e} \<union> bx2 ` set rs"
proof (induction rs arbitrary: e)
  case (Cons b rs)
  { case 3 show ?case using Cons(3) [of "widen e b"] by simp }
  { case 4 show ?case using Cons(4) [of "widen e b"] by simp }
  { case 5 show ?case using Cons(3-5) [of "widen e b"] by auto }
  { case 6 show ?case using Cons(6) [of "widen e b"] by (auto simp: min_def split: if_splits) }
  { case 7 show ?case using Cons(7) [of "widen e b"] by (auto simp: max_def split: if_splits) }
qed simp_all

lemma banded_hd_first: "banded rs \<Longrightarrow> b \<in> set rs \<Longrightarrow> by1 (hd rs) \<le> by1 b"
  by (cases rs) (fastforce simp: banded_Cons follows_def solid_def)+

lemma banded_last_last: "banded rs \<Longrightarrow> b \<in> set rs \<Longrightarrow> by2 b \<le> by2 (last rs)"
proof (induction rs)
  case (Cons a rs)
  show ?case
  proof (cases "rs = []")
    case False
    then have "follows a (last rs)" "solid (last rs)" using Cons(2) by (auto simp: banded_Cons banded_def)
    then have "by2 a \<le> by2 (last rs)" by (auto simp: follows_def solid_def)
    with Cons False show ?thesis by (auto simp: banded_Cons)
  qed (use Cons in simp)
qed simp

lemma solid_corners: "solid b \<Longrightarrow> INBOX b (bx1 b) (by1 b) \<and> INBOX b (bx2 b - 1) (by1 b) \<and>
    INBOX b (bx1 b) (by2 b - 1)"
  by (simp add: INBOX_def solid_def)

lemma tightI:
  assumes "banded rs" "rs \<noteq> []" "by1 e = by1 (hd rs)" "by2 e = by2 (last rs)"
    "\<forall>b\<in>set rs. bx1 e \<le> bx1 b \<and> bx2 b \<le> bx2 e" "bx1 e \<in> bx1 ` set rs" "bx2 e \<in> bx2 ` set rs"
  shows "tight e (pts rs)"
proof -
  have c: "\<forall>b\<in>set rs. INBOX b (bx1 b) (by1 b) \<and> INBOX b (bx2 b - 1) (by1 b) \<and> INBOX b (bx1 b) (by2 b - 1)"
    using assms(1) solid_corners by (simp add: banded_def)
  have "\<forall>(x, y)\<in>pts rs. INBOX e x y"
    using banded_hd_first [OF assms(1)] banded_last_last [OF assms(1)] assms(3-5)
    by (fastforce simp: pts_def INBOX_def)
  moreover obtain a b where "a \<in> set rs" "bx1 e = bx1 a" "b \<in> set rs" "bx2 e = bx2 b"
    using assms(6,7) by blast
  moreover have "hd rs \<in> set rs" "last rs \<in> set rs" using assms(2) by simp_all
  ultimately show ?thesis using c assms(3,4) unfolding tight_def mem_pts by metis
qed

lemma tight_foldl:
  assumes "banded rs" "rs \<noteq> []" "by1 e = by1 (hd rs)" "by2 e = by2 (last rs)"
    "bx1 e \<in> bx1 ` set rs" "bx2 e \<in> bx2 ` set rs" "set rs = insert a (set rs')"
    "bx1 e \<le> bx1 a \<and> bx2 a \<le> bx2 e \<or> a \<in> set rs'"
  shows "tight (foldl widen e rs') (pts rs)"
proof (rule tightI [OF assms(1,2)])
  show "\<forall>b\<in>set rs. bx1 (foldl widen e rs') \<le> bx1 b \<and> bx2 b \<le> bx2 (foldl widen e rs')"
    using foldl_widen(3,4) [of e rs'] foldl_widen(5) [of rs' e] assms(7,8) by auto
  show "bx1 (foldl widen e rs') \<in> bx1 ` set rs" using foldl_widen(6) [of e rs'] assms(5,7) by auto
  show "bx2 (foldl widen e rs') \<in> bx2 ` set rs" using foldl_widen(7) [of e rs'] assms(6,7) by auto
qed (simp_all add: foldl_widen assms)

section \<open>Well-formed regions\<close>

definition area :: "RegionRec \<Rightarrow> (int \<times> int) set" where
  "area reg = pts (REGION_RECTS reg)"

definition region_ok :: "RegionRec \<Rightarrow> bool" where
  "region_ok reg \<longleftrightarrow>
    (case rdata reg of None \<Rightarrow> solid (extents reg)
     | Some rs \<Rightarrow> if rs = [] then bx1 (extents reg) = bx2 (extents reg) \<and> by1 (extents reg) = by2 (extents reg)
                  else 2 \<le> length rs \<and> banded rs \<and> tight (extents reg) (pts rs))"

lemma area_box: "rdata reg = None \<Longrightarrow> (x, y) \<in> area reg \<longleftrightarrow> INBOX (extents reg) x y"
  by (simp add: area_def REGION_RECTS_def mem_pts)

lemma tight_box: "solid e \<Longrightarrow> tight e (pts [e])"
  by (rule tightI) (simp_all add: banded_Cons)

lemma region_ok_banded: "region_ok reg \<Longrightarrow> banded (REGION_RECTS reg)"
  by (auto simp: region_ok_def REGION_RECTS_def banded_Cons split: option.splits if_splits)

lemma region_ok_tight: "region_ok reg \<Longrightarrow> \<not> REGION_NIL reg \<Longrightarrow> tight (extents reg) (area reg)"
  by (auto simp: region_ok_def REGION_NIL_def area_def REGION_RECTS_def tight_box
      split: option.splits if_splits)

lemma REGION_NIL_iff: "REGION_NIL reg \<longleftrightarrow> REGION_RECTS reg = []"
  by (simp add: REGION_NIL_def REGION_RECTS_def split: option.splits)

lemma area_NIL: "REGION_NIL reg \<Longrightarrow> area reg = {}"
  by (simp add: REGION_NIL_iff area_def)

lemma valid_boxes_foldl:
  "banded (p # rs) \<Longrightarrow> valid_boxes b p rs = Some (foldl widen b rs)"
proof (induction rs arbitrary: b p)
  case (Cons n rest)
  have n: "solid n" "follows p n" "solid p" "banded (n # rest)"
    using Cons(2) by (simp_all add: banded_Cons)
  have "\<not> (by1 n < by1 p \<or> (by1 n = by1 p \<and> (bx1 n < bx2 p \<or> by2 n \<noteq> by2 p)))"
    using n(1-3) unfolding follows_def solid_def by linarith
  moreover have "\<not> (bx1 n \<ge> bx2 n \<or> by1 n \<ge> by2 n)" using n(1) by (simp add: solid_def)
  ultimately have "valid_boxes b p (n # rest) = valid_boxes (widen b n) n rest"
    by (simp only: valid_boxes.simps Let_def widen_def if_False)
  then show ?case using Cons(1) [OF n(4)] by simp
qed simp

lemma region_ok_valid: "region_ok reg \<Longrightarrow> miValidRegion reg"
proof (cases "rdata reg")
  case None
  assume "region_ok reg"
  with None show ?thesis by (simp add: region_ok_def miValidRegion_def solid_def)
next
  case (Some rs)
  assume ok: "region_ok reg"
  show ?thesis
  proof (cases rs rule: remdups_adj.cases)
    case 1
    with Some ok show ?thesis by (simp add: region_ok_def miValidRegion_def)
  next
    case (2 p)
    with Some ok show ?thesis by (simp add: region_ok_def)
  next
    case (3 p q rest)
    have b: "banded rs" and t: "tight (extents reg) (pts rs)"
      using Some ok 3 by (simp_all add: region_ok_def)
    let ?e = "p\<lparr>by2 := by2 (last (q # rest))\<rparr>"
    have "tight (foldl widen ?e (q # rest)) (pts rs)"
      by (rule tight_foldl [OF b, of _ p]) (simp_all add: 3)
    then have e: "foldl widen ?e (q # rest) = extents reg" using t tight_unique by blast
    have "bx1 (extents reg) \<le> bx2 (extents reg)" "by1 (extents reg) \<le> by2 (extents reg)"
      using t by (force simp: tight_def INBOX_def)+
    moreover have "valid_boxes ?e p (q # rest) = Some (extents reg)"
      using valid_boxes_foldl [of p "q # rest" ?e] b e by (simp add: 3)
    ultimately show ?thesis by (simp add: miValidRegion_def Some 3 del: valid_boxes.simps)
  qed
qed

section \<open>The operations on regions\<close>

context band_overlap begin

lemma miRegionOp_result:
  fixes n :: rptr
  assumes "region_ok (s r1)" "region_ok (s r2)" "\<not> REGION_NIL (s r1)" "\<not> REGION_NIL (s r2)"
  defines "s' \<equiv> miRegionOp n r1 r2 f a1 a2 s"
  shows "banded (REGION_RECTS (s' n))"
    "(x, y) \<in> area (s' n) \<longleftrightarrow> sel a1 a2 ov ((x, y) \<in> area (s r1)) ((x, y) \<in> area (s r2))"
    "rdata (s' n) \<noteq> None \<Longrightarrow> length (the (rdata (s' n))) \<noteq> 1 \<and> extents (s' n) = extents (s n)"
    "p \<noteq> n \<Longrightarrow> s' p = s p"
proof -
  let ?rs = "op_rects f a1 a2 (REGION_RECTS (s r1)) (REGION_RECTS (s r2))"
  note C = op_rects_correct [OF assms(1,2) [THEN region_ok_banded] assms(3,4) [unfolded REGION_NIL_iff]]
  have op: "s' = s(n := (case ?rs of [] \<Rightarrow> (s n)\<lparr>rdata := Some []\<rparr>
      | [b] \<Rightarrow> \<lparr>extents = b, rdata = None\<rparr> | _ \<Rightarrow> (s n)\<lparr>rdata := Some ?rs\<rparr>))"
    by (simp add: s'_def miRegionOp_def Let_def)
  have e: "REGION_RECTS (s' n) = ?rs"
    unfolding op by (simp add: REGION_RECTS_def split: list.split)
  show "banded (REGION_RECTS (s' n))" using C(1) by (simp only: e)
  show "(x, y) \<in> area (s' n) \<longleftrightarrow> sel a1 a2 ov ((x, y) \<in> area (s r1)) ((x, y) \<in> area (s r2))"
    using C(2) by (simp only: area_def e)
  show "length (the (rdata (s' n))) \<noteq> 1 \<and> extents (s' n) = extents (s n)" if "rdata (s' n) \<noteq> None"
    using that by (auto simp: op split: list.splits)
  show "s' p = s p" if "p \<noteq> n" using that by (simp add: op)
qed

end

lemma miSetExtents_ok:
  assumes "banded (REGION_RECTS reg)" "rdata reg \<noteq> None \<Longrightarrow> length (the (rdata reg)) \<noteq> 1"
  shows "region_ok (miSetExtents reg)" "area (miSetExtents reg) = area reg"
proof -
  show "area (miSetExtents reg) = area reg"
    by (simp add: miSetExtents_def area_def REGION_RECTS_def split: option.splits)
  show "region_ok (miSetExtents reg)"
  proof (cases "rdata reg")
    case None
    then show ?thesis using assms(1)
      by (simp add: miSetExtents_def region_ok_def REGION_RECTS_def banded_Cons)
  next
    case (Some rs)
    then have b: "banded rs" "length rs \<noteq> 1" using assms by (simp_all add: REGION_RECTS_def)
    show ?thesis
    proof (cases "rs = []")
      case True
      then show ?thesis using Some by (simp add: miSetExtents_def region_ok_def empty_extents_def)
    next
      case False
      let ?e = "box (bx1 (hd rs)) (by1 (hd rs)) (bx2 (last rs)) (by2 (last rs))"
      have "tight (foldl widen ?e rs) (pts rs)"
        by (rule tight_foldl [OF b(1) False, of _ "hd rs"]) (use False in \<open>auto simp: insert_absorb\<close>)
      moreover have "2 \<le> length rs" using b(2) False by (cases rs) (auto simp: Suc_le_eq)
      ultimately show ?thesis using Some False b by (simp add: miSetExtents_def region_ok_def)
    qed
  qed
qed

lemma region_ok_copy: "s' = miRegionCopy n r s \<Longrightarrow> s' n = s r \<and> (p \<noteq> n \<longrightarrow> s' p = s p)"
  by (simp add: miRegionCopy_def)

text \<open>What a caller of an operation may rely on: its result and its frame.\<close>

definition computes :: "rstore \<Rightarrow> rstore \<Rightarrow> rptr \<Rightarrow> (int \<times> int) set \<Rightarrow> bool" where
  "computes s s' n P \<longleftrightarrow> region_ok (s' n) \<and> area (s' n) = P \<and> (\<forall>p. p \<noteq> n \<longrightarrow> s' p = s p)"

lemma computes_copy: "region_ok (s r) \<Longrightarrow> area (s r) = P \<Longrightarrow> computes s (miRegionCopy n r s) n P"
  by (simp add: computes_def miRegionCopy_def)

lemma computes_empty:
  "computes s (s(n := \<lparr>extents = empty_extents e, rdata = Some []\<rparr>)) n {}"
  by (simp add: computes_def region_ok_def empty_extents_def area_def REGION_RECTS_def)

lemma computes_box:
  "solid e \<Longrightarrow> P = {(x, y). INBOX e x y} \<Longrightarrow> computes s (s(n := \<lparr>extents = e, rdata = None\<rparr>)) n P"
  by (auto simp: computes_def region_ok_def area_box)

lemma EXTENTCHECK_apart: "\<not> EXTENTCHECK e1 e2 \<Longrightarrow> INBOX e1 x y \<Longrightarrow> \<not> INBOX e2 x y"
  by (auto simp: EXTENTCHECK_def INBOX_def)

lemma SUBSUMES_INBOX: "SUBSUMES e1 e2 \<Longrightarrow> INBOX e2 x y \<Longrightarrow> INBOX e1 x y"
  by (simp add: SUBSUMES_def INBOX_def)

lemma area_in_extents: "region_ok reg \<Longrightarrow> (x, y) \<in> area reg \<Longrightarrow> INBOX (extents reg) x y"
  using region_ok_tight area_NIL by (fastforce simp: tight_def)

lemma area_disjoint:
  assumes "region_ok a" "region_ok b" "REGION_NIL a \<or> REGION_NIL b \<or> \<not> EXTENTCHECK (extents a) (extents b)"
  shows "area a \<inter> area b = {}"
  using assms area_NIL area_in_extents EXTENTCHECK_apart by fastforce

lemma area_subsumed:
  assumes "region_ok b" "rdata a = None" "SUBSUMES (extents a) (extents b)"
  shows "area b \<subseteq> area a"
  using area_in_extents [OF assms(1)] SUBSUMES_INBOX [OF assms(3)] area_box [OF assms(2)] by auto

lemma computes_via_op:
  assumes s': "banded (REGION_RECTS (s' n))" "rdata (s' n) \<noteq> None \<Longrightarrow> length (the (rdata (s' n))) \<noteq> 1"
    "\<And>p. p \<noteq> n \<Longrightarrow> s' p = s p" "\<And>x y. (x, y) \<in> area (s' n) \<longleftrightarrow> (x, y) \<in> P"
  shows "computes s (s'(n := miSetExtents (s' n))) n P"
  using miSetExtents_ok [OF s'(1,2)] s'(3,4) by (auto simp: computes_def)

lemma miIntersect_computes:
  assumes ok: "region_ok (s reg1)" "region_ok (s reg2)"
  shows "computes s (miIntersect newReg reg1 reg2 s) newReg (area (s reg1) \<inter> area (s reg2))"
proof -
  let ?e1 = "extents (s reg1)" and ?e2 = "extents (s reg2)"
  consider (out) "REGION_NIL (s reg1) \<or> REGION_NIL (s reg2) \<or> \<not> EXTENTCHECK ?e1 ?e2"
    | (boxes) "EXTENTCHECK ?e1 ?e2" "rdata (s reg1) = None" "rdata (s reg2) = None"
    | (in2) "EXTENTCHECK ?e1 ?e2" "\<not> REGION_NIL (s reg1)" "\<not> REGION_NIL (s reg2)"
        "\<not> (rdata (s reg1) = None \<and> rdata (s reg2) = None)"
    by argo
  then show ?thesis
  proof cases
    case out
    then have "area (s reg1) \<inter> area (s reg2) = {}" by (rule area_disjoint [OF ok])
    then show ?thesis using out by (simp add: miIntersect_def Let_def computes_empty)
  next
    case boxes
    then have "solid ?e1" "solid ?e2" using ok by (simp_all add: region_ok_def)
    then have "computes s (s(newReg := \<lparr>extents = box (max (bx1 ?e1) (bx1 ?e2)) (max (by1 ?e1) (by1 ?e2))
        (min (bx2 ?e1) (bx2 ?e2)) (min (by2 ?e1) (by2 ?e2)), rdata = None\<rparr>)) newReg
        (area (s reg1) \<inter> area (s reg2))"
      using boxes by (intro computes_box) (auto simp: solid_def EXTENTCHECK_def area_box INBOX_def)
    then show ?thesis using boxes by (simp add: miIntersect_def Let_def REGION_NIL_def)
  next
    case in2
    let ?s = "miRegionOp newReg reg1 reg2 miIntersectO False False s"
    note R = inter.miRegionOp_result [where n = newReg, OF ok in2(2,3)]
    have op: "computes s (?s(newReg := miSetExtents (?s newReg))) newReg (area (s reg1) \<inter> area (s reg2))"
      by (rule computes_via_op) (use R in \<open>auto simp: sel_def\<close>)
    show ?thesis
      using in2 op ok area_subsumed [of "s reg1" "s reg2"] area_subsumed [of "s reg2" "s reg1"]
      by (auto simp: miIntersect_def Let_def intro!: computes_copy)
  qed
qed

lemma miSubtract_computes:
  assumes ok: "region_ok (s regM)" "region_ok (s regS)"
  shows "computes s (miSubtract regD regM regS s) regD (area (s regM) - area (s regS))"
proof -
  let ?out = "REGION_NIL (s regM) \<or> REGION_NIL (s regS) \<or> \<not> EXTENTCHECK (extents (s regM)) (extents (s regS))"
  show ?thesis
  proof (cases ?out)
    case True
    then have "area (s regM) - area (s regS) = area (s regM)" using area_disjoint [OF ok] by blast
    then show ?thesis using True ok by (simp add: miSubtract_def computes_copy)
  next
    case False
    let ?s = "miRegionOp regD regM regS miSubtractO True False s"
    note R = subtr.miRegionOp_result [where n = regD, OF ok]
    have op: "computes s (?s(regD := miSetExtents (?s regD))) regD (area (s regM) - area (s regS))"
      by (rule computes_via_op) (use R False in \<open>auto simp: sel_def\<close>)
    show ?thesis using False op by (simp add: miSubtract_def Let_def computes_empty)
  qed
qed

lemma miInverse_computes:
  assumes ok: "region_ok (s reg1)" "solid invRect" and new: "invReg \<noteq> newReg" "invReg \<noteq> reg1"
  shows "computes (s(invReg := \<lparr>extents = invRect, rdata = None\<rparr>)) 
      ((miInverse newReg reg1 invRect invReg s)(invReg := \<lparr>extents = invRect, rdata = None\<rparr>))
      newReg ({(x, y). INBOX invRect x y} - area (s reg1))"
proof (cases "REGION_NIL (s reg1) \<or> \<not> EXTENTCHECK invRect (extents (s reg1))")
  case True
  have "(x, y) \<notin> area (s reg1)" if "INBOX invRect x y" for x y
    using True that area_NIL area_in_extents [OF ok(1)] EXTENTCHECK_apart by blast
  then show ?thesis using True ok(2) new
    by (auto simp: miInverse_def computes_def region_ok_def area_box)
next
  case False
  let ?inv = "s(invReg := \<lparr>extents = invRect, rdata = None\<rparr>)"
  let ?s = "miRegionOp newReg invReg reg1 miSubtractO True False ?inv"
  have i: "region_ok (?inv invReg)" "\<not> REGION_NIL (?inv invReg)" "?inv reg1 = s reg1"
    "area (?inv invReg) = {(x, y). INBOX invRect x y}"
    using ok(2) new by (auto simp: region_ok_def REGION_NIL_def area_box)
  note R = subtr.miRegionOp_result [where n = newReg and s = ?inv and ?r1.0 = invReg and ?r2.0 = reg1]
  have "computes ?inv (?s(newReg := miSetExtents (?s newReg))) newReg ({(x, y). INBOX invRect x y} - area (s reg1))"
    by (rule computes_via_op) (use R i ok False in \<open>auto simp: sel_def\<close>)
  then show ?thesis using False new by (simp add: miInverse_def Let_def computes_def)
qed

definition hull :: "BoxRec \<Rightarrow> BoxRec \<Rightarrow> BoxRec" where
  "hull e1 e2 = box (min (bx1 e1) (bx1 e2)) (min (by1 e1) (by1 e2)) (max (bx2 e1) (bx2 e2)) (max (by2 e1) (by2 e2))"

lemma tight_hull:
  assumes "tight e1 P1" "tight e2 P2" shows "tight (hull e1 e2) (P1 \<union> P2)"
proof -
  have "\<forall>(x, y)\<in>P1 \<union> P2. INBOX (hull e1 e2) x y"
    using assms by (fastforce simp: tight_def hull_def INBOX_def)
  moreover have "\<exists>y. (bx1 (hull e1 e2), y) \<in> P1 \<union> P2" "\<exists>y. (bx2 (hull e1 e2) - 1, y) \<in> P1 \<union> P2"
    "\<exists>x. (x, by1 (hull e1 e2)) \<in> P1 \<union> P2" "\<exists>x. (x, by2 (hull e1 e2) - 1) \<in> P1 \<union> P2"
    using assms by (auto simp: tight_def hull_def min_def max_def)
  ultimately show ?thesis by (simp add: tight_def)
qed

lemma area_single: "rdata reg = None \<Longrightarrow> area reg = pts [extents reg]"
  by (simp add: area_def REGION_RECTS_def)

lemma miUnion_op:
  fixes newReg :: rptr
  assumes ok: "region_ok (s reg1)" "region_ok (s reg2)"
    and ne: "\<not> REGION_NIL (s reg1)" "\<not> REGION_NIL (s reg2)"
  defines "t \<equiv> miRegionOp newReg reg1 reg2 miUnionO True True s"
  shows "computes s (t(newReg := (t newReg)\<lparr>extents := hull (extents (t reg1)) (extents (t reg2))\<rparr>))
      newReg (area (s reg1) \<union> area (s reg2))"
proof -
  note R = union.miRegionOp_result [where n = newReg, OF ok ne, folded t_def]
  let ?P = "area (s reg1) \<union> area (s reg2)"
  have ar: "area (t newReg) = ?P" using R(2) by (auto simp: sel_def)
  have T: "tight (extents (s reg1)) (area (s reg1))" "tight (extents (s reg2)) (area (s reg2))"
    using region_ok_tight ok ne by blast+
  have nonempty: "?P \<noteq> {}" using T(1) by (auto simp: tight_def)
  have e: "tight (hull (extents (t reg1)) (extents (t reg2))) ?P"
  proof (cases "rdata (t newReg)")
    case (Some rs)
    then have "extents (t p) = extents (s p)" for p using R(3) R(4) [of p] by (cases "p = newReg") auto
    then show ?thesis using tight_hull [OF T] by simp
  next
    case None
    have b: "solid (extents (t newReg))" using R(1) None by (simp add: REGION_RECTS_def banded_Cons)
    have tb: "tight (extents (t newReg)) ?P"
      using tight_box [OF b] area_single [OF None] ar by simp
    have Q: "tight (extents (t p)) (if p = newReg then ?P else area (s p))" if "p = reg1 \<or> p = reg2" for p
      using that tb T R(4) [of p] by (cases "p = newReg") auto
    have "(if reg1 = newReg then ?P else area (s reg1)) \<union> (if reg2 = newReg then ?P else area (s reg2)) = ?P"
      by auto
    then show ?thesis using tight_hull [OF Q [of reg1] Q [of reg2]] by simp
  qed
  let ?r = "(t newReg)\<lparr>extents := hull (extents (t reg1)) (extents (t reg2))\<rparr>"
  have "region_ok ?r \<and> area ?r = ?P"
  proof (cases "rdata (t newReg)")
    case None
    then have b: "solid (extents (t newReg))" using R(1) by (simp add: REGION_RECTS_def banded_Cons)
    have "extents (t newReg) = hull (extents (t reg1)) (extents (t reg2))"
      using e tight_box [OF b] area_single [OF None] ar tight_unique by metis
    then show ?thesis using b None ar by (simp add: region_ok_def area_def REGION_RECTS_def)
  next
    case (Some rs)
    then have "pts rs = ?P" "banded rs" "length rs \<noteq> 1"
      using ar R(1,3) by (simp_all add: area_def REGION_RECTS_def)
    moreover have "rs \<noteq> []" using \<open>pts rs = ?P\<close> nonempty by auto
    ultimately have "2 \<le> length rs" by (cases rs) (auto simp: Suc_le_eq)
    with \<open>pts rs = ?P\<close> \<open>banded rs\<close> \<open>rs \<noteq> []\<close> show ?thesis using Some e
      by (simp add: region_ok_def area_def REGION_RECTS_def)
  qed
  then show ?thesis using R(4) by (simp add: computes_def)
qed

lemma computes_same: "region_ok (s n) \<Longrightarrow> area (s n) = P \<Longrightarrow> computes s s n P"
  by (simp add: computes_def)

lemma miUnion_computes:
  assumes ok: "region_ok (s reg1)" "region_ok (s reg2)"
  shows "computes s (miUnion newReg reg1 reg2 s) newReg (area (s reg1) \<union> area (s reg2))"
proof -
  note sub = area_subsumed [of "s reg1" "s reg2"] area_subsumed [of "s reg2" "s reg1"]
  consider (same) "reg1 = reg2" | (nil1) "reg1 \<noteq> reg2" "REGION_NIL (s reg1)"
    | (nil2) "reg1 \<noteq> reg2" "\<not> REGION_NIL (s reg1)" "REGION_NIL (s reg2)"
    | (sub1) "reg1 \<noteq> reg2" "\<not> REGION_NIL (s reg1)" "\<not> REGION_NIL (s reg2)"
        "rdata (s reg1) = None \<and> SUBSUMES (extents (s reg1)) (extents (s reg2))"
    | (sub2) "reg1 \<noteq> reg2" "\<not> REGION_NIL (s reg1)" "\<not> REGION_NIL (s reg2)"
        "\<not> (rdata (s reg1) = None \<and> SUBSUMES (extents (s reg1)) (extents (s reg2)))"
        "rdata (s reg2) = None \<and> SUBSUMES (extents (s reg2)) (extents (s reg1))"
    | (op) "reg1 \<noteq> reg2" "\<not> REGION_NIL (s reg1)" "\<not> REGION_NIL (s reg2)"
        "\<not> (rdata (s reg1) = None \<and> SUBSUMES (extents (s reg1)) (extents (s reg2)))"
        "\<not> (rdata (s reg2) = None \<and> SUBSUMES (extents (s reg2)) (extents (s reg1)))"
    by argo
  then show ?thesis
  proof cases
    case same
    then show ?thesis using ok by (simp add: miUnion_def computes_copy)
  next
    case nil1
    then show ?thesis using ok area_NIL by (simp add: miUnion_def computes_copy computes_same)
  next
    case nil2
    then show ?thesis using ok area_NIL by (simp add: miUnion_def computes_copy computes_same)
  next
    case sub1
    then have "area (s reg1) \<union> area (s reg2) = area (s reg1)" using sub(2) ok by blast
    then show ?thesis using sub1 ok by (simp add: miUnion_def computes_copy computes_same)
  next
    case sub2
    then have "area (s reg1) \<union> area (s reg2) = area (s reg2)" using sub(1) ok by blast
    then show ?thesis using sub2 ok computes_same [of s reg2]
      unfolding miUnion_def by (simp only: computes_copy if_False if_True simp_thms split: if_split) blast
  next
    case op
    show ?thesis using miUnion_op [OF ok op(2,3), of newReg]
      unfolding miUnion_def Let_def hull_def op(2,3) [THEN if_not_P] if_not_P [OF op(1)] if_not_P [OF op(4)]
        if_not_P [OF op(5)] .
  qed
qed

section \<open>Queries\<close>

lemma point_loop_iff:
  "banded rs \<Longrightarrow> point_loop x y rs = Some b \<Longrightarrow> b \<in> set rs \<and> INBOX b x y"
  "banded rs \<Longrightarrow> (x, y) \<in> pts rs \<Longrightarrow> point_loop x y rs \<noteq> None"
proof (induction rs)
  case (Cons a rs)
  { case 1
    then show ?case using Cons(1) by (auto simp: INBOX_def banded_Cons split: if_splits) }
  { case 2
    have later: "by2 a \<le> y \<or> (by1 a \<le> y \<and> bx2 a < x)" if "(x, y) \<in> pts rs"
      using that 2(1) by (force simp: mem_pts banded_Cons follows_def INBOX_def)
    have p: "INBOX a x y \<or> (x, y) \<in> pts rs" using 2(2) by (simp add: mem_pts)
    have s: "solid a" "banded rs" using 2(1) by (simp_all add: banded_Cons)
    show ?case using p
    proof
      assume "INBOX a x y"
      then show ?thesis by (simp add: INBOX_def)
    next
      assume "(x, y) \<in> pts rs"
      with later Cons(2) [OF s(2)] s(1) show ?thesis by (auto simp: solid_def)
    qed }
qed simp_all

lemma miPointInRegion_iff:
  assumes "region_ok reg"
  shows "(\<exists>b. miPointInRegion reg x y = Some b) \<longleftrightarrow> (x, y) \<in> area reg"
    "miPointInRegion reg x y = Some b \<Longrightarrow> INBOX b x y \<and> b \<in> set (REGION_RECTS reg)"
proof -
  note b = region_ok_banded [OF assms]
  have num: "REGION_NUM_RECTS reg = length (REGION_RECTS reg)"
    by (simp add: REGION_NUM_RECTS_def REGION_RECTS_def split: option.split)
  have one: "REGION_RECTS reg = [extents reg]" if "length (REGION_RECTS reg) = 1"
    using assms that by (auto simp: region_ok_def REGION_RECTS_def split: option.splits if_splits)
  have inx: "(x, y) \<in> area reg \<Longrightarrow> INBOX (extents reg) x y" by (rule area_in_extents [OF assms])
  show "(\<exists>b. miPointInRegion reg x y = Some b) \<longleftrightarrow> (x, y) \<in> area reg"
  proof (cases "length (REGION_RECTS reg) = 0 \<or> length (REGION_RECTS reg) = 1")
    case True
    then show ?thesis using one by (auto simp: miPointInRegion_def num area_def mem_pts)
  next
    case False
    have "(\<exists>b. point_loop x y (REGION_RECTS reg) = Some b) \<longleftrightarrow> (x, y) \<in> area reg"
      using point_loop_iff [OF b, of x y] by (fastforce simp: area_def mem_pts)
    then show ?thesis using False inx by (auto simp: miPointInRegion_def num)
  qed
  show "INBOX b x y \<and> b \<in> set (REGION_RECTS reg)" if "miPointInRegion reg x y = Some b"
    using that point_loop_iff(1) [OF b] one
    by (auto simp: miPointInRegion_def num split: if_splits)
qed

section \<open>Translation\<close>

lemma all_inside_iff:
  "all_inside x1 y1 x2 y2 \<longleftrightarrow> MINSHORT \<le> x1 \<and> MINSHORT \<le> y1 \<and> x2 \<le> MAXSHORT \<and> y2 \<le> MAXSHORT"
  by (auto simp: all_inside_def or_nonnegative_int_iff)

lemma short_id: "MINSHORT \<le> n \<Longrightarrow> n \<le> MAXSHORT \<Longrightarrow> short n = n"
  by (simp add: short_def MINSHORT_def MAXSHORT_def sint_sbintrunc' signed_take_bit_int_eq_self_iff)

text \<open>While nothing leaves the coordinate range, a translation moves every point.\<close>

lemma INBOX_moved: "INBOX (box (bx1 b + u) (by1 b + v) (bx2 b + u) (by2 b + v)) x y \<longleftrightarrow> INBOX b (x - u) (y - v)"
  by (auto simp: INBOX_def)

lemma miTranslateRegion_inside:
  assumes ok: "region_ok reg" "\<not> REGION_NIL reg"
    and fits: "MINSHORT \<le> bx1 (extents reg) + u" "MINSHORT \<le> by1 (extents reg) + v"
      "bx2 (extents reg) + u \<le> MAXSHORT" "by2 (extents reg) + v \<le> MAXSHORT"
  shows "region_ok (miTranslateRegion reg u v) \<and>
    area (miTranslateRegion reg u v) = {(x, y). (x - u, y - v) \<in> area reg}"
proof -
  let ?m = "\<lambda>b. box (bx1 b + u) (by1 b + v) (bx2 b + u) (by2 b + v)"
  let ?e = "extents reg"
  have T: "tight ?e (area reg)" by (rule region_ok_tight [OF ok])
  have sol: "bx1 ?e < bx2 ?e" "by1 ?e < by2 ?e" using T by (force simp: tight_def INBOX_def)+
  have in_e: "bx1 ?e \<le> bx1 b \<and> by1 ?e \<le> by1 b \<and> bx2 b \<le> bx2 ?e \<and> by2 b \<le> by2 ?e \<and> solid b"
    if "b \<in> set (REGION_RECTS reg)" for b
  proof -
    have s: "solid b" using region_ok_banded [OF ok(1)] that by (simp add: banded_def)
    have "INBOX b x y \<Longrightarrow> INBOX ?e x y" for x y
      using area_in_extents [OF ok(1)] that by (auto simp: area_def mem_pts)
    from this [of "bx1 b" "by1 b"] this [of "bx2 b - 1" "by2 b - 1"] s
    show ?thesis by (auto simp: INBOX_def solid_def)
  qed
  have mv: "move_box u v b = ?m b" if "b \<in> set (REGION_RECTS reg) \<or> b = ?e" for b
    using in_e [of b] that fits sol by (auto simp: move_box_def short_id solid_def)
  define t where "t = miTranslateRegion reg u v"
  have t: "t = \<lparr>extents = ?m ?e, rdata = map_option (map (move_box u v)) (rdata reg)\<rparr>"
    using fits mv [of ?e] by (simp add: t_def miTranslateRegion_def Let_def all_inside_iff)
  have R: "REGION_RECTS t = map ?m (REGION_RECTS reg)"
    using mv by (auto simp: t REGION_RECTS_def split: option.splits)
  have A: "(x, y) \<in> area t \<longleftrightarrow> (x - u, y - v) \<in> area reg" for x y
    by (simp add: area_def R mem_pts INBOX_moved)
  have B: "banded (REGION_RECTS t)"
    using region_ok_banded [OF ok(1)]
    by (auto simp: R banded_def sorted_wrt_map solid_def follows_def [abs_def])
  have ext: "extents t = ?m ?e" by (simp add: t)
  have T': "tight (extents t) (area t)"
  proof -
    obtain x3 x4 y3 y4 where w: "(bx1 ?e, y3) \<in> area reg" "(bx2 ?e - 1, y4) \<in> area reg"
      "(x3, by1 ?e) \<in> area reg" "(x4, by2 ?e - 1) \<in> area reg" using T by (auto simp: tight_def)
    have "(bx1 ?e + u, y3 + v) \<in> area t" "(bx2 ?e + u - 1, y4 + v) \<in> area t"
      "(x3 + u, by1 ?e + v) \<in> area t" "(x4 + u, by2 ?e + v - 1) \<in> area t"
      using w by (simp_all add: A)
    moreover have "INBOX (extents t) x y" if "(x, y) \<in> area t" for x y
      using that area_in_extents [OF ok(1)] by (simp only: A ext INBOX_moved)
    ultimately show ?thesis unfolding tight_def ext by auto
  qed
  have "region_ok t"
  proof (cases "rdata reg")
    case None
    then show ?thesis using sol by (simp add: region_ok_def t solid_def)
  next
    case (Some rs)
    then have "rdata t = Some (REGION_RECTS t)" "2 \<le> length (REGION_RECTS t)"
      using ok R by (auto simp: t REGION_RECTS_def region_ok_def REGION_NIL_def split: if_splits)
    then show ?thesis using B T' by (auto simp: region_ok_def area_def)
  qed
  with A show ?thesis by (auto simp: t_def)
qed

section \<open>The interface the server uses\<close>

text \<open>
  What the rest of the server assumes of regions: it keeps them at addresses and combines them with
  REGION_UNION, REGION_INTERSECT and REGION_SUBTRACT.
\<close>

locale region_ops =
  fixes ok :: "'r \<Rightarrow> bool" and points :: "'r \<Rightarrow> (int \<times> int) set"
    and uni inte subt :: "rptr \<Rightarrow> rptr \<Rightarrow> rptr \<Rightarrow> (rptr \<Rightarrow> 'r) \<Rightarrow> rptr \<Rightarrow> 'r"
  assumes uni_ok: "ok (s a) \<Longrightarrow> ok (s b) \<Longrightarrow> ok (uni n a b s n)"
    and uni_points: "ok (s a) \<Longrightarrow> ok (s b) \<Longrightarrow> points (uni n a b s n) = points (s a) \<union> points (s b)"
    and uni_frame: "ok (s a) \<Longrightarrow> ok (s b) \<Longrightarrow> p \<noteq> n \<Longrightarrow> uni n a b s p = s p"
    and inte_ok: "ok (s a) \<Longrightarrow> ok (s b) \<Longrightarrow> ok (inte n a b s n)"
    and inte_points: "ok (s a) \<Longrightarrow> ok (s b) \<Longrightarrow> points (inte n a b s n) = points (s a) \<inter> points (s b)"
    and inte_frame: "ok (s a) \<Longrightarrow> ok (s b) \<Longrightarrow> p \<noteq> n \<Longrightarrow> inte n a b s p = s p"
    and subt_ok: "ok (s a) \<Longrightarrow> ok (s b) \<Longrightarrow> ok (subt n a b s n)"
    and subt_points: "ok (s a) \<Longrightarrow> ok (s b) \<Longrightarrow> points (subt n a b s n) = points (s a) - points (s b)"
    and subt_frame: "ok (s a) \<Longrightarrow> ok (s b) \<Longrightarrow> p \<noteq> n \<Longrightarrow> subt n a b s p = s p"
begin

text \<open>A piece that is cut out of a region and put back leaves its points as they were.\<close>

lemma subtract_union:
  assumes "ok (s m)" "ok (s u)" "m \<noteq> u"
  shows "points (uni m m u (subt m m u s) m) = points (s m) \<union> points (s u)"
proof -
  have "ok (subt m m u s m)" "ok (subt m m u s u)" "points (subt m m u s u) = points (s u)"
    using subt_ok [OF assms(1,2)] subt_frame [OF assms(1,2), of u m] assms by simp_all
  then show ?thesis using subt_points [OF assms(1,2)] by (auto simp: uni_points)
qed

end

interpretation mi: region_ops region_ok area miUnion miIntersect miSubtract
proof
  fix s :: rstore and a b n p :: rptr
  assume ok: "region_ok (s a)" "region_ok (s b)"
  note U = miUnion_computes [OF ok, of n] and I = miIntersect_computes [OF ok, of n]
    and S = miSubtract_computes [OF ok, of n]
  show "region_ok (miUnion n a b s n)" "area (miUnion n a b s n) = area (s a) \<union> area (s b)"
    "region_ok (miIntersect n a b s n)" "area (miIntersect n a b s n) = area (s a) \<inter> area (s b)"
    "region_ok (miSubtract n a b s n)" "area (miSubtract n a b s n) = area (s a) - area (s b)"
    using U I S by (simp_all add: computes_def)
  assume "p \<noteq> n"
  then show "miUnion n a b s p = s p" "miIntersect n a b s p = s p" "miSubtract n a b s p = s p"
    using U I S by (simp_all add: computes_def)
qed

section \<open>Properties\<close>

text \<open>Two overlapping boxes, and the region they form, for the applications below.\<close>

definition demo_regions :: rstore where
  "demo_regions p =
    (if p = 0 then \<lparr>extents = box 0 0 10 10, rdata = None\<rparr>
     else if p = 1 then \<lparr>extents = box 5 5 20 20, rdata = None\<rparr>
     else \<lparr>extents = miEmptyBox, rdata = Some []\<rparr>)"

lemma demo_regions_ok: "region_ok (demo_regions p)"
  by (simp add: demo_regions_def region_ok_def solid_def miEmptyBox_def)

text \<open>
  C17: miUnion computes the union of the pixels of its two sources, whichever of the three regions
  are the same object; the result is well-formed and no other region is touched.
\<close>

theorem miUnion_correct:
  assumes "region_ok (s reg1)" "region_ok (s reg2)"
  shows "computes s (miUnion newReg reg1 reg2 s) newReg (area (s reg1) \<union> area (s reg2))"
  by (rule miUnion_computes [OF assms])

theorem miUnion_correct_witness:
  "computes demo_regions (miUnion 0 0 1 demo_regions) 0 (area (demo_regions 0) \<union> area (demo_regions 1))"
  by (rule miUnion_correct [OF demo_regions_ok demo_regions_ok])

text \<open>
  C18: miIntersect computes the intersection, with the same freedom of aliasing, through each of its
  shortcuts (disjoint extents, two boxes, subsumption, the same region) and the general operator.
\<close>

theorem miIntersect_correct:
  assumes "region_ok (s reg1)" "region_ok (s reg2)"
  shows "computes s (miIntersect newReg reg1 reg2 s) newReg (area (s reg1) \<inter> area (s reg2))"
  by (rule miIntersect_computes [OF assms])

theorem miIntersect_correct_witness:
  "computes demo_regions (miIntersect 2 0 1 demo_regions) 2 (area (demo_regions 0) \<inter> area (demo_regions 1))"
  by (rule miIntersect_correct [OF demo_regions_ok demo_regions_ok])

text \<open>
  C19: miSubtract computes the difference, also when the result is written over a source.
\<close>

theorem miSubtract_correct:
  assumes "region_ok (s regM)" "region_ok (s regS)"
  shows "computes s (miSubtract regD regM regS s) regD (area (s regM) - area (s regS))"
  by (rule miSubtract_computes [OF assms])

theorem miSubtract_correct_witness:
  "computes demo_regions (miSubtract 0 0 1 demo_regions) 0 (area (demo_regions 0) - area (demo_regions 1))"
  by (rule miSubtract_correct [OF demo_regions_ok demo_regions_ok])

text \<open>
  C20: the consistency check of the debug build accepts what union, intersection and difference compute,
  and so what the inverse computes in a rectangle that is not empty, and what a translation does that leaves the
  extents of a region with pixels within the coordinates:
  the result is y-x banded and its extents are exactly the smallest box around its rectangles.
\<close>

theorem region_results_valid:
  assumes "region_ok (s reg1)" "region_ok (s reg2)"
  shows "miValidRegion (miUnion newReg reg1 reg2 s newReg) \<and>
    miValidRegion (miIntersect newReg reg1 reg2 s newReg) \<and>
    miValidRegion (miSubtract newReg reg1 reg2 s newReg) \<and>
    (solid invRect \<and> invReg \<noteq> newReg \<and> invReg \<noteq> reg1 \<longrightarrow> miValidRegion (miInverse newReg reg1 invRect invReg s newReg)) \<and>
    (\<not> REGION_NIL (s reg1) \<and> MINSHORT \<le> bx1 (extents (s reg1)) + u \<and> MINSHORT \<le> by1 (extents (s reg1)) + v \<and>
      bx2 (extents (s reg1)) + u \<le> MAXSHORT \<and> by2 (extents (s reg1)) + v \<le> MAXSHORT \<longrightarrow>
        miValidRegion (miTranslateRegion (s reg1) u v))"
proof -
  have "miValidRegion (miInverse newReg reg1 invRect invReg s newReg)" if "solid invRect" "invReg \<noteq> newReg" "invReg \<noteq> reg1"
    using miInverse_computes [where s = s and ?reg1.0 = reg1, OF assms(1) that] that(2) by (intro region_ok_valid) (simp add: computes_def)
  moreover have "miValidRegion (miUnion newReg reg1 reg2 s newReg)" "miValidRegion (miIntersect newReg reg1 reg2 s newReg)"
    "miValidRegion (miSubtract newReg reg1 reg2 s newReg)"
    by (intro region_ok_valid mi.uni_ok mi.inte_ok mi.subt_ok assms)+
  ultimately show ?thesis using miTranslateRegion_inside [OF assms(1), of u v] region_ok_valid by blast
qed

theorem region_results_valid_witness:
  "miValidRegion (miUnion 0 0 1 demo_regions 0) \<and> miValidRegion (miIntersect 0 0 1 demo_regions 0) \<and>
    miValidRegion (miSubtract 0 0 1 demo_regions 0) \<and> miValidRegion (miInverse 0 0 (box 0 0 100 100) 2 demo_regions 0) \<and>
    miValidRegion (miTranslateRegion (demo_regions 0) (-5) 7)"
  using region_results_valid [where s = demo_regions and ?reg1.0 = 0 and ?reg2.0 = 1 and newReg = 0 and
      invRect = "box 0 0 100 100" and invReg = 2 and u = "-5" and v = 7, OF demo_regions_ok demo_regions_ok]
  by (simp add: solid_def) (simp add: demo_regions_def REGION_NIL_def MINSHORT_def MAXSHORT_def)

text \<open>
  C33: as long as the moved extents stay within the coordinates of the protocol, miTranslateRegion
  moves exactly the pixels of the region by the given offset and keeps it well-formed.
\<close>

theorem miTranslateRegion_correct:
  assumes "region_ok reg" "\<not> REGION_NIL reg"
    "MINSHORT \<le> bx1 (extents reg) + u" "MINSHORT \<le> by1 (extents reg) + v"
    "bx2 (extents reg) + u \<le> MAXSHORT" "by2 (extents reg) + v \<le> MAXSHORT"
  shows "region_ok (miTranslateRegion reg u v) \<and>
    area (miTranslateRegion reg u v) = {(x, y). (x - u, y - v) \<in> area reg}"
  by (rule miTranslateRegion_inside [OF assms])

theorem miTranslateRegion_correct_witness:
  "region_ok (miTranslateRegion (demo_regions 0) (-5) 7)"
  using miTranslateRegion_correct [of "demo_regions 0" "-5" 7]
  by (simp add: demo_regions_def region_ok_def solid_def REGION_NIL_def MINSHORT_def MAXSHORT_def)

end
