(* ===== verification/Rfb_Types.thy ===== *)
theory Rfb_Types
  imports Sockets Vncauth Regionalg
begin

text \<open>
  The data of \<^verbatim>\<open>OSXvnc-server/rfb.h\<close> and \<^verbatim>\<open>rfbproto.h\<close>: pixel formats, the screen, the client record
  and the globals of the server, the protocol constants and the byte layout of the headers. Log
  messages are left out everywhere, and so are the fields of the encoders that use zlib and JPEG.
\<close>

section \<open>Pixel formats\<close>

text \<open>
  \<open>CARD8\<close> and \<open>CARD16\<close> fields are naturals; a store of a larger value writes its remainder. The two
  flags are only tested for being zero.
\<close>

record rfbPixelFormat =
  bitsPerPixel :: nat
  depth :: nat
  bigEndian :: bool
  trueColour :: bool
  redMax :: nat
  greenMax :: nat
  blueMax :: nat
  redShift :: nat
  greenShift :: nat
  blueShift :: nat

definition sz_rfbPixelFormat :: nat where "sz_rfbPixelFormat = 16"

definition PF_EQ :: "rfbPixelFormat \<Rightarrow> rfbPixelFormat \<Rightarrow> bool" where
  "PF_EQ x y \<longleftrightarrow>
     bitsPerPixel x = bitsPerPixel y \<and> depth x = depth y \<and>
     (bigEndian x = bigEndian y \<or> bitsPerPixel x = 8) \<and>
     trueColour x = trueColour y \<and>
     (\<not> trueColour x \<or>
      (redMax x = redMax y \<and> greenMax x = greenMax y \<and> blueMax x = blueMax y \<and>
       redShift x = redShift y \<and> greenShift x = greenShift y \<and> blueShift x = blueShift y))"

text \<open>A format as it is sent: the maxima in network order, three bytes of padding.\<close>

definition put_format :: "rfbPixelFormat \<Rightarrow> u8 list" where
  "put_format f =
    [of_nat (bitsPerPixel f), of_nat (depth f), of_bool (bigEndian f), of_bool (trueColour f)] @
    be16 (int (redMax f)) @ be16 (int (greenMax f)) @ be16 (int (blueMax f)) @
    [of_nat (redShift f), of_nat (greenShift f), of_nat (blueShift f), 0, 0, 0]"

definition get_format :: "u8 list \<Rightarrow> rfbPixelFormat" where
  "get_format bs =
    \<lparr>bitsPerPixel = unat (bs ! 0), depth = unat (bs ! 1),
     bigEndian = (bs ! 2 \<noteq> 0), trueColour = (bs ! 3 \<noteq> 0),
     redMax = nat (rd16 (drop 4 bs)), greenMax = nat (rd16 (drop 6 bs)), blueMax = nat (rd16 (drop 8 bs)),
     redShift = unat (bs ! 10), greenShift = unat (bs ! 11), blueShift = unat (bs ! 12)\<rparr>"

text \<open>Every field fits its C type.\<close>

definition pf_fits :: "rfbPixelFormat \<Rightarrow> bool" where
  "pf_fits f \<longleftrightarrow> bitsPerPixel f < 256 \<and> depth f < 256 \<and> redMax f < 65536 \<and> greenMax f < 65536 \<and>
     blueMax f < 65536 \<and> redShift f < 256 \<and> greenShift f < 256 \<and> blueShift f < 256"

lemma length_put_format [simp, len_simps]: "length (put_format f) = sz_rfbPixelFormat"
  by (simp add: put_format_def sz_rfbPixelFormat_def)

section \<open>The client and the server\<close>

record rfbScreenInfo =
  swidth :: nat
  paddedWidthInBytes :: nat
  sheight :: nat
  sdepth :: nat
  sbitsPerPixel :: nat
  sizeInBytes :: nat

datatype client_state =
    RFB_PROTOCOL_VERSION
  | RFB_AUTH_VERSION
  | RFB_AUTHENTICATION
  | RFB_INITIALISATION
  | RFB_NORMAL

text \<open>
  The translation functions by the bits per pixel of their input and output, and the lookup tables:
  one, or three for red, green and blue.
\<close>

datatype trans_fn = TransNone | TransSingle nat nat | TransRGB nat nat

datatype trans_table = NoTable | SingleTable "u32 list" | RGBTables "u32 list" "u32 list" "u32 list"

text \<open>Memory is bytes by their offset from the start of a buffer.\<close>

type_synonym buffer = "nat \<Rightarrow> u8"

text \<open>
  A client. \<open>updateBuf\<close> holds the \<open>ublen\<close> bytes in use, \<open>updateLocked\<close> tells whether updateMutex is
  held, \<open>outputWaiting\<close> whether the output thread sleeps on updateCond, and
  \<open>cid\<close> stands for the address of the record. \<open>screenBuffer\<close> and \<open>scalingFrameBuffer\<close> are what
  the two pointers point to. The state of a compressor is determined by what it has been called with:
  \<open>compStream\<close> is the compression level it was set up with and the blocks deflated so far, and so are
  the two streams of zlibhex.c, which are \<open>None\<close> before they are set up. For the four streams of tight.c
  \<open>zsStruct\<close> has the level in force, which may change, and the blocks with the level of each.
  \<open>zrleData\<close> is the stream object of zrle.cc: the bytes in its buffer and the calls of deflate so far,
  each with or without a flush.
\<close>

record ZlibOutStream =
  buffered :: "u8 list"
  deflated :: "(bool \<times> u8 list) list"

record rfbClientRec = conn +
  cid :: nat
  host :: string
  major :: int
  minor :: int
  state :: client_state
  correMaxWidth :: nat
  correMaxHeight :: nat
  authChallenge :: "u8 list"
  updateLocked :: bool
  outputWaiting :: bool
  modifiedRegion :: RegionRec
  requestedRegion :: RegionRec
  translateFn :: trans_fn
  translateLookupTable :: trans_table
  format :: rfbPixelFormat
  scalingFactor :: nat
  screenBuffer :: buffer
  scalingFrameBuffer :: buffer
  scalingPaddedWidthInBytes :: nat
  rfbBytesSent :: "nat \<Rightarrow> nat"
  rfbRectanglesSent :: "nat \<Rightarrow> nat"
  rfbLastRectMarkersSent :: nat
  rfbLastRectBytesSent :: nat
  rfbFramebufferUpdateMessagesSent :: nat
  rfbRawBytesEquivalent :: nat
  rfbKeyEventsRcvd :: nat
  rfbPointerEventsRcvd :: nat
  compStream :: "nat \<times> u8 list list"
  compStreamInited :: bool
  zlibCompressLevel :: nat
  compStreamRaw :: "(nat \<times> u8 list list) option"
  compStreamHex :: "(nat \<times> u8 list list) option"
  zsStruct :: "nat \<Rightarrow> (nat \<times> (nat \<times> u8 list) list) option"
  tightAfterBufSize :: nat
  zrleData :: "ZlibOutStream option"
  tightCompressLevel :: nat
  tightQualityLevel :: int
  enableLastRectEncoding :: bool
  enableXCursorShapeUpdates :: bool
  useRichCursorEncoding :: bool
  enableCursorPosUpdates :: bool
  desktopSizeUpdate :: bool
  reverseConnection :: bool
  preferredEncoding :: int
  disableRemoteEvents :: bool
  swapMouseButtons23 :: bool
  immediateUpdate :: bool
  richClipboardSupport :: bool
  generalPBLastChange :: int
  currentCursorSeed :: int
  clientCursorLocation :: "int \<times> int"
  needNewScreenSize :: bool
  updateBuf :: "u8 list"

text \<open>A signal of updateCond wakes the output thread of the client; if it does not sleep, the signal is lost.\<close>

definition pthread_cond_signal :: "rfbClientRec \<Rightarrow> rfbClientRec" where
  "pthread_cond_signal cl = cl\<lparr>outputWaiting := False\<rparr>"

lemma signal_fields [simp]:
  "sock (pthread_cond_signal cl) = sock cl" "exited (pthread_cond_signal cl) = exited cl" "rdev (pthread_cond_signal cl) = rdev cl"
  "cid (pthread_cond_signal cl) = cid cl" "modifiedRegion (pthread_cond_signal cl) = modifiedRegion cl"
  "requestedRegion (pthread_cond_signal cl) = requestedRegion cl" "scalingFactor (pthread_cond_signal cl) = scalingFactor cl"
  "updateLocked (pthread_cond_signal cl) = updateLocked cl" "\<not> outputWaiting (pthread_cond_signal cl)"
  by (simp_all add: pthread_cond_signal_def)

text \<open>What the server hands to the window system, oldest first.\<close>

datatype os_event =
    PtrAddEvent u8 int int nat
  | KbdAddEvent bool int nat
  | SetCutText "u8 list" nat
  | ReleaseKeys nat

text \<open>
  The globals of the server. \<open>passwordFiles\<close> is the file system, \<open>rng\<close> and \<open>clock\<close> are \<open>random\<close> and
  \<open>time(0)\<close>, \<open>failedAttempts\<close> is the dictionary of failed attempts by host.
\<close>

record server =
  rfbScreen :: rfbScreenInfo
  rfbServerFormat :: rfbPixelFormat
  littleEndian :: bool
  rfbMaxBitDepth :: nat
  rfbProtocolMajorVersion :: int
  rfbProtocolMinorVersion :: int
  desktopName :: "u8 list"
  rfbAlwaysShared :: bool
  rfbNeverShared :: bool
  rfbDontDisconnect :: bool
  rfbDisableRemote :: bool
  rfbSwapButtons :: bool
  rfbDisableRichClipboards :: bool
  rfbEconomicTranslate :: bool
  allowNoAuth :: bool
  rfbAuthPasswdFile :: "string option"
  storedPass :: "u8 list"
  suppliedPass :: bool
  rfbMaxLoginAttempts :: int
  failedAttempts :: "string \<Rightarrow> int"
  passwordFiles :: filesys
  rng :: "nat \<Rightarrow> nat \<Rightarrow> nat"
  clock :: nat
  framebuffer :: buffer
  pointerClient :: "nat option"
  events :: "os_event list"

section \<open>Constants\<close>

definition UPDATE_BUF_SIZE :: nat where "UPDATE_BUF_SIZE = 30000"

definition rfbConnFailed :: int where "rfbConnFailed = 0"
definition rfbNoAuth :: int where "rfbNoAuth = 1"
definition rfbVncAuth :: int where "rfbVncAuth = 2"
definition rfbVncAuthOK :: int where "rfbVncAuthOK = 0"
definition rfbVncAuthFailed :: int where "rfbVncAuthFailed = 1"

definition rfbEncodingRaw :: nat where "rfbEncodingRaw = 0"
definition rfbEncodingCopyRect :: nat where "rfbEncodingCopyRect = 1"
definition rfbEncodingRRE :: nat where "rfbEncodingRRE = 2"
definition rfbEncodingCoRRE :: nat where "rfbEncodingCoRRE = 4"
definition rfbEncodingHextile :: nat where "rfbEncodingHextile = 5"
definition rfbEncodingZlib :: nat where "rfbEncodingZlib = 6"
definition rfbEncodingTight :: nat where "rfbEncodingTight = 7"
definition rfbEncodingZlibHex :: nat where "rfbEncodingZlibHex = 8"
definition rfbEncodingUltra :: nat where "rfbEncodingUltra = 9"
definition rfbStatsDesktopResize :: nat where "rfbStatsDesktopResize = 12"
definition rfbEncodingZRLE :: nat where "rfbEncodingZRLE = 16"
definition rfbImmediateUpdate :: nat where "rfbImmediateUpdate = 0x80000000"
definition rfbPasteboardRequest :: nat where "rfbPasteboardRequest = 0x80010000"
definition rfbRichPasteboard :: nat where "rfbRichPasteboard = 0x80010001"
definition rfbEncodingCompressLevel0 :: nat where "rfbEncodingCompressLevel0 = 0xFFFFFF00"
definition rfbEncodingCompressLevel9 :: nat where "rfbEncodingCompressLevel9 = 0xFFFFFF09"
definition rfbEncodingXCursor :: nat where "rfbEncodingXCursor = 0xFFFFFF10"
definition rfbEncodingRichCursor :: nat where "rfbEncodingRichCursor = 0xFFFFFF11"
definition rfbEncodingPointerPos :: nat where "rfbEncodingPointerPos = 0xFFFFFF18"
definition rfbEncodingLastRect :: nat where "rfbEncodingLastRect = 0xFFFFFF20"
definition rfbEncodingDesktopResize :: nat where "rfbEncodingDesktopResize = 0xFFFFFF21"
definition rfbEncodingQualityLevel0 :: nat where "rfbEncodingQualityLevel0 = 0xFFFFFFE0"
definition rfbEncodingQualityLevel9 :: nat where "rfbEncodingQualityLevel9 = 0xFFFFFFE9"

section \<open>Headers\<close>

definition sz_rfbFramebufferUpdateMsg :: nat where "sz_rfbFramebufferUpdateMsg = 4"
definition sz_rfbFramebufferUpdateRectHeader :: nat where "sz_rfbFramebufferUpdateRectHeader = 12"
definition sz_rfbSetColourMapEntriesMsg :: nat where "sz_rfbSetColourMapEntriesMsg = 6"
definition sz_rfbRREHeader :: nat where "sz_rfbRREHeader = 4"

definition rect_header :: "int \<Rightarrow> int \<Rightarrow> int \<Rightarrow> int \<Rightarrow> nat \<Rightarrow> u8 list" where
  "rect_header x y w h enc = be16 x @ be16 y @ be16 w @ be16 h @ be32 (int enc)"

lemma length_rect_header [simp, len_simps]: "length (rect_header x y w h enc) = sz_rfbFramebufferUpdateRectHeader"
  by (simp add: rect_header_def sz_rfbFramebufferUpdateRectHeader_def)

definition get_rect_header :: "u8 list \<Rightarrow> int \<times> int \<times> int \<times> int \<times> int" where
  "get_rect_header bs = (rd16 bs, rd16 (drop 2 bs), rd16 (drop 4 bs), rd16 (drop 6 bs), rd32 (drop 8 bs))"

lemma drop_be16: "drop 2 (be16 n @ bs) = bs"
  by (simp add: be16_def)

lemma get_put_rect_header:
  assumes "0 \<le> x" "x < 65536" "0 \<le> y" "y < 65536" "0 \<le> w" "w < 65536" "0 \<le> h" "h < 65536" "enc < 2 ^ 32"
  shows "get_rect_header (rect_header x y w h enc @ bs) = (x, y, w, h, int enc)"
proof -
  have d: "drop 4 (rect_header x y w h enc @ bs) = be16 w @ be16 h @ be32 (int enc) @ bs"
    "drop 6 (rect_header x y w h enc @ bs) = be16 h @ be32 (int enc) @ bs"
    "drop 8 (rect_header x y w h enc @ bs) = be32 (int enc) @ bs"
    by (simp_all add: rect_header_def be16_def)
  have "int enc mod 4294967296 = int enc" using assms(9) by simp
  then show ?thesis
    using assms unfolding get_rect_header_def d
    by (simp add: rd16_be16 rd32_be32 drop_be16 rect_header_def)
qed

lemma get_put_format:
  assumes "pf_fits f"
  shows "get_format (put_format f @ bs) = f"
proof -
  have d: "drop 4 (put_format f @ bs) = be16 (int (redMax f)) @ drop 6 (put_format f @ bs)"
    "drop 6 (put_format f @ bs) = be16 (int (greenMax f)) @ drop 8 (put_format f @ bs)"
    "drop 8 (put_format f @ bs) = be16 (int (blueMax f)) @ drop 10 (put_format f @ bs)"
    by (simp_all add: put_format_def be16_def)
  have m: "nat (rd16 (drop 4 (put_format f @ bs))) = redMax f"
    "nat (rd16 (drop 6 (put_format f @ bs))) = greenMax f"
    "nat (rd16 (drop 8 (put_format f @ bs))) = blueMax f"
    using assms by (subst d, simp add: rd16_be16 pf_fits_def nat_mod_distrib)+
  have b: "unat (of_nat n :: u8) = n" if "n < 256" for n
    using that by (simp add: unat_of_nat)
  have "get_format (put_format f @ bs) =
      \<lparr>bitsPerPixel = bitsPerPixel f, depth = depth f, bigEndian = bigEndian f, trueColour = trueColour f,
       redMax = redMax f, greenMax = greenMax f, blueMax = blueMax f,
       redShift = redShift f, greenShift = greenShift f, blueShift = blueShift f\<rparr>"
    unfolding get_format_def m
    using assms by (simp add: put_format_def be16_def b pf_fits_def)
  then show ?thesis by simp
qed

section \<open>Example values\<close>

text \<open>A 32-bit little-endian screen and a client, for the applications of the properties.\<close>

definition demo_format :: rfbPixelFormat where
  "demo_format = \<lparr>bitsPerPixel = 32, depth = 24, bigEndian = False, trueColour = True,
     redMax = 255, greenMax = 255, blueMax = 255, redShift = 16, greenShift = 8, blueShift = 0\<rparr>"

definition demo_server :: server where
  "demo_server = \<lparr>
     rfbScreen = \<lparr>swidth = 4, paddedWidthInBytes = 16, sheight = 3, sdepth = 24, sbitsPerPixel = 32, sizeInBytes = 48\<rparr>,
     rfbServerFormat = demo_format, littleEndian = True, rfbMaxBitDepth = 0,
     rfbProtocolMajorVersion = 3, rfbProtocolMinorVersion = 8, desktopName = [109, 97, 99],
     rfbAlwaysShared = False, rfbNeverShared = False, rfbDontDisconnect = False, rfbDisableRemote = False,
     rfbSwapButtons = False, rfbDisableRichClipboards = False, rfbEconomicTranslate = False,
     allowNoAuth = False, rfbAuthPasswdFile = Some ''pw'', storedPass = [], suppliedPass = False,
     rfbMaxLoginAttempts = 5, failedAttempts = (\<lambda>_. 0),
     passwordFiles = demo_fs\<lparr>contents := [''pw'' \<mapsto> [1, 2, 3, 4, 5, 6, 7, 8]]\<rparr>,
     rng = (\<lambda>s i. s + i), clock = 0, framebuffer = (\<lambda>i. of_nat i), pointerClient = None, events = []\<rparr>"

definition demo_client :: rfbClientRec where
  "demo_client = \<lparr>sock = 7, rdev = [], wrev = [], sent = [], errno = 0, exited = False,
     cid = 1, host = ''10.0.0.1'', major = 3, minor = 8, state = RFB_PROTOCOL_VERSION,
     correMaxWidth = 48, correMaxHeight = 48, authChallenge = replicate 16 0, updateLocked = False, outputWaiting = False,
     modifiedRegion = \<lparr>extents = box 0 0 4 3, rdata = None\<rparr>,
     requestedRegion = \<lparr>extents = miEmptyBox, rdata = Some []\<rparr>,
     translateFn = TransNone, translateLookupTable = NoTable, format = demo_format,
     scalingFactor = 1, screenBuffer = (\<lambda>i. of_nat i), scalingFrameBuffer = (\<lambda>i. of_nat i),
     scalingPaddedWidthInBytes = 16, rfbBytesSent = (\<lambda>_. 0), rfbRectanglesSent = (\<lambda>_. 0),
     rfbLastRectMarkersSent = 0, rfbLastRectBytesSent = 0, rfbFramebufferUpdateMessagesSent = 0,
     rfbRawBytesEquivalent = 0, rfbKeyEventsRcvd = 0, rfbPointerEventsRcvd = 0,
     compStream = (0, []), compStreamInited = False, zlibCompressLevel = 5, compStreamRaw = None, compStreamHex = None,
     zsStruct = (\<lambda>_. None), tightAfterBufSize = 0, zrleData = None, tightCompressLevel = 6, tightQualityLevel = -1,
     enableLastRectEncoding = False, enableXCursorShapeUpdates = False, useRichCursorEncoding = False,
     enableCursorPosUpdates = False, desktopSizeUpdate = False, reverseConnection = False,
     preferredEncoding = 0, disableRemoteEvents = False, swapMouseButtons23 = False,
     immediateUpdate = False, richClipboardSupport = False, generalPBLastChange = 0,
     currentCursorSeed = 0, clientCursorLocation = (0, 0), needNewScreenSize = False, updateBuf = []\<rparr>"

end
