(* ===== verification/Auth.thy ===== *)
theory Auth
  imports Rfb_Types
begin

text \<open>
  \<^verbatim>\<open>OSXvnc-server/auth.c\<close>: choosing a security type, the challenge-response exchange, and the count
  of failed attempts per host. The Objective-C dictionary of failures is a function that is 0 for
  hosts without an entry. Literal messages of the server are byte lists.
\<close>

definition bytes_of :: "string \<Rightarrow> u8 list" where
  "bytes_of s = map of_char s"

section \<open>Failed attempts\<close>

definition failedAttemptsForClient :: "rfbClientRec \<Rightarrow> server \<Rightarrow> int" where
  "failedAttemptsForClient cl srv = failedAttempts srv (host cl)"

definition incrementFailedAttemptsForClient :: "rfbClientRec \<Rightarrow> server \<Rightarrow> server" where
  "incrementFailedAttemptsForClient cl srv =
    srv\<lparr>failedAttempts := (failedAttempts srv)(host cl := failedAttempts srv (host cl) + 1)\<rparr>"

definition clearFailedAttemptsForClient :: "rfbClientRec \<Rightarrow> server \<Rightarrow> server" where
  "clearFailedAttemptsForClient cl srv =
    srv\<lparr>failedAttempts := (failedAttempts srv)(host cl := 0)\<rparr>"

definition tooManyFailures :: "rfbClientRec \<Rightarrow> server \<Rightarrow> bool" where
  "tooManyFailures cl srv \<longleftrightarrow>
     rfbMaxLoginAttempts srv \<noteq> 0 \<and> failedAttemptsForClient cl srv > rfbMaxLoginAttempts srv"

section \<open>The handlers\<close>

definition rfbSecurityResultMessage :: "int \<Rightarrow> u8 list \<Rightarrow> rfbClientRec \<Rightarrow> rfbClientRec" where
  "rfbSecurityResultMessage result errorString cl =
    (if result = rfbVncAuthOK then snd (write_or_close (be32 result) cl)
     else
       let buf = be32 result @
             (if major cl = 3 \<and> minor cl \<ge> 8 then be32 (int (length errorString)) @ errorString else [])
       in snd (write_or_close buf cl))"

text \<open>The security type that rfbAuthNewClient would use.\<close>

definition wants_password :: "server \<Rightarrow> rfbClientRec \<Rightarrow> bool" where
  "wants_password srv cl \<longleftrightarrow>
     (\<not> reverseConnection cl \<and> rfbAuthPasswdFile srv \<noteq> None) \<or> suppliedPass srv"

definition sec_types :: "server \<Rightarrow> rfbClientRec \<Rightarrow> int list" where
  "sec_types srv cl =
    (if wants_password srv cl then [rfbVncAuth]
     else if reverseConnection cl \<or> allowNoAuth srv then [rfbNoAuth] else [])"

text \<open>
  rfbAuthNewClient for protocol 3.7 and later sends a list of security types, for earlier versions
  the type that the server chose, with the challenge. \<open>junk\<close> is what the three bytes of the stack
  buffer hold that the older branch sends without having written them.
\<close>

definition auth_new_37 :: "server \<Rightarrow> rfbClientRec \<Rightarrow> rfbClientRec" where
  "auth_new_37 srv cl =
    (if tooManyFailures cl srv then
       let errorString = bytes_of ''Too Many Security Failures'';
           buf = [0] @ be32 (int (length errorString)) @ errorString;
           (_, cl) = WriteExact buf cl
       in rfbCloseClient cl
     else
       let types = sec_types srv cl;
           cl = (if types \<noteq> [] then cl\<lparr>state := RFB_AUTH_VERSION\<rparr> else cl);
           errorString = bytes_of ''No Supported Security Types'';
           buf = [of_nat (length types)] @ map of_int types @
             (if types = [] then be32 (int (length errorString)) @ errorString else [])
       in snd (write_or_close buf cl))"

definition auth_new_33 :: "u8 list \<Rightarrow> server \<Rightarrow> rfbClientRec \<Rightarrow> rfbClientRec" where
  "auth_new_33 junk srv cl =
    (if tooManyFailures cl srv then
       let errorString = bytes_of ''Too Many Security Failures'';
           buf = [of_int rfbConnFailed] @ take 3 junk @ be32 (int (length errorString)) @ errorString;
           (_, cl) = WriteExact buf cl
       in rfbCloseClient cl
     else if wants_password srv cl then
       let cl = cl\<lparr>authChallenge := vncRandomBytes (rng srv) (clock srv)\<rparr>;
           buf = be32 rfbVncAuth @ authChallenge cl;
           cl = cl\<lparr>state := RFB_AUTHENTICATION\<rparr>
       in snd (write_or_close buf cl)
     else if reverseConnection cl \<or> allowNoAuth srv then
       let cl = cl\<lparr>state := RFB_INITIALISATION\<rparr>
       in snd (write_or_close (be32 rfbNoAuth) cl)
     else rfbCloseClient cl)"

definition rfbAuthNewClient :: "u8 list \<Rightarrow> server \<Rightarrow> rfbClientRec \<Rightarrow> rfbClientRec" where
  "rfbAuthNewClient junk srv cl =
    (if major cl = 3 \<and> minor cl \<ge> 7 then auth_new_37 srv cl else auth_new_33 junk srv cl)"

definition enterSuppliedPassword :: "u8 list \<Rightarrow> server \<Rightarrow> bool \<times> server" where
  "enterSuppliedPassword passIn srv =
    (let srv = (if strlen passIn > 0 then srv\<lparr>storedPass := passIn, suppliedPass := True\<rparr> else srv)
     in (suppliedPass srv, srv))"

definition rfbProcessAuthVersion :: "server \<Rightarrow> rfbClientRec \<Rightarrow> rfbClientRec" where
  "rfbProcessAuthVersion srv cl =
    (case read_or_close 1 cl of Inl cl \<Rightarrow> cl
     | Inr (bs, cl) \<Rightarrow>
        let securityType = uint (bs ! 0) in
        if securityType = rfbVncAuth then
          let cl = cl\<lparr>authChallenge := vncRandomBytes (rng srv) (clock srv)\<rparr>;
              (ok, cl) = write_or_close (authChallenge cl) cl
          in if ok then cl\<lparr>state := RFB_AUTHENTICATION\<rparr> else cl
        else if securityType = rfbNoAuth then
          if \<not> reverseConnection cl \<and> rfbAuthPasswdFile srv \<noteq> None
          then rfbCloseClient (rfbSecurityResultMessage rfbVncAuthFailed (bytes_of ''Invalid Security Type'') cl)
          else
            let cl = (if major cl = 3 \<and> minor cl \<ge> 8
                      then rfbSecurityResultMessage rfbVncAuthOK [] cl else cl)
            in cl\<lparr>state := RFB_INITIALISATION\<rparr>
        else rfbCloseClient
          (rfbSecurityResultMessage rfbVncAuthFailed (bytes_of ''Invalid Security Type'') cl))"

text \<open>The loop that overwrites the password with NULs, up to its end.\<close>

definition wipe :: "u8 list \<Rightarrow> u8 list" where
  "wipe p = replicate (strlen p) 0 @ drop (strlen p) p"

text \<open>The password the server compares with.\<close>

definition current_password :: "server \<Rightarrow> u8 list option" where
  "current_password srv =
    (if \<not> suppliedPass srv then vncDecryptPasswdFromFile (rfbAuthPasswdFile srv) (passwordFiles srv)
     else Some (storedPass srv))"

definition rfbAuthProcessClientMessage :: "server \<times> rfbClientRec \<Rightarrow> server \<times> rfbClientRec" where
  "rfbAuthProcessClientMessage = (\<lambda>(srv, cl).
    case read_or_close CHALLENGESIZE cl of Inl cl \<Rightarrow> (srv, cl)
    | Inr (response, cl) \<Rightarrow>
       (case current_password srv of
          None \<Rightarrow>
            (srv, rfbCloseClient (rfbSecurityResultMessage rfbVncAuthFailed
                    (bytes_of ''Could not access password file'') cl))
        | Some passwd \<Rightarrow>
            let cl = cl\<lparr>authChallenge := vncEncryptBytes (authChallenge cl) passwd\<rparr>;
                srv = (if suppliedPass srv then srv\<lparr>storedPass := wipe passwd\<rparr> else srv)
            in if authChallenge cl \<noteq> response
               then (incrementFailedAttemptsForClient cl srv,
                     rfbCloseClient (rfbSecurityResultMessage rfbVncAuthFailed
                       (bytes_of ''Incorrect Password'') cl))
               else (clearFailedAttemptsForClient cl srv,
                     (rfbSecurityResultMessage rfbVncAuthOK [] cl)\<lparr>state := RFB_INITIALISATION\<rparr>)))"

section \<open>Helpers\<close>

text \<open>The fields of a client beyond its connection, which the transfers do not touch.\<close>

lemma more_fields:
  fixes a b :: rfbClientRec
  assumes "conn.more a = conn.more b"
  shows "state a = state b" "host a = host b" "authChallenge a = authChallenge b" "major a = major b"
    "minor a = minor b" "reverseConnection a = reverseConnection b" "cid a = cid b"
  using assms by (cases a; cases b; simp)+

lemma write_or_close_fields [simp]:
  fixes cl :: rfbClientRec
  shows "state (snd (write_or_close buf cl)) = state cl" "host (snd (write_or_close buf cl)) = host cl"
    "authChallenge (snd (write_or_close buf cl)) = authChallenge cl"
    "major (snd (write_or_close buf cl)) = major cl" "minor (snd (write_or_close buf cl)) = minor cl"
    "reverseConnection (snd (write_or_close buf cl)) = reverseConnection cl"
  using more_fields [OF write_or_close_more] by simp_all

lemma WriteExact_fields [simp]:
  fixes cl :: rfbClientRec
  shows "state (snd (WriteExact buf cl)) = state cl" "host (snd (WriteExact buf cl)) = host cl"
    "reverseConnection (snd (WriteExact buf cl)) = reverseConnection cl"
proof -
  obtain r c where r: "WriteExact buf cl = (r, c)" by fastforce
  then have m: "conn.more (snd (WriteExact buf cl)) = conn.more cl" using WriteExact_frame [OF r] by simp
  show "state (snd (WriteExact buf cl)) = state cl" "host (snd (WriteExact buf cl)) = host cl"
    "reverseConnection (snd (WriteExact buf cl)) = reverseConnection cl"
    using more_fields [OF m] by simp_all
qed

lemma result_message_fields [simp]:
  "state (rfbSecurityResultMessage r e cl) = state cl"
  "reverseConnection (rfbSecurityResultMessage r e cl) = reverseConnection cl"
  by (simp_all add: rfbSecurityResultMessage_def Let_def)

lemma close_fields [simp]:
  fixes cl :: rfbClientRec
  shows "state (rfbCloseClient cl) = state cl" "sock (rfbCloseClient cl) = -1"
    "reverseConnection (rfbCloseClient cl) = reverseConnection cl"
  by (simp_all add: rfbCloseClient_def)

lemma read_Inr_fields:
  fixes cl :: rfbClientRec
  assumes "read_or_close n cl = Inr (bs, cl')"
  shows "state cl' = state cl" "host cl' = host cl" "authChallenge cl' = authChallenge cl"
    "major cl' = major cl" "minor cl' = minor cl" "reverseConnection cl' = reverseConnection cl"
  using more_fields [OF read_or_close_Inr(2) [OF assms]] by simp_all

lemma read_Inl_state:
  fixes cl :: rfbClientRec
  assumes "read_or_close n cl = Inl cl'"
  shows "state cl' = state cl" "reverseConnection cl' = reverseConnection cl"
proof -
  obtain r bs c where r: "ReadExact n cl = (r, bs, c)" by (metis prod_cases3)
  then have "cl' = rfbCloseClient c" using assms by (simp add: read_or_close_def split: if_splits)
  then show "state cl' = state cl" "reverseConnection cl' = reverseConnection cl"
    using ReadExact_frame [OF r] more_fields [of c cl] by simp_all
qed

lemma strlen_wipe: "strlen (wipe p) = 0 \<or> p = []"
proof (cases "strlen p")
  case 0
  then have "p \<noteq> [] \<Longrightarrow> hd p = 0" by (cases p) (auto simp: strlen_def cstr_def split: if_splits)
  then show ?thesis using 0 by (cases p) (auto simp: wipe_def strlen_def cstr_def)
next
  case (Suc n)
  then show ?thesis by (simp add: wipe_def strlen_def cstr_def)
qed

lemma pad8_wipe: "pad8 (wipe p) = replicate 8 0"
proof -
  have "strlen (wipe p) = 0" using strlen_wipe [of p] by (auto simp: wipe_def strlen_def cstr_def)
  then show ?thesis by (simp add: pad8_def map_replicate_const)
qed

section \<open>The handshake as a state machine\<close>

text \<open>
  The steps of one connection while it authenticates. In between, other connections may change the
  counts of failed attempts, and time passes.
\<close>

inductive auth_step :: "server \<times> rfbClientRec \<Rightarrow> server \<times> rfbClientRec \<Rightarrow> bool" where
  new_client: "state cl = RFB_PROTOCOL_VERSION \<Longrightarrow> auth_step (srv, cl) (srv, rfbAuthNewClient junk srv cl)"
| auth_version: "state cl = RFB_AUTH_VERSION \<Longrightarrow> auth_step (srv, cl) (srv, rfbProcessAuthVersion srv cl)"
| auth_response: "state cl = RFB_AUTHENTICATION \<Longrightarrow> auth_step (srv, cl) (rfbAuthProcessClientMessage (srv, cl))"
| elsewhere: "auth_step (srv, cl) (srv\<lparr>failedAttempts := f, clock := t\<rparr>, cl)"

inductive_cases auth_stepE: "auth_step (srv, cl) (srv', cl')"

lemma auth_new_37_state: "state (auth_new_37 srv cl) \<in> {state cl, RFB_AUTH_VERSION}"
  by (simp add: auth_new_37_def Let_def case_prod_beta)

lemma auth_new_33_state:
  "wants_password srv cl \<Longrightarrow> state (auth_new_33 junk srv cl) \<in> {state cl, RFB_AUTHENTICATION}"
  by (simp add: auth_new_33_def Let_def case_prod_beta)

lemma new_client_state:
  "wants_password srv cl \<Longrightarrow> state cl \<noteq> RFB_INITIALISATION \<Longrightarrow>
    state (rfbAuthNewClient junk srv cl) \<noteq> RFB_INITIALISATION"
  using auth_new_37_state [of srv cl] auth_new_33_state [of srv cl junk]
  by (auto simp: rfbAuthNewClient_def)

text \<open>What the client has to have sent for the handler of its response to accept it.\<close>

definition proves_password :: "server \<Rightarrow> rfbClientRec \<Rightarrow> bool" where
  "proves_password srv cl \<longleftrightarrow>
     (\<exists>pw response cl'. current_password srv = Some pw \<and>
        read_or_close CHALLENGESIZE cl = Inr (response, cl') \<and>
        response = vncEncryptBytes (authChallenge cl) pw)"

lemma auth_version_state:
  assumes "\<not> reverseConnection cl" "rfbAuthPasswdFile srv \<noteq> None"
  shows "state (rfbProcessAuthVersion srv cl) \<in> {state cl, RFB_AUTHENTICATION}"
proof (cases "read_or_close 1 cl")
  case (Inl cl1)
  then show ?thesis using read_Inl_state by (simp add: rfbProcessAuthVersion_def)
next
  case (Inr p)
  then obtain bs cl1 where r: "read_or_close 1 cl = Inr (bs, cl1)" by (cases p) simp
  show ?thesis unfolding rfbProcessAuthVersion_def r
    using assms read_Inr_fields [OF r] by (simp add: Let_def case_prod_beta)
qed

lemma auth_response_state:
  assumes "state (snd (rfbAuthProcessClientMessage (srv, cl))) \<noteq> state cl"
  shows "proves_password srv cl"
proof (cases "read_or_close CHALLENGESIZE cl")
  case (Inl cl1)
  then show ?thesis using assms read_Inl_state by (simp add: rfbAuthProcessClientMessage_def)
next
  case (Inr p)
  then obtain bs cl1 where r: "read_or_close CHALLENGESIZE cl = Inr (bs, cl1)" by (cases p) simp
  show ?thesis using assms read_Inr_fields [OF r]
    by (auto simp: rfbAuthProcessClientMessage_def r Let_def proves_password_def split: option.splits if_splits)
qed

lemma auth_step_passwd_file:
  assumes "auth_step (srv, cl) (srv', cl')"
  shows "rfbAuthPasswdFile srv' = rfbAuthPasswdFile srv"
  using assms
proof (cases "(srv, cl)" "(srv', cl')" rule: auth_step.cases)
  case auth_response
  then show ?thesis
    by (auto simp: rfbAuthProcessClientMessage_def Let_def clearFailedAttemptsForClient_def
        incrementFailedAttemptsForClient_def split: sum.splits option.splits if_splits)
qed simp_all

lemma auth_step_reverse:
  assumes "auth_step (srv, cl) (srv', cl')"
  shows "reverseConnection cl' = reverseConnection cl"
  using assms
proof (cases "(srv, cl)" "(srv', cl')" rule: auth_step.cases)
  case new_client
  then show ?thesis
    by (simp add: rfbAuthNewClient_def auth_new_37_def auth_new_33_def Let_def case_prod_beta)
next
  case auth_version
  then show ?thesis
    using read_Inl_state(2) [of 1 cl] read_Inr_fields(6) [of 1 cl]
    by (auto simp: rfbProcessAuthVersion_def Let_def case_prod_beta split: sum.splits)
next
  case auth_response
  have "reverseConnection (snd (rfbAuthProcessClientMessage (srv, cl))) = reverseConnection cl"
    using read_Inl_state(2) [of CHALLENGESIZE cl] read_Inr_fields(6) [of CHALLENGESIZE cl]
    by (auto simp: rfbAuthProcessClientMessage_def Let_def split: sum.splits option.splits)
  then show ?thesis using auth_response by (metis snd_conv)
qed simp

lemma auth_steps_fields:
  assumes "auth_step\<^sup>*\<^sup>* (srv, cl) (srv', cl')"
  shows "rfbAuthPasswdFile srv' = rfbAuthPasswdFile srv" "reverseConnection cl' = reverseConnection cl"
  using assms
  by (induction "(srv', cl')" arbitrary: srv' cl' rule: rtranclp_induct)
    (auto dest: auth_step_passwd_file auth_step_reverse)

lemma auth_step_gate:
  assumes "auth_step (srv, cl) (srv', cl')" "rfbAuthPasswdFile srv \<noteq> None" "\<not> reverseConnection cl"
    "state cl \<noteq> RFB_INITIALISATION" "state cl' = RFB_INITIALISATION"
  shows "state cl = RFB_AUTHENTICATION \<and> proves_password srv cl"
  using assms(1)
proof (cases "(srv, cl)" "(srv', cl')" rule: auth_step.cases)
  case new_client
  then show ?thesis using new_client_state [of srv cl] assms by (simp add: wants_password_def)
next
  case auth_version
  then show ?thesis using auth_version_state [OF assms(3,2)] assms(4,5) by auto
next
  case auth_response
  then show ?thesis using auth_response_state [of srv cl] assms(4,5) by (metis snd_conv)
qed (use assms in simp)

section \<open>Properties\<close>


text \<open>A connection that authenticates: protocol 3.3, then the right response.\<close>

definition demo_auth_client :: rfbClientRec where
  "demo_auth_client = demo_client\<lparr>minor := 3, rdev := [RdData
     (vncEncryptBytes (vncRandomBytes (rng demo_server) 0) (des (deskey fixedkey DE1) [1, 2, 3, 4, 5, 6, 7, 8] @ [0]))]\<rparr>"

lemma read_whole:
  fixes cl :: "'b conn_scheme"
  assumes "\<not> exited cl" "0 \<le> sock cl" "rdev cl = [RdData bs]" "bs \<noteq> []"
  shows "read_or_close (length bs) cl = Inr (bs, cl\<lparr>rdev := []\<rparr>)"
  using assms by (simp add: read_or_close_def ReadExact_def)

lemma demo_auth_run:
  "auth_step\<^sup>*\<^sup>* (demo_server, demo_auth_client)
    (rfbAuthProcessClientMessage (demo_server, rfbAuthNewClient [] demo_server demo_auth_client))"
  "state (snd (rfbAuthProcessClientMessage
    (demo_server, rfbAuthNewClient [] demo_server demo_auth_client))) = RFB_INITIALISATION"
proof -
  let ?cl = "rfbAuthNewClient [] demo_server demo_auth_client"
  let ?chal = "vncRandomBytes (rng demo_server) 0"
  let ?pw = "des (deskey fixedkey DE1) [1, 2, 3, 4, 5, 6, 7, 8] @ [0]"
  let ?resp = "vncEncryptBytes ?chal ?pw"
  have cl: "?cl = demo_auth_client\<lparr>authChallenge := ?chal, state := RFB_AUTHENTICATION,
      sent := be32 2 @ ?chal\<rparr>"
    by (simp add: rfbAuthNewClient_def auth_new_33_def demo_auth_client_def demo_client_def demo_server_def
        tooManyFailures_def failedAttemptsForClient_def wants_password_def write_or_close_def WriteExact_def
        rfbVncAuth_def be32_def)
  have "length ?resp = CHALLENGESIZE" by (simp add: CHALLENGESIZE_def)
  moreover have "?resp \<noteq> []" using length_vncEncryptBytes [of ?chal ?pw] by force
  ultimately have r: "read_or_close CHALLENGESIZE ?cl = Inr (?resp, ?cl\<lparr>rdev := []\<rparr>)"
    using read_whole [of ?cl ?resp] unfolding cl by (simp add: demo_auth_client_def demo_client_def)
  have pw: "current_password demo_server = Some ?pw"
    by (simp add: current_password_def demo_server_def vncDecryptPasswdFromFile_def)
  show "state (snd (rfbAuthProcessClientMessage (demo_server, ?cl))) = RFB_INITIALISATION"
    by (simp add: rfbAuthProcessClientMessage_def r pw Let_def) (simp add: cl)
  have "auth_step (demo_server, demo_auth_client) (demo_server, ?cl)"
    by (rule new_client) (simp add: demo_auth_client_def demo_client_def)
  moreover have "auth_step (demo_server, ?cl) (rfbAuthProcessClientMessage (demo_server, ?cl))"
    by (rule auth_response) (simp add: cl)
  ultimately show "auth_step\<^sup>*\<^sup>* (demo_server, demo_auth_client) (rfbAuthProcessClientMessage (demo_server, ?cl))"
    by auto
qed


text \<open>
  C21: The answer to a response is decided by the password alone: the right one moves the client on
  and clears the failures of its host; any other closes the connection, leaves its state and adds
  one failure.
\<close>

theorem auth_response_decides:
  assumes "read_or_close CHALLENGESIZE cl = Inr (response, cl1)" "current_password srv = Some pw"
    "state cl = RFB_AUTHENTICATION"
  shows "case rfbAuthProcessClientMessage (srv, cl) of (srv', cl') \<Rightarrow>
    if response = vncEncryptBytes (authChallenge cl) pw
    then state cl' = RFB_INITIALISATION \<and> failedAttempts srv' (host cl) = 0
    else state cl' = RFB_AUTHENTICATION \<and> sock cl' = -1 \<and>
      failedAttempts srv' (host cl) = failedAttempts srv (host cl) + 1"
  using assms read_Inr_fields [OF assms(1)]
  by (auto simp: rfbAuthProcessClientMessage_def Let_def clearFailedAttemptsForClient_def
      incrementFailedAttemptsForClient_def)

theorem auth_response_decides_witness:
  "case rfbAuthProcessClientMessage (demo_server, demo_client\<lparr>state := RFB_AUTHENTICATION, rdev := [RdData (replicate 16 1)]\<rparr>)
   of (srv', cl') \<Rightarrow>
    if replicate 16 1 = vncEncryptBytes (replicate 16 0) (des (deskey fixedkey DE1) [1, 2, 3, 4, 5, 6, 7, 8] @ [0])
    then state cl' = RFB_INITIALISATION \<and> failedAttempts srv' ''10.0.0.1'' = 0
    else state cl' = RFB_AUTHENTICATION \<and> sock cl' = -1 \<and> failedAttempts srv' ''10.0.0.1'' = 1"
proof -
  let ?cl = "demo_client\<lparr>state := RFB_AUTHENTICATION, rdev := [RdData (replicate 16 1)]\<rparr>"
  have r: "read_or_close CHALLENGESIZE ?cl = Inr (replicate 16 1, ?cl\<lparr>rdev := []\<rparr>)"
    using read_whole [of ?cl "replicate 16 1"] by (simp add: CHALLENGESIZE_def demo_client_def)
  have pw: "current_password demo_server = Some (des (deskey fixedkey DE1) [1, 2, 3, 4, 5, 6, 7, 8] @ [0])"
    by (simp add: current_password_def demo_server_def vncDecryptPasswdFromFile_def)
  have f: "failedAttempts demo_server h = 0" for h by (simp add: demo_server_def)
  have c: "authChallenge ?cl = replicate 16 0" "host ?cl = ''10.0.0.1''" "state ?cl = RFB_AUTHENTICATION"
    by (simp_all add: demo_client_def)
  show ?thesis using auth_response_decides [OF r pw c(3)] unfolding c f add_0 .
qed

text \<open>
  C22: A host with more failures than rfbMaxLoginAttempts is turned away by both versions of the
  handshake: the connection is closed, no challenge is made and the state does not move.
\<close>

theorem auth_lockout:
  assumes "rfbMaxLoginAttempts srv \<noteq> 0" "failedAttempts srv (host cl) > rfbMaxLoginAttempts srv"
  shows "sock (rfbAuthNewClient junk srv cl) = -1 \<and> state (rfbAuthNewClient junk srv cl) = state cl"
  using assms
  by (simp add: rfbAuthNewClient_def auth_new_37_def auth_new_33_def tooManyFailures_def
      failedAttemptsForClient_def Let_def case_prod_beta)

theorem auth_lockout_witness:
  "sock (rfbAuthNewClient [] (demo_server\<lparr>failedAttempts := (\<lambda>_. 6)\<rparr>) demo_client) = -1"
  using auth_lockout [of "demo_server\<lparr>failedAttempts := (\<lambda>_. 6)\<rparr>" demo_client "[]"]
  by (simp add: demo_server_def)

text \<open>
  C23: When the password comes from the command line and no file is configured, a client that asks
  for the security type 1, which it was never offered, is let in without any password.
\<close>

theorem supplied_password_bypass:
  assumes "suppliedPass srv" "rfbAuthPasswdFile srv = None"
    "read_or_close 1 cl = Inr ([1], cl')"
  shows "state (rfbProcessAuthVersion srv cl) = RFB_INITIALISATION \<and> sec_types srv cl = [rfbVncAuth]"
proof -
  have "uint (1 :: u8) = rfbNoAuth" "rfbNoAuth \<noteq> rfbVncAuth" by (simp_all add: rfbNoAuth_def rfbVncAuth_def)
  then show ?thesis
    unfolding rfbProcessAuthVersion_def assms(3)
    using assms(1,2) by (simp add: Let_def sec_types_def wants_password_def)
qed

theorem supplied_password_bypass_witness:
  "state (rfbProcessAuthVersion (demo_server\<lparr>suppliedPass := True, rfbAuthPasswdFile := None\<rparr>)
    (demo_client\<lparr>state := RFB_AUTH_VERSION, rdev := [RdData [1]]\<rparr>)) = RFB_INITIALISATION"
proof -
  let ?cl = "demo_client\<lparr>state := RFB_AUTH_VERSION, rdev := [RdData [1]]\<rparr>"
  have "read_or_close 1 ?cl = Inr ([1], ?cl\<lparr>rdev := []\<rparr>)"
    using read_whole [of ?cl "[1]"] by (simp add: demo_client_def)
  from supplied_password_bypass [OF _ _ this, of "demo_server\<lparr>suppliedPass := True, rfbAuthPasswdFile := None\<rparr>"]
  show ?thesis by simp
qed

text \<open>
  C24: Handling one response wipes a password that was supplied on the command line, so from then on
  every client is accepted that encrypts its challenge with the empty password.
\<close>

theorem supplied_password_lost:
  assumes "suppliedPass srv" "read_or_close CHALLENGESIZE cl = Inr (response, cl1)"
    "read_or_close CHALLENGESIZE cl2 = Inr (vncEncryptBytes (authChallenge cl2) [], cl3)"
  shows "state (snd (rfbAuthProcessClientMessage (fst (rfbAuthProcessClientMessage (srv, cl)), cl2)))
    = RFB_INITIALISATION"
proof -
  define srv' where "srv' = fst (rfbAuthProcessClientMessage (srv, cl))"
  have s: "suppliedPass srv'" "storedPass srv' = wipe (storedPass srv)"
    using assms(1,2)
    by (auto simp: srv'_def rfbAuthProcessClientMessage_def current_password_def Let_def
        clearFailedAttemptsForClient_def incrementFailedAttemptsForClient_def)
  have "pad8 [] = replicate 8 0" by (simp add: pad8_def strlen_def cstr_def map_replicate_const)
  then have e: "vncEncryptBytes c (wipe p) = vncEncryptBytes c []" for c p
    by (simp add: vncEncryptBytes_def pad8_wipe)
  have "authChallenge cl3 = authChallenge cl2" using read_Inr_fields [OF assms(3)] by simp
  then show ?thesis
    using s assms(3) unfolding srv'_def [symmetric]
    by (simp add: rfbAuthProcessClientMessage_def current_password_def Let_def e)
qed

theorem supplied_password_lost_witness:
  "state (snd (rfbAuthProcessClientMessage
    (fst (rfbAuthProcessClientMessage (demo_server\<lparr>suppliedPass := True, storedPass := [115, 101, 99, 0]\<rparr>,
        demo_client\<lparr>rdev := [RdData (replicate 16 1)]\<rparr>)),
     demo_client\<lparr>rdev := [RdData (vncEncryptBytes (replicate 16 0) [])]\<rparr>))) = RFB_INITIALISATION"
proof -
  let ?c1 = "demo_client\<lparr>rdev := [RdData (replicate 16 1)]\<rparr>"
  let ?c2 = "demo_client\<lparr>rdev := [RdData (vncEncryptBytes (replicate 16 0) [])]\<rparr>"
  have r1: "read_or_close CHALLENGESIZE ?c1 = Inr (replicate 16 1, ?c1\<lparr>rdev := []\<rparr>)"
    using read_whole [of ?c1 "replicate 16 1"] by (simp add: CHALLENGESIZE_def demo_client_def)
  have ne: "vncEncryptBytes (replicate 16 0) [] \<noteq> []"
    using length_vncEncryptBytes [of "replicate 16 0" "[]"] by force
  have a: "authChallenge ?c2 = replicate 16 0" by (simp add: demo_client_def)
  have r2: "read_or_close CHALLENGESIZE ?c2 = Inr (vncEncryptBytes (authChallenge ?c2) [], ?c2\<lparr>rdev := []\<rparr>)"
    using read_whole [of ?c2 "vncEncryptBytes (replicate 16 0) []"] ne
    by (simp add: CHALLENGESIZE_def demo_client_def)
  show ?thesis by (rule supplied_password_lost [OF _ r1 r2]) simp
qed

end
