(* ===== verification/Translate.thy ===== *)
theory Translate
  imports Auth
begin

text \<open>
  \<^verbatim>\<open>OSXvnc-server/translate.c\<close> with its templates \<^verbatim>\<open>tableinittctemplate.c\<close> and
  \<^verbatim>\<open>tabletranstemplate.c\<close>: copying a rectangle of the framebuffer into the output buffer in the
  client's pixel format, through one lookup table or three. The templates are functions of the widths
  \<open>IN\<close> and \<open>OUT\<close>. Intermediate results are \<open>int\<close>s in C: a shift takes its count modulo 32 and
  keeps 32 bits, as the x86 and ARM hosts of this program do (the C standard leaves larger counts
  undefined); products are exact, which they are while the maxima of the server stay below \<open>2 ^ 15\<close>.
  Pixels in memory are in the byte order of the host.
\<close>

section \<open>Pixels in memory\<close>

definition shl32 :: "nat \<Rightarrow> nat \<Rightarrow> u32" where
  "shl32 v s = push_bit (s mod 32) (of_nat v)"

definition Swap16 :: "u32 \<Rightarrow> u32" where
  "Swap16 s = (push_bit 8 (s AND 0xff)) OR (drop_bit 8 s AND 0xff)"

definition Swap32 :: "u32 \<Rightarrow> u32" where
  "Swap32 l = drop_bit 24 l OR drop_bit 8 (l AND 0x00ff0000) OR push_bit 8 (l AND 0x0000ff00) OR push_bit 24 l"

text \<open>A value stored in an \<open>OUT_T\<close>; \<open>SwapOUT\<close> when the byte orders differ (not for 8 bits).\<close>

definition to_out :: "nat \<Rightarrow> u32 \<Rightarrow> u32" where
  "to_out OUT v = take_bit OUT v"

definition SwapOUT :: "nat \<Rightarrow> u32 \<Rightarrow> u32" where
  "SwapOUT OUT v = (if OUT = 16 then Swap16 v else if OUT = 32 then Swap32 v else v)"

text \<open>A load through an \<open>IN_T\<close> pointer at a byte offset.\<close>

definition load_pixel :: "bool \<Rightarrow> nat \<Rightarrow> buffer \<Rightarrow> nat \<Rightarrow> u32" where
  "load_pixel le bpp mem a =
    (let bs = map (\<lambda>i. mem (a + i)) [0..<bpp div 8]; bs = (if le then bs else rev bs)
     in foldr (\<lambda>b v. push_bit 8 v OR ucast b) bs 0)"

section \<open>Building the tables\<close>

text \<open>
  The products of the tables are ints. The maxima of the server's format, \<open>inMax\<close>, are 255 in every
  format that rfbScreenInit sets, and those of a client have 16 bits, so that no product overflows and nothing is divided by zero.
\<close>

lemma table_entry_in_int:
  assumes "inMax \<le> 255" "outMax < 65536" "i \<le> inMax"
  shows "i * outMax + inMax div 2 < (2 :: nat) ^ 31"
proof -
  have "i * outMax \<le> 255 * 65535" using assms by (intro mult_le_mono) simp_all
  then show ?thesis using assms(1) by simp
qed

definition rfbInitOneRGBTable :: "nat \<Rightarrow> nat \<Rightarrow> nat \<Rightarrow> nat \<Rightarrow> bool \<Rightarrow> u32 list" where
  "rfbInitOneRGBTable OUT inMax outMax outShift swap =
    map (\<lambda>i. let t = to_out OUT (shl32 ((i * outMax + inMax div 2) div inMax) outShift)
             in if OUT \<noteq> 8 \<and> swap then to_out OUT (SwapOUT OUT t) else t)
      [0..<inMax + 1]"

definition rfbInitTrueColourRGBTables :: "nat \<Rightarrow> rfbPixelFormat \<Rightarrow> rfbPixelFormat \<Rightarrow> trans_table" where
  "rfbInitTrueColourRGBTables OUT inp out =
    (let swap = (bigEndian out \<noteq> bigEndian inp) in
     RGBTables
      (rfbInitOneRGBTable OUT (redMax inp) (redMax out) (redShift out) swap)
      (rfbInitOneRGBTable OUT (greenMax inp) (greenMax out) (greenShift out) swap)
      (rfbInitOneRGBTable OUT (blueMax inp) (blueMax out) (blueShift out) swap))"

text \<open>One colour component of a pixel value.\<close>

definition component :: "u32 \<Rightarrow> nat \<Rightarrow> nat \<Rightarrow> nat" where
  "component p shift mx = unat (drop_bit (shift mod 32) p AND of_nat mx)"

definition rfbInitTrueColourSingleTable :: "nat \<Rightarrow> rfbPixelFormat \<Rightarrow> rfbPixelFormat \<Rightarrow> trans_table" where
  "rfbInitTrueColourSingleTable OUT inp out =
    SingleTable (map (\<lambda>i.
      let inRed = component (of_nat i) (redShift inp) (redMax inp);
          inGreen = component (of_nat i) (greenShift inp) (greenMax inp);
          inBlue = component (of_nat i) (blueShift inp) (blueMax inp);
          outRed = (inRed * redMax out + redMax inp div 2) div redMax inp;
          outGreen = (inGreen * greenMax out + greenMax inp div 2) div greenMax inp;
          outBlue = (inBlue * blueMax out + blueMax inp div 2) div blueMax inp;
          t = to_out OUT (shl32 outRed (redShift out) OR shl32 outGreen (greenShift out) OR shl32 outBlue (blueShift out))
      in if OUT \<noteq> 8 \<and> bigEndian out \<noteq> bigEndian inp then to_out OUT (SwapOUT OUT t) else t)
      [0..<2 ^ bitsPerPixel inp])"

section \<open>Translating a rectangle\<close>

text \<open>
  The result is the bytes written from \<open>optr\<close> on; \<open>a\<close> is the offset of \<open>iptr\<close> in the input buffer.
\<close>

definition rfbTranslateNone :: "rfbPixelFormat \<Rightarrow> buffer \<Rightarrow> nat \<Rightarrow> nat \<Rightarrow> nat \<Rightarrow> nat \<Rightarrow> u8 list" where
  "rfbTranslateNone out mem a bytesBetweenInputLines w h =
    (let bytesPerOutputLine = w * (bitsPerPixel out div 8)
     in concat (map (\<lambda>j. map (\<lambda>i. mem (a + j * bytesBetweenInputLines + i)) [0..<bytesPerOutputLine])
          [0..<h]))"

text \<open>
  The typed pointer \<open>ip\<close> advances by the width in a line and by \<open>ipextra\<close> between lines, so
  line \<open>j\<close> starts \<open>bytesBetweenInputLines div sizeof(IN_T)\<close> pixels after line \<open>j - 1\<close>.
\<close>

definition trans_lines :: "bool \<Rightarrow> nat \<Rightarrow> nat \<Rightarrow> (u32 \<Rightarrow> u32) \<Rightarrow> buffer \<Rightarrow> nat \<Rightarrow> nat \<Rightarrow> nat \<Rightarrow> nat \<Rightarrow> u8 list" where
  "trans_lines le IN OUT f mem a bytesBetweenInputLines w h =
    concat (map (\<lambda>j. concat (map (\<lambda>i.
        host_bytes le OUT (f (load_pixel le IN mem
          (a + (j * (bytesBetweenInputLines div (IN div 8)) + i) * (IN div 8)))))
      [0..<w])) [0..<h])"

definition single_lookup :: "u32 list \<Rightarrow> u32 \<Rightarrow> u32" where
  "single_lookup t p = t ! unat p"

definition rgb_lookup :: "u32 list \<Rightarrow> u32 list \<Rightarrow> u32 list \<Rightarrow> rfbPixelFormat \<Rightarrow> u32 \<Rightarrow> u32" where
  "rgb_lookup redTable greenTable blueTable inp p =
    redTable ! component p (redShift inp) (redMax inp) OR
    greenTable ! component p (greenShift inp) (greenMax inp) OR
    blueTable ! component p (blueShift inp) (blueMax inp)"

definition rfbTranslateWithSingleTable ::
    "bool \<Rightarrow> nat \<Rightarrow> nat \<Rightarrow> u32 list \<Rightarrow> buffer \<Rightarrow> nat \<Rightarrow> nat \<Rightarrow> nat \<Rightarrow> nat \<Rightarrow> u8 list" where
  "rfbTranslateWithSingleTable le IN OUT t = trans_lines le IN OUT (single_lookup t)"

definition rfbTranslateWithRGBTables ::
    "bool \<Rightarrow> nat \<Rightarrow> nat \<Rightarrow> u32 list \<Rightarrow> u32 list \<Rightarrow> u32 list \<Rightarrow> rfbPixelFormat
      \<Rightarrow> buffer \<Rightarrow> nat \<Rightarrow> nat \<Rightarrow> nat \<Rightarrow> nat \<Rightarrow> u8 list" where
  "rfbTranslateWithRGBTables le IN OUT r g b inp = trans_lines le IN OUT (rgb_lookup r g b inp)"

text \<open>The call \<open>(*cl->translateFn)(cl->translateLookupTable, &rfbServerFormat, &cl->format, ...)\<close>.\<close>

definition translate_rect :: "server \<Rightarrow> rfbClientRec \<Rightarrow> buffer \<Rightarrow> nat \<Rightarrow> nat \<Rightarrow> nat \<Rightarrow> nat \<Rightarrow> u8 list" where
  "translate_rect srv cl mem a stride w h =
    (case (translateFn cl, translateLookupTable cl) of
       (TransNone, _) \<Rightarrow> rfbTranslateNone (format cl) mem a stride w h
     | (TransSingle i out, SingleTable t) \<Rightarrow> rfbTranslateWithSingleTable (littleEndian srv) i out t mem a stride w h
     | (TransRGB i out, RGBTables r g b) \<Rightarrow>
         rfbTranslateWithRGBTables (littleEndian srv) i out r g b (rfbServerFormat srv) mem a stride w h
     | _ \<Rightarrow> [])"

section \<open>Choosing the translation\<close>

definition BGR233Format :: rfbPixelFormat where
  "BGR233Format = \<lparr>bitsPerPixel = 8, depth = 8, bigEndian = False, trueColour = True,
     redMax = 7, greenMax = 7, blueMax = 3, redShift = 0, greenShift = 3, blueShift = 6\<rparr>"

definition bgr233_map :: "u8 list" where
  "bgr233_map = concat (map (\<lambda>b. concat (map (\<lambda>g. concat (map (\<lambda>r.
      be16 (r * 65535 div 7) @ be16 (g * 65535 div 7) @ be16 (b * 65535 div 3)) [0..7])) [0..7])) [0..3])"

text \<open>The padding byte of the header is a byte of the stack that was never written.\<close>

definition rfbSetClientColourMapBGR233 :: "u8 \<Rightarrow> rfbClientRec \<Rightarrow> bool \<times> rfbClientRec" where
  "rfbSetClientColourMapBGR233 pad cl =
    (if bitsPerPixel (format cl) \<noteq> 8 then (False, rfbCloseClient cl)
     else write_or_close ([1, pad] @ be16 0 @ be16 256 @ bgr233_map) cl)"

definition valid_bpp :: "nat \<Rightarrow> bool" where
  "valid_bpp n \<longleftrightarrow> n = 8 \<or> n = 16 \<or> n = 32"

text \<open>The part after the checks: truecolour to truecolour.\<close>

definition choose_translation :: "server \<Rightarrow> rfbPixelFormat \<Rightarrow> rfbClientRec \<Rightarrow> rfbClientRec" where
  "choose_translation srv inFormat cl =
    (if PF_EQ (format cl) inFormat then cl\<lparr>translateFn := TransNone, translateLookupTable := NoTable\<rparr>
     else if bitsPerPixel inFormat < 16 \<or> (\<not> rfbEconomicTranslate srv \<and> bitsPerPixel inFormat = 16)
     then cl\<lparr>translateFn := TransSingle (bitsPerPixel inFormat) (bitsPerPixel (format cl)),
             translateLookupTable := rfbInitTrueColourSingleTable (bitsPerPixel (format cl)) inFormat (format cl)\<rparr>
     else cl\<lparr>translateFn := TransRGB (bitsPerPixel inFormat) (bitsPerPixel (format cl)),
             translateLookupTable := rfbInitTrueColourRGBTables (bitsPerPixel (format cl)) inFormat (format cl)\<rparr>)"

definition rfbSetTranslateFunctionUsingFormat ::
    "u8 \<Rightarrow> server \<Rightarrow> rfbPixelFormat \<Rightarrow> rfbClientRec \<Rightarrow> bool \<times> rfbClientRec" where
  "rfbSetTranslateFunctionUsingFormat pad srv inFormat cl =
    (if \<not> valid_bpp (bitsPerPixel inFormat) then (False, rfbCloseClient cl)
     else if \<not> valid_bpp (bitsPerPixel (format cl)) then (False, rfbCloseClient cl)
     else if \<not> trueColour (format cl) \<and> bitsPerPixel (format cl) \<noteq> 8 then (False, rfbCloseClient cl)
     else if \<not> trueColour (format cl) then
       (case rfbSetClientColourMapBGR233 pad cl of
          (False, cl) \<Rightarrow> (False, cl)
        | (True, cl) \<Rightarrow> (True, choose_translation srv inFormat (cl\<lparr>format := BGR233Format\<rparr>)))
     else (True, choose_translation srv inFormat cl))"

definition rfbSetTranslateFunction :: "u8 \<Rightarrow> server \<Rightarrow> rfbClientRec \<Rightarrow> bool \<times> rfbClientRec" where
  "rfbSetTranslateFunction pad srv cl =
    rfbSetTranslateFunctionUsingFormat pad srv (rfbServerFormat srv)
      (cl\<lparr>translateFn := TransNone, translateLookupTable := NoTable\<rparr>)"

section \<open>Lookups stay inside the tables\<close>

lemma unat_and_le: "unat (p AND of_nat m :: u32) \<le> m"
proof -
  have "unat (p AND of_nat m :: u32) \<le> unat (of_nat m :: u32)"
    using word_and_le1 [of p "of_nat m"] word_and_le2 [of p "of_nat m"]
    by (simp add: word_le_nat_alt)
  also have "\<dots> \<le> m" by (simp add: unat_of_nat)
  finally show ?thesis .
qed

lemma component_le: "component p s m \<le> m"
  unfolding component_def by (rule unat_and_le)

lemma component_take:
  "component p s m < Suc m"
  using component_le [of p s m] by simp

lemma length_rgb_table [simp]: "length (rfbInitOneRGBTable OUT inMax outMax sh sw) = inMax + 1"
  by (simp add: rfbInitOneRGBTable_def)

lemma scaled_le:
  fixes c m k :: nat
  assumes "c \<le> m" "0 < m"
  shows "(c * k + m div 2) div m \<le> k"
proof -
  have "(c * k + m div 2) div m \<le> (m * k + m div 2) div m"
    using assms by (intro div_le_mono) simp
  also have "\<dots> = k" using assms by simp
  finally show ?thesis .
qed

text \<open>Rounding: the scaled component is within half a step of the exact proportion.\<close>

lemma scaled_nearest:
  fixes c m k :: nat
  assumes "0 < m"
  shows "2 * c * k \<le> 2 * m * ((c * k + m div 2) div m) + m" "2 * m * ((c * k + m div 2) div m) \<le> 2 * c * k + m"
proof -
  define q where "q = (c * k + m div 2) div m"
  have "m * q \<le> c * k + m div 2" "c * k + m div 2 < m * q + m"
    using assms dividend_less_times_div [of m "c * k + m div 2"] by (simp_all add: q_def)
  moreover have "m div 2 * 2 \<le> m" "m \<le> m div 2 * 2 + 1" by simp_all
  ultimately show "2 * c * k \<le> 2 * m * q + m" "2 * m * q \<le> 2 * c * k + m" by linarith+
qed

section \<open>One table or three\<close>

lemma to_out_OR: "to_out OUT (a OR b) = to_out OUT a OR to_out OUT b"
  by (simp add: to_out_def)

lemma SwapOUT_OR: "SwapOUT OUT (a OR b) = SwapOUT OUT a OR SwapOUT OUT b"
proof -
  have "Swap16 (a OR b) = Swap16 a OR Swap16 b"
    by (rule bit_eqI) (auto simp: Swap16_def bit_simps)
  moreover have "Swap32 (a OR b) = Swap32 a OR Swap32 b"
    by (rule bit_eqI) (auto simp: Swap32_def bit_simps)
  ultimately show ?thesis by (simp add: SwapOUT_def)
qed

lemma single_is_rgb:
  assumes "valid_bpp (bitsPerPixel inp)" "unat p < 2 ^ bitsPerPixel inp"
    "rfbInitTrueColourSingleTable OUT inp out = SingleTable t"
    "rfbInitTrueColourRGBTables OUT inp out = RGBTables r g b"
  shows "single_lookup t p = rgb_lookup r g b inp p"
proof -
  have c: "component p s m < Suc m" for s m by (rule component_take)
  have e: "of_nat (unat p) = p" by simp
  show ?thesis
    using assms(3,4) c
    by (auto simp: rfbInitTrueColourSingleTable_def rfbInitTrueColourRGBTables_def single_lookup_def
        rgb_lookup_def rfbInitOneRGBTable_def Let_def assms(2) nth_append to_out_OR SwapOUT_OR
        or.assoc less_Suc_eq_le simp del: upt_Suc)
qed

section \<open>The colours that the client sees\<close>

text \<open>
  A format whose three fields are runs of bits that lie inside the pixel and do not overlap.
\<close>

definition field_mask :: "nat \<Rightarrow> nat \<Rightarrow> u32" where
  "field_mask s k = push_bit s (mask k)"

definition proper_format :: "rfbPixelFormat \<Rightarrow> nat \<Rightarrow> nat \<Rightarrow> nat \<Rightarrow> bool" where
  "proper_format f rk gk bk \<longleftrightarrow>
     redMax f = 2 ^ rk - 1 \<and> greenMax f = 2 ^ gk - 1 \<and> blueMax f = 2 ^ bk - 1 \<and>
     redShift f + rk \<le> bitsPerPixel f \<and> greenShift f + gk \<le> bitsPerPixel f \<and> blueShift f + bk \<le> bitsPerPixel f \<and>
     redShift f < 32 \<and> greenShift f < 32 \<and> blueShift f < 32 \<and> bitsPerPixel f \<le> 32 \<and>
     (redShift f + rk \<le> greenShift f \<or> greenShift f + gk \<le> redShift f) \<and>
     (redShift f + rk \<le> blueShift f \<or> blueShift f + bk \<le> redShift f) \<and>
     (greenShift f + gk \<le> blueShift f \<or> blueShift f + bk \<le> greenShift f)"

lemma bit_of_small: "v \<le> 2 ^ k - 1 \<Longrightarrow> bit (of_nat v :: u32) n \<Longrightarrow> n < k"
proof (rule ccontr)
  assume v: "v \<le> 2 ^ k - 1" and b: "bit (of_nat v :: u32) n" and n: "\<not> n < k"
  have "0 < (2::nat) ^ k" by simp
  then have "v < 2 ^ k" using v by linarith
  then have "v < 2 ^ n" using n by (meson le_less_trans less_le_trans not_less order_refl one_le_numeral power_increasing)
  then have "\<not> bit v n" by (simp add: bit_iff_odd)
  then show False using b by (simp add: bit_of_nat_iff)
qed

lemma unat_field:
  assumes "v \<le> 2 ^ k - 1" "k \<le> 32"
  shows "unat (of_nat v :: u32) = v"
proof -
  have "0 < (2::nat) ^ k" by simp
  then have "v < 2 ^ k" using assms(1) by linarith
  also have "\<dots> \<le> 2 ^ 32" using assms(2) by (intro power_increasing) simp_all
  finally show ?thesis by (simp add: unat_of_nat)
qed

lemma bit_shl32: "s < 32 \<Longrightarrow> v \<le> 2 ^ k - 1 \<Longrightarrow> bit (shl32 v s) n \<Longrightarrow> s \<le> n \<and> n < s + k"
  using bit_of_small [of v k "n - s"] by (auto simp: shl32_def bit_simps)

lemma component_field:
  assumes "s < 32" "s + k \<le> B" "B \<le> 32" "v \<le> 2 ^ k - 1" "m = 2 ^ k - 1"
    and others: "\<And>n. bit w n \<Longrightarrow> n < s \<or> s + k \<le> n"
  shows "component (to_out B (shl32 v s) OR w) s m = v"
proof -
  have mk: "(of_nat m :: u32) = mask k" by (simp add: assms(5) mask_eq_exp_minus_1 of_nat_diff)
  have "drop_bit s (to_out B (shl32 v s) OR w) AND mask k = of_nat v"
  proof (rule bit_eqI)
    fix n assume "possible_bit TYPE(u32) n"
    then have n: "n < 32" by simp
    show "bit (drop_bit s (to_out B (shl32 v s) OR w) AND mask k) n \<longleftrightarrow> bit (of_nat v :: u32) n"
    proof (cases "n < k")
      case True
      then have "\<not> bit w (s + n)" using others [of "s + n"] by auto
      then show ?thesis using True n assms(1-3)
        by (simp add: bit_simps to_out_def shl32_def)
    next
      case False
      then show ?thesis using bit_of_small [OF assms(4)] by (auto simp: bit_simps)
    qed
  qed
  then show ?thesis using unat_field [OF assms(4)] assms(1-3) by (simp add: component_def mk)
qed

lemma Swap16_masks: "Swap16 v = push_bit 8 (v AND mask 8) OR (drop_bit 8 v AND mask 8)"
  by (simp add: Swap16_def mask_eq_exp_minus_1)

lemma Swap32_masks: "Swap32 v = drop_bit 24 v OR drop_bit 8 (v AND push_bit 16 (mask 8)) OR
    push_bit 8 (v AND push_bit 8 (mask 8)) OR push_bit 24 v"
  by (simp add: Swap32_def mask_eq_exp_minus_1 push_bit_eq_mult)

lemma bit_Swap32:
  assumes "n < 32"
  shows "bit (Swap32 v) n = bit v (if n < 8 then n + 24 else if n < 16 then n + 8 else if n < 24 then n - 8 else n - 24)"
proof -
  consider "n < 8" | "8 \<le> n" "n < 16" | "16 \<le> n" "n < 24" | "24 \<le> n" by linarith
  then show ?thesis
    by cases (use assms in \<open>auto simp: Swap32_masks bit_or_iff bit_and_iff bit_drop_bit_eq
      bit_push_bit_iff bit_mask_iff ac_simps less_diff_conv2 dest: bit_imp_le_length\<close>)
qed

lemma SwapOUT_undo:
  assumes "valid_bpp OUT" "OUT \<noteq> 8"
  shows "SwapOUT OUT (to_out OUT (SwapOUT OUT (to_out OUT v))) = to_out OUT v"
proof -
  have "Swap16 (take_bit 16 (Swap16 (take_bit 16 v))) = take_bit 16 v"
    by (rule bit_word_eqI) (auto simp: Swap16_masks bit_simps, metis le_add_diff_inverse not_less)
  moreover have "Swap32 (take_bit 32 (Swap32 (take_bit 32 v))) = take_bit 32 v"
  proof (rule bit_word_eqI)
    fix n assume "n < LENGTH(32)"
    then have n: "n < 32" by simp
    have t: "take_bit 32 w = w" for w :: u32 by (rule take_bit_word_eq_self) simp
    consider "n < 8" | "8 \<le> n" "n < 16" | "16 \<le> n" "n < 24" | "24 \<le> n" by linarith
    then show "bit (Swap32 (take_bit 32 (Swap32 (take_bit 32 v)))) n = bit (take_bit 32 v) n"
      unfolding t by cases (use n in \<open>simp_all add: bit_Swap32 less_diff_conv2\<close>)
  qed
  ultimately show ?thesis using assms by (auto simp: SwapOUT_def to_out_def valid_bpp_def)
qed

text \<open>How a client with the other byte order reads a stored pixel.\<close>

definition client_view :: "nat \<Rightarrow> bool \<Rightarrow> u32 \<Rightarrow> u32" where
  "client_view OUT swap v = (if OUT \<noteq> 8 \<and> swap then SwapOUT OUT v else v)"

definition scaled :: "nat \<Rightarrow> nat \<Rightarrow> nat \<Rightarrow> nat" where
  "scaled c inMax outMax = (c * outMax + inMax div 2) div inMax"

text \<open>The pixel that the three tables stand for, before any swapping.\<close>

definition raw_pixel :: "nat \<Rightarrow> rfbPixelFormat \<Rightarrow> rfbPixelFormat \<Rightarrow> u32 \<Rightarrow> u32" where
  "raw_pixel OUT inp out p =
     to_out OUT (shl32 (scaled (component p (redShift inp) (redMax inp)) (redMax inp) (redMax out)) (redShift out)) OR
     to_out OUT (shl32 (scaled (component p (greenShift inp) (greenMax inp)) (greenMax inp) (greenMax out)) (greenShift out)) OR
     to_out OUT (shl32 (scaled (component p (blueShift inp) (blueMax inp)) (blueMax inp) (blueMax out)) (blueShift out))"

lemma table_nth:
  assumes "c \<le> inMax"
  shows "rfbInitOneRGBTable OUT inMax outMax sh sw ! c =
    (let t = to_out OUT (shl32 (scaled c inMax outMax) sh) in if OUT \<noteq> 8 \<and> sw then to_out OUT (SwapOUT OUT t) else t)"
  using assms by (simp add: rfbInitOneRGBTable_def scaled_def Let_def nth_append le_less_Suc_eq)

lemma to_out_idem: "to_out OUT (to_out OUT v) = to_out OUT v"
  by (simp add: to_out_def)

lemma lookup_raw:
  assumes "valid_bpp OUT" "rfbInitTrueColourRGBTables OUT inp out = RGBTables r g b"
  shows "client_view OUT (bigEndian out \<noteq> bigEndian inp) (rgb_lookup r g b inp p) = raw_pixel OUT inp out p"
proof -
  have L: "rgb_lookup r g b inp p =
      (if OUT \<noteq> 8 \<and> bigEndian out \<noteq> bigEndian inp then to_out OUT (SwapOUT OUT (to_out OUT (raw_pixel OUT inp out p)))
       else raw_pixel OUT inp out p)"
    using assms(2)
    by (auto simp: rfbInitTrueColourRGBTables_def Let_def rgb_lookup_def table_nth component_le raw_pixel_def
        to_out_OR SwapOUT_OR to_out_idem)
  have "to_out OUT (raw_pixel OUT inp out p) = raw_pixel OUT inp out p"
    by (simp add: raw_pixel_def to_out_OR to_out_idem)
  then show ?thesis
    using SwapOUT_undo [OF assms(1), of "raw_pixel OUT inp out p"] by (simp add: client_view_def L)
qed

lemma bit_to_out: "bit (to_out B v) n \<Longrightarrow> bit v n"
  by (simp add: to_out_def bit_simps)

lemma raw_pixel_components:
  assumes out: "proper_format out rk gk bk" "bitsPerPixel out = OUT"
    and inp: "0 < redMax inp" "0 < greenMax inp" "0 < blueMax inp"
  shows "component (raw_pixel OUT inp out p) (redShift out) (redMax out) =
      scaled (component p (redShift inp) (redMax inp)) (redMax inp) (redMax out)"
    "component (raw_pixel OUT inp out p) (greenShift out) (greenMax out) =
      scaled (component p (greenShift inp) (greenMax inp)) (greenMax inp) (greenMax out)"
    "component (raw_pixel OUT inp out p) (blueShift out) (blueMax out) =
      scaled (component p (blueShift inp) (blueMax inp)) (blueMax inp) (blueMax out)"
proof -
  let ?R = "scaled (component p (redShift inp) (redMax inp)) (redMax inp) (redMax out)"
  let ?G = "scaled (component p (greenShift inp) (greenMax inp)) (greenMax inp) (greenMax out)"
  let ?B = "scaled (component p (blueShift inp) (blueMax inp)) (blueMax inp) (blueMax out)"
  have le: "?R \<le> 2 ^ rk - 1" "?G \<le> 2 ^ gk - 1" "?B \<le> 2 ^ bk - 1"
    using scaled_le component_le inp out by (simp_all add: scaled_def proper_format_def)
  let ?r = "to_out OUT (shl32 ?R (redShift out))" and ?g = "to_out OUT (shl32 ?G (greenShift out))"
    and ?b = "to_out OUT (shl32 ?B (blueShift out))"
  have pr: "redShift out < 32" "greenShift out < 32" "blueShift out < 32" using out by (simp_all add: proper_format_def)
  have bits: "bit ?r n \<Longrightarrow> redShift out \<le> n \<and> n < redShift out + rk"
    "bit ?g n \<Longrightarrow> greenShift out \<le> n \<and> n < greenShift out + gk"
    "bit ?b n \<Longrightarrow> blueShift out \<le> n \<and> n < blueShift out + bk" for n
    using bit_shl32 [OF pr(1) le(1)] bit_shl32 [OF pr(2) le(2)] bit_shl32 [OF pr(3) le(3)] bit_to_out by blast+
  have e: "raw_pixel OUT inp out p = ?r OR (?g OR ?b)" "raw_pixel OUT inp out p = ?g OR (?r OR ?b)"
    "raw_pixel OUT inp out p = ?b OR (?r OR ?g)"
    by (simp_all add: raw_pixel_def or.assoc or.commute or.left_commute)
  have P: "redMax out = 2 ^ rk - 1" "greenMax out = 2 ^ gk - 1" "blueMax out = 2 ^ bk - 1"
    "redShift out + rk \<le> OUT" "greenShift out + gk \<le> OUT" "blueShift out + bk \<le> OUT" "OUT \<le> 32"
    "redShift out + rk \<le> greenShift out \<or> greenShift out + gk \<le> redShift out"
    "redShift out + rk \<le> blueShift out \<or> blueShift out + bk \<le> redShift out"
    "greenShift out + gk \<le> blueShift out \<or> blueShift out + bk \<le> greenShift out"
    using out unfolding proper_format_def by blast+
  show "component (raw_pixel OUT inp out p) (redShift out) (redMax out) = ?R"
    unfolding e(1)
  proof (rule component_field [OF pr(1) P(4) P(7) le(1) P(1)])
    fix n assume "bit (?g OR ?b) n"
    then show "n < redShift out \<or> redShift out + rk \<le> n" using bits(2,3) [of n] P(8,9)
      unfolding bit_or_iff by linarith
  qed
  show "component (raw_pixel OUT inp out p) (greenShift out) (greenMax out) = ?G"
    unfolding e(2)
  proof (rule component_field [OF pr(2) P(5) P(7) le(2) P(2)])
    fix n assume "bit (?r OR ?b) n"
    then show "n < greenShift out \<or> greenShift out + gk \<le> n" using bits(1,3) [of n] P(8,10)
      unfolding bit_or_iff by linarith
  qed
  show "component (raw_pixel OUT inp out p) (blueShift out) (blueMax out) = ?B"
    unfolding e(3)
  proof (rule component_field [OF pr(3) P(6) P(7) le(3) P(3)])
    fix n assume "bit (?r OR ?g) n"
    then show "n < blueShift out \<or> blueShift out + bk \<le> n" using bits(1,2) [of n] P(9,10)
      unfolding bit_or_iff by linarith
  qed
qed

section \<open>Loads and lengths\<close>

lemma bit_load_bytes: "bit (foldr (\<lambda>b v. push_bit 8 v OR ucast (b :: u8)) bs (0 :: u32)) n \<Longrightarrow> n < 8 * length bs"
proof (induction bs arbitrary: n)
  case (Cons b bs)
  then have "(8 \<le> n \<and> bit (foldr (\<lambda>b v. push_bit 8 v OR ucast b) bs (0 :: u32)) (n - 8)) \<or> bit b n"
    by (auto simp: bit_simps)
  then show ?case
  proof
    assume "bit b n"
    then have "n < 8" using bit_imp_le_length by fastforce
    then show ?thesis by simp
  next
    assume "8 \<le> n \<and> bit (foldr (\<lambda>b v. push_bit 8 v OR ucast b) bs (0 :: u32)) (n - 8)"
    with Cons(1) [of "n - 8"] show ?thesis by simp
  qed
qed simp

lemma load_pixel_bound:
  assumes "valid_bpp bpp"
  shows "unat (load_pixel le bpp mem a) < 2 ^ bpp"
proof -
  let ?p = "load_pixel le bpp mem a"
  let ?bs = "map (\<lambda>i. mem (a + i)) [0..<bpp div 8]"
  have "8 * length (if le then ?bs else rev ?bs) = bpp" using assms by (auto simp: valid_bpp_def)
  then have "bit ?p n \<Longrightarrow> n < bpp" for n
    using bit_load_bytes [of "if le then ?bs else rev ?bs" n] by (simp only: load_pixel_def Let_def)
  then have "take_bit bpp ?p = ?p" by (intro bit_word_eqI) (auto simp: bit_simps)
  then have "unat ?p = take_bit bpp (unat ?p)" by (metis unsigned_take_bit_eq)
  then show ?thesis by (metis take_bit_nat_less_exp)
qed

lemma length_trans_lines: "length (trans_lines le IN OUT f mem a st w h) = w * (OUT div 8) * h"
  by (simp add: trans_lines_def length_concat_map_const [where k = "w * (OUT div 8)"]
      length_concat_map_const [where k = "OUT div 8"] ac_simps)

lemma length_rfbTranslateNone: "length (rfbTranslateNone out mem a st w h) = w * (bitsPerPixel out div 8) * h"
  by (simp add: rfbTranslateNone_def Let_def length_concat_map_const [where k = "w * (bitsPerPixel out div 8)"])

text \<open>The translation function, its table and the two formats agree.\<close>

definition trans_ok :: "server \<Rightarrow> rfbClientRec \<Rightarrow> bool" where
  "trans_ok srv cl \<longleftrightarrow>
     (case translateFn cl of
        TransNone \<Rightarrow> PF_EQ (format cl) (rfbServerFormat srv)
      | TransSingle i out \<Rightarrow> i = bitsPerPixel (rfbServerFormat srv) \<and> out = bitsPerPixel (format cl) \<and>
          translateLookupTable cl = rfbInitTrueColourSingleTable out (rfbServerFormat srv) (format cl)
      | TransRGB i out \<Rightarrow> i = bitsPerPixel (rfbServerFormat srv) \<and> out = bitsPerPixel (format cl) \<and>
          translateLookupTable cl = rfbInitTrueColourRGBTables out (rfbServerFormat srv) (format cl))"

lemma length_translate_rect:
  "trans_ok srv cl \<Longrightarrow> length (translate_rect srv cl mem a st w h) = w * (bitsPerPixel (format cl) div 8) * h"
  by (auto simp: translate_rect_def trans_ok_def length_rfbTranslateNone rfbTranslateWithSingleTable_def
      rfbTranslateWithRGBTables_def length_trans_lines rfbInitTrueColourSingleTable_def
      rfbInitTrueColourRGBTables_def Let_def split: trans_fn.splits)

lemma choose_translation_ok:
  "trans_ok srv (choose_translation srv (rfbServerFormat srv) cl) \<and>
   format (choose_translation srv (rfbServerFormat srv) cl) = format cl"
  by (simp add: choose_translation_def trans_ok_def)

lemma SetTranslate_sound:
  "case rfbSetTranslateFunction pad srv cl of (ok, cl') \<Rightarrow>
    if ok then valid_bpp (bitsPerPixel (format cl')) \<and> valid_bpp (bitsPerPixel (rfbServerFormat srv)) \<and>
      trueColour (format cl') \<and> trans_ok srv cl'
    else sock cl' = -1"
proof -
  let ?cl = "cl\<lparr>translateFn := TransNone, translateLookupTable := NoTable\<rparr>"
  obtain ok c where w: "write_or_close (1 # pad # be16 0 @ be16 256 @ bgr233_map) ?cl = (ok, c)" by fastforce
  have "valid_bpp (bitsPerPixel BGR233Format)" "trueColour BGR233Format"
    by (simp_all add: BGR233Format_def valid_bpp_def)
  moreover have "\<not> ok \<longrightarrow> sock c = -1" using write_or_close_cases [OF w] by auto
  ultimately show ?thesis
    using choose_translation_ok [of srv] unfolding rfbSetTranslateFunction_def
      rfbSetTranslateFunctionUsingFormat_def rfbSetClientColourMapBGR233_def
    by (cases ok) (simp_all add: w)
qed

section \<open>Properties\<close>

text \<open>
  C32: Setting the translation for a client either closes it, or leaves it with a true-colour format
  of 8, 16 or 32 bits and with a translation function and tables that belong to the two formats.
\<close>

theorem rfbSetTranslateFunction_sound:
  "case rfbSetTranslateFunction pad srv cl of (ok, cl') \<Rightarrow>
    if ok then valid_bpp (bitsPerPixel (format cl')) \<and> valid_bpp (bitsPerPixel (rfbServerFormat srv)) \<and>
      trueColour (format cl') \<and> trans_ok srv cl'
    else sock cl' = -1"
  by (rule SetTranslate_sound)

text \<open>
  C31: The lookup functions read only inside their tables: a pixel loaded from memory indexes the
  single table, and each colour component its own table.
\<close>

theorem lookups_in_bounds:
  assumes "valid_bpp (bitsPerPixel inp)"
    "rfbInitTrueColourSingleTable OUT inp out = SingleTable t"
    "rfbInitTrueColourRGBTables OUT inp out = RGBTables r g b"
  shows "unat (load_pixel le (bitsPerPixel inp) mem a) < length t \<and>
    component p (redShift inp) (redMax inp) < length r \<and>
    component p (greenShift inp) (greenMax inp) < length g \<and>
    component p (blueShift inp) (blueMax inp) < length b"
  using assms load_pixel_bound [OF assms(1), of le mem a] component_le
  by (auto simp: rfbInitTrueColourSingleTable_def rfbInitTrueColourRGBTables_def Let_def less_Suc_eq_le)

definition demo_format16 :: rfbPixelFormat where
  "demo_format16 = \<lparr>bitsPerPixel = 16, depth = 16, bigEndian = True, trueColour = True,
     redMax = 31, greenMax = 63, blueMax = 31, redShift = 11, greenShift = 5, blueShift = 0\<rparr>"

lemma tables_exist:
  "\<exists>t. rfbInitTrueColourSingleTable OUT inp out = SingleTable t"
  "\<exists>r g b. rfbInitTrueColourRGBTables OUT inp out = RGBTables r g b"
  by (auto simp: rfbInitTrueColourSingleTable_def rfbInitTrueColourRGBTables_def Let_def)

lemma demo_format16_valid: "valid_bpp (bitsPerPixel demo_format16)"
  by (simp add: valid_bpp_def demo_format16_def)

theorem lookups_in_bounds_witness:
  "\<exists>t. rfbInitTrueColourSingleTable 32 demo_format16 demo_format = SingleTable t \<and>
    unat (load_pixel True 16 (\<lambda>_. 255) 0) < length t"
proof -
  obtain t r g b where T: "rfbInitTrueColourSingleTable 32 demo_format16 demo_format = SingleTable t"
    "rfbInitTrueColourRGBTables 32 demo_format16 demo_format = RGBTables r g b" using tables_exist by blast
  have "bitsPerPixel demo_format16 = 16" by (simp add: demo_format16_def)
  with lookups_in_bounds [OF demo_format16_valid T, of True "\<lambda>_. 255" 0 0] T show ?thesis by auto
qed

text \<open>
  C30: The single table and the three tables are two implementations of one translation: on every
  pixel of the input format they give the same output pixel, so rfbEconomicTranslate only trades
  memory for time.
\<close>

theorem single_table_is_rgb_tables:
  assumes "valid_bpp (bitsPerPixel inp)" "unat p < 2 ^ bitsPerPixel inp"
    "rfbInitTrueColourSingleTable OUT inp out = SingleTable t"
    "rfbInitTrueColourRGBTables OUT inp out = RGBTables r g b"
  shows "single_lookup t p = rgb_lookup r g b inp p"
  by (rule single_is_rgb [OF assms])

theorem single_table_is_rgb_tables_witness:
  "\<exists>t r g b. rfbInitTrueColourSingleTable 32 demo_format16 demo_format = SingleTable t \<and>
    rfbInitTrueColourRGBTables 32 demo_format16 demo_format = RGBTables r g b \<and>
    single_lookup t 0x8410 = rgb_lookup r g b demo_format16 0x8410"
proof -
  obtain t r g b where T: "rfbInitTrueColourSingleTable 32 demo_format16 demo_format = SingleTable t"
    "rfbInitTrueColourRGBTables 32 demo_format16 demo_format = RGBTables r g b" using tables_exist by blast
  have "unat (0x8410 :: u32) < 2 ^ bitsPerPixel demo_format16" by (simp add: demo_format16_def)
  from single_table_is_rgb_tables [OF demo_format16_valid this T] T show ?thesis by blast
qed

text \<open>
  C29: A translated pixel shows the right colour: read in the client's byte order and cut into the
  fields of the client's format, each component is the server's component scaled to the client's
  range, rounded to the nearest step.
\<close>

theorem translated_colour:
  assumes "proper_format out rk gk bk" "valid_bpp (bitsPerPixel out)"
    "0 < redMax inp" "0 < greenMax inp" "0 < blueMax inp"
    "rfbInitTrueColourRGBTables (bitsPerPixel out) inp out = RGBTables r g b"
  shows "let q = client_view (bitsPerPixel out) (bigEndian out \<noteq> bigEndian inp) (rgb_lookup r g b inp p) in
    component q (redShift out) (redMax out) = scaled (component p (redShift inp) (redMax inp)) (redMax inp) (redMax out) \<and>
    component q (greenShift out) (greenMax out) = scaled (component p (greenShift inp) (greenMax inp)) (greenMax inp) (greenMax out) \<and>
    component q (blueShift out) (blueMax out) = scaled (component p (blueShift inp) (blueMax inp)) (blueMax inp) (blueMax out)"
  using raw_pixel_components [OF assms(1) refl assms(3-5), of p]
  unfolding Let_def lookup_raw [OF assms(2,6)] by blast

theorem translated_colour_witness:
  "\<exists>r g b. rfbInitTrueColourRGBTables 16 demo_format demo_format16 = RGBTables r g b \<and>
    component (client_view 16 True (rgb_lookup r g b demo_format 0xff8000)) 11 31 =
      scaled (component 0xff8000 16 255) 255 31"
proof -
  obtain r g b where T: "rfbInitTrueColourRGBTables 16 demo_format demo_format16 = RGBTables r g b"
    using tables_exist by blast
  have "proper_format demo_format16 5 6 5" by (simp add: proper_format_def demo_format16_def)
  from translated_colour [OF this demo_format16_valid, of demo_format r g b "0xff8000"] T show ?thesis
    by (simp add: demo_format_def demo_format16_def Let_def)
qed

end
