(* ===== verification/Updatebuf.thy ===== *)
theory Updatebuf
  imports Translate
begin

text \<open>
  The output buffer of a client and the encodings of \<^verbatim>\<open>OSXvnc-server/rfbserver.c\<close> that use nothing
  else: rfbSendUpdateBuf, rfbSendLastRectMarker, rfbSendScreenUpdateEncoding and
  rfbSendRectEncodingRaw. What matters to the peer is the stream: the bytes already written, followed
  by those waiting in \<open>updateBuf\<close>.
\<close>

section \<open>The functions\<close>

text \<open>\<open>memcpy\<close> to the end of the buffer, with the update of \<open>ublen\<close>.\<close>

definition put_buf :: "u8 list \<Rightarrow> rfbClientRec \<Rightarrow> rfbClientRec" where
  "put_buf bs cl = cl\<lparr>updateBuf := updateBuf cl @ bs\<rparr>"

definition ublen :: "rfbClientRec \<Rightarrow> nat" where
  "ublen cl = length (updateBuf cl)"

definition rfbSendUpdateBuf :: "rfbClientRec \<Rightarrow> bool \<times> rfbClientRec" where
  "rfbSendUpdateBuf cl =
    (let (r, cl) = WriteExact (updateBuf cl) cl
     in if r < 0 then (False, rfbCloseClient cl) else (True, cl\<lparr>updateBuf := []\<rparr>))"

text \<open>The test before a header: flush when it does not fit.\<close>

definition make_room :: "nat \<Rightarrow> rfbClientRec \<Rightarrow> bool \<times> rfbClientRec" where
  "make_room n cl = (if ublen cl + n > UPDATE_BUF_SIZE then rfbSendUpdateBuf cl else (True, cl))"

definition count_rect :: "nat \<Rightarrow> nat \<Rightarrow> rfbClientRec \<Rightarrow> rfbClientRec" where
  "count_rect enc bytes cl =
    cl\<lparr>rfbRectanglesSent := (rfbRectanglesSent cl)(enc := rfbRectanglesSent cl enc + 1),
       rfbBytesSent := (rfbBytesSent cl)(enc := rfbBytesSent cl enc + bytes)\<rparr>"

definition rfbSendLastRectMarker :: "rfbClientRec \<Rightarrow> bool \<times> rfbClientRec" where
  "rfbSendLastRectMarker cl =
    (case make_room sz_rfbFramebufferUpdateRectHeader cl of
       (False, cl) \<Rightarrow> (False, cl)
     | (True, cl) \<Rightarrow>
        let cl = put_buf (rect_header 0 0 0 0 rfbEncodingLastRect) cl
        in (True, cl\<lparr>rfbLastRectMarkersSent := rfbLastRectMarkersSent cl + 1,
                     rfbLastRectBytesSent := rfbLastRectBytesSent cl + sz_rfbFramebufferUpdateRectHeader\<rparr>))"

text \<open>The size of the screen for a client, rounded up.\<close>

definition scaled_size :: "nat \<Rightarrow> rfbClientRec \<Rightarrow> nat" where
  "scaled_size n cl = (n + scalingFactor cl - 1) div scalingFactor cl"

definition rfbSendScreenUpdateEncoding :: "server \<Rightarrow> rfbClientRec \<Rightarrow> bool \<times> rfbClientRec" where
  "rfbSendScreenUpdateEncoding srv cl =
    (case make_room sz_rfbFramebufferUpdateRectHeader cl of
       (False, cl) \<Rightarrow> (False, cl)
     | (True, cl) \<Rightarrow>
        let w = scaled_size (swidth (rfbScreen srv)) cl;
            h = scaled_size (sheight (rfbScreen srv)) cl;
            cl = put_buf (rect_header 0 0 (int w) (int h) rfbEncodingDesktopResize) cl;
            cl = count_rect rfbStatsDesktopResize sz_rfbFramebufferUpdateRectHeader cl
        in rfbSendUpdateBuf cl)"

text \<open>The offset of a pixel in the framebuffer that the encoders read.\<close>

definition fbptr :: "server \<Rightarrow> rfbClientRec \<Rightarrow> nat \<Rightarrow> nat \<Rightarrow> nat" where
  "fbptr srv cl x y = scalingPaddedWidthInBytes cl * y + x * (sbitsPerPixel (rfbScreen srv) div 8)"

definition bytesPerPixel :: "rfbClientRec \<Rightarrow> nat" where
  "bytesPerPixel cl = bitsPerPixel (format cl) div 8"

text \<open>The translated pixels of a rectangle whose first byte is at \<open>a\<close>.\<close>

definition pixels_at :: "server \<Rightarrow> rfbClientRec \<Rightarrow> nat \<Rightarrow> nat \<Rightarrow> nat \<Rightarrow> u8 list" where
  "pixels_at srv cl a w h =
    translate_rect srv cl (scalingFrameBuffer cl) a (scalingPaddedWidthInBytes cl) w h"

text \<open>
  The loop of rfbSendRectEncodingRaw: \<open>a\<close> is \<open>fbptr\<close>. Every turn but the first sends at least one line.
\<close>

function raw_loop :: "server \<Rightarrow> nat \<Rightarrow> nat \<Rightarrow> nat \<Rightarrow> nat \<Rightarrow> rfbClientRec \<Rightarrow> bool \<times> rfbClientRec" where
  "raw_loop srv w a h nlines cl =
    (let bytesPerLine = w * bytesPerPixel cl;
         nlines = min nlines h;
         cl = put_buf (pixels_at srv cl a w nlines) cl
     in if h - nlines = 0 then (True, cl)
        else case rfbSendUpdateBuf cl of
          (False, cl) \<Rightarrow> (False, cl)
        | (True, cl) \<Rightarrow>
            let a = a + scalingPaddedWidthInBytes cl * nlines;
                nlines' = (UPDATE_BUF_SIZE - ublen cl) div bytesPerLine
            in if nlines' = 0 then (False, rfbCloseClient cl)
               else raw_loop srv w a (h - nlines) nlines' cl)"
  by pat_completeness auto
termination
  by (relation "measure (\<lambda>(_, _, _, h, nlines, _). 2 * h + (if nlines = 0 then 1 else 0))") auto

declare raw_loop.simps [simp del]

text \<open>A line of no bytes makes the division by \<open>bytesPerLine\<close> trap, which ends the process.\<close>

definition rfbSendRectEncodingRaw :: "server \<Rightarrow> nat \<Rightarrow> nat \<Rightarrow> nat \<Rightarrow> nat \<Rightarrow> rfbClientRec \<Rightarrow> bool \<times> rfbClientRec" where
  "rfbSendRectEncodingRaw srv x y w h cl =
    (let bytesPerLine = w * bytesPerPixel cl; a = fbptr srv cl x y in
     case make_room sz_rfbFramebufferUpdateRectHeader cl of
       (False, cl) \<Rightarrow> (False, cl)
     | (True, cl) \<Rightarrow>
        let cl = put_buf (rect_header (int x) (int y) (int w) (int h) rfbEncodingRaw) cl;
            cl = count_rect rfbEncodingRaw (sz_rfbFramebufferUpdateRectHeader + bytesPerLine * h) cl
        in if bytesPerLine = 0 then (False, cl\<lparr>exited := True\<rparr>)
           else raw_loop srv w a h ((UPDATE_BUF_SIZE - ublen cl) div bytesPerLine) cl)"

lemma SendUpdateBuf_empty: "rfbSendUpdateBuf cl = (True, cl') \<Longrightarrow> updateBuf cl' = []"
  by (auto simp: rfbSendUpdateBuf_def split: prod.splits if_splits)

lemma ublen_put_buf [simp]: "ublen (put_buf bs cl) = ublen cl + length bs"
  by (simp add: ublen_def put_buf_def)

text \<open>
  The copying loop of the RRE encoders, with the bytes not yet copied. A buffer that is overfull
  would make \<open>bytesToCopy\<close> negative and \<open>memcpy\<close> fail; \<open>sends\<close> below excludes it.
\<close>

function copy_loop :: "u8 list \<Rightarrow> rfbClientRec \<Rightarrow> bool \<times> rfbClientRec" where
  "copy_loop bs cl =
    (if bs = [] then (True, cl)
     else if ublen cl > UPDATE_BUF_SIZE then (False, cl\<lparr>exited := True\<rparr>)
     else
       let bytesToCopy = UPDATE_BUF_SIZE - ublen cl;
           bytesToCopy = (if bytesToCopy > length bs then length bs else bytesToCopy);
           cl = put_buf (take bytesToCopy bs) cl
       in if ublen cl = UPDATE_BUF_SIZE
          then (let (ok, cl) = rfbSendUpdateBuf cl in
                if ok then copy_loop (drop bytesToCopy bs) cl else (False, cl))
          else copy_loop (drop bytesToCopy bs) cl)"
  by pat_completeness auto

termination
  apply (relation "measure (\<lambda>(bs, cl). 2 * length bs + (if ublen cl = UPDATE_BUF_SIZE then 1 else 0))")
    apply simp
   apply (auto dest!: sym [of _ "rfbSendUpdateBuf _"] SendUpdateBuf_empty simp: ublen_def UPDATE_BUF_SIZE_def split: if_splits)
  done

declare copy_loop.simps [simp del]

section \<open>What a function that sends does\<close>

text \<open>The bytes for the peer: those written to the socket, then those that wait in the buffer.\<close>

definition stream :: "rfbClientRec \<Rightarrow> u8 list" where
  "stream cl = sent cl @ updateBuf cl"

text \<open>A client without its connection, its output buffer, its compressors, its counters and its waiting thread.\<close>

definition settings :: "rfbClientRec \<Rightarrow> rfbClientRec" where
  "settings cl = cl\<lparr>sock := 0, rdev := [], wrev := [], sent := [], errno := 0, exited := False,
     outputWaiting := False, updateBuf := [], rfbBytesSent := (\<lambda>_. 0), rfbRectanglesSent := (\<lambda>_. 0),
     rfbLastRectMarkersSent := 0, rfbLastRectBytesSent := 0,
     rfbFramebufferUpdateMessagesSent := 0, rfbRawBytesEquivalent := 0,
     compStream := (0, []), compStreamInited := False, compStreamRaw := None, compStreamHex := None,
     zsStruct := (\<lambda>_. None), tightAfterBufSize := 0, zrleData := None\<rparr>"

lemma settings_fields:
  assumes "settings a = settings b"
  shows "translateFn a = translateFn b" "translateLookupTable a = translateLookupTable b"
    "format a = format b" "scalingFrameBuffer a = scalingFrameBuffer b"
    "scalingPaddedWidthInBytes a = scalingPaddedWidthInBytes b" "scalingFactor a = scalingFactor b"
    "screenBuffer a = screenBuffer b" "preferredEncoding a = preferredEncoding b"
    "correMaxWidth a = correMaxWidth b" "correMaxHeight a = correMaxHeight b"
    "needNewScreenSize a = needNewScreenSize b" "state a = state b" "cid a = cid b"
    "modifiedRegion a = modifiedRegion b" "requestedRegion a = requestedRegion b"
  using assms by (cases a; cases b; simp add: settings_def)+

lemma settings_updates [simp]:
  "settings (put_buf bs cl) = settings cl" "settings (count_rect e n cl) = settings cl"
  "settings (rfbCloseClient cl) = settings cl" "settings (cl\<lparr>updateBuf := b\<rparr>) = settings cl"
  "settings (cl\<lparr>exited := x\<rparr>) = settings cl" "settings (pthread_cond_signal cl) = settings cl"
  "settings (cl\<lparr>rfbLastRectMarkersSent := m, rfbLastRectBytesSent := n\<rparr>) = settings cl"
  "settings (cl\<lparr>rfbBytesSent := f\<rparr>) = settings cl"
  "settings (cl\<lparr>rfbRawBytesEquivalent := r\<rparr>) = settings cl"
  by (simp_all add: settings_def put_buf_def count_rect_def rfbCloseClient_def pthread_cond_signal_def)

lemma stream_updates [simp]:
  "stream (put_buf bs cl) = stream cl @ bs" "stream (count_rect e n cl) = stream cl"
  "stream (cl\<lparr>rfbLastRectMarkersSent := m, rfbLastRectBytesSent := k\<rparr>) = stream cl"
  "stream (cl\<lparr>rfbBytesSent := f\<rparr>) = stream cl"
  "stream (cl\<lparr>exited := x\<rparr>) = stream cl"
  "ublen (count_rect e n cl) = ublen cl"
  "ublen (cl\<lparr>rfbLastRectMarkersSent := m, rfbLastRectBytesSent := k\<rparr>) = ublen cl"
  "ublen (cl\<lparr>rfbBytesSent := f\<rparr>) = ublen cl"
  "ublen (cl\<lparr>exited := x\<rparr>) = ublen cl"
  by (simp_all add: stream_def put_buf_def count_rect_def ublen_def)

lemma settings_WriteExact:
  assumes "WriteExact bs cl = (r, cl')"
  shows "settings cl' = settings cl" "updateBuf cl' = updateBuf cl" "sock cl' = sock cl"
proof -
  have "conn.more cl' = conn.more cl" "sock cl' = sock cl" using WriteExact_frame [OF assms] by simp_all
  then show "settings cl' = settings cl" "updateBuf cl' = updateBuf cl" "sock cl' = sock cl"
    by (cases cl; cases cl'; simp add: settings_def)+
qed

text \<open>
  A call that is to send \<open>bs\<close>: if it succeeds then \<open>bs\<close> follows in the stream and the buffer is not
  overfull; if it fails the client is closed, or the process ends, and has got no more than a part of
  the stream. In both cases nothing but the connection, the buffer and the counters has changed.
\<close>

definition sends :: "rfbClientRec \<Rightarrow> u8 list \<Rightarrow> bool \<times> rfbClientRec \<Rightarrow> bool" where
  "sends cl bs res \<longleftrightarrow>
     settings (snd res) = settings cl \<and>
     (\<exists>rest. sent (snd res) @ rest = stream cl @ bs) \<and>
     (if fst res then stream (snd res) = stream cl @ bs \<and> ublen (snd res) \<le> UPDATE_BUF_SIZE \<and>
        sock (snd res) = sock cl
      else sock (snd res) = -1 \<or> exited (snd res))"

lemma sendsI:
  assumes "settings cl' = settings cl" "stream cl' = stream cl @ bs" "ublen cl' \<le> UPDATE_BUF_SIZE"
    "sock cl' = sock cl"
  shows "sends cl bs (True, cl')"
  using assms by (auto simp: sends_def) (auto simp: stream_def)

lemma sends_failI:
  assumes "settings cl' = settings cl" "sent cl' @ rest = stream cl @ bs" "sock cl' = -1 \<or> exited cl'"
  shows "sends cl bs (False, cl')"
  using assms by (auto simp: sends_def)

text \<open>The same bytes sent from a client that differs only in its counters.\<close>

lemma sends_more:
  assumes "sends cl' bs res" "settings cl' = settings cl" "stream cl' = stream cl @ as" "sock cl' = sock cl"
  shows "sends cl (as @ bs) res"
  using assms by (auto simp: sends_def)

lemma sends_fail_more:
  assumes "sends cl bs (False, cl')"
  shows "sends cl (bs @ zs) (False, cl')"
proof -
  obtain rest where "sent cl' @ rest = stream cl @ bs" using assms by (auto simp: sends_def)
  then have "sent cl' @ (rest @ zs) = stream cl @ bs @ zs" by simp
  then show ?thesis using assms by (intro sends_failI [where rest = "rest @ zs"]) (auto simp: sends_def)
qed

text \<open>Two calls in a row, the second only if the first succeeded.\<close>

lemma sends_seq:
  assumes "sends cl as r"
    and "\<And>cl'. r = (True, cl') \<Longrightarrow> settings cl' = settings cl \<Longrightarrow> ublen cl' \<le> UPDATE_BUF_SIZE \<Longrightarrow> sends cl' bs (f cl')"
  shows "sends cl (as @ bs) (case r of (False, cl) \<Rightarrow> (False, cl) | (True, cl) \<Rightarrow> f cl)"
proof (cases r)
  case (Pair ok cl')
  show ?thesis
  proof (cases ok)
    case True
    with assms(1) Pair have s: "settings cl' = settings cl" "stream cl' = stream cl @ as"
      "ublen cl' \<le> UPDATE_BUF_SIZE" "sock cl' = sock cl"
      by (auto simp: sends_def)
    have "sends cl' bs (f cl')" using assms(2) Pair True s by simp
    then have "sends cl (as @ bs) (f cl')" by (rule sends_more) (use s in auto)
    then show ?thesis using Pair True by simp
  next
    case False
    then show ?thesis using assms(1) Pair by (simp add: sends_fail_more)
  qed
qed

lemma sends_SendUpdateBuf: "sends cl [] (rfbSendUpdateBuf cl)"
proof -
  obtain r c where w: "WriteExact (updateBuf cl) cl = (r, c)" by fastforce
  note c = WriteExact_cases [OF w] settings_WriteExact [OF w]
  show ?thesis
  proof (cases "r < 0")
    case False
    then have "rfbSendUpdateBuf cl = (True, c\<lparr>updateBuf := []\<rparr>)" by (simp add: rfbSendUpdateBuf_def w)
    then show ?thesis using c False by (auto simp: stream_def ublen_def intro!: sendsI)
  next
    case True
    then have e: "rfbSendUpdateBuf cl = (False, rfbCloseClient c)" by (simp add: rfbSendUpdateBuf_def w)
    from c True obtain k where "sent c = sent cl @ take k (updateBuf cl)" by auto
    then have "sent (rfbCloseClient c) @ drop k (updateBuf cl) = stream cl @ []"
      by (simp add: stream_def rfbCloseClient_def)
    moreover have "settings (rfbCloseClient c) = settings cl" using c by simp
    moreover have "sock (rfbCloseClient c) = -1" by (simp add: rfbCloseClient_def)
    ultimately show ?thesis unfolding e by (intro sends_failI) auto
  qed
qed

lemma sends_make_room: 
  assumes "ublen cl \<le> UPDATE_BUF_SIZE"
  shows "sends cl [] (make_room n cl)"
  using sends_SendUpdateBuf [of cl] assms by (auto simp: make_room_def intro: sendsI)

lemma make_room_fits: "make_room n cl = (True, cl') \<Longrightarrow> n \<le> UPDATE_BUF_SIZE \<Longrightarrow> ublen cl' + n \<le> UPDATE_BUF_SIZE"
  by (auto simp: make_room_def ublen_def dest: SendUpdateBuf_empty split: if_splits)

text \<open>The head of every encoder: make room for a header and put it there.\<close>

lemma sends_header:
  assumes "ublen cl \<le> UPDATE_BUF_SIZE" "length hh = n" "n \<le> UPDATE_BUF_SIZE"
    and "\<And>cl'. settings cl' = settings cl \<Longrightarrow> ublen cl' \<le> UPDATE_BUF_SIZE \<Longrightarrow> sends cl' bs (f cl')"
    and g: "\<And>cl'. settings (g cl') = settings cl'" "\<And>cl'. stream (g cl') = stream cl' @ hh"
      "\<And>cl'. ublen (g cl') = ublen cl' + n" "\<And>cl'. sock (g cl') = sock cl'"
  shows "sends cl (hh @ bs) (case make_room n cl of (False, cl) \<Rightarrow> (False, cl) | (True, cl) \<Rightarrow> f (g cl))"
proof -
  have "sends cl' (hh @ bs) (f (g cl'))" if "make_room n cl = (True, cl')" "settings cl' = settings cl" for cl'
    using make_room_fits [OF that(1) assms(3)] that(2)
    by (intro sends_more [OF assms(4)]) (simp_all add: g)
  from sends_seq [OF sends_make_room [OF assms(1)] this] show ?thesis by simp
qed

section \<open>The pixels of a rectangle\<close>

text \<open>
  What the encoders rely on: the translation belongs to the formats, the screen is described by the
  server's format, and lines start at whole pixels.
\<close>

definition drawable :: "server \<Rightarrow> rfbClientRec \<Rightarrow> bool" where
  "drawable srv cl \<longleftrightarrow> trans_ok srv cl \<and> valid_bpp (bitsPerPixel (format cl)) \<and>
     valid_bpp (bitsPerPixel (rfbServerFormat srv)) \<and>
     sbitsPerPixel (rfbScreen srv) = bitsPerPixel (rfbServerFormat srv) \<and>
     (bitsPerPixel (rfbServerFormat srv) div 8) dvd scalingPaddedWidthInBytes cl"

text \<open>The bytes of one pixel as the client shall see it, from the buffer the encoders read.\<close>

definition source_pixel :: "server \<Rightarrow> rfbClientRec \<Rightarrow> nat \<Rightarrow> nat \<Rightarrow> u8 list" where
  "source_pixel srv cl x y = pixels_at srv cl (fbptr srv cl x y) 1 1"

definition source_rect :: "server \<Rightarrow> rfbClientRec \<Rightarrow> nat \<Rightarrow> nat \<Rightarrow> nat \<Rightarrow> nat \<Rightarrow> u8 list" where
  "source_rect srv cl x y w h =
    concat (map (\<lambda>j. concat (map (\<lambda>i. source_pixel srv cl (x + i) (y + j)) [0..<w])) [0..<h])"

lemma drawable_settings: "drawable srv cl \<Longrightarrow> settings cl' = settings cl \<Longrightarrow> drawable srv cl'"
  using settings_fields [of cl' cl]
  by (cases "translateFn cl") (simp_all add: drawable_def trans_ok_def)

lemma source_settings:
  assumes "settings cl' = settings cl"
  shows "pixels_at srv cl' = pixels_at srv cl" "fbptr srv cl' = fbptr srv cl"
    "bytesPerPixel cl' = bytesPerPixel cl" "source_rect srv cl' = source_rect srv cl"
    "source_pixel srv cl' = source_pixel srv cl"
proof -
  note f = settings_fields [OF assms]
  show p: "pixels_at srv cl' = pixels_at srv cl"
    by (intro ext) (cases "translateFn cl"; simp add: pixels_at_def translate_rect_def f)
  show a: "fbptr srv cl' = fbptr srv cl" by (intro ext) (simp add: fbptr_def f)
  show "bytesPerPixel cl' = bytesPerPixel cl" by (simp add: bytesPerPixel_def f)
  show s: "source_pixel srv cl' = source_pixel srv cl" by (intro ext) (simp add: source_pixel_def p a)
  show "source_rect srv cl' = source_rect srv cl" by (intro ext) (simp add: source_rect_def s)
qed

lemma map_split_blocks:
  "concat (map (\<lambda>i. map (\<lambda>k. f (i * n + k)) [0..<n]) [0..<(w::nat)]) = map f [0..<w * n]"
proof (induction w)
  case (Suc w)
  have "[0..<Suc w * n] = [0..<w * n] @ [w * n..<w * n + n]"
    using upt_add_eq_append [of 0 "w * n" n] by (simp add: add.commute)
  moreover have "[w * n..<w * n + n] = map (\<lambda>k. w * n + k) [0..<n]"
    by (simp add: map_add_upt add.commute)
  ultimately show ?case using Suc by (simp add: comp_def)
qed simp

lemma PF_EQ_bpp: "PF_EQ a b \<Longrightarrow> bitsPerPixel a = bitsPerPixel b"
  by (simp add: PF_EQ_def)

lemma translate_rect_pixels:
  assumes "drawable srv cl"
  shows "pixels_at srv cl (fbptr srv cl x y) w h = source_rect srv cl x y w h"
proof -
  let ?n = "bitsPerPixel (rfbServerFormat srv) div 8" and ?st = "scalingPaddedWidthInBytes cl"
  have st: "?st div ?n * ?n = ?st" and n: "?n \<noteq> 0"
    using assms by (auto simp: drawable_def valid_bpp_def)
  have a: "fbptr srv cl (x + i) (y + j) = fbptr srv cl x y + j * ?st + i * ?n" for i j
    using assms by (simp add: fbptr_def drawable_def algebra_simps)
  have b: "fbptr srv cl x y + (j * (?st div ?n) + i) * ?n = fbptr srv cl (x + i) (y + j)" for i j
    unfolding a using st by (simp add: algebra_simps)
  consider (none) "translateFn cl = TransNone" "PF_EQ (format cl) (rfbServerFormat srv)"
    | (single) t where "translateFn cl = TransSingle (bitsPerPixel (rfbServerFormat srv)) (bitsPerPixel (format cl))"
        "translateLookupTable cl = SingleTable t"
    | (rgb) r g bl where "translateFn cl = TransRGB (bitsPerPixel (rfbServerFormat srv)) (bitsPerPixel (format cl))"
        "translateLookupTable cl = RGBTables r g bl"
    using assms by (auto simp: drawable_def trans_ok_def rfbInitTrueColourSingleTable_def
        rfbInitTrueColourRGBTables_def Let_def split: trans_fn.splits)
  then show ?thesis
  proof cases
    case none
    have p: "source_pixel srv cl (x + i) (y + j)
        = map (\<lambda>k. scalingFrameBuffer cl (fbptr srv cl x y + j * ?st + (i * ?n + k))) [0..<?n]" for i j
      using none PF_EQ_bpp [OF none(2)]
      by (simp add: source_pixel_def pixels_at_def translate_rect_def rfbTranslateNone_def Let_def a add.assoc)
    show ?thesis
      using none PF_EQ_bpp [OF none(2)]
      by (simp add: pixels_at_def translate_rect_def rfbTranslateNone_def Let_def source_rect_def p
          map_split_blocks [of "\<lambda>m. scalingFrameBuffer cl (fbptr srv cl x y + j * ?st + m)" for j])
  next
    case single
    then show ?thesis
      by (simp add: source_rect_def source_pixel_def pixels_at_def translate_rect_def
          rfbTranslateWithSingleTable_def trans_lines_def b)
  next
    case rgb
    then show ?thesis
      by (simp add: source_rect_def source_pixel_def pixels_at_def translate_rect_def
          rfbTranslateWithRGBTables_def trans_lines_def b)
  qed
qed

lemma length_source_pixel: "drawable srv cl \<Longrightarrow> length (source_pixel srv cl x y) = bytesPerPixel cl"
  by (simp add: source_pixel_def pixels_at_def drawable_def length_translate_rect bytesPerPixel_def)

lemma bytesPerPixel_pos: "drawable srv cl \<Longrightarrow> 0 < bytesPerPixel cl"
  by (auto simp: drawable_def valid_bpp_def bytesPerPixel_def)

lemma length_source_rect: "drawable srv cl \<Longrightarrow> length (source_rect srv cl x y w h) = w * bytesPerPixel cl * h"
  by (simp add: translate_rect_pixels [symmetric] pixels_at_def length_translate_rect drawable_def bytesPerPixel_def)

lemma source_rect_rows:
  "source_rect srv cl x y w (h1 + h2) = source_rect srv cl x y w h1 @ source_rect srv cl x (y + h1) w h2"
proof -
  have "[0..<h1 + h2] = [0..<h1] @ map (\<lambda>j. j + h1) [0..<h2]"
    by (simp add: map_add_upt upt_add_eq_append [of 0 h1 h2] add.commute)
  then show ?thesis by (simp add: source_rect_def comp_def ac_simps)
qed

section \<open>Every function sends exactly its message\<close>

lemma sock_put_buf [simp]: "sock (put_buf bs cl) = sock cl" "sock (count_rect e n cl) = sock cl"
  by (simp_all add: put_buf_def count_rect_def)

lemma sends_LastRectMarker:
  assumes "ublen cl \<le> UPDATE_BUF_SIZE"
  shows "sends cl (rect_header 0 0 0 0 rfbEncodingLastRect) (rfbSendLastRectMarker cl)"
proof -
  let ?h = "rect_header 0 0 0 0 rfbEncodingLastRect"
  let ?g = "\<lambda>cl. (put_buf ?h cl)\<lparr>rfbLastRectMarkersSent := rfbLastRectMarkersSent (put_buf ?h cl) + 1,
    rfbLastRectBytesSent := rfbLastRectBytesSent (put_buf ?h cl) + sz_rfbFramebufferUpdateRectHeader\<rparr>"
  have "sends cl (?h @ []) (case make_room sz_rfbFramebufferUpdateRectHeader cl of
      (False, cl) \<Rightarrow> (False, cl) | (True, cl) \<Rightarrow> (True, ?g cl))"
    by (rule sends_header [OF assms, where g = ?g and f = "\<lambda>cl. (True, cl)"])
      (simp_all add: sendsI UPDATE_BUF_SIZE_def sz_rfbFramebufferUpdateRectHeader_def len_simps)
  then show ?thesis unfolding rfbSendLastRectMarker_def Let_def by (simp cong: if_cong)
qed

definition desktop_rect :: "server \<Rightarrow> rfbClientRec \<Rightarrow> u8 list" where
  "desktop_rect srv cl = rect_header 0 0 (int (scaled_size (swidth (rfbScreen srv)) cl))
     (int (scaled_size (sheight (rfbScreen srv)) cl)) rfbEncodingDesktopResize"

lemma sends_ScreenUpdate:
  assumes "ublen cl \<le> UPDATE_BUF_SIZE"
  shows "sends cl (desktop_rect srv cl) (rfbSendScreenUpdateEncoding srv cl)"
proof -
  let ?n = "sz_rfbFramebufferUpdateRectHeader"
  have d: "desktop_rect srv cl' = desktop_rect srv cl" if "settings cl' = settings cl" for cl'
    using settings_fields [OF that] by (simp add: desktop_rect_def scaled_size_def)
  have "sends cl' (desktop_rect srv cl) (rfbSendUpdateBuf (count_rect rfbStatsDesktopResize ?n
      (put_buf (desktop_rect srv cl') cl')))"
    if r: "make_room ?n cl = (True, cl')" and s: "settings cl' = settings cl" for cl'
    by (intro sends_more [OF sends_SendUpdateBuf, where as = "desktop_rect srv cl", simplified])
      (simp_all add: d [OF s])
  from sends_seq [OF sends_make_room [OF assms], of ?n "desktop_rect srv cl", OF this]
  show ?thesis unfolding rfbSendScreenUpdateEncoding_def Let_def desktop_rect_def by simp
qed

lemma sends_raw_loop:
  assumes "drawable srv cl" "0 < w" "ublen cl + w * bytesPerPixel cl * nlines \<le> UPDATE_BUF_SIZE"
  shows "sends cl (source_rect srv cl x y w h) (raw_loop srv w (fbptr srv cl x y) h nlines cl)"
  using assms
proof (induction "2 * h + (if nlines = 0 then 1 else 0)" arbitrary: cl h nlines y rule: less_induct)
  case less
  let ?bpl = "w * bytesPerPixel cl" and ?n = "min nlines h"
  let ?c = "put_buf (pixels_at srv cl (fbptr srv cl x y) w ?n) cl"
  have bpl: "0 < ?bpl" using bytesPerPixel_pos [OF less.prems(1)] less.prems(2) by simp
  have px: "pixels_at srv cl (fbptr srv cl x y) w ?n = source_rect srv cl x y w ?n"
    by (rule translate_rect_pixels [OF less.prems(1)])
  have "?bpl * ?n \<le> ?bpl * nlines" by simp
  moreover have "ublen ?c = ublen cl + ?bpl * ?n"
    by (simp add: px length_source_rect [OF less.prems(1)])
  ultimately have fits: "ublen ?c \<le> UPDATE_BUF_SIZE" using less.prems(3) by linarith
  show ?case
  proof (cases "h - ?n = 0")
    case True
    then have "source_rect srv cl x y w ?n = source_rect srv cl x y w h" by (simp add: min_def split: if_splits)
    then have "sends cl (source_rect srv cl x y w h) (True, ?c)" using fits by (intro sendsI) (simp_all add: px)
    then show ?thesis using True by (subst raw_loop.simps) (simp add: Let_def)
  next
    case False
    let ?F = "\<lambda>cl2. if (UPDATE_BUF_SIZE - ublen cl2) div ?bpl = 0 then (False, rfbCloseClient cl2)
      else raw_loop srv w (fbptr srv cl x y + scalingPaddedWidthInBytes cl2 * ?n) (h - ?n)
        ((UPDATE_BUF_SIZE - ublen cl2) div ?bpl) cl2"
    let ?rest = "source_rect srv cl x (y + ?n) w (h - ?n)"
    have "sends c2 ?rest (?F c2)" if r: "rfbSendUpdateBuf ?c = (True, c2)" and c2: "settings c2 = settings ?c" for c2
    proof -
      have u: "ublen c2 = 0" using SendUpdateBuf_empty [OF r] by (simp add: ublen_def)
      have s: "settings c2 = settings cl" using c2 by simp
      have a: "fbptr srv cl x y + scalingPaddedWidthInBytes c2 * ?n = fbptr srv c2 x (y + ?n)"
        using settings_fields(5) [OF s] by (simp add: fbptr_def algebra_simps)
      show ?thesis
      proof (cases "UPDATE_BUF_SIZE div ?bpl = 0")
        case True
        have "sent (rfbCloseClient c2) @ ?rest = stream c2 @ ?rest" 
          using u by (simp add: stream_def rfbCloseClient_def ublen_def)
        moreover have "sock (rfbCloseClient c2) = -1" by (simp add: rfbCloseClient_def)
        ultimately show ?thesis using True u by (simp add: sends_failI)
      next
        case n: False
        have "sends c2 (source_rect srv c2 x (y + ?n) w (h - ?n))
            (raw_loop srv w (fbptr srv c2 x (y + ?n)) (h - ?n) (UPDATE_BUF_SIZE div ?bpl) c2)"
          using False n u less.prems(2) drawable_settings [OF less.prems(1) s]
          by (intro less.hyps) (auto simp: source_settings [OF s] min_def)
        then show ?thesis using n u a by (simp add: source_settings(4) [OF s])
      qed
    qed
    from sends_seq [OF sends_SendUpdateBuf this]
    have "sends ?c ?rest (case rfbSendUpdateBuf ?c of (False, cl) \<Rightarrow> (False, cl) | (True, cl) \<Rightarrow> ?F cl)" by simp
    then have "sends cl (source_rect srv cl x y w ?n @ ?rest)
        (case rfbSendUpdateBuf ?c of (False, cl) \<Rightarrow> (False, cl) | (True, cl) \<Rightarrow> ?F cl)"
      by (rule sends_more) (simp_all add: px)
    moreover have "source_rect srv cl x y w ?n @ ?rest = source_rect srv cl x y w h"
      using source_rect_rows [of srv cl x y w ?n "h - ?n"] by simp
    moreover have "raw_loop srv w (fbptr srv cl x y) h nlines cl
        = (case rfbSendUpdateBuf ?c of (False, cl) \<Rightarrow> (False, cl) | (True, cl) \<Rightarrow> ?F cl)"
      using False unfolding raw_loop.simps [of srv w _ h nlines cl] Let_def
      by (simp split: prod.split bool.split)
    ultimately show ?thesis by simp
  qed
qed

definition raw_message :: "server \<Rightarrow> rfbClientRec \<Rightarrow> nat \<Rightarrow> nat \<Rightarrow> nat \<Rightarrow> nat \<Rightarrow> u8 list" where
  "raw_message srv cl x y w h =
     rect_header (int x) (int y) (int w) (int h) rfbEncodingRaw @ source_rect srv cl x y w h"

lemma sends_Raw:
  assumes "drawable srv cl" "0 < w" "ublen cl \<le> UPDATE_BUF_SIZE"
  shows "sends cl (raw_message srv cl x y w h) (rfbSendRectEncodingRaw srv x y w h cl)"
proof -
  let ?n = "sz_rfbFramebufferUpdateRectHeader" and ?bpl = "w * bytesPerPixel cl"
  let ?hh = "rect_header (int x) (int y) (int w) (int h) rfbEncodingRaw"
  let ?g = "\<lambda>c. count_rect rfbEncodingRaw (?n + ?bpl * h) (put_buf ?hh c)"
  have bpl: "?bpl \<noteq> 0" using bytesPerPixel_pos [OF assms(1)] assms(2) by simp
  let ?f = "\<lambda>c. raw_loop srv w (fbptr srv cl x y) h ((UPDATE_BUF_SIZE - ublen c) div ?bpl) c"
  have "sends cl (?hh @ source_rect srv cl x y w h)
      (case make_room ?n cl of (False, cl) \<Rightarrow> (False, cl) | (True, cl) \<Rightarrow> ?f (?g cl))"
  proof (rule sends_header [OF assms(3), where g = ?g and f = ?f])
    fix c assume s: "settings c = settings cl" and u: "ublen c \<le> UPDATE_BUF_SIZE"
    have "ublen c + ?bpl * ((UPDATE_BUF_SIZE - ublen c) div ?bpl) \<le> UPDATE_BUF_SIZE"
      using times_div_less_eq_dividend [of ?bpl "UPDATE_BUF_SIZE - ublen c"] u by linarith
    then show "sends c (source_rect srv cl x y w h) (?f c)"
      using sends_raw_loop [OF drawable_settings [OF assms(1) s] assms(2), of "(UPDATE_BUF_SIZE - ublen c) div ?bpl" x y h]
      by (simp add: source_settings [OF s])
  qed (simp_all add: len_simps UPDATE_BUF_SIZE_def sz_rfbFramebufferUpdateRectHeader_def)
  moreover have "rfbSendRectEncodingRaw srv x y w h cl
      = (case make_room ?n cl of (False, cl) \<Rightarrow> (False, cl) | (True, cl) \<Rightarrow> ?f (?g cl))"
    using bpl unfolding rfbSendRectEncodingRaw_def Let_def by (simp split: prod.split bool.split)
  ultimately show ?thesis by (simp add: raw_message_def)
qed

lemma sends_copy_loop:
  "ublen cl \<le> UPDATE_BUF_SIZE \<Longrightarrow> sends cl bs (copy_loop bs cl)"
proof (induction bs cl rule: copy_loop.induct)
  case (1 bs cl)
  show ?case
  proof (cases "bs = []")
    case True
    then show ?thesis using 1(3) by (subst copy_loop.simps) (simp add: sendsI)
  next
    case False
    let ?k = "if UPDATE_BUF_SIZE - ublen cl > length bs then length bs else UPDATE_BUF_SIZE - ublen cl"
    let ?c = "put_buf (take ?k bs) cl"
    have k: "?k \<le> length bs" by simp
    have u: "ublen ?c \<le> UPDATE_BUF_SIZE" using 1(3) by auto
    show ?thesis
    proof (cases "ublen ?c = UPDATE_BUF_SIZE")
      case full: True
      have "sends c2 (drop ?k bs) (copy_loop (drop ?k bs) c2)"
        if "rfbSendUpdateBuf ?c = (True, c2)" "ublen c2 \<le> UPDATE_BUF_SIZE" for c2
        using 1(1) [OF False _ refl refl refl full _ _ that(2)] 1(3) that by (simp split del: if_split)
      then have "sends ?c ([] @ drop ?k bs) (case rfbSendUpdateBuf ?c of (False, cl) \<Rightarrow> (False, cl)
          | (True, cl) \<Rightarrow> copy_loop (drop ?k bs) cl)"
        by (intro sends_seq [OF sends_SendUpdateBuf])
      then have "sends cl (take ?k bs @ drop ?k bs) (case rfbSendUpdateBuf ?c of (False, cl) \<Rightarrow> (False, cl)
          | (True, cl) \<Rightarrow> copy_loop (drop ?k bs) cl)"
        by (intro sends_more [of ?c]) simp_all
      moreover have "copy_loop bs cl = (case rfbSendUpdateBuf ?c of (False, cl) \<Rightarrow> (False, cl)
          | (True, cl) \<Rightarrow> copy_loop (drop ?k bs) cl)"
        using False 1(3) full by (subst copy_loop.simps) (simp add: Let_def split: bool.splits prod.splits)
      ultimately show ?thesis by simp
    next
      case part: False
      then have "sends ?c (drop ?k bs) (copy_loop (drop ?k bs) ?c)"
        using 1(2) [OF False _ refl refl refl part u] 1(3) by simp
      then have "sends cl (take ?k bs @ drop ?k bs) (copy_loop (drop ?k bs) ?c)"
        by (rule sends_more) simp_all
      moreover have "copy_loop bs cl = copy_loop (drop ?k bs) ?c"
        using False 1(3) part by (subst copy_loop.simps) (simp add: Let_def)
      ultimately show ?thesis by simp
    qed
  qed
qed

section \<open>What flushing leaves alone\<close>

text \<open>A client without its connection and its output buffer.\<close>

definition quiet :: "rfbClientRec \<Rightarrow> rfbClientRec" where
  "quiet cl = cl\<lparr>sock := 0, rdev := [], wrev := [], sent := [], errno := 0, exited := False, updateBuf := []\<rparr>"

lemma quiet_fields:
  assumes "quiet a = quiet b"
  shows "zrleData a = zrleData b" "compStream a = compStream b" "compStreamInited a = compStreamInited b"
    "compStreamRaw a = compStreamRaw b" "compStreamHex a = compStreamHex b" "zsStruct a = zsStruct b"
    "tightAfterBufSize a = tightAfterBufSize b"
  using assms by (cases a; cases b; simp add: quiet_def)+

lemma quiet_updates [simp]:
  "quiet (put_buf bs cl) = quiet cl" "quiet (rfbCloseClient cl) = quiet cl" "quiet (cl\<lparr>updateBuf := b\<rparr>) = quiet cl"
  "quiet (cl\<lparr>exited := x\<rparr>) = quiet cl"
  by (simp_all add: quiet_def put_buf_def rfbCloseClient_def)

lemma quiet_WriteExact: "WriteExact bs cl = (r, cl') \<Longrightarrow> quiet cl' = quiet cl"
  using WriteExact_frame [of bs cl r cl'] by (cases cl; cases cl'; simp add: quiet_def)

lemma quiet_SendUpdateBuf [simp]: "quiet (snd (rfbSendUpdateBuf cl)) = quiet cl"
proof -
  obtain r c where w: "WriteExact (updateBuf cl) cl = (r, c)" by fastforce
  show ?thesis using quiet_WriteExact [OF w] by (simp add: rfbSendUpdateBuf_def w)
qed

lemma quiet_make_room [simp]: "quiet (snd (make_room n cl)) = quiet cl"
  by (simp add: make_room_def)

lemma quiet_copy_loop [simp]: "quiet (snd (copy_loop bs cl)) = quiet cl"
proof (induction bs cl rule: copy_loop.induct)
  case (1 bs cl)
  show ?case
  proof (cases "bs = [] \<or> ublen cl > UPDATE_BUF_SIZE")
    case True
    then show ?thesis by (subst copy_loop.simps) auto
  next
    case False
    let ?k = "if UPDATE_BUF_SIZE - ublen cl > length bs then length bs else UPDATE_BUF_SIZE - ublen cl"
    let ?c = "put_buf (take ?k bs) cl"
    have F: "bs \<noteq> []" "\<not> ublen cl > UPDATE_BUF_SIZE" using False by simp_all
    obtain ok c2 where f: "rfbSendUpdateBuf ?c = (ok, c2)" by fastforce
    have c2: "quiet c2 = quiet cl" using quiet_SendUpdateBuf [of ?c] unfolding f by simp
    have e: "copy_loop bs cl = (if ublen ?c = UPDATE_BUF_SIZE then if ok then copy_loop (drop ?k bs) c2 else (False, c2)
      else copy_loop (drop ?k bs) ?c)"
      using F by (subst copy_loop.simps) (simp only: Let_def f prod.case if_False)
    show ?thesis
    proof (cases "ublen ?c = UPDATE_BUF_SIZE")
      case full: True
      show ?thesis
      proof (cases ok)
        case True
        have "quiet (snd (copy_loop (drop ?k bs) c2)) = quiet c2"
          by (rule 1(1) [OF F refl refl refl full refl f [symmetric] True])
        then show ?thesis unfolding e using full True c2 by simp
      next
        case False
        then show ?thesis unfolding e if_P [OF full] using c2 by simp
      qed
    next
      case part: False
      have "quiet (snd (copy_loop (drop ?k bs) ?c)) = quiet ?c" by (rule 1(2) [OF F refl refl refl part])
      then show ?thesis unfolding e using part by simp
    qed
  qed
qed

lemma quiet_count [simp]: "quiet (count_rect e n cl) = (quiet cl)\<lparr>rfbBytesSent := rfbBytesSent (count_rect e n cl),
    rfbRectanglesSent := rfbRectanglesSent (count_rect e n cl)\<rparr>"
  by (simp add: quiet_def count_rect_def)

section \<open>A client for examples\<close>

lemma demo_drawable: "drawable demo_server demo_client"
  by (simp add: drawable_def trans_ok_def demo_server_def demo_client_def demo_format_def PF_EQ_def valid_bpp_def)

lemma demo_ublen: "ublen demo_client \<le> UPDATE_BUF_SIZE"
  by (simp add: ublen_def demo_client_def)

end
