(* ===== verification/Subrects.thy ===== *)
theory Subrects
  imports Rfb_Prelude
begin

text \<open>
  The search that rre.c, corre.c and hextile.c share (each file has its own copy of the macro
  \<^verbatim>\<open>DEFINE_SUBRECT_ENCODE\<close>): a rectangle of pixels is written as a background colour overwritten by
  single-coloured rectangles. \<open>data\<close> is the array of \<open>w * h\<close> pixels in rows. The search is the same
  for the three pixel sizes; a pixel is any value that can be compared.

  Where the code keeps the last index of a run (\<open>hx\<close>, \<open>hy\<close>, \<open>vx\<close>, \<open>vy\<close>) the model keeps the first
  index after it, so that no value is negative.
\<close>

section \<open>The search\<close>

text \<open>The loop \<open>while ((seg[i] == cl) && (i < w)) i += 1\<close>, with its two tests in the other order.\<close>

function run_end :: "'p list \<Rightarrow> nat \<Rightarrow> nat \<Rightarrow> 'p \<Rightarrow> nat \<Rightarrow> nat" where
  "run_end data w j c i = (if i < w \<and> data ! (j * w + i) = c then run_end data w j c (i + 1) else i)"
  by pat_completeness auto
termination by (relation "measure (\<lambda>(_, w, _, _, i). w - i)") auto

declare run_end.simps [simp del]

text \<open>
  The loop over \<open>j\<close>: the run of the first row (\<open>hx\<close>) with the number of rows it reaches down
  (\<open>hy\<close>, as long as \<open>hyflag\<close> holds), and the narrowest run (\<open>vx\<close>) of all rows up to the first whose
  pixel at \<open>x\<close> has another colour. The result is \<open>(hx, hy, vx, vy)\<close>.
\<close>

function scan_rows :: "'p list \<Rightarrow> nat \<Rightarrow> nat \<Rightarrow> 'p \<Rightarrow> nat \<Rightarrow> nat \<Rightarrow> nat \<Rightarrow> nat \<Rightarrow> nat \<Rightarrow> nat \<Rightarrow> bool
    \<Rightarrow> nat \<times> nat \<times> nat \<times> nat" where
  "scan_rows data w h c x y j hx hy vx hyflag =
    (if j < h \<and> data ! (j * w + x) = c then
       let i = run_end data w j c x;
           (hx, vx) = (if j = y then (i, i) else (hx, vx));
           vx = (if i < vx then i else vx);
           (hy, hyflag) = (if hyflag \<and> i \<ge> hx then (hy + 1, True) else (hy, False))
       in scan_rows data w h c x y (j + 1) hx hy vx hyflag
     else (hx, hy, vx, j))"
  by pat_completeness auto
termination by (relation "measure (\<lambda>(_, _, h, _, _, _, j, _). h - j)") auto

declare scan_rows.simps [simp del]

text \<open>The bigger of the two rectangles with the top left corner \<open>(x, y)\<close>.\<close>

definition best_subrect :: "'p list \<Rightarrow> nat \<Rightarrow> nat \<Rightarrow> 'p \<Rightarrow> nat \<Rightarrow> nat \<Rightarrow> nat \<times> nat" where
  "best_subrect data w h c x y =
    (let (hx, hy, vx, vy) = scan_rows data w h c x y y 0 y 0 True;
         hw = hx - x; hh = hy - y; vw = vx - x; vh = vy - y
     in if hw * hh > vw * vh then (hw, hh) else (vw, vh))"

text \<open>The loops that mark a rectangle as done, by storing the background colour there.\<close>

definition fill_rect :: "nat \<Rightarrow> 'p \<Rightarrow> nat \<Rightarrow> nat \<Rightarrow> nat \<Rightarrow> nat \<Rightarrow> 'p list \<Rightarrow> 'p list" where
  "fill_rect w c thex they thew theh data =
    fold (\<lambda>j. fold (\<lambda>i data. data[j * w + i := c]) [thex..<thex + thew]) [they..<they + theh] data"

text \<open>
  The body of the loops over \<open>y\<close> and \<open>x\<close>. \<open>emit\<close> lays out a rectangle, \<open>room\<close> tells whether the
  encoding may grow to \<open>newLen\<close> bytes; \<open>None\<close> is the early return for an encoding that is too large.
\<close>

type_synonym 'p emitter = "'p \<Rightarrow> nat \<Rightarrow> nat \<Rightarrow> nat \<Rightarrow> nat \<Rightarrow> u8 list"

definition subrect_pixel :: "'p emitter \<Rightarrow> (nat \<Rightarrow> bool) \<Rightarrow> 'p \<Rightarrow> nat \<Rightarrow> nat \<Rightarrow> nat \<times> nat
    \<Rightarrow> ('p list \<times> u8 list \<times> nat) option \<Rightarrow> ('p list \<times> u8 list \<times> nat) option" where
  "subrect_pixel emit room bg w h = (\<lambda>(x, y) st. case st of None \<Rightarrow> None
    | Some (data, out, numsubs) \<Rightarrow>
       if data ! (y * w + x) \<noteq> bg then
         let c = data ! (y * w + x);
             (thew, theh) = best_subrect data w h c x y;
             newLen = length out + length (emit c x y thew theh)
         in if \<not> room newLen then None
            else Some (fill_rect w bg x y thew theh data, out @ emit c x y thew theh, numsubs + 1)
       else st)"

definition positions :: "nat \<Rightarrow> nat \<Rightarrow> (nat \<times> nat) list" where
  "positions w h = concat (map (\<lambda>y. map (\<lambda>x. (x, y)) [0..<w]) [0..<h])"

definition subrect_loop :: "'p emitter \<Rightarrow> (nat \<Rightarrow> bool) \<Rightarrow> 'p \<Rightarrow> nat \<Rightarrow> nat \<Rightarrow> 'p list \<Rightarrow> u8 list
    \<Rightarrow> (u8 list \<times> nat) option" where
  "subrect_loop emit room bg w h data out =
    map_option snd (fold (subrect_pixel emit room bg w h) (positions w h) (Some (data, out, 0)))"

section \<open>The rectangle that is found has one colour\<close>

lemma run_end_step: "i < w \<Longrightarrow> data ! (j * w + i) = c \<Longrightarrow> run_end data w j c i = run_end data w j c (i + 1)"
  by (subst run_end.simps) (simp only: if_True simp_thms)

lemma run_end_stop: "\<not> (i < w \<and> data ! (j * w + i) = c) \<Longrightarrow> run_end data w j c i = i"
  by (subst run_end.simps) (simp only: if_False simp_thms)

lemma run_end_ge: "i \<le> run_end data w j c i"
proof (induction data w j c i rule: run_end.induct)
  case (1 data w j c i)
  then show ?case
    by (cases "i < w \<and> data ! (j * w + i) = c") (auto simp: run_end_step run_end_stop)
qed

lemma run_end_le: "i \<le> w \<Longrightarrow> run_end data w j c i \<le> w"
proof (induction data w j c i rule: run_end.induct)
  case (1 data w j c i)
  then show ?case
    by (cases "i < w \<and> data ! (j * w + i) = c") (auto simp: run_end_step run_end_stop)
qed

lemma run_end_colour: "i \<le> k \<Longrightarrow> k < run_end data w j c i \<Longrightarrow> data ! (j * w + k) = c"
proof (induction data w j c i rule: run_end.induct)
  case (1 data w j c i)
  show ?case
  proof (cases "i < w \<and> data ! (j * w + i) = c")
    case True
    then have "run_end data w j c i = run_end data w j c (i + 1)" by (simp add: run_end_step)
    then show ?thesis using 1 True by (cases "k = i") auto
  next
    case False
    then have "run_end data w j c i = i" by (rule run_end_stop)
    then show ?thesis using 1(2,3) by simp
  qed
qed

lemma run_end_pos:
  assumes "data ! (j * w + i) = c" "i < w"
  shows "i < run_end data w j c i"
proof -
  have "run_end data w j c i = run_end data w j c (i + 1)" using assms by (subst run_end.simps) simp
  then show ?thesis using run_end_ge [of "i + 1" data w j c] by simp
qed

text \<open>What the scan of the rows has established before row \<open>j\<close>.\<close>

definition scan_inv :: "'p list \<Rightarrow> nat \<Rightarrow> nat \<Rightarrow> 'p \<Rightarrow> nat \<Rightarrow> nat \<Rightarrow> nat \<Rightarrow> nat \<Rightarrow> nat \<Rightarrow> nat \<Rightarrow> bool \<Rightarrow> bool" where
  "scan_inv data w h c x y j hx hy vx hyflag \<longleftrightarrow>
     y \<le> j \<and> j \<le> h \<and> y \<le> hy \<and> hy \<le> j \<and> (hyflag \<longrightarrow> hy = j) \<and> (y = j \<longrightarrow> hyflag) \<and>
     (y < j \<longrightarrow> x < hx \<and> hx \<le> w \<and> x < vx \<and> vx \<le> w \<and> y < hy) \<and>
     (\<forall>r. y \<le> r \<and> r < j \<longrightarrow> vx \<le> run_end data w r c x) \<and>
     (\<forall>r. y \<le> r \<and> r < hy \<longrightarrow> hx \<le> run_end data w r c x)"

lemma scan_rows_inv:
  assumes "scan_inv data w h c x y j hx hy vx hyflag" "x < w"
    "scan_rows data w h c x y j hx hy vx hyflag = (hx', hy', vx', vy')"
  shows "\<exists>f. scan_inv data w h c x y vy' hx' hy' vx' f \<and> j \<le> vy' \<and>
    (j < h \<and> data ! (j * w + x) = c \<longrightarrow> j < vy')"
  using assms
proof (induction "h - j" arbitrary: j hx hy vx hyflag rule: less_induct)
  case less
  note 1 = less
  show ?case
  proof (cases "j < h \<and> data ! (j * w + x) = c")
    case False
    then show ?thesis using 1(2,4) by (subst (asm) scan_rows.simps) auto
  next
    case True
    let ?i = "run_end data w j c x"
    let ?hx = "if j = y then ?i else hx" and ?vx = "if j = y then ?i else vx"
    let ?vx' = "if ?i < ?vx then ?i else ?vx"
    let ?hy = "if hyflag \<and> ?i \<ge> ?hx then hy + 1 else hy" and ?f = "hyflag \<and> ?i \<ge> ?hx"
    have i: "x < ?i" "?i \<le> w" using run_end_pos [of data j w x c] run_end_le [of x w data j c] True 1(3) by auto
    have inv: "scan_inv data w h c x y (j + 1) ?hx ?hy ?vx' ?f"
    proof (cases "j = y")
      case j: True
      then have "?hx = ?i" "?vx' = ?i" "?hy = y + 1" "?f" using 1(2) by (auto simp: scan_inv_def)
      then show ?thesis using i True j unfolding scan_inv_def by (auto simp: less_Suc_eq)
    next
      case j: False
      then have o: "y \<le> j" "y \<le> hy" "hy \<le> j" "hyflag \<longrightarrow> hy = j" "x < hx" "hx \<le> w" "x < vx" "vx \<le> w" "y < hy"
        "\<And>r. y \<le> r \<Longrightarrow> r < j \<Longrightarrow> vx \<le> run_end data w r c x"
        "\<And>r. y \<le> r \<Longrightarrow> r < hy \<Longrightarrow> hx \<le> run_end data w r c x"
        using 1(2) by (auto simp: scan_inv_def)
      have vx: "?vx' \<le> run_end data w r c x" if "y \<le> r" "r < j + 1" for r
        using o(10) [OF that(1)] that j by (cases "r = j") auto
      have hx: "hx \<le> run_end data w r c x" if "y \<le> r" "r < ?hy" for r
        using o(4) o(11) [OF that(1)] that j by (cases "r = j") (auto split: if_splits)
      have "x < ?vx'" "?vx' \<le> w" "x < ?hx" "?hx \<le> w" "y < ?hy" "?hy \<le> j + 1" "?f \<longrightarrow> ?hy = j + 1"
        using o i j by auto
      moreover have "y \<le> ?hy" "y \<le> j + 1" "j + 1 \<le> h" "y = j + 1 \<longrightarrow> ?f" using o(1,2) True by auto
      moreover have "\<forall>r. y \<le> r \<and> r < ?hy \<longrightarrow> ?hx \<le> run_end data w r c x" using hx j by simp
      moreover have "\<forall>r. y \<le> r \<and> r < j + 1 \<longrightarrow> ?vx' \<le> run_end data w r c x" using vx by blast
      ultimately show ?thesis unfolding scan_inv_def
        by - (intro conjI; (assumption | (rule impI, intro conjI; assumption)))
    qed
    have e: "scan_rows data w h c x y (j + 1) ?hx ?hy ?vx' ?f = (hx', hy', vx', vy')"
      using 1(4) True by (subst (asm) scan_rows.simps) (auto simp: Let_def split: if_splits)
    have "h - (j + 1) < h - j" using True by linarith
    from 1(1) [OF this inv 1(3) e]
    have "\<exists>f. scan_inv data w h c x y vy' hx' hy' vx' f \<and> j + 1 \<le> vy'" by blast
    then show ?thesis by auto
  qed
qed

lemma best_subrect_uniform:
  assumes "x < w" "y < h" "data ! (y * w + x) = c" "best_subrect data w h c x y = (tw, th)"
  shows "0 < tw" "0 < th" "x + tw \<le> w" "y + th \<le> h"
    "\<And>i j. x \<le> i \<Longrightarrow> i < x + tw \<Longrightarrow> y \<le> j \<Longrightarrow> j < y + th \<Longrightarrow> data ! (j * w + i) = c"
proof -
  obtain hx hy vx vy where s: "scan_rows data w h c x y y 0 y 0 True = (hx, hy, vx, vy)"
    by (metis prod_cases4)
  have "scan_inv data w h c x y y 0 y 0 True" using assms(2) by (simp add: scan_inv_def)
  from scan_rows_inv [OF this assms(1) s] assms(2,3) have
    i: "y < vy" "vy \<le> h" "x < hx" "hx \<le> w" "x < vx" "vx \<le> w" "y < hy" "hy \<le> vy"
      "\<And>r. y \<le> r \<Longrightarrow> r < vy \<Longrightarrow> vx \<le> run_end data w r c x"
      "\<And>r. y \<le> r \<Longrightarrow> r < hy \<Longrightarrow> hx \<le> run_end data w r c x"
    by (auto simp: scan_inv_def)
  have t: "(tw, th) = (hx - x, hy - y) \<or> (tw, th) = (vx - x, vy - y)"
    using assms(4) by (auto simp: best_subrect_def s Let_def split: if_splits)
  then show "0 < tw" "0 < th" "x + tw \<le> w" "y + th \<le> h" using i by auto
  show "data ! (j * w + k) = c" if "x \<le> k" "k < x + tw" "y \<le> j" "j < y + th" for k j
  proof (rule run_end_colour [OF that(1)])
    show "k < run_end data w j c x"
      using t i(9) [OF that(3)] i(10) [OF that(3)] i(3,5,7,1) that by auto
  qed
qed

section \<open>Painting\<close>

text \<open>What the peer does with the rectangles: it fills them in order.\<close>

type_synonym 'p subrect = "'p \<times> nat \<times> nat \<times> nat \<times> nat"

definition paint :: "nat \<Rightarrow> 'p subrect list \<Rightarrow> 'p list \<Rightarrow> 'p list" where
  "paint w rs = fold (\<lambda>(c, x, y, tw, th). fill_rect w c x y tw th) rs"

definition rect_idx :: "nat \<Rightarrow> nat \<Rightarrow> nat \<Rightarrow> nat \<Rightarrow> nat \<Rightarrow> nat set" where
  "rect_idx w x y tw th = {j * w + i | i j. x \<le> i \<and> i < x + tw \<and> y \<le> j \<and> j < y + th}"

lemma fill_row:
  "length (fold (\<lambda>i data. data[a + i := c]) xs data) = length data \<and>
   (k < length data \<longrightarrow> fold (\<lambda>i data. data[a + i := c]) xs data ! k
      = (if k \<in> (\<lambda>i. a + i) ` set xs then c else data ! k))"
  by (induction xs arbitrary: data) (auto simp: nth_list_update)

lemma fill_rows:
  "length (fold (\<lambda>j. fold (\<lambda>i data. data[j * w + i := c]) xs) js data) = length data \<and>
   (k < length data \<longrightarrow> fold (\<lambda>j. fold (\<lambda>i data. data[j * w + i := c]) xs) js data ! k
      = (if \<exists>j\<in>set js. k \<in> (\<lambda>i. j * w + i) ` set xs then c else data ! k))"
proof (induction js arbitrary: data)
  case (Cons j js)
  then show ?case using fill_row [of "j * w" c xs data k] by auto
qed simp

lemma length_fill_rect [simp]: "length (fill_rect w c x y tw th data) = length data"
  using fill_rows [of w c "[x..<x + tw]" "[y..<y + th]" data] by (simp add: fill_rect_def)

lemma nth_fill_rect:
  assumes "k < length data"
  shows "fill_rect w c x y tw th data ! k = (if k \<in> rect_idx w x y tw th then c else data ! k)"
proof -
  have "(\<exists>j\<in>set [y..<y + th]. k \<in> (\<lambda>i. j * w + i) ` set [x..<x + tw]) \<longleftrightarrow> k \<in> rect_idx w x y tw th"
    unfolding rect_idx_def image_def by (simp add: Bex_def) blast
  then show ?thesis using fill_rows [of w c "[x..<x + tw]" "[y..<y + th]" data k] assms
    by (simp only: fill_rect_def)
qed

lemma length_paint [simp]: "length (paint w rs canvas) = length canvas"
  unfolding paint_def by (induction rs arbitrary: canvas) auto

lemma paint_snoc: "paint w (rs @ [(c, x, y, tw, th)]) canvas = fill_rect w c x y tw th (paint w rs canvas)"
  by (simp add: paint_def)

lemma rect_idx_bound: 
  assumes "k \<in> rect_idx w x y tw th" "x + tw \<le> w" "y + th \<le> h"
  shows "k < w * h"
proof -
  obtain i j where k: "k = j * w + i" "i < w" "j < h" using assms by (auto simp: rect_idx_def)
  have "(j + 1) * w \<le> h * w" using k(3) by (intro mult_right_mono) auto
  then show ?thesis using k(1,2) by (simp add: mult.commute)
qed

section \<open>The encoding paints the original pixels\<close>

text \<open>
  What holds when the positions \<open>ps\<close> have been visited: the pixels of \<open>D\<close> that are not yet marked
  are still in \<open>data\<close>, the others are painted by the rectangles emitted so far.
\<close>

definition subrect_inv :: "'p emitter \<Rightarrow> (nat \<Rightarrow> bool) \<Rightarrow> 'p \<Rightarrow> nat \<Rightarrow> nat \<Rightarrow> 'p list \<Rightarrow> u8 list
    \<Rightarrow> (nat \<times> nat) set \<Rightarrow> 'p list \<times> u8 list \<times> nat \<Rightarrow> 'p subrect list \<Rightarrow> bool" where
  "subrect_inv emit room bg w h D out0 ps = (\<lambda>(data, out, n) rs.
     length data = w * h \<and>
     out = out0 @ concat (map (\<lambda>(c, x, y, tw, th). emit c x y tw th) rs) \<and> n = length rs \<and>
     (\<forall>k < w * h. D ! k = (if data ! k \<noteq> bg then data ! k else paint w rs (replicate (w * h) bg) ! k)) \<and>
     (\<forall>(x, y) \<in> ps. x < w \<and> y < h \<and> data ! (y * w + x) = bg) \<and>
     (\<forall>(c, x, y, tw, th) \<in> set rs. c \<in> set D \<and> c \<noteq> bg \<and> 0 < tw \<and> 0 < th \<and> x + tw \<le> w \<and> y + th \<le> h) \<and>
     n + card {k. k < w * h \<and> data ! k \<noteq> bg} \<le> card {k. k < w * h \<and> D ! k \<noteq> bg} \<and>
     (rs = [] \<or> room (length out)))"

lemma row_major_less: "x < w \<Longrightarrow> y < h \<Longrightarrow> y * w + x < w * (h::nat)"
  using rect_idx_bound [of "y * w + x" w x y 1 1 h] by (force simp: rect_idx_def)

lemma subrect_pixel_inv:
  assumes inv: "subrect_inv emit room bg w h D out0 ps (data, out, n) rs"
    and p: "x < w" "y < h" and len: "length D = w * h"
    and step: "subrect_pixel emit room bg w h (x, y) (Some (data, out, n)) = Some st"
  shows "\<exists>rs'. subrect_inv emit room bg w h D out0 (insert (x, y) ps) st rs'"
proof (cases "data ! (y * w + x) = bg")
  case True
  then have "st = (data, out, n)" using step by (simp add: subrect_pixel_def)
  then show ?thesis using inv True by (intro exI [of _ rs]) (auto simp: subrect_inv_def p)
next
  case False
  let ?c = "data ! (y * w + x)"
  obtain tw th where b: "best_subrect data w h ?c x y = (tw, th)" by fastforce
  let ?data = "fill_rect w bg x y tw th data" and ?out = "out @ emit ?c x y tw th"
  let ?rs = "rs @ [(?c, x, y, tw, th)]" and ?bgs = "replicate (w * h) bg"
  note u = best_subrect_uniform [OF p refl b]
  have st: "st = (?data, ?out, n + 1)" "room (length ?out)"
    using step False by (simp_all add: subrect_pixel_def Let_def b split: if_splits)
  from inv have l: "length data = w * h" and o: "out = out0 @ concat (map (\<lambda>(c, x, y, tw, th). emit c x y tw th) rs)"
    and n: "n = length rs"
    and d: "\<And>k. k < w * h \<Longrightarrow> D ! k = (if data ! k \<noteq> bg then data ! k else paint w rs ?bgs ! k)"
    and v: "\<And>a b. (a, b) \<in> ps \<Longrightarrow> a < w \<and> b < h \<and> data ! (b * w + a) = bg"
    and f: "\<forall>(c, x, y, tw, th) \<in> set rs. c \<in> set D \<and> c \<noteq> bg \<and> 0 < tw \<and> 0 < th \<and> x + tw \<le> w \<and> y + th \<le> h"
    and cnt: "n + card {k. k < w * h \<and> data ! k \<noteq> bg} \<le> card {k. k < w * h \<and> D ! k \<noteq> bg}"
    by (auto simp: subrect_inv_def)
  have k0: "y * w + x < w * h" by (rule row_major_less [OF p])
  have k0r: "y * w + x \<in> rect_idx w x y tw th" using u(1,2) by (force simp: rect_idx_def)
  have col: "data ! k = ?c" if "k \<in> rect_idx w x y tw th" for k using u(5) that by (auto simp: rect_idx_def)
  have nth: "?data ! k = (if k \<in> rect_idx w x y tw th then bg else data ! k)" if "k < w * h" for k
    using that l by (simp add: nth_fill_rect)
  have pnt: "paint w ?rs ?bgs ! k = (if k \<in> rect_idx w x y tw th then ?c else paint w rs ?bgs ! k)" if "k < w * h" for k
    using that by (simp add: paint_snoc nth_fill_rect)
  have cD: "?c \<in> set D" using d [OF k0] False len k0 by (metis nth_mem)
  have "subrect_inv emit room bg w h D out0 (insert (x, y) ps) (?data, ?out, n + 1) ?rs"
    unfolding subrect_inv_def split
  proof (intro conjI allI impI)
    show "length ?data = w * h" using l by simp
    show "?out = out0 @ concat (map (\<lambda>(c, x, y, tw, th). emit c x y tw th) ?rs)" using o by simp
    show "n + 1 = length ?rs" using n by simp
    show "D ! k = (if ?data ! k \<noteq> bg then ?data ! k else paint w ?rs ?bgs ! k)" if "k < w * h" for k
      using d [OF that] nth [OF that] pnt [OF that] col [of k] False by (simp split: if_splits)
    show "\<forall>(a, b) \<in> insert (x, y) ps. a < w \<and> b < h \<and> ?data ! (b * w + a) = bg"
    proof clarify
      fix a b assume "(a, b) \<in> insert (x, y) ps"
      then consider "a = x" "b = y" | "a < w" "b < h" "data ! (b * w + a) = bg" using v by blast
      then show "a < w \<and> b < h \<and> ?data ! (b * w + a) = bg"
      proof cases
        case 1
        then show ?thesis using p nth [OF k0] k0r by (simp only: if_True simp_thms)
      next
        case 2
        then show ?thesis using nth [OF row_major_less [OF 2(1,2)]] by (simp only: if_cancel simp_thms)
      qed
    qed
    show "\<forall>(c, x, y, tw, th) \<in> set ?rs. c \<in> set D \<and> c \<noteq> bg \<and> 0 < tw \<and> 0 < th \<and> x + tw \<le> w \<and> y + th \<le> h"
      using f u(1-4) cD False by auto
    show "?rs = [] \<or> room (length ?out)" using st(2) by simp
    have "{k. k < w * h \<and> ?data ! k \<noteq> bg} \<subseteq> {k. k < w * h \<and> data ! k \<noteq> bg} - {y * w + x}"
      using nth k0r by auto
    then have "card {k. k < w * h \<and> ?data ! k \<noteq> bg} \<le> card ({k. k < w * h \<and> data ! k \<noteq> bg} - {y * w + x})"
      by (intro card_mono) auto
    also have "\<dots> < card {k. k < w * h \<and> data ! k \<noteq> bg}"
      using k0 False by (intro card_Diff1_less) simp_all
    finally show "n + 1 + card {k. k < w * h \<and> ?data ! k \<noteq> bg} \<le> card {k. k < w * h \<and> D ! k \<noteq> bg}"
      using cnt by simp
  qed
  then show ?thesis using st(1) by blast
qed

lemma set_positions: "set (positions w h) = {..<w} \<times> {..<h}"
  by (auto simp: positions_def)

lemma subrect_fold_inv:
  assumes "fold (subrect_pixel emit room bg w h) ps (Some st) = Some st'" "length D = w * h"
    "set ps \<subseteq> {..<w} \<times> {..<h}" "subrect_inv emit room bg w h D out0 vis st rs"
  shows "\<exists>rs'. subrect_inv emit room bg w h D out0 (vis \<union> set ps) st' rs'"
  using assms
proof (induction ps arbitrary: st vis rs)
  case (Cons p ps)
  obtain x y where p: "p = (x, y)" by fastforce
  obtain data out n where st: "st = (data, out, n)" by (metis prod_cases3)
  have none: "fold (subrect_pixel emit room bg w h) ps None = None"
    by (induction ps) (auto simp: subrect_pixel_def)
  obtain st1 where s1: "subrect_pixel emit room bg w h (x, y) (Some (data, out, n)) = Some st1"
    using Cons.prems(1) none by (cases "subrect_pixel emit room bg w h (x, y) (Some (data, out, n))") (auto simp: p st)
  have xy: "x < w" "y < h" using Cons.prems(3) by (auto simp: p)
  from subrect_pixel_inv [OF Cons.prems(4) [unfolded st] xy Cons.prems(2) s1]
  obtain rs1 where "subrect_inv emit room bg w h D out0 (insert (x, y) vis) st1 rs1" ..
  from Cons.IH [OF _ Cons.prems(2) _ this] Cons.prems(1,3) s1 show ?case
    by (simp add: p st)
qed (use assms in auto)

text \<open>
  The rectangles of an encoding that was not too large, painted over the background, give the
  original pixels; each has a colour of the original other than the background, and there are no more
  of them than pixels of other colours.
\<close>

lemma subrect_loop_paints:
  assumes "subrect_loop emit room bg w h D out0 = Some (out, n)" "length D = w * h"
  obtains rs where "out = out0 @ concat (map (\<lambda>(c, x, y, tw, th). emit c x y tw th) rs)" "n = length rs"
    "paint w rs (replicate (w * h) bg) = D"
    "\<forall>(c, x, y, tw, th) \<in> set rs. c \<in> set D \<and> c \<noteq> bg \<and> 0 < tw \<and> 0 < th \<and> x + tw \<le> w \<and> y + th \<le> h"
    "n \<le> card {k. k < w * h \<and> D ! k \<noteq> bg}" "rs = [] \<or> room (length out)"
proof -
  obtain data where f: "fold (subrect_pixel emit room bg w h) (positions w h) (Some (D, out0, 0)) = Some (data, out, n)"
    using assms(1) by (auto simp: subrect_loop_def)
  have "subrect_inv emit room bg w h D out0 {} (D, out0, 0) []"
    using assms(2) by (auto simp: subrect_inv_def paint_def)
  from subrect_fold_inv [OF f assms(2) _ this] obtain rs where
    inv: "subrect_inv emit room bg w h D out0 ({..<w} \<times> {..<h}) (data, out, n) rs"
    by (auto simp: set_positions)
  note c1 = inv [unfolded subrect_inv_def prod.case]
  note i1 = conjunct1 [OF c1] and c2 = conjunct2 [OF c1]
  note i2 = conjunct1 [OF c2] and c3 = conjunct2 [OF c2]
  note i3 = conjunct1 [OF c3] and c4 = conjunct2 [OF c3]
  note i4 = conjunct1 [OF c4] and c5 = conjunct2 [OF c4]
  note i5 = conjunct1 [OF c5] and c6 = conjunct2 [OF c5]
  note i6 = conjunct1 [OF c6] and c7 = conjunct2 [OF c6]
  note i7 = conjunct1 [OF c7] and c8 = conjunct2 [OF c7]
  have bg: "data ! k = bg" if "k < w * h" for k
  proof -
    have w: "0 < w" using that by (cases w) auto
    have "(k mod w, k div w) \<in> {..<w} \<times> {..<h}"
      using that w by (simp add: less_mult_imp_div_less mult.commute)
    then have "data ! (k div w * w + k mod w) = bg" using i5 by blast
    then show ?thesis by simp
  qed
  have p: "paint w rs (replicate (w * h) bg) = D"
    by (rule nth_equalityI) (simp_all add: assms(2) bg i4)
  have "n \<le> card {k. k < w * h \<and> D ! k \<noteq> bg}" using i7 by linarith
  from that [OF i2 i3 p i6 this c8] show ?thesis .
qed

section \<open>The background colour\<close>

text \<open>
  The loop of getBgColour for 8 bit pixels, over the colours still to be counted; \<open>maxclr\<close> is the
  first colour that reached the highest count so far.
\<close>

fun bg_loop :: "'p list \<Rightarrow> ('p \<Rightarrow> nat) \<Rightarrow> nat \<Rightarrow> 'p \<Rightarrow> 'p" where
  "bg_loop [] counts maxcount maxclr = maxclr"
| "bg_loop (k # data) counts maxcount maxclr =
    (let counts = counts(k := counts k + 1)
     in if counts k > maxcount then bg_loop data counts (counts k) k
        else bg_loop data counts maxcount maxclr)"

lemma bg_loop_max:
  assumes "\<And>c. counts c \<le> maxcount" "maxcount = counts maxclr"
  shows "counts c + count_list data c \<le> counts (bg_loop data counts maxcount maxclr)
    + count_list data (bg_loop data counts maxcount maxclr)"
  using assms
proof (induction data arbitrary: counts maxcount maxclr)
  case (Cons k data)
  let ?counts = "counts(k := counts k + 1)"
  have e: "counts d + count_list (k # data) d = ?counts d + count_list data d" for d by simp
  show ?case
  proof (cases "?counts k > maxcount")
    case True
    have "?counts d \<le> ?counts k" for d using Cons.prems(1) [of d] True by simp
    from Cons.IH [of ?counts "?counts k" k, OF this refl]
    show ?thesis unfolding e bg_loop.simps Let_def if_P [OF True] .
  next
    case False
    then have "?counts d \<le> maxcount" "maxcount = ?counts maxclr" for d
      using Cons.prems(1) [of d] Cons.prems by (auto split: if_splits)
    from Cons.IH [of ?counts maxcount maxclr, OF this]
    show ?thesis unfolding e bg_loop.simps Let_def if_not_P [OF False] .
  qed
qed simp

section \<open>Reading an encoding back\<close>

fun read_subrects :: "(u8 list \<Rightarrow> 'p subrect \<times> u8 list) \<Rightarrow> nat \<Rightarrow> u8 list \<Rightarrow> 'p subrect list \<times> u8 list" where
  "read_subrects get 0 bs = ([], bs)"
| "read_subrects get (Suc n) bs =
    (let (r, bs) = get bs; (rs, bs) = read_subrects get n bs in (r # rs, bs))"

text \<open>
  A layout of rectangles that a peer can read: \<open>get\<close> undoes \<open>emit\<close> on the rectangles that \<open>fits\<close>
  admits. RRE, CoRRE and hextile (with and without colours) provide one each.
\<close>

locale subrect_codec =
  fixes emit :: "'p emitter" and get :: "u8 list \<Rightarrow> 'p subrect \<times> u8 list"
    and fits :: "'p \<Rightarrow> nat \<Rightarrow> nat \<Rightarrow> nat \<Rightarrow> nat \<Rightarrow> bool" and size :: nat
  assumes get_emit: "fits c x y tw th \<Longrightarrow> get (emit c x y tw th @ bs) = ((c, x, y, tw, th), bs)"
    and emit_size: "fits c x y tw th \<Longrightarrow> length (emit c x y tw th) = size"
begin

lemma read_emitted:
  assumes "\<forall>(c, x, y, tw, th) \<in> set rs. fits c x y tw th"
  shows "read_subrects get (length rs) (concat (map (\<lambda>(c, x, y, tw, th). emit c x y tw th) rs) @ bs) = (rs, bs)"
  using assms by (induction rs) (auto simp: get_emit)

lemma emitted_size:
  assumes "\<forall>(c, x, y, tw, th) \<in> set rs. fits c x y tw th"
  shows "length (concat (map (\<lambda>(c, x, y, tw, th). emit c x y tw th) rs)) = size * length rs"
  using assms by (induction rs) (auto simp: emit_size)

text \<open>The peer that reads as many rectangles as were counted, and paints them, sees the original.\<close>

lemma decode_encode:
  assumes e: "subrect_loop emit room bg w h D out0 = Some (out, n)" and len: "length D = w * h"
    and f: "\<And>c x y tw th. c \<in> set D \<Longrightarrow> c \<noteq> bg \<Longrightarrow> 0 < tw \<Longrightarrow> 0 < th \<Longrightarrow> x + tw \<le> w \<Longrightarrow> y + th \<le> h
      \<Longrightarrow> fits c x y tw th"
  obtains body where "out = out0 @ body" "length body = size * n"
    "\<forall>bs. \<exists>rs. read_subrects get n (body @ bs) = (rs, bs) \<and> paint w rs (replicate (w * h) bg) = D"
    "n = 0 \<or> room (length out)" "n \<le> card {k. k < w * h \<and> D ! k \<noteq> bg}"
proof -
  obtain rs where rs: "out = out0 @ concat (map (\<lambda>(c, x, y, tw, th). emit c x y tw th) rs)" "n = length rs"
      "paint w rs (replicate (w * h) bg) = D"
    and b: "\<forall>(c, x, y, tw, th) \<in> set rs. c \<in> set D \<and> c \<noteq> bg \<and> 0 < tw \<and> 0 < th \<and> x + tw \<le> w \<and> y + th \<le> h"
    and r: "n \<le> card {k. k < w * h \<and> D ! k \<noteq> bg}" "rs = [] \<or> room (length out)"
    by (rule subrect_loop_paints [OF e len])
  from b have a: "\<forall>(c, x, y, tw, th) \<in> set rs. fits c x y tw th" by (auto intro: f)
  have "\<exists>rs'. read_subrects get n (concat (map (\<lambda>(c, x, y, tw, th). emit c x y tw th) rs) @ bs) = (rs', bs)
      \<and> paint w rs' (replicate (w * h) bg) = D" for bs
    using read_emitted [OF a, of bs] rs(2,3) by auto
  then show ?thesis using that rs(1,2) emitted_size [OF a] r by auto
qed

end

section \<open>The property\<close>

text \<open>
  C34: The search for rectangles loses nothing: when the encoding is not too large, the rectangles laid
  out in it, painted in their order over the background, give back the original array of pixels. Each
  lies inside the array and has a colour that occurs there, none is empty, and there are no more of
  them than pixels that differ from the background.
\<close>

theorem subrects_paint_original:
  assumes "subrect_loop emit room bg w h D out0 = Some (out, n)" "length D = w * h"
  shows "\<exists>rs. out = out0 @ concat (map (\<lambda>(c, x, y, tw, th). emit c x y tw th) rs) \<and> n = length rs \<and>
    paint w rs (replicate (w * h) bg) = D \<and>
    (\<forall>(c, x, y, tw, th) \<in> set rs. c \<in> set D \<and> c \<noteq> bg \<and> 0 < tw \<and> 0 < th \<and> x + tw \<le> w \<and> y + th \<le> h) \<and>
    n \<le> card {k. k < w * h \<and> D ! k \<noteq> bg} \<and> (rs = [] \<or> room (length out))"
  by (rule subrect_loop_paints [OF assms], intro exI conjI; assumption)

definition demo_emit :: "nat emitter" where
  "demo_emit c x y tw th = map of_nat [c, x, y, tw, th]"

theorem subrects_paint_original_witness:
  "subrect_loop demo_emit (\<lambda>_. True) 0 3 2 [0, 7, 7, 5, 7, 7] [] = Some ([7, 1, 0, 2, 2, 5, 0, 1, 1, 1], 2) \<and>
   (\<exists>rs. [7, 1, 0, 2, 2, 5, 0, 1, 1, 1] = [] @ concat (map (\<lambda>(c, x, y, tw, th). demo_emit c x y tw th) rs) \<and> 2 = length rs \<and>
    paint 3 rs (replicate (3 * 2) 0) = [0, 7, 7, 5, 7, 7])"
proof -
  have e: "subrect_loop demo_emit (\<lambda>_. True) 0 3 2 [0, 7, 7, 5, 7, 7] [] = Some ([7, 1, 0, 2, 2, 5, 0, 1, 1, 1], 2)"
    by code_simp
  have l: "length [0::nat, 7, 7, 5, 7, 7] = 3 * 2" by simp
  from e subrects_paint_original [OF e l] show ?thesis by blast
qed

end
