(* ===== verification/Rre.thy ===== *)
theory Rre
  imports Updatebuf Subrects
begin

text \<open>
  The RRE and CoRRE encodings, \<^verbatim>\<open>OSXvnc-server/rre.c\<close> and \<^verbatim>\<open>corre.c\<close>: a rectangle is sent as a number
  of rectangles, a background colour and the rectangles, or raw if that is shorter. A CARD8, CARD16 or
  CARD32 pixel is the list of its bytes in memory, the order in which it is copied to the socket.

  The static buffers of a file grow to the raw size of the screen; \<open>oldSize\<close> is their size when the
  call begins. A rectangle larger than the buffer would be written past its end: the model stops there.
\<close>

section \<open>Pixels of a buffer\<close>

text \<open>The array of pixels of \<open>n\<close> bytes that a \<open>CARD8\<close>, \<open>CARD16\<close> or \<open>CARD32\<close> pointer sees.\<close>

definition split_pixels :: "nat \<Rightarrow> u8 list \<Rightarrow> u8 list list" where
  "split_pixels n bs = map (\<lambda>k. take n (drop (k * n) bs)) [0..<length bs div n]"

definition source_pixels :: "server \<Rightarrow> rfbClientRec \<Rightarrow> nat \<Rightarrow> nat \<Rightarrow> nat \<Rightarrow> nat \<Rightarrow> u8 list list" where
  "source_pixels srv cl x y w h =
    concat (map (\<lambda>j. map (\<lambda>i. source_pixel srv cl (x + i) (y + j)) [0..<w]) [0..<h])"

lemma split_pixels_concat:
  assumes "\<And>p. p \<in> set ps \<Longrightarrow> length p = n" "0 < n"
  shows "split_pixels n (concat ps) = ps"
  using assms(1)
proof (induction ps)
  case (Cons p ps)
  have p: "length p = n" and l: "length (concat ps) = n * length ps"
    using Cons.prems length_concat_map_const [of ps "\<lambda>p. p" n] by auto
  have "[0..<Suc (length ps)] = 0 # map Suc [0..<length ps]" by (simp add: map_Suc_upt upt_conv_Cons del: upt_Suc)
  moreover have "length (concat (p # ps)) div n = Suc (length ps)" using assms(2) p l by simp
  moreover have "length (concat ps) div n = length ps" using assms(2) l by simp
  ultimately show ?case using Cons.IH Cons.prems p by (simp add: split_pixels_def comp_def)
qed (use assms(2) in \<open>simp add: split_pixels_def\<close>)

lemma concat_concat_map: "concat (concat (map f xs)) = concat (map (\<lambda>x. concat (f x)) xs)"
  by (induction xs) auto

lemma concat_source_pixels: "concat (source_pixels srv cl x y w h) = source_rect srv cl x y w h"
  by (simp add: source_pixels_def source_rect_def concat_concat_map)

lemma length_source_pixels: "length (source_pixels srv cl x y w h) = w * h"
  by (simp add: source_pixels_def length_concat_map_const [where k = w])

lemma source_pixels_split:
  assumes "drawable srv cl"
  shows "split_pixels (bytesPerPixel cl) (pixels_at srv cl (fbptr srv cl x y) w h) = source_pixels srv cl x y w h"
  unfolding translate_rect_pixels [OF assms] concat_source_pixels [symmetric]
  by (rule split_pixels_concat)
    (auto simp: source_pixels_def length_source_pixel [OF assms] bytesPerPixel_pos [OF assms])

lemma source_pixels_length: "drawable srv cl \<Longrightarrow> p \<in> set (source_pixels srv cl x y w h) \<Longrightarrow> length p = bytesPerPixel cl"
  by (auto simp: source_pixels_def length_source_pixel)

section \<open>RRE\<close>

text \<open>getBgColour: the most frequent colour of 8 bit pixels, else the first pixel.\<close>

definition getBgColour :: "u8 list list \<Rightarrow> nat \<Rightarrow> u8 list" where
  "getBgColour data bpp = (if bpp \<noteq> 8 then data ! 0 else bg_loop data (\<lambda>_. 0) 0 [0])"

text \<open>A subrectangle with the layout of \<open>rfbRectangle\<close>, after its colour.\<close>

definition rre_emit :: "u8 list emitter" where
  "rre_emit c thex they thew theh =
    c @ be16 (int thex) @ be16 (int they) @ be16 (int thew) @ be16 (int theh)"

definition rre_subrectEncode :: "nat \<Rightarrow> nat \<Rightarrow> u8 list list \<Rightarrow> nat \<Rightarrow> nat \<Rightarrow> (u8 list \<times> nat) option" where
  "rre_subrectEncode rreAfterBufSize bpp data w h =
    (let bg = getBgColour data bpp
     in subrect_loop rre_emit (\<lambda>newLen. \<not> (newLen > w * h * (bpp div 8) \<or> newLen > rreAfterBufSize))
          bg w h data bg)"

definition rfbSendRectEncodingRRE :: "nat \<Rightarrow> server \<Rightarrow> nat \<Rightarrow> nat \<Rightarrow> nat \<Rightarrow> nat \<Rightarrow> rfbClientRec \<Rightarrow> bool \<times> rfbClientRec" where
  "rfbSendRectEncodingRRE oldSize srv x y w h cl =
    (let maxRawSize = swidth (rfbScreen srv) * sheight (rfbScreen srv) * bytesPerPixel cl;
         bufSize = (if oldSize < maxRawSize then maxRawSize else oldSize);
         rreBeforeBuf = pixels_at srv cl (fbptr srv cl x y) w h
     in if length rreBeforeBuf > bufSize \<or> \<not> valid_bpp (bitsPerPixel (format cl))
        then (False, cl\<lparr>exited := True\<rparr>)
        else case rre_subrectEncode bufSize (bitsPerPixel (format cl))
                    (split_pixels (bytesPerPixel cl) rreBeforeBuf) w h of
          None \<Rightarrow> rfbSendRectEncodingRaw srv x y w h cl
        | Some (rreAfterBuf, nSubrects) \<Rightarrow>
           let cl = count_rect rfbEncodingRRE
                 (sz_rfbFramebufferUpdateRectHeader + sz_rfbRREHeader + length rreAfterBuf) cl
           in case make_room (sz_rfbFramebufferUpdateRectHeader + sz_rfbRREHeader) cl of
                (False, cl) \<Rightarrow> (False, cl)
              | (True, cl) \<Rightarrow>
                  let cl = put_buf (rect_header (int x) (int y) (int w) (int h) rfbEncodingRRE) cl;
                      cl = put_buf (be32 (int nSubrects)) cl
                  in copy_loop rreAfterBuf cl)"

section \<open>CoRRE\<close>

definition corre_getBgColour :: "u8 list list \<Rightarrow> nat \<Rightarrow> u8 list" where
  "corre_getBgColour data bpp = (if bpp \<noteq> 8 then data ! 0 else bg_loop data (\<lambda>_. 0) 0 [0])"

text \<open>The fields of \<open>rfbCoRRERectangle\<close> are bytes.\<close>

definition corre_emit :: "u8 list emitter" where
  "corre_emit c thex they thew theh = c @ [of_nat thex, of_nat they, of_nat thew, of_nat theh]"

definition corre_subrectEncode :: "nat \<Rightarrow> nat \<Rightarrow> u8 list list \<Rightarrow> nat \<Rightarrow> nat \<Rightarrow> (u8 list \<times> nat) option" where
  "corre_subrectEncode rreAfterBufSize bpp data w h =
    (let bg = corre_getBgColour data bpp
     in subrect_loop corre_emit (\<lambda>newLen. \<not> (newLen > w * h * (bpp div 8) \<or> newLen > rreAfterBufSize))
          bg w h data bg)"

definition rfbSendSmallRectEncodingCoRRE :: "nat \<Rightarrow> server \<Rightarrow> nat \<Rightarrow> nat \<Rightarrow> nat \<Rightarrow> nat \<Rightarrow> rfbClientRec \<Rightarrow> bool \<times> rfbClientRec" where
  "rfbSendSmallRectEncodingCoRRE oldSize srv x y w h cl =
    (let maxRawSize = swidth (rfbScreen srv) * sheight (rfbScreen srv) * bytesPerPixel cl;
         bufSize = (if oldSize < maxRawSize then maxRawSize else oldSize);
         rreBeforeBuf = pixels_at srv cl (fbptr srv cl x y) w h
     in if length rreBeforeBuf > bufSize \<or> \<not> valid_bpp (bitsPerPixel (format cl))
        then (False, cl\<lparr>exited := True\<rparr>)
        else case corre_subrectEncode bufSize (bitsPerPixel (format cl))
                    (split_pixels (bytesPerPixel cl) rreBeforeBuf) w h of
          None \<Rightarrow> rfbSendRectEncodingRaw srv x y w h cl
        | Some (rreAfterBuf, nSubrects) \<Rightarrow>
           let cl = count_rect rfbEncodingCoRRE
                 (sz_rfbFramebufferUpdateRectHeader + sz_rfbRREHeader + length rreAfterBuf) cl
           in case make_room (sz_rfbFramebufferUpdateRectHeader + sz_rfbRREHeader) cl of
                (False, cl) \<Rightarrow> (False, cl)
              | (True, cl) \<Rightarrow>
                  let cl = put_buf (rect_header (int x) (int y) (int w) (int h) rfbEncodingCoRRE) cl;
                      cl = put_buf (be32 (int nSubrects)) cl
                  in copy_loop rreAfterBuf cl)"

text \<open>
  The recursion that cuts a rectangle into pieces of at most \<open>correMaxWidth\<close> by \<open>correMaxHeight\<close>
  pixels. A maximum of zero would never end (rfbNewClient sets both to 48): the model stops there.
\<close>

function rfbSendRectEncodingCoRRE :: "nat \<Rightarrow> server \<Rightarrow> nat \<Rightarrow> nat \<Rightarrow> nat \<Rightarrow> nat \<Rightarrow> rfbClientRec \<Rightarrow> bool \<times> rfbClientRec" where
  "rfbSendRectEncodingCoRRE oldSize srv x y w h cl =
    (let maxW = correMaxWidth cl; maxH = correMaxHeight cl in
     if maxW = 0 \<or> maxH = 0 then (False, cl\<lparr>exited := True\<rparr>)
     else if h > maxH then
       (let (ok, cl1) = rfbSendRectEncodingCoRRE oldSize srv x y w maxH cl
        in if ok then rfbSendRectEncodingCoRRE oldSize srv x (y + maxH) w (h - maxH) cl1 else (False, cl1))
     else if w > maxW then
       (let (ok, cl1) = rfbSendRectEncodingCoRRE oldSize srv x y maxW h cl
        in if ok then rfbSendRectEncodingCoRRE oldSize srv (x + maxW) y (w - maxW) h cl1 else (False, cl1))
     else rfbSendSmallRectEncodingCoRRE oldSize srv x y w h cl)"
  by pat_completeness auto
termination
  by (relation "measure (\<lambda>(_, _, _, _, w, h, _). w + h)") auto

declare rfbSendRectEncodingCoRRE.simps [simp del]

section \<open>The reader of the peer\<close>

definition rre_get :: "nat \<Rightarrow> u8 list \<Rightarrow> u8 list subrect \<times> u8 list" where
  "rre_get n bs = ((take n bs, nat (rd16 (drop n bs)), nat (rd16 (drop (n + 2) bs)),
     nat (rd16 (drop (n + 4) bs)), nat (rd16 (drop (n + 6) bs))), drop (n + 8) bs)"

definition corre_get :: "nat \<Rightarrow> u8 list \<Rightarrow> u8 list subrect \<times> u8 list" where
  "corre_get n bs = ((take n bs, unat (bs ! n), unat (bs ! (n + 1)), unat (bs ! (n + 2)), unat (bs ! (n + 3))),
     drop (n + 4) bs)"

definition decode_rre :: "(u8 list \<Rightarrow> u8 list subrect \<times> u8 list) \<Rightarrow> nat \<Rightarrow> nat \<Rightarrow> nat \<Rightarrow> u8 list \<Rightarrow> u8 list list \<times> u8 list" where
  "decode_rre get n w h bs =
    (let k = nat (rd32 bs); bs = drop 4 bs; bg = take n bs;
         (rs, bs) = read_subrects get k (drop n bs)
     in (paint w rs (replicate (w * h) bg), bs))"

definition small_subrect :: "nat \<Rightarrow> nat \<Rightarrow> u8 list \<Rightarrow> nat \<Rightarrow> nat \<Rightarrow> nat \<Rightarrow> nat \<Rightarrow> bool" where
  "small_subrect n lim c x y tw th \<longleftrightarrow> length c = n \<and> x < lim \<and> y < lim \<and> tw < lim \<and> th < lim"

lemma rd16_nat: "k < 65536 \<Longrightarrow> nat (rd16 (be16 (int k) @ bs)) = k"
  by (simp add: rd16_be16)

lemma drop_be16_nat: "2 \<le> k \<Longrightarrow> drop k (be16 i @ bs) = drop (k - 2) bs"
  by (simp add: drop_append)

interpretation rre: subrect_codec rre_emit "rre_get n" "small_subrect n 65536" "n + 8"
proof
  fix c :: "u8 list" and x y tw th :: nat and bs :: "u8 list"
  assume f: "small_subrect n 65536 c x y tw th"
  let ?e = "rre_emit c x y tw th @ bs" and ?r = "be16 (int x) @ be16 (int y) @ be16 (int tw) @ be16 (int th) @ bs"
  have e: "?e = c @ ?r" and c: "length c = n" using f by (simp_all add: rre_emit_def small_subrect_def)
  have d: "drop (n + k) ?e = drop k ?r" for k unfolding e using c by simp
  have "nat (rd16 (drop (n + 0) ?e)) = x" "nat (rd16 (drop (n + 2) ?e)) = y" "nat (rd16 (drop (n + 4) ?e)) = tw"
    "nat (rd16 (drop (n + 6) ?e)) = th" "drop (n + 8) ?e = bs"
    unfolding d using f by (simp_all add: drop_be16_nat rd16_nat small_subrect_def)
  moreover have "take n ?e = c" unfolding e using c by simp
  ultimately show "rre_get n ?e = ((c, x, y, tw, th), bs)" by (simp add: rre_get_def)
  show "length (rre_emit c x y tw th) = n + 8"
    using f by (simp add: rre_emit_def small_subrect_def)
qed

interpretation corre: subrect_codec corre_emit "corre_get n" "small_subrect n 256" "n + 4"
proof
  fix c :: "u8 list" and x y tw th :: nat and bs :: "u8 list"
  assume f: "small_subrect n 256 c x y tw th"
  show "corre_get n (corre_emit c x y tw th @ bs) = ((c, x, y, tw, th), bs)"
    using f by (simp add: corre_get_def corre_emit_def small_subrect_def nth_append unat_of_nat)
  show "length (corre_emit c x y tw th) = n + 4"
    using f by (simp add: corre_emit_def small_subrect_def)
qed

lemma bg_in:
  assumes "data \<noteq> []" "\<And>p. p \<in> set data \<Longrightarrow> length p = bpp div 8" "bpp \<in> {8, 16, 32}"
  shows "length (getBgColour data bpp) = bpp div 8" "corre_getBgColour = getBgColour"
proof -
  have "bg_loop data counts m c \<in> insert c (set data)" for counts m and c :: "u8 list"
    by (induction data arbitrary: counts m c) (auto simp: Let_def)
  from this [of "\<lambda>_. 0" 0 "[0]"] show "length (getBgColour data bpp) = bpp div 8"
    using assms by (auto simp: getBgColour_def)
  show "corre_getBgColour = getBgColour" by (intro ext) (simp add: corre_getBgColour_def getBgColour_def)
qed

text \<open>An encoding of either kind is read back to the pixels it was made from.\<close>

lemma decode_rre_encoded:
  assumes c: "subrect_codec emit get (small_subrect n lim) sz" and D: "length D = w * h"
    "\<And>p. p \<in> set D \<Longrightarrow> length p = n" and bg: "length bg = n"
    and e: "subrect_loop emit room bg w h D bg = Some (out, k)"
    and lim: "w < lim" "h < lim" "lim \<le> 65536"
  shows "decode_rre get n w h (be32 (int k) @ out @ bs) = (D, bs)"
proof -
  have f: "small_subrect n lim c x y tw th"
    if "c \<in> set D" "c \<noteq> bg" "0 < tw" "0 < th" "x + tw \<le> w" "y + th \<le> h" for c x y tw th
    using that D(2) lim by (auto simp: small_subrect_def)
  obtain body where b: "out = bg @ body" "length body = sz * k"
    "\<forall>bs. \<exists>rs. read_subrects get k (body @ bs) = (rs, bs) \<and> paint w rs (replicate (w * h) bg) = D"
    "k = 0 \<or> room (length out)" "k \<le> card {k. k < w * h \<and> D ! k \<noteq> bg}"
    by (rule subrect_codec.decode_encode [OF c e D(1) f])
  have "card {k. k < w * h \<and> D ! k \<noteq> bg} \<le> card {..<w * h}" by (rule card_mono) auto
  moreover have "w * h \<le> 65535 * 65535" using lim by (intro mult_mono) auto
  ultimately have k: "int k mod 4294967296 = int k" using b(5) by simp
  obtain rs where rs: "read_subrects get k (body @ bs) = (rs, bs)" "paint w rs (replicate (w * h) bg) = D"
    using b(3) by blast
  have d: "drop 4 (be32 (int k) @ out @ bs) = bg @ body @ bs" by (simp add: b(1) drop_append)
  show ?thesis unfolding decode_rre_def Let_def d rd32_be32 k using bg rs by simp
qed

section \<open>Messages that carry a rectangle\<close>

text \<open>
  A message that a peer which decodes bodies of encoding \<open>enc\<close> by \<open>dec\<close> reads as the rectangle: the
  header names it, and the decoder takes exactly the body and finds the source pixels in it.
\<close>

definition carries :: "(nat \<Rightarrow> nat \<Rightarrow> u8 list \<Rightarrow> u8 list list \<times> u8 list) \<Rightarrow> nat \<Rightarrow> server \<Rightarrow> rfbClientRec
    \<Rightarrow> nat \<Rightarrow> nat \<Rightarrow> nat \<Rightarrow> nat \<Rightarrow> u8 list \<Rightarrow> bool" where
  "carries dec enc srv cl x y w h msg \<longleftrightarrow>
     (\<exists>body. msg = rect_header (int x) (int y) (int w) (int h) enc @ body \<and>
       (\<forall>bs. dec w h (body @ bs) = (source_pixels srv cl x y w h, bs)))"

definition decode_raw :: "nat \<Rightarrow> nat \<Rightarrow> nat \<Rightarrow> u8 list \<Rightarrow> u8 list list \<times> u8 list" where
  "decode_raw n w h bs = (split_pixels n (take (w * n * h) bs), drop (w * n * h) bs)"

lemma carries_settings:
  assumes "settings cl' = settings cl"
  shows "carries dec enc srv cl' = carries dec enc srv cl"
  by (intro ext) (simp add: carries_def source_pixels_def source_settings(5) [OF assms])

lemma carries_raw:
  assumes "drawable srv cl"
  shows "carries (decode_raw (bytesPerPixel cl)) rfbEncodingRaw srv cl x y w h (raw_message srv cl x y w h)"
proof -
  have "split_pixels (bytesPerPixel cl) (source_rect srv cl x y w h) = source_pixels srv cl x y w h"
    using source_pixels_split [OF assms, of x y w h] by (simp add: translate_rect_pixels [OF assms])
  then show ?thesis
    unfolding carries_def raw_message_def decode_raw_def
    by (intro exI [of _ "source_rect srv cl x y w h"]) (simp add: length_source_rect [OF assms])
qed

text \<open>The part of the two encoders after the encoding: header, count, body.\<close>

lemma sends_encoded:
  assumes "ublen cl \<le> UPDATE_BUF_SIZE"
  shows "sends cl (rect_header x y w h enc @ be32 k @ out)
    (case make_room (sz_rfbFramebufferUpdateRectHeader + sz_rfbRREHeader) cl of (False, cl) \<Rightarrow> (False, cl)
     | (True, cl) \<Rightarrow> let cl = put_buf (rect_header x y w h enc) cl; cl = put_buf (be32 k) cl in copy_loop out cl)"
proof -
  let ?n = "sz_rfbFramebufferUpdateRectHeader + sz_rfbRREHeader"
  let ?g = "\<lambda>cl. put_buf (be32 k) (put_buf (rect_header x y w h enc) cl)"
  have "sends cl ((rect_header x y w h enc @ be32 k) @ out)
      (case make_room ?n cl of (False, cl) \<Rightarrow> (False, cl) | (True, cl) \<Rightarrow> copy_loop out (?g cl))"
    by (rule sends_header [OF assms, where g = ?g])
      (simp_all add: sends_copy_loop UPDATE_BUF_SIZE_def sz_rfbFramebufferUpdateRectHeader_def sz_rfbRREHeader_def)
  then show ?thesis unfolding Let_def by simp
qed

lemma sends_counted: "sends (count_rect e n cl) bs res \<Longrightarrow> sends cl bs res"
  using sends_more [of "count_rect e n cl" bs res cl "[]"] by simp

text \<open>What a rectangle must satisfy: it has pixels, and they fit the static buffers.\<close>

definition encodable :: "nat \<Rightarrow> server \<Rightarrow> rfbClientRec \<Rightarrow> nat \<Rightarrow> nat \<Rightarrow> bool" where
  "encodable oldSize srv cl w h \<longleftrightarrow> 0 < w \<and> 0 < h \<and> w < 65536 \<and> h < 65536 \<and>
     w * bytesPerPixel cl * h \<le> max oldSize (swidth (rfbScreen srv) * sheight (rfbScreen srv) * bytesPerPixel cl)"

definition rre_or_raw :: "nat \<Rightarrow> server \<Rightarrow> rfbClientRec \<Rightarrow> nat \<Rightarrow> nat \<Rightarrow> nat \<Rightarrow> nat \<Rightarrow> u8 list \<Rightarrow> bool" where
  "rre_or_raw n srv cl x y w h msg \<longleftrightarrow>
     carries (decode_raw n) rfbEncodingRaw srv cl x y w h msg \<or>
     carries (decode_rre (rre_get n) n) rfbEncodingRRE srv cl x y w h msg"

definition corre_or_raw :: "nat \<Rightarrow> server \<Rightarrow> rfbClientRec \<Rightarrow> nat \<Rightarrow> nat \<Rightarrow> nat \<Rightarrow> nat \<Rightarrow> u8 list \<Rightarrow> bool" where
  "corre_or_raw n srv cl x y w h msg \<longleftrightarrow>
     carries (decode_raw n) rfbEncodingRaw srv cl x y w h msg \<or>
     carries (decode_rre (corre_get n) n) rfbEncodingCoRRE srv cl x y w h msg"

text \<open>What the two encoders do with the result of subrectEncode.\<close>

lemma sends_rre_or_raw:
  assumes d: "drawable srv cl" and u: "ublen cl \<le> UPDATE_BUF_SIZE"
    and wh: "0 < w" "w < lim" "h < lim" "lim \<le> 65536"
    and c: "subrect_codec emit get (small_subrect (bytesPerPixel cl) lim) sz"
    and r: "r = subrect_loop emit room bg w h (source_pixels srv cl x y w h) bg" "length bg = bytesPerPixel cl"
  shows "\<exists>msg. sends cl msg (case r of None \<Rightarrow> rfbSendRectEncodingRaw srv x y w h cl
      | Some (out, k) \<Rightarrow>
          let cl = count_rect enc (sz_rfbFramebufferUpdateRectHeader + sz_rfbRREHeader + length out) cl
          in case make_room (sz_rfbFramebufferUpdateRectHeader + sz_rfbRREHeader) cl of (False, cl) \<Rightarrow> (False, cl)
             | (True, cl) \<Rightarrow> let cl = put_buf (rect_header (int x) (int y) (int w) (int h) enc) cl;
                               cl = put_buf (be32 (int k)) cl in copy_loop out cl) \<and>
    (carries (decode_raw (bytesPerPixel cl)) rfbEncodingRaw srv cl x y w h msg \<or>
     carries (decode_rre get (bytesPerPixel cl)) enc srv cl x y w h msg)"
proof (cases r)
  case None
  then show ?thesis using sends_Raw [OF d wh(1) u, of x y h] carries_raw [OF d, of x y w h] by auto
next
  case (Some out_k)
  obtain out k where ok: "out_k = (out, k)" by fastforce
  let ?n = "bytesPerPixel cl" and ?D = "source_pixels srv cl x y w h"
  let ?c = "count_rect enc (sz_rfbFramebufferUpdateRectHeader + sz_rfbRREHeader + length out) cl"
  let ?msg = "rect_header (int x) (int y) (int w) (int h) enc @ be32 (int k) @ out"
  have s: "sends cl ?msg (case r of None \<Rightarrow> rfbSendRectEncodingRaw srv x y w h cl
      | Some (out, k) \<Rightarrow>
          let cl = count_rect enc (sz_rfbFramebufferUpdateRectHeader + sz_rfbRREHeader + length out) cl
          in case make_room (sz_rfbFramebufferUpdateRectHeader + sz_rfbRREHeader) cl of (False, cl) \<Rightarrow> (False, cl)
             | (True, cl) \<Rightarrow> let cl = put_buf (rect_header (int x) (int y) (int w) (int h) enc) cl;
                               cl = put_buf (be32 (int k)) cl in copy_loop out cl)"
    unfolding Some ok option.case prod.case Let_def [of ?c]
    by (rule sends_counted [of enc "sz_rfbFramebufferUpdateRectHeader + sz_rfbRREHeader + length out"], rule sends_encoded) (use u in simp)
  have "decode_rre get ?n w h (be32 (int k) @ out @ bs) = (?D, bs)" for bs
    using Some ok r(1) length_source_pixels [of srv cl x y w h]
    by (intro decode_rre_encoded [OF c _ source_pixels_length [OF d] r(2) _ wh(2-4)]) auto
  then have "carries (decode_rre get ?n) enc srv cl x y w h ?msg"
    unfolding carries_def by (intro exI [of _ "be32 (int k) @ out"]) simp
  with s show ?thesis by blast
qed

lemma buffers_suffice:
  assumes "drawable srv cl" "encodable oldSize srv cl w h"
  shows "\<not> (length (pixels_at srv cl (fbptr srv cl x y) w h)
      > (if oldSize < swidth (rfbScreen srv) * sheight (rfbScreen srv) * bytesPerPixel cl
         then swidth (rfbScreen srv) * sheight (rfbScreen srv) * bytesPerPixel cl else oldSize)
    \<or> \<not> valid_bpp (bitsPerPixel (format cl)))"
  using assms by (auto simp: translate_rect_pixels length_source_rect encodable_def max_def drawable_def split: if_splits)

lemma background_length:
  assumes "drawable srv cl" "0 < w" "0 < h"
  shows "length (getBgColour (source_pixels srv cl x y w h) (bitsPerPixel (format cl))) = bytesPerPixel cl"
proof -
  have "source_pixels srv cl x y w h \<noteq> []" using length_source_pixels [of srv cl x y w h] assms(2,3) by auto
  then show ?thesis
    using bg_in(1) [of "source_pixels srv cl x y w h" "bitsPerPixel (format cl)"]
      source_pixels_length [OF assms(1), of _ x y w h] assms(1)
    by (auto simp: bytesPerPixel_def drawable_def valid_bpp_def)
qed

lemma sends_RRE:
  assumes d: "drawable srv cl" and u: "ublen cl \<le> UPDATE_BUF_SIZE" and e: "encodable oldSize srv cl w h"
  shows "\<exists>msg. sends cl msg (rfbSendRectEncodingRRE oldSize srv x y w h cl) \<and>
    rre_or_raw (bytesPerPixel cl) srv cl x y w h msg"
proof -
  have w: "0 < w" "0 < h" "w < 65536" "h < 65536" using e by (auto simp: encodable_def)
  show ?thesis
    unfolding rfbSendRectEncodingRRE_def rre_or_raw_def source_pixels_split [OF d] Let_def [of "swidth _ * _ * _"]
      Let_def [of "pixels_at _ _ _ _ _"] Let_def [of "if _ then _ else _"] if_not_P [OF buffers_suffice [OF d e]]
    by (rule sends_rre_or_raw [OF d u w(1,3,4) order_refl rre.subrect_codec_axioms
          rre_subrectEncode_def [unfolded Let_def] background_length [OF d w(1,2)]])
qed

lemma sends_SmallCoRRE:
  assumes d: "drawable srv cl" and u: "ublen cl \<le> UPDATE_BUF_SIZE" and e: "encodable oldSize srv cl w h"
    and s: "w < 256" "h < 256"
  shows "\<exists>msg. sends cl msg (rfbSendSmallRectEncodingCoRRE oldSize srv x y w h cl) \<and>
    corre_or_raw (bytesPerPixel cl) srv cl x y w h msg"
proof -
  have w: "0 < w" "0 < h" using e by (auto simp: encodable_def)
  have b: "corre_getBgColour = getBgColour" by (intro ext) (simp add: corre_getBgColour_def getBgColour_def)
  have l: "(256::nat) \<le> 65536" by simp
  show ?thesis
    unfolding rfbSendSmallRectEncodingCoRRE_def corre_or_raw_def source_pixels_split [OF d] Let_def [of "swidth _ * _ * _"]
      Let_def [of "pixels_at _ _ _ _ _"] Let_def [of "if _ then _ else _"] if_not_P [OF buffers_suffice [OF d e]]
    by (rule sends_rre_or_raw [OF d u w(1) s l corre.subrect_codec_axioms
          corre_subrectEncode_def [unfolded Let_def b] background_length [OF d w]])
qed

section \<open>The pieces of a CoRRE rectangle\<close>

type_synonym rect = "nat \<times> nat \<times> nat \<times> nat"

text \<open>A message made of one message for each rectangle of a list, in order.\<close>

fun carries_all :: "(rect \<Rightarrow> u8 list \<Rightarrow> bool) \<Rightarrow> rect list \<Rightarrow> u8 list \<Rightarrow> bool" where
  "carries_all P [] msg \<longleftrightarrow> msg = []"
| "carries_all P (r # rs) msg \<longleftrightarrow> (\<exists>m ms. msg = m @ ms \<and> P r m \<and> carries_all P rs ms)"

lemma carries_all_append:
  "carries_all P rs m \<Longrightarrow> carries_all P ss n \<Longrightarrow> carries_all P (rs @ ss) (m @ n)"
proof (induction rs arbitrary: m)
  case (Cons r rs)
  then obtain m1 m2 where "m = m1 @ m2" "P r m1" "carries_all P rs m2" by auto
  then have "m @ n = m1 @ (m2 @ n)" "carries_all P (rs @ ss) (m2 @ n)" using Cons by auto
  with \<open>P r m1\<close> show ?case unfolding append_Cons carries_all.simps by blast
qed simp

text \<open>The pieces, in the order in which the recursion sends them.\<close>

function corre_pieces :: "nat \<Rightarrow> nat \<Rightarrow> nat \<Rightarrow> nat \<Rightarrow> nat \<Rightarrow> nat \<Rightarrow> rect list" where
  "corre_pieces maxW maxH x y w h =
    (if maxW = 0 \<or> maxH = 0 then []
     else if h > maxH then corre_pieces maxW maxH x y w maxH @ corre_pieces maxW maxH x (y + maxH) w (h - maxH)
     else if w > maxW then corre_pieces maxW maxH x y maxW h @ corre_pieces maxW maxH (x + maxW) y (w - maxW) h
     else [(x, y, w, h)])"
  by pat_completeness auto
termination by (relation "measure (\<lambda>(_, _, _, _, w, h). w + h)") auto

declare corre_pieces.simps [simp del]

lemma corre_pieces_rows: "0 < maxW \<Longrightarrow> maxH < h \<Longrightarrow> 0 < maxH \<Longrightarrow> corre_pieces maxW maxH x y w h
    = corre_pieces maxW maxH x y w maxH @ corre_pieces maxW maxH x (y + maxH) w (h - maxH)"
  by (subst corre_pieces.simps) simp

lemma corre_pieces_cols: "0 < maxH \<Longrightarrow> h \<le> maxH \<Longrightarrow> 0 < maxW \<Longrightarrow> maxW < w \<Longrightarrow> corre_pieces maxW maxH x y w h
    = corre_pieces maxW maxH x y maxW h @ corre_pieces maxW maxH (x + maxW) y (w - maxW) h"
  by (subst corre_pieces.simps) simp

lemma corre_pieces_small: "0 < maxW \<Longrightarrow> 0 < maxH \<Longrightarrow> w \<le> maxW \<Longrightarrow> h \<le> maxH \<Longrightarrow> corre_pieces maxW maxH x y w h = [(x, y, w, h)]"
  by (subst corre_pieces.simps) simp

definition in_rect :: "nat \<Rightarrow> nat \<Rightarrow> rect \<Rightarrow> bool" where
  "in_rect px py = (\<lambda>(x, y, w, h). x \<le> px \<and> px < x + w \<and> y \<le> py \<and> py < y + h)"

text \<open>Every pixel of the rectangle lies in exactly one piece, and no other pixel in any.\<close>

lemma corre_pieces_partition:
  assumes "0 < maxW" "0 < maxH"
  shows "length (filter (in_rect px py) (corre_pieces maxW maxH x y w h)) = of_bool (in_rect px py (x, y, w, h))"
  using assms
proof (induction maxW maxH x y w h rule: corre_pieces.induct)
  case (1 maxW maxH x y w h)
  consider "maxH < h" | "h \<le> maxH" "maxW < w" | "h \<le> maxH" "w \<le> maxW" by linarith
  then show ?case
  proof cases
    case 1
    then show ?thesis using "1.prems" "1.IH"(1,2) by (auto simp: corre_pieces_rows in_rect_def)
  next
    case 2
    then show ?thesis using "1.prems" "1.IH"(3,4) by (auto simp: corre_pieces_cols in_rect_def)
  next
    case 3
    then show ?thesis using "1.prems" by (simp add: corre_pieces_small)
  qed
qed

lemma pieces_step:
  assumes "0 < (m::nat)" "m < n"
  shows "Suc ((n - 1) div m) = Suc (Suc ((n - m - 1) div m))"
proof -
  have "n - 1 = (n - m - 1) + m" using assms by simp
  then show ?thesis using assms(1) by (metis add_Suc_right div_add_self2 less_not_refl2 One_nat_def Suc_eq_plus1)
qed

lemma corre_pieces_count:
  assumes "0 < maxW" "0 < maxH" "0 < w" "0 < h"
  shows "length (corre_pieces maxW maxH x y w h) = ((w - 1) div maxW + 1) * ((h - 1) div maxH + 1)"
  using assms
proof (induction maxW maxH x y w h rule: corre_pieces.induct)
  case (1 maxW maxH x y w h)
  consider "maxH < h" | "h \<le> maxH" "maxW < w" | "h \<le> maxH" "w \<le> maxW" by linarith
  then show ?case
  proof cases
    case 1
    then show ?thesis using "1.prems" "1.IH"(1,2) pieces_step [of maxH h]
      by (simp add: corre_pieces_rows algebra_simps)
  next
    case 2
    then show ?thesis using "1.prems" "1.IH"(3,4) pieces_step [of maxW w]
      by (simp add: corre_pieces_cols algebra_simps)
  next
    case 3
    then show ?thesis using "1.prems" by (simp add: corre_pieces_small)
  qed
qed

lemma encodable_mono: "encodable oldSize srv cl w h \<Longrightarrow> 0 < w' \<Longrightarrow> w' \<le> w \<Longrightarrow> 0 < h' \<Longrightarrow> h' \<le> h \<Longrightarrow> encodable oldSize srv cl w' h'"
proof -
  assume a: "encodable oldSize srv cl w h" "0 < w'" "w' \<le> w" "0 < h'" "h' \<le> h"
  have "w' * bytesPerPixel cl * h' \<le> w * bytesPerPixel cl * h" using a(3,5) by (intro mult_mono) auto
  then show ?thesis using a unfolding encodable_def by linarith
qed

lemma encodable_settings: "settings cl' = settings cl \<Longrightarrow> encodable oldSize srv cl' w h = encodable oldSize srv cl w h"
  using source_settings(3) [of cl' cl] by (simp add: encodable_def)

lemma corre_or_raw_settings: 
  assumes "settings cl' = settings cl"
  shows "corre_or_raw n srv cl' = corre_or_raw n srv cl"
  by (intro ext) (simp add: corre_or_raw_def carries_settings [OF assms])

text \<open>Two calls in a row, as the code writes them with \<open>&&\<close>.\<close>

lemma sends_both:
  assumes "sends cl as r" "\<And>cl'. r = (True, cl') \<Longrightarrow> settings cl' = settings cl \<Longrightarrow> ublen cl' \<le> UPDATE_BUF_SIZE \<Longrightarrow> sends cl' bs (f cl')"
  shows "sends cl (as @ bs) (let (ok, cl1) = r in if ok then f cl1 else (False, cl1))"
proof -
  have "(let (ok, cl1) = r in if ok then f cl1 else (False, cl1)) = (case r of (False, cl) \<Rightarrow> (False, cl) | (True, cl) \<Rightarrow> f cl)"
    by (simp add: Let_def split: prod.split bool.split)
  then show ?thesis using sends_seq [OF assms] by simp
qed

lemma sends_CoRRE:
  assumes "drawable srv cl" "ublen cl \<le> UPDATE_BUF_SIZE" "encodable oldSize srv cl w h"
    and "0 < correMaxWidth cl" "correMaxWidth cl < 256" "0 < correMaxHeight cl" "correMaxHeight cl < 256"
  shows "\<exists>msg. sends cl msg (rfbSendRectEncodingCoRRE oldSize srv x y w h cl) \<and>
    carries_all (\<lambda>(x, y, w, h). corre_or_raw (bytesPerPixel cl) srv cl x y w h)
      (corre_pieces (correMaxWidth cl) (correMaxHeight cl) x y w h) msg"
  using assms
proof (induction "w + h" arbitrary: x y w h cl rule: less_induct)
  case less
  let ?W = "correMaxWidth cl" and ?H = "correMaxHeight cl"
  let ?P = "\<lambda>(x, y, w, h). corre_or_raw (bytesPerPixel cl) srv cl x y w h"
  have e: "0 < w" "0 < h" using less.prems(3) by (auto simp: encodable_def)
  have two: "\<exists>msg. sends cl msg (let (ok, cl1) = rfbSendRectEncodingCoRRE oldSize srv x y w1 h1 cl
       in if ok then rfbSendRectEncodingCoRRE oldSize srv x2 y2 w2 h2 cl1 else (False, cl1)) \<and>
     carries_all ?P (corre_pieces ?W ?H x y w1 h1 @ corre_pieces ?W ?H x2 y2 w2 h2) msg"
    if sm: "w1 + h1 < w + h" "w2 + h2 < w + h" "w1 \<le> w" "h1 \<le> h" "w2 \<le> w" "h2 \<le> h" "0 < w1" "0 < h1" "0 < w2" "0 < h2"
    for x y x2 y2 w1 h1 w2 h2
  proof -
    obtain m1 where m1: "sends cl m1 (rfbSendRectEncodingCoRRE oldSize srv x y w1 h1 cl)"
      "carries_all ?P (corre_pieces ?W ?H x y w1 h1) m1"
      using less.hyps [OF sm(1) less.prems(1,2) encodable_mono [OF less.prems(3) sm(7,3,8,4)] less.prems(4-7), of x y] by auto
    show ?thesis
    proof (cases "\<exists>c. rfbSendRectEncodingCoRRE oldSize srv x y w1 h1 cl = (True, c) \<and> settings c = settings cl \<and> ublen c \<le> UPDATE_BUF_SIZE")
      case True
      then obtain c where c: "rfbSendRectEncodingCoRRE oldSize srv x y w1 h1 cl = (True, c)" "settings c = settings cl"
        "ublen c \<le> UPDATE_BUF_SIZE" by auto
      note f = settings_fields(9,10) [OF c(2)]
      have "encodable oldSize srv c w2 h2"
        using encodable_mono [OF less.prems(3) sm(9,5,10,6)] encodable_settings [OF c(2)] by simp
      from less.hyps [OF sm(2) drawable_settings [OF less.prems(1) c(2)] c(3) this, of x2 y2] less.prems(4-7)
      obtain m2 where m2: "sends c m2 (rfbSendRectEncodingCoRRE oldSize srv x2 y2 w2 h2 c)"
        "carries_all ?P (corre_pieces ?W ?H x2 y2 w2 h2) m2"
        by (auto simp: f corre_or_raw_settings [OF c(2)] source_settings(3) [OF c(2)])
      have "sends cl (m1 @ m2) (let (ok, cl1) = rfbSendRectEncodingCoRRE oldSize srv x y w1 h1 cl
         in if ok then rfbSendRectEncodingCoRRE oldSize srv x2 y2 w2 h2 cl1 else (False, cl1))"
        by (rule sends_both [OF m1(1)]) (use c m2 in auto)
      then show ?thesis using carries_all_append [OF m1(2) m2(2)] by blast
    next
      case False
      obtain m2 where m2: "carries_all ?P (corre_pieces ?W ?H x2 y2 w2 h2) m2"
        using less.hyps [OF sm(2) less.prems(1,2) encodable_mono [OF less.prems(3) sm(9,5,10,6)] less.prems(4-7), of x2 y2] by auto
      have "sends cl (m1 @ m2) (let (ok, cl1) = rfbSendRectEncodingCoRRE oldSize srv x y w1 h1 cl
         in if ok then rfbSendRectEncodingCoRRE oldSize srv x2 y2 w2 h2 cl1 else (False, cl1))"
        by (rule sends_both [OF m1(1)]) (use False in auto)
      then show ?thesis using carries_all_append [OF m1(2) m2] by blast
    qed
  qed
  show ?case
  proof (cases "?H < h")
    case True
    then show ?thesis using two [of w ?H w "h - ?H" x y x "y + ?H"] e less.prems(4,6)
      by (simp add: corre_pieces_rows rfbSendRectEncodingCoRRE.simps [of oldSize srv x y w h cl] Let_def)
  next
    case h: False
    show ?thesis
    proof (cases "?W < w")
      case True
      then show ?thesis using two [of ?W h "w - ?W" h x y "x + ?W" y] e h less.prems(4,6)
        by (simp add: corre_pieces_cols rfbSendRectEncodingCoRRE.simps [of oldSize srv x y w h cl] Let_def)
    next
      case False
      then have "w < 256" "h < 256" using h less.prems(5,7) by auto
      from sends_SmallCoRRE [OF less.prems(1-3) this, of x y] False h less.prems(4,6) show ?thesis
        by (simp add: corre_pieces_small rfbSendRectEncodingCoRRE.simps [of oldSize srv x y w h cl] Let_def)
    qed
  qed
qed

section \<open>The properties\<close>

text \<open>
  C12: Whatever rfbSendRectEncodingRRE sends for a rectangle that fits its buffers, a viewer decodes to
  the pixels of the rectangle: the message is either a raw rectangle or an RRE rectangle whose count,
  background and subrectangles, read in the layout of the protocol and painted, give exactly the source
  pixels, and the decoder stops at the end of the message.
\<close>

theorem rre_decodes_to_source:
  assumes "drawable srv cl" "ublen cl \<le> UPDATE_BUF_SIZE" "encodable oldSize srv cl w h"
  shows "\<exists>msg. sends cl msg (rfbSendRectEncodingRRE oldSize srv x y w h cl) \<and>
    (carries (decode_raw (bytesPerPixel cl)) rfbEncodingRaw srv cl x y w h msg \<or>
     carries (decode_rre (rre_get (bytesPerPixel cl)) (bytesPerPixel cl)) rfbEncodingRRE srv cl x y w h msg)"
  using sends_RRE [OF assms] by (simp add: rre_or_raw_def)

lemma demo_encodable: "encodable 0 demo_server demo_client 4 3"
  by (simp add: encodable_def demo_server_def demo_client_def bytesPerPixel_def demo_format_def)

theorem rre_decodes_to_source_witness:
  "\<exists>msg. sends demo_client msg (rfbSendRectEncodingRRE 0 demo_server 0 0 4 3 demo_client) \<and>
    (carries (decode_raw (bytesPerPixel demo_client)) rfbEncodingRaw demo_server demo_client 0 0 4 3 msg \<or>
     carries (decode_rre (rre_get (bytesPerPixel demo_client)) (bytesPerPixel demo_client)) rfbEncodingRRE
       demo_server demo_client 0 0 4 3 msg)"
  by (rule rre_decodes_to_source [OF demo_drawable demo_ublen demo_encodable])

text \<open>
  C11: rfbSendRectEncodingCoRRE cuts a rectangle into the product of two rounded up quotients of pieces
  (the number that rfbSendFramebufferUpdate announces), every pixel of the rectangle is in exactly one
  piece and no other pixel is in any, and the message is the sequence of the messages of the pieces,
  each of which a viewer decodes to its source pixels.
\<close>

theorem corre_pieces_decode:
  assumes "drawable srv cl" "ublen cl \<le> UPDATE_BUF_SIZE" "encodable oldSize srv cl w h"
    and "0 < correMaxWidth cl" "correMaxWidth cl < 256" "0 < correMaxHeight cl" "correMaxHeight cl < 256"
  shows "\<exists>ps msg. length ps = ((w - 1) div correMaxWidth cl + 1) * ((h - 1) div correMaxHeight cl + 1) \<and>
    (\<forall>px py. length (filter (in_rect px py) ps) = of_bool (in_rect px py (x, y, w, h))) \<and>
    sends cl msg (rfbSendRectEncodingCoRRE oldSize srv x y w h cl) \<and>
    carries_all (\<lambda>(x, y, w, h). corre_or_raw (bytesPerPixel cl) srv cl x y w h) ps msg"
proof -
  have "0 < w" "0 < h" using assms(3) by (simp_all add: encodable_def)
  then show ?thesis
    using sends_CoRRE [OF assms, of x y] corre_pieces_count [OF assms(4,6), of w h x y]
      corre_pieces_partition [OF assms(4,6), of _ _ x y w h] by blast
qed

theorem corre_pieces_decode_witness:
  "\<exists>ps msg. length ps = 1 \<and>
    sends demo_client msg (rfbSendRectEncodingCoRRE 0 demo_server 0 0 4 3 demo_client) \<and>
    carries_all (\<lambda>(x, y, w, h). corre_or_raw (bytesPerPixel demo_client) demo_server demo_client x y w h) ps msg"
  using corre_pieces_decode [OF demo_drawable demo_ublen demo_encodable, of 0 0]
  by (auto simp: demo_client_def)

end
