(* ===== verification/Hextile.thy ===== *)
theory Hextile
  imports Rre
begin

text \<open>
  The hextile encoding, \<^verbatim>\<open>OSXvnc-server/hextile.c\<close>: tiles of 16 by 16 pixels, each solid, in two
  colours, in several colours, or raw. The background and the foreground of a tile are sent only when
  they differ from those the peer knows already.
\<close>

section \<open>The encoder\<close>

definition rfbHextileRaw :: u8 where "rfbHextileRaw = 1"
definition rfbHextileBackgroundSpecified :: u8 where "rfbHextileBackgroundSpecified = 2"
definition rfbHextileForegroundSpecified :: u8 where "rfbHextileForegroundSpecified = 4"
definition rfbHextileAnySubrects :: u8 where "rfbHextileAnySubrects = 8"
definition rfbHextileSubrectsColoured :: u8 where "rfbHextileSubrectsColoured = 16"

definition rfbHextilePackXY :: "nat \<Rightarrow> nat \<Rightarrow> u8" where
  "rfbHextilePackXY x y = push_bit 4 (of_nat x) OR of_nat y"

definition rfbHextilePackWH :: "nat \<Rightarrow> nat \<Rightarrow> u8" where
  "rfbHextilePackWH w h = push_bit 4 (of_nat (w - 1)) OR of_nat (h - 1)"

text \<open>
  The loop of testColours: \<open>c1\<close>, \<open>c2\<close> are the first two colours and \<open>n1\<close>, \<open>n2\<close> their numbers; the loop
  ends at a third colour. The result is \<open>(n1, n2, c1, c2, mono1, solid1)\<close>.
\<close>

fun colours_loop :: "'p list \<Rightarrow> nat \<Rightarrow> nat \<Rightarrow> 'p \<Rightarrow> 'p \<Rightarrow> bool \<Rightarrow> nat \<times> nat \<times> 'p \<times> 'p \<times> bool \<times> bool" where
  "colours_loop [] n1 n2 c1 c2 solid1 = (n1, n2, c1, c2, True, solid1)"
| "colours_loop (d # data) n1 n2 c1 c2 solid1 =
    (let c1 = (if n1 = 0 then d else c1)
     in if d = c1 then colours_loop data (n1 + 1) n2 c1 c2 solid1
        else
          let (solid1, c2) = (if n2 = 0 then (False, d) else (solid1, c2))
          in if d = c2 then colours_loop data n1 (n2 + 1) c1 c2 solid1
             else (n1, n2, c1, c2, False, solid1))"

definition testColours :: "nat \<Rightarrow> u8 list list \<Rightarrow> bool \<times> bool \<times> u8 list \<times> u8 list" where
  "testColours n data =
    (let (n1, n2, colour1, colour2, mono1, solid1) = colours_loop data 0 0 (replicate n 0) (replicate n 0) True
     in if n1 > n2 then (mono1, solid1, colour1, colour2) else (mono1, solid1, colour2, colour1))"

definition hextile_emit :: "bool \<Rightarrow> u8 list emitter" where
  "hextile_emit mono1 c thex they thew theh =
    (if mono1 then [] else c) @ [rfbHextilePackXY thex they, rfbHextilePackWH thew theh]"

text \<open>The number of rectangles is stored in the byte reserved before them.\<close>

definition hextile_subrectEncode :: "nat \<Rightarrow> u8 list list \<Rightarrow> nat \<Rightarrow> nat \<Rightarrow> u8 list \<Rightarrow> bool \<Rightarrow> u8 list option" where
  "hextile_subrectEncode n data w h bg mono1 =
    map_option (\<lambda>(out, numsubs). of_nat numsubs # tl out)
      (subrect_loop (hextile_emit mono1) (\<lambda>newLen. \<not> newLen > w * h * n) bg w h data [0])"

text \<open>
  One tile: \<open>(validBg, bg, validFg, fg)\<close> is what the encoder knows of the peer, \<open>clientPixelData\<close> the
  translated pixels. The result is the bytes of the tile and the new state.
\<close>

type_synonym tile_state = "bool \<times> u8 list \<times> bool \<times> u8 list"

definition hextile_tile :: "nat \<Rightarrow> u8 list \<Rightarrow> nat \<Rightarrow> nat \<Rightarrow> tile_state \<Rightarrow> u8 list \<times> tile_state" where
  "hextile_tile n clientPixelData w h = (\<lambda>(validBg, bg, validFg, fg).
    let data = split_pixels n clientPixelData;
        (mono1, solid1, newBg, newFg) = testColours n data;
        (flags, body, bg) =
          (if \<not> validBg \<or> newBg \<noteq> bg then (rfbHextileBackgroundSpecified, newBg, newBg) else (0, [], bg))
    in if solid1 then (flags # body, (True, bg, validFg, fg))
       else
         let flags = flags OR rfbHextileAnySubrects;
             (flags, body, validFg, fg) =
               (if mono1 then
                  if \<not> validFg \<or> newFg \<noteq> fg
                  then (flags OR rfbHextileForegroundSpecified, body @ newFg, True, newFg)
                  else (flags, body, validFg, fg)
                else (flags OR rfbHextileSubrectsColoured, body, False, fg))
         in case hextile_subrectEncode n data w h bg mono1 of
              None \<Rightarrow> (rfbHextileRaw # clientPixelData, (False, bg, False, fg))
            | Some subrects \<Rightarrow> (flags # body @ subrects, (True, bg, validFg, fg)))"

text \<open>The loops over the tiles, row by row.\<close>

definition tiles :: "nat \<Rightarrow> nat \<Rightarrow> nat \<Rightarrow> nat \<Rightarrow> rect list" where
  "tiles rx ry rw rh =
    concat (map (\<lambda>j. map (\<lambda>i. (rx + 16 * i, ry + 16 * j, min 16 (rw - 16 * i), min 16 (rh - 16 * j)))
      [0..<(rw + 15) div 16]) [0..<(rh + 15) div 16])"

fun send_tiles :: "server \<Rightarrow> rect list \<Rightarrow> tile_state \<Rightarrow> rfbClientRec \<Rightarrow> bool \<times> rfbClientRec" where
  "send_tiles srv [] st cl = (True, cl)"
| "send_tiles srv ((x, y, w, h) # ts) st cl =
    (case make_room (1 + (2 + 16 * 16) * bytesPerPixel cl) cl of
       (False, cl) \<Rightarrow> (False, cl)
     | (True, cl) \<Rightarrow>
        let clientPixelData = pixels_at srv cl (fbptr srv cl x y) w h;
            (bytes, st) = hextile_tile (bytesPerPixel cl) clientPixelData w h st;
            cl = put_buf bytes cl;
            cl = cl\<lparr>rfbBytesSent := (rfbBytesSent cl)
                   (rfbEncodingHextile := rfbBytesSent cl rfbEncodingHextile + length bytes)\<rparr>
        in send_tiles srv ts st cl)"

definition sendHextiles :: "server \<Rightarrow> nat \<Rightarrow> nat \<Rightarrow> nat \<Rightarrow> nat \<Rightarrow> rfbClientRec \<Rightarrow> bool \<times> rfbClientRec" where
  "sendHextiles srv rx ry rw rh cl =
    send_tiles srv (tiles rx ry rw rh)
      (False, replicate (bytesPerPixel cl) 0, False, replicate (bytesPerPixel cl) 0) cl"

definition rfbSendRectEncodingHextile :: "server \<Rightarrow> nat \<Rightarrow> nat \<Rightarrow> nat \<Rightarrow> nat \<Rightarrow> rfbClientRec \<Rightarrow> bool \<times> rfbClientRec" where
  "rfbSendRectEncodingHextile srv x y w h cl =
    (case make_room sz_rfbFramebufferUpdateRectHeader cl of
       (False, cl) \<Rightarrow> (False, cl)
     | (True, cl) \<Rightarrow>
        let cl = put_buf (rect_header (int x) (int y) (int w) (int h) rfbEncodingHextile) cl;
            cl = count_rect rfbEncodingHextile sz_rfbFramebufferUpdateRectHeader cl
        in if valid_bpp (bitsPerPixel (format cl)) then sendHextiles srv x y w h cl else (False, cl))"

section \<open>The decoder of the peer\<close>

definition hextile_get :: "bool \<Rightarrow> nat \<Rightarrow> u8 list \<Rightarrow> u8 list \<Rightarrow> u8 list subrect \<times> u8 list" where
  "hextile_get coloured n fg bs =
    (let c = (if coloured then take n bs else fg); bs = (if coloured then drop n bs else bs);
         xy = bs ! 0; wh = bs ! 1
     in ((c, unat (drop_bit 4 xy), unat (xy AND 15), unat (drop_bit 4 wh) + 1, unat (wh AND 15) + 1), drop 2 bs))"

definition decode_tile :: "nat \<Rightarrow> nat \<Rightarrow> nat \<Rightarrow> u8 list \<times> u8 list \<Rightarrow> u8 list
    \<Rightarrow> u8 list list \<times> (u8 list \<times> u8 list) \<times> u8 list" where
  "decode_tile n w h = (\<lambda>(bg, fg) bs.
    let flags = bs ! 0; bs = drop 1 bs
    in if flags AND rfbHextileRaw \<noteq> 0
       then (split_pixels n (take (w * n * h) bs), (bg, fg), drop (w * n * h) bs)
       else
         let (bg, bs) = (if flags AND rfbHextileBackgroundSpecified \<noteq> 0 then (take n bs, drop n bs) else (bg, bs));
             (fg, bs) = (if flags AND rfbHextileForegroundSpecified \<noteq> 0 then (take n bs, drop n bs) else (fg, bs))
         in if flags AND rfbHextileAnySubrects \<noteq> 0
            then let (rs, bs) = read_subrects
                       (hextile_get (flags AND rfbHextileSubrectsColoured \<noteq> 0) n fg) (unat (bs ! 0)) (drop 1 bs)
                 in (paint w rs (replicate (w * h) bg), (bg, fg), bs)
            else (replicate (w * h) bg, (bg, fg), bs))"

lemma pack_bits:
  assumes "a < 16" "b < 16"
  shows "unat (drop_bit 4 (push_bit 4 (of_nat a) OR of_nat b :: u8)) = a"
    "unat ((push_bit 4 (of_nat a) OR of_nat b :: u8) AND 15) = b"
proof -
  have "\<forall>a\<in>set [0..<16]. \<forall>b\<in>set [0..<16]. unat (drop_bit 4 (push_bit 4 (of_nat a) OR of_nat b :: u8)) = a
      \<and> unat ((push_bit 4 (of_nat a) OR of_nat b :: u8) AND 15) = b"
    by code_simp
  then show "unat (drop_bit 4 (push_bit 4 (of_nat a) OR of_nat b :: u8)) = a"
    "unat ((push_bit 4 (of_nat a) OR of_nat b :: u8) AND 15) = b"
    using assms by auto
qed

lemma unpack_XY: "x < 16 \<Longrightarrow> y < 16 \<Longrightarrow> unat (drop_bit 4 (rfbHextilePackXY x y)) = x"
    "x < 16 \<Longrightarrow> y < 16 \<Longrightarrow> unat (rfbHextilePackXY x y AND 15) = y"
  unfolding rfbHextilePackXY_def by (rule pack_bits; assumption)+

lemma unpack_WH:
  assumes "0 < w" "w \<le> 16" "0 < h" "h \<le> 16"
  shows "unat (drop_bit 4 (rfbHextilePackWH w h)) + 1 = w" "unat (rfbHextilePackWH w h AND 15) + 1 = h"
  unfolding rfbHextilePackWH_def using pack_bits [of "w - 1" "h - 1"] assms by linarith+

definition tile_subrect :: "nat \<Rightarrow> u8 list \<Rightarrow> nat \<Rightarrow> nat \<Rightarrow> nat \<Rightarrow> nat \<Rightarrow> bool" where
  "tile_subrect n c x y tw th \<longleftrightarrow> length c = n \<and> x < 16 \<and> y < 16 \<and> 0 < tw \<and> tw \<le> 16 \<and> 0 < th \<and> th \<le> 16"

interpretation hex_coloured: subrect_codec "hextile_emit False" "hextile_get True n fg" "tile_subrect n" "n + 2"
proof
  fix c :: "u8 list" and x y tw th :: nat and bs :: "u8 list"
  assume f: "tile_subrect n c x y tw th"
  show "hextile_get True n fg (hextile_emit False c x y tw th @ bs) = ((c, x, y, tw, th), bs)"
    using f unpack_XY [of x y] unpack_WH [of tw th]
    by (simp add: hextile_get_def hextile_emit_def tile_subrect_def)
  show "length (hextile_emit False c x y tw th) = n + 2"
    using f by (simp add: hextile_emit_def tile_subrect_def)
qed

interpretation hex_mono: subrect_codec "hextile_emit True" "hextile_get False n fg"
    "\<lambda>c x y tw th. tile_subrect n c x y tw th \<and> c = fg" 2
proof
  fix c :: "u8 list" and x y tw th :: nat and bs :: "u8 list"
  assume f: "tile_subrect n c x y tw th \<and> c = fg"
  show "hextile_get False n fg (hextile_emit True c x y tw th @ bs) = ((c, x, y, tw, th), bs)"
    using f unpack_XY [of x y] unpack_WH [of tw th]
    by (simp add: hextile_get_def hextile_emit_def tile_subrect_def)
  show "length (hextile_emit True c x y tw th) = 2"
    by (simp add: hextile_emit_def)
qed

section \<open>The colours of a tile\<close>

text \<open>What testColours knows after the pixels \<open>pre\<close>.\<close>

definition colours_inv :: "'p list \<Rightarrow> nat \<Rightarrow> nat \<Rightarrow> 'p \<Rightarrow> 'p \<Rightarrow> bool \<Rightarrow> bool" where
  "colours_inv pre n1 n2 c1 c2 s \<longleftrightarrow>
     n1 = count_list pre c1 \<and> (n1 = 0 \<longrightarrow> pre = []) \<and> (n2 = 0) = s \<and> (s \<longrightarrow> set pre \<subseteq> {c1}) \<and>
     (\<not> s \<longrightarrow> n2 = count_list pre c2 \<and> set pre \<subseteq> {c1, c2} \<and> c2 \<noteq> c1)"

lemma colours_loop_inv:
  assumes "colours_inv pre n1 n2 c1 c2 s" "colours_loop data n1 n2 c1 c2 s = (m1, m2, d1, d2, mono1, s')"
  shows "(if mono1 then colours_inv (pre @ data) m1 m2 d1 d2 s'
    else \<not> s' \<and> d1 \<in> set (pre @ data) \<and> d2 \<in> set (pre @ data))"
  using assms
proof (induction data arbitrary: pre n1 n2 c1 c2 s)
  case (Cons d data)
  let ?c1 = "if n1 = 0 then d else c1"
  note j1 = Cons.prems(1) [unfolded colours_inv_def]
  note j2 = conjunct2 [OF j1] note j3 = conjunct2 [OF j2] note j4 = conjunct2 [OF j3]
  note i = conjunct1 [OF j1] conjunct1 [OF j2] conjunct1 [OF j3] conjunct1 [OF j4] conjunct2 [OF j4]
  show ?case
  proof (cases "d = ?c1")
    case True
    have inv: "colours_inv (pre @ [d]) (n1 + 1) n2 ?c1 c2 s"
    proof (cases "n1 = 0")
      case z: True
      then have p: "pre = []" using i(2) by blast
      have "s"
      proof (rule ccontr)
        assume "\<not> s"
        with i(5) p have "n2 = 0" by simp
        with i(3) \<open>\<not> s\<close> show False by simp
      qed
      with p show ?thesis using z i(3) by (simp add: colours_inv_def)
    next
      case False
      then have d: "d = c1" "?c1 = c1" using True by simp_all
      have "n1 + 1 = count_list (pre @ [d]) c1" using i(1) d by simp
      moreover have "s \<longrightarrow> set (pre @ [d]) \<subseteq> {c1}" using i(4) d by simp
      moreover have "\<not> s \<longrightarrow> n2 = count_list (pre @ [d]) c2 \<and> set (pre @ [d]) \<subseteq> {c1, c2} \<and> c2 \<noteq> c1"
        using i(5) d(1) by (cases s) auto
      ultimately show ?thesis unfolding d(2) using i(3) by (auto simp only: colours_inv_def)
    qed
    have "colours_loop data (n1 + 1) n2 ?c1 c2 s = (m1, m2, d1, d2, mono1, s')"
      using Cons.prems(2) True by (simp only: colours_loop.simps Let_def if_True simp_thms)
    from Cons.IH [OF inv this] show ?thesis by (simp only: append_assoc append_Cons append_Nil)
  next
    case c1: False
    then have n1: "n1 \<noteq> 0" "?c1 = c1" "d \<noteq> c1" by (auto split: if_splits)
    let ?s = "if n2 = 0 then False else s" and ?c2 = "if n2 = 0 then d else c2"
    show ?thesis
    proof (cases "d = ?c2")
      case True
      have inv: "colours_inv (pre @ [d]) n1 (n2 + 1) c1 ?c2 ?s"
      proof (cases "n2 = 0")
        case z: True
        then have p: "set pre \<subseteq> {c1}" using i(3,4) by blast
        have "count_list pre d = 0" using p n1(3) by (auto simp: count_list_0_iff)
        then have "1 = count_list (pre @ [d]) d" "set (pre @ [d]) \<subseteq> {c1, d}" "n1 = count_list (pre @ [d]) c1"
          using p i(1) n1(3) by auto
        then show ?thesis using z n1(1,3) by (simp only: colours_inv_def) simp
      next
        case False
        then have d: "d = c2" "?c2 = c2" "\<not> s" "?s = s" using True i(3) by simp_all
        have "n2 + 1 = count_list (pre @ [d]) c2" "set (pre @ [d]) \<subseteq> {c1, c2}" "c2 \<noteq> c1"
          "n1 = count_list (pre @ [d]) c1"
          using i(1,5) d n1(3) by simp_all
        then show ?thesis unfolding d(2,4) using n1(1) d(3) by (auto simp only: colours_inv_def)
      qed
      have "colours_loop data n1 (n2 + 1) c1 ?c2 ?s = (m1, m2, d1, d2, mono1, s')"
        using Cons.prems(2) True n1 by (cases "n2 = 0") (simp_all add: Let_def)
      from Cons.IH [OF inv this] show ?thesis by (simp only: append_assoc append_Cons append_Nil)
    next
      case False
      then have z: "n2 \<noteq> 0" "d \<noteq> c2" by (auto split: if_splits)
      then have r: "m1 = n1" "m2 = n2" "d1 = c1" "d2 = c2" "\<not> mono1" "\<not> s'"
        using Cons.prems(2) n1 i(3) by (simp_all add: Let_def)
      have "c1 \<in> set pre" using i(1) n1(1) by (metis count_list_0_iff)
      moreover have "c2 \<in> set pre" using i(3,5) z by (metis count_list_0_iff)
      ultimately show ?thesis using r by simp
    qed
  qed
qed simp

lemma count_two: "set xs \<subseteq> {a, b} \<Longrightarrow> a \<noteq> b \<Longrightarrow> count_list xs a + count_list xs b = length xs"
  by (induction xs) auto

lemma testColours_correct:
  assumes "testColours n data = (mono1, solid1, bg, fg)" "data \<noteq> []"
  shows "bg \<in> set data" "solid1 \<Longrightarrow> mono1" "solid1 \<Longrightarrow> set data = {bg}"
    "mono1 \<Longrightarrow> \<not> solid1 \<Longrightarrow> fg \<in> set data \<and> set data \<subseteq> {bg, fg}"
    "mono1 \<Longrightarrow> \<not> solid1 \<Longrightarrow> 2 * card {k. k < length data \<and> data ! k \<noteq> bg} \<le> length data"
proof -
  obtain n1 n2 c1 c2 m s where c: "colours_loop data 0 0 (replicate n 0) (replicate n 0) True = (n1, n2, c1, c2, m, s)"
    by (metis prod_cases6)
  have r: "m = mono1" "s = solid1" "(bg, fg) = (if n1 > n2 then (c1, c2) else (c2, c1))"
    using assms(1) by (auto simp: testColours_def c split: if_splits)
  have "colours_inv [] 0 0 (replicate n (0::u8)) (replicate n 0) True" by (simp add: colours_inv_def)
  from colours_loop_inv [OF this c] have i: "if mono1 then colours_inv data n1 n2 c1 c2 solid1
      else \<not> solid1 \<and> c1 \<in> set data \<and> c2 \<in> set data" by (simp only: r append_Nil)
  show m: "solid1 \<Longrightarrow> mono1" using i by (auto split: if_splits)
  have one: "set data = {c1} \<and> n1 > n2" if "solid1"
    using i m that assms(2) by (auto simp: colours_inv_def subset_singleton_iff)
  have two: "c1 \<in> set data" "c2 \<in> set data" "set data \<subseteq> {c1, c2}" "n1 = count_list data c1" "n2 = count_list data c2"
    "c1 \<noteq> c2" if "mono1" "\<not> solid1"
  proof -
    from i that have j: "n1 = count_list data c1" "n1 \<noteq> 0" "n2 \<noteq> 0" "n2 = count_list data c2"
      "set data \<subseteq> {c1, c2}" "c1 \<noteq> c2"
      using assms(2) by (auto simp: colours_inv_def)
    then show "c1 \<in> set data" "c2 \<in> set data" by (metis count_list_0_iff)+
    show "set data \<subseteq> {c1, c2}" "n1 = count_list data c1" "n2 = count_list data c2" "c1 \<noteq> c2" using j by auto
  qed
  show "bg \<in> set data" using one two i r(3) by (cases mono1; cases solid1) (auto split: if_splits)
  show "solid1 \<Longrightarrow> set data = {bg}" using one r(3) by auto
  show "fg \<in> set data \<and> set data \<subseteq> {bg, fg}" if "mono1" "\<not> solid1"
    using two that r(3) by (auto split: if_splits)
  show "2 * card {k. k < length data \<and> data ! k \<noteq> bg} \<le> length data" if "mono1" "\<not> solid1"
  proof -
    have "{k. k < length data \<and> data ! k \<noteq> bg} \<union> {k. k < length data \<and> data ! k = bg} = {..<length data}" by auto
    then have "card {k. k < length data \<and> data ! k \<noteq> bg} + card {k. k < length data \<and> data ! k = bg} = length data"
      by (subst card_Un_disjoint [symmetric]) auto
    moreover have cnt: "card {k. k < length data \<and> data ! k = c} = count_list data c" for c
      by (simp add: count_list_eq_length_filter length_filter_conv_card eq_commute)
    moreover have "count_list data c1 + count_list data c2 = length data"
      using two(3,6) that by (intro count_two) auto
    ultimately show ?thesis using two that r(3) by (auto split: if_splits)
  qed
qed

section \<open>One tile is decoded to its pixels\<close>

text \<open>The number of rectangles always fits its byte.\<close>

lemma hextile_subrects:
  assumes e: "hextile_subrectEncode n D w h bg mono1 = Some sub"
    and D: "length D = w * h" "\<And>p. p \<in> set D \<Longrightarrow> length p = n" "0 < w" "w \<le> 16" "0 < h" "h \<le> 16" "0 < n"
    and m: "mono1 \<Longrightarrow> set D \<subseteq> {bg, fg} \<and> 2 * card {k. k < w * h \<and> D ! k \<noteq> bg} \<le> w * h"
  obtains k body where "sub = of_nat k # body" "k < 256" "length sub \<le> w * h * n"
    "\<forall>bs. \<exists>rs. read_subrects (hextile_get (\<not> mono1) n fg) k (body @ bs) = (rs, bs) \<and>
      paint w rs (replicate (w * h) bg) = D"
proof -
  obtain out k where o: "subrect_loop (hextile_emit mono1) (\<lambda>newLen. \<not> newLen > w * h * n) bg w h D [0] = Some (out, k)"
    "sub = of_nat k # tl out"
    using e by (auto simp: hextile_subrectEncode_def)
  have wh: "w * h \<le> 16 * 16" using D(4,6) by (intro mult_mono) auto
  have f: "tile_subrect n c x y tw th"
    if "c \<in> set D" "c \<noteq> bg" "0 < tw" "0 < th" "x + tw \<le> w" "y + th \<le> h" for c x y tw th
    using that D(2,4,6) by (auto simp: tile_subrect_def)
  have "0 < w * h * n" using D by simp
  then have one: "1 \<le> w * h * n" by simp
  have "\<exists>body. out = [0] @ body \<and> k < 256 \<and> length out \<le> w * h * n \<and>
      (\<forall>bs. \<exists>rs. read_subrects (hextile_get (\<not> mono1) n fg) k (body @ bs) = (rs, bs) \<and>
        paint w rs (replicate (w * h) bg) = D)"
  proof (cases mono1)
    case True
    have f': "tile_subrect n c x y tw th \<and> c = fg"
      if "c \<in> set D" "c \<noteq> bg" "0 < tw" "0 < th" "x + tw \<le> w" "y + th \<le> h" for c x y tw th
      using f [OF that] m [OF True] that(1,2) by auto
    have o1: "subrect_loop (hextile_emit True) (\<lambda>newLen. \<not> newLen > w * h * n) bg w h D [0] = Some (out, k)"
      using o(1) True by simp
    obtain body where b: "out = [0] @ body" "length body = 2 * k"
      "\<forall>bs. \<exists>rs. read_subrects (hextile_get False n fg) k (body @ bs) = (rs, bs) \<and> paint w rs (replicate (w * h) bg) = D"
      "k = 0 \<or> \<not> length out > w * h * n" "k \<le> card {k. k < w * h \<and> D ! k \<noteq> bg}"
      by (rule hex_mono.decode_encode [OF o1 D(1) f'])
    have "k < 256" using m [OF True] b(5) wh by linarith
    moreover have "length out \<le> w * h * n" using b(1,2,4) one by auto
    ultimately show ?thesis using b(1,3) True by auto
  next
    case False
    have o1: "subrect_loop (hextile_emit False) (\<lambda>newLen. \<not> newLen > w * h * n) bg w h D [0] = Some (out, k)"
      using o(1) False by simp
    obtain body where b: "out = [0] @ body" "length body = (n + 2) * k"
      "\<forall>bs. \<exists>rs. read_subrects (hextile_get True n fg) k (body @ bs) = (rs, bs) \<and> paint w rs (replicate (w * h) bg) = D"
      "k = 0 \<or> \<not> length out > w * h * n" "k \<le> card {k. k < w * h \<and> D ! k \<noteq> bg}"
      by (rule hex_coloured.decode_encode [OF o1 D(1) f])
    have len: "length out \<le> w * h * n" using b(1,2,4) one by auto
    have "k < 256"
    proof (rule ccontr)
      assume "\<not> k < 256"
      then have "(n + 2) * 256 \<le> (n + 2) * k" by (intro mult_left_mono) auto
      also have "\<dots> < w * h * n" using len b(1,2) by simp
      also have "\<dots> \<le> 256 * n" using wh by (intro mult_right_mono) auto
      finally show False by simp
    qed
    then show ?thesis using b(1,3) len False by auto
  qed
  then obtain body where b: "out = [0] @ body" "k < 256" "length out \<le> w * h * n"
    "\<forall>bs. \<exists>rs. read_subrects (hextile_get (\<not> mono1) n fg) k (body @ bs) = (rs, bs) \<and> paint w rs (replicate (w * h) bg) = D"
    by blast
  from that [OF _ b(2) _ b(4)] o(2) b(1,3) show ?thesis by simp
qed

text \<open>What the encoder believes of the peer is true.\<close>

definition in_step :: "tile_state \<Rightarrow> u8 list \<times> u8 list \<Rightarrow> bool" where
  "in_step st d \<longleftrightarrow> (case (st, d) of ((validBg, bg, validFg, fg), (dbg, dfg)) \<Rightarrow>
     (validBg \<longrightarrow> dbg = bg) \<and> (validFg \<longrightarrow> dfg = fg))"

lemmas hextile_flags = rfbHextileRaw_def rfbHextileBackgroundSpecified_def rfbHextileForegroundSpecified_def
  rfbHextileAnySubrects_def rfbHextileSubrectsColoured_def

lemma hextile_tile_decodes:
  assumes D: "length D = w * h" "\<And>p. p \<in> set D \<Longrightarrow> length p = n" "0 < w" "w \<le> 16" "0 < h" "h \<le> 16" "0 < n"
    and st: "in_step st d" and t: "hextile_tile n (concat D) w h st = (bytes, st')"
  shows "\<exists>d'. in_step st' d' \<and> (\<forall>bs. decode_tile n w h d (bytes @ bs) = (D, d', bs)) \<and>
    length bytes \<le> 1 + (2 + 16 * 16) * n"
proof -
  obtain vb bg vf fg where st_eq: "st = (vb, bg, vf, fg)" by (metis prod_cases4)
  obtain dbg dfg where d_eq: "d = (dbg, dfg)" by fastforce
  have sync: "vb \<Longrightarrow> dbg = bg" "vf \<Longrightarrow> dfg = fg" using st by (simp_all add: in_step_def st_eq d_eq)
  obtain mono1 solid1 newBg newFg where c: "testColours n D = (mono1, solid1, newBg, newFg)" by (metis prod_cases4)
  have ne: "D \<noteq> []" using D(1,3,5) by auto
  note tc = testColours_correct [OF c ne]
  have split: "split_pixels n (concat D) = D" by (rule split_pixels_concat [OF D(2,7)])
  have lenD: "length (concat D) = w * h * n"
    using length_concat_map_const [of D "\<lambda>p. p" n] D(1,2) by (simp add: mult.commute)
  have lenD': "length (concat D) = w * n * h" using lenD by (simp add: mult.assoc mult.commute [of n h])
  have wh: "w * h \<le> 16 * 16" using D(4,6) by (intro mult_mono) auto
  have whn: "w * h * n \<le> 256 * n" using wh by (intro mult_right_mono) auto
  have lbg: "length newBg = n" using tc(1) D(2) by simp
  let ?bgspec = "\<not> vb \<or> newBg \<noteq> bg"
  let ?fl = "if ?bgspec then rfbHextileBackgroundSpecified else 0" and ?bb = "if ?bgspec then newBg else []"
  have bg': "(if ?bgspec then newBg else bg) = newBg" by simp
  have dbg': "(if ?bgspec then newBg else dbg) = newBg" using sync(1) by auto
  show ?thesis
  proof (cases solid1)
    case True
    have "hextile_tile n (concat D) w h st = (?fl # ?bb, (True, newBg, vf, fg))"
      using True by (auto simp: hextile_tile_def st_eq split c Let_def)
    then have r: "bytes = ?fl # ?bb" "st' = (True, newBg, vf, fg)" using t by auto
    have "D = replicate (w * h) newBg"
      using tc(3) [OF True] D(1) by (intro replicate_eqI) auto
    then have "\<forall>bs. decode_tile n w h d (bytes @ bs) = (D, (newBg, dfg), bs)"
      using sync(1) lbg by (simp add: r(1) decode_tile_def d_eq hextile_flags)
    moreover have "in_step st' (newBg, dfg)" using sync(2) by (simp add: r in_step_def)
    ultimately show ?thesis using lbg D(7) by (intro exI [of _ "(newBg, dfg)"]) (auto simp: r(1))
  next
    case False
    show ?thesis
    proof (cases "hextile_subrectEncode n D w h newBg mono1")
      case None
      have "hextile_tile n (concat D) w h st = (rfbHextileRaw # concat D, (False, newBg, False, snd (snd (snd st'))))"
        using False None t by (auto simp: hextile_tile_def st_eq split c Let_def split: if_splits)
      then have r: "bytes = rfbHextileRaw # concat D" "in_step st' d"
        using t by (auto simp: in_step_def d_eq split: prod.splits)
      have "\<forall>bs. decode_tile n w h d (bytes @ bs) = (D, d, bs)"
        using lenD' by (simp add: r(1) decode_tile_def d_eq hextile_flags split)
      moreover have "length bytes \<le> 1 + (2 + 16 * 16) * n"
      proof -
        have "length bytes = 1 + w * h * n" using r(1) lenD by simp
        also have "\<dots> \<le> 1 + 256 * n" using whn by (rule add_left_mono)
        finally show ?thesis by simp
      qed
      ultimately show ?thesis using r(2) by blast
    next
      case (Some sub)
      have m: "mono1 \<Longrightarrow> set D \<subseteq> {newBg, newFg} \<and> 2 * card {k. k < w * h \<and> D ! k \<noteq> newBg} \<le> w * h"
        using tc(4,5) False D(1) by auto
      obtain k body where b: "sub = of_nat k # body" "k < 256" "length sub \<le> w * h * n"
        "\<forall>bs. \<exists>rs. read_subrects (hextile_get (\<not> mono1) n newFg) k (body @ bs) = (rs, bs) \<and>
          paint w rs (replicate (w * h) newBg) = D"
        by (rule hextile_subrects [OF Some D m])
      have ls: "length sub \<le> 256 * n" using b(3) whn by (rule order_trans)
      show ?thesis
      proof (cases mono1)
        case True
        let ?fgspec = "\<not> vf \<or> newFg \<noteq> fg"
        let ?fl2 = "if ?fgspec then (?fl OR rfbHextileAnySubrects) OR rfbHextileForegroundSpecified else ?fl OR rfbHextileAnySubrects"
        let ?fb = "if ?fgspec then newFg else []"
        have "hextile_tile n (concat D) w h st = (?fl2 # ?bb @ ?fb @ sub, (True, newBg, True, newFg))"
          using False True Some by (auto simp: hextile_tile_def st_eq split c Let_def)
        then have r: "bytes = ?fl2 # ?bb @ ?fb @ sub" "st' = (True, newBg, True, newFg)" using t by auto
        have lfg: "length newFg = n" using tc(4) [OF True False] D(2) by simp
        have "decode_tile n w h d (bytes @ bs) = (D, (newBg, newFg), bs)" for bs
        proof -
          obtain rs where "read_subrects (hextile_get False n newFg) k (body @ bs) = (rs, bs)"
            "paint w rs (replicate (w * h) newBg) = D" using b(4) True by auto
          then show ?thesis
            using sync lbg lfg b(2)
            by (cases ?bgspec; cases ?fgspec) (auto simp: r(1) b(1) decode_tile_def d_eq hextile_flags unat_of_nat)
        qed
        moreover have "length bytes \<le> 1 + (2 + 16 * 16) * n" using ls lbg lfg by (simp add: r(1))
        ultimately show ?thesis by (intro exI [of _ "(newBg, newFg)"]) (simp add: r(2) in_step_def)
      next
        case col: False
        let ?fl2 = "(?fl OR rfbHextileAnySubrects) OR rfbHextileSubrectsColoured"
        have "hextile_tile n (concat D) w h st = (?fl2 # ?bb @ sub, (True, newBg, False, fg))"
          using False col Some by (auto simp: hextile_tile_def st_eq split c Let_def)
        then have r: "bytes = ?fl2 # ?bb @ sub" "st' = (True, newBg, False, fg)" using t by auto
        have g: "hextile_get True n f1 = hextile_get True n f2" for f1 f2
          by (intro ext) (simp add: hextile_get_def)
        have "decode_tile n w h d (bytes @ bs) = (D, (newBg, dfg), bs)" for bs
        proof -
          obtain rs where "read_subrects (hextile_get True n newFg) k (body @ bs) = (rs, bs)"
            "paint w rs (replicate (w * h) newBg) = D" using b(4) col by auto
          then show ?thesis
            using sync lbg b(2) g [of dfg newFg]
            by (cases ?bgspec) (auto simp: r(1) b(1) decode_tile_def d_eq hextile_flags unat_of_nat)
        qed
        moreover have "length bytes \<le> 1 + (2 + 16 * 16) * n" using ls lbg by (simp add: r(1))
        ultimately show ?thesis by (intro exI [of _ "(newBg, dfg)"]) (simp add: r(2) in_step_def)
      qed
    qed
  qed
qed

section \<open>The tiles of a rectangle\<close>

fun decode_tiles :: "nat \<Rightarrow> rect list \<Rightarrow> u8 list \<times> u8 list \<Rightarrow> u8 list \<Rightarrow> u8 list list list \<times> u8 list" where
  "decode_tiles n [] d bs = ([], bs)"
| "decode_tiles n ((x, y, w, h) # ts) d bs =
    (let (p, d, bs) = decode_tile n w h d bs; (ps, bs) = decode_tiles n ts d bs in (p # ps, bs))"

definition tile_size_ok :: "rect \<Rightarrow> bool" where
  "tile_size_ok = (\<lambda>(x, y, w, h). 0 < w \<and> w \<le> 16 \<and> 0 < h \<and> h \<le> 16)"

definition tile_pixels :: "server \<Rightarrow> rfbClientRec \<Rightarrow> rect \<Rightarrow> u8 list list" where
  "tile_pixels srv cl = (\<lambda>(x, y, w, h). source_pixels srv cl x y w h)"

lemma sends_tiles:
  assumes "drawable srv cl" "ublen cl \<le> UPDATE_BUF_SIZE" "\<forall>t \<in> set ts. tile_size_ok t" "in_step st d"
  shows "\<exists>msg. sends cl msg (send_tiles srv ts st cl) \<and>
    (\<forall>bs. decode_tiles (bytesPerPixel cl) ts d (msg @ bs) = (map (tile_pixels srv cl) ts, bs))"
  using assms
proof (induction ts arbitrary: st d cl)
  case Nil
  then have "sends cl [] (send_tiles srv [] st cl)" by (simp add: sendsI)
  then show ?case by (intro exI [of _ "[]"]) simp
next
  case (Cons t ts)
  obtain x y w h where t: "t = (x, y, w, h)" by (metis prod_cases4)
  let ?n = "bytesPerPixel cl" and ?m = "1 + (2 + 16 * 16) * bytesPerPixel cl"
  have dr: "drawable srv cl" by (rule Cons.prems(1))
  have wh: "0 < w" "w \<le> 16" "0 < h" "h \<le> 16" using Cons.prems(3) by (auto simp: t tile_size_ok_def)
  have n: "0 < ?n" "?n \<le> 4" using dr by (auto simp: drawable_def valid_bpp_def bytesPerPixel_def)
  let ?D = "source_pixels srv cl x y w h"
  have px: "pixels_at srv cl (fbptr srv cl x y) w h = concat ?D"
    by (simp add: translate_rect_pixels [OF dr] concat_source_pixels)
  obtain bytes st1 where ht: "hextile_tile ?n (concat ?D) w h st = (bytes, st1)" by (metis surj_pair)
  from hextile_tile_decodes [OF length_source_pixels source_pixels_length [OF dr, of _ x y w h] wh n(1) Cons.prems(4) ht]
  obtain d1 where d1: "in_step st1 d1" "\<forall>bs. decode_tile ?n w h d (bytes @ bs) = (?D, d1, bs)"
    "length bytes \<le> ?m" by blast
  let ?g = "\<lambda>c. (put_buf bytes c)\<lparr>rfbBytesSent := (rfbBytesSent (put_buf bytes c))
      (rfbEncodingHextile := rfbBytesSent (put_buf bytes c) rfbEncodingHextile + length bytes)\<rparr>"
  obtain m where m: "\<forall>bs. decode_tiles ?n ts d1 (m @ bs) = (map (tile_pixels srv cl) ts, bs)"
    and s: "\<And>c. make_room ?m cl = (True, c) \<Longrightarrow> settings c = settings cl \<Longrightarrow> ublen c + length bytes \<le> UPDATE_BUF_SIZE
      \<Longrightarrow> sends (?g c) m (send_tiles srv ts st1 (?g c))"
  proof (cases "\<exists>c. make_room ?m cl = (True, c) \<and> settings c = settings cl \<and> ublen c + length bytes \<le> UPDATE_BUF_SIZE")
    case True
    then obtain c where c: "make_room ?m cl = (True, c)" "settings c = settings cl" "ublen c + length bytes \<le> UPDATE_BUF_SIZE"
      by auto
    have sg: "settings (?g c) = settings cl" using c(2) by simp
    have "ublen (?g c) \<le> UPDATE_BUF_SIZE" using c(3) by simp
    from Cons.IH [OF drawable_settings [OF dr sg] this _ d1(1)] Cons.prems(3)
    obtain m where "sends (?g c) m (send_tiles srv ts st1 (?g c))"
      "\<forall>bs. decode_tiles (bytesPerPixel (?g c)) ts d1 (m @ bs) = (map (tile_pixels srv (?g c)) ts, bs)" by auto
    moreover have "tile_pixels srv (?g c) = tile_pixels srv cl"
      by (intro ext) (simp add: tile_pixels_def source_pixels_def source_settings(5) [OF sg])
    ultimately show ?thesis using that [of m] c(1) source_settings(3) [OF sg] by auto
  next
    case False
    from Cons.IH [OF dr Cons.prems(2) _ d1(1)] Cons.prems(3)
    show ?thesis using that False by auto
  qed
  have "sends cl ([] @ bytes @ m) (case make_room ?m cl of (False, cl) \<Rightarrow> (False, cl)
      | (True, cl) \<Rightarrow> send_tiles srv ts st1 (?g cl))"
  proof (rule sends_seq [OF sends_make_room [OF Cons.prems(2)]])
    fix c assume c: "make_room ?m cl = (True, c)" "settings c = settings cl"
    have "?m \<le> UPDATE_BUF_SIZE" using n(2) by (simp add: UPDATE_BUF_SIZE_def)
    from make_room_fits [OF c(1) this] d1(3) have "ublen c + length bytes \<le> UPDATE_BUF_SIZE" by linarith
    from s [OF c this] show "sends c (bytes @ m) (send_tiles srv ts st1 (?g c))"
      by (rule sends_more) simp_all
  qed
  moreover have "send_tiles srv (t # ts) st cl = (case make_room ?m cl of (False, cl) \<Rightarrow> (False, cl)
      | (True, cl) \<Rightarrow> send_tiles srv ts st1 (?g cl))"
  proof -
    have *: "pixels_at srv c (fbptr srv c x y) w h = concat ?D" "bytesPerPixel c = ?n"
      if "make_room ?m cl = (True, c)" for c
    proof -
      have "settings c = settings cl" using sends_make_room [OF Cons.prems(2), of ?m] that by (simp add: sends_def)
      then show "pixels_at srv c (fbptr srv c x y) w h = concat ?D" "bytesPerPixel c = ?n"
        using px source_settings(1,2,3) [of c cl] by simp_all
    qed
    show ?thesis unfolding t send_tiles.simps Let_def
      by (cases "make_room ?m cl") (auto simp: * ht split: bool.split)
  qed
  moreover have "\<forall>bs. decode_tiles ?n (t # ts) d (([] @ bytes @ m) @ bs) = (map (tile_pixels srv cl) (t # ts), bs)"
    using d1(2) m by (simp add: t tile_pixels_def)
  ultimately show ?case by metis
qed

text \<open>The rectangle put together from its tiles.\<close>

definition assemble :: "nat \<Rightarrow> nat \<Rightarrow> u8 list list list \<Rightarrow> u8 list list" where
  "assemble w h ps = concat (map (\<lambda>j. map (\<lambda>i.
      ps ! (j div 16 * ((w + 15) div 16) + i div 16) ! (j mod 16 * min 16 (w - 16 * (i div 16)) + i mod 16))
    [0..<w]) [0..<h])"

definition decode_hextile :: "nat \<Rightarrow> nat \<Rightarrow> nat \<Rightarrow> u8 list \<Rightarrow> u8 list list \<times> u8 list" where
  "decode_hextile n w h bs =
    (let (ps, bs) = decode_tiles n (tiles 0 0 w h) (replicate n 0, replicate n 0) bs in (assemble w h ps, bs))"

lemma nth_rows:
  "i < w \<Longrightarrow> j < h \<Longrightarrow> concat (map (\<lambda>j. map (\<lambda>i. f i j) [0..<w]) [0..<h]) ! (j * w + i) = f i j"
proof (induction h)
  case (Suc h)
  let ?L = "concat (map (\<lambda>j. map (\<lambda>i. f i j) [0..<w]) [0..<h])"
  have len: "length ?L = h * w" by (simp add: length_concat_map_const [where k = w])
  show ?case
  proof (cases "j = h")
    case True
    then show ?thesis using Suc.prems by (simp add: nth_append len)
  next
    case False
    then have "j < h" using Suc.prems by simp
    moreover have "j * w + i < h * w"
      using row_major_less [OF Suc.prems(1) \<open>j < h\<close>] by (simp add: mult.commute)
    ultimately show ?thesis using Suc by (simp add: nth_append len)
  qed
qed simp

lemma tiles_sizes: "map (\<lambda>(x, y, w, h). (w, h)) (tiles x y w h) = map (\<lambda>(x, y, w, h). (w, h)) (tiles 0 0 w h)"
  by (simp add: tiles_def map_concat comp_def)

lemma decode_tiles_sizes:
  "map (\<lambda>(x, y, w, h). (w, h)) ts = map (\<lambda>(x, y, w, h). (w, h)) ts' \<Longrightarrow> decode_tiles n ts d bs = decode_tiles n ts' d bs"
proof (induction ts arbitrary: ts' d bs)
  case (Cons t ts)
  then obtain t' us where ts': "ts' = t' # us" by (cases ts') auto
  obtain x y w h where t: "t = (x, y, w, h)" by (metis prod_cases4)
  obtain x' y' where t': "t' = (x', y', w, h)" using Cons.prems by (cases t') (auto simp: t ts')
  have "decode_tiles n ts d bs = decode_tiles n us d bs" for d bs using Cons by (simp add: ts')
  then show ?case by (simp add: ts' t t')
qed simp

lemma tiles_ok: "\<forall>t \<in> set (tiles x y w h). tile_size_ok t"
  by (auto simp: tiles_def tile_size_ok_def)

lemma assemble_tiles: "assemble w h (map (tile_pixels srv cl) (tiles x y w h)) = source_pixels srv cl x y w h"
proof -
  have "map (tile_pixels srv cl) (tiles x y w h) ! (j div 16 * ((w + 15) div 16) + i div 16)
      ! (j mod 16 * min 16 (w - 16 * (i div 16)) + i mod 16) = source_pixel srv cl (x + i) (y + j)"
    if "i < w" "j < h" for i j
  proof -
    let ?W = "(w + 15) div 16" and ?H = "(h + 15) div 16" and ?I = "i div 16" and ?J = "j div 16"
    let ?w = "min 16 (w - 16 * ?I)" and ?h = "min 16 (h - 16 * ?J)"
    have I: "?I < ?W" "?J < ?H" using that by linarith+
    have i: "i mod 16 < ?w" "j mod 16 < ?h"
      using that mult_div_mod_eq [of 16 i] mult_div_mod_eq [of 16 j] by (auto simp: less_diff_conv)
    have "length (tiles x y w h) = ?W * ?H"
      by (simp add: tiles_def length_concat_map_const [where k = ?W])
    then have "?J * ?W + ?I < length (tiles x y w h)" using row_major_less [OF I] by simp
    moreover have "tiles x y w h ! (?J * ?W + ?I) = (x + 16 * ?I, y + 16 * ?J, ?w, ?h)"
      unfolding tiles_def by (rule nth_rows [OF I, of "\<lambda>I J. (x + 16 * I, y + 16 * J, min 16 (w - 16 * I), min 16 (h - 16 * J))"])
    ultimately have e1: "map (tile_pixels srv cl) (tiles x y w h) ! (?J * ?W + ?I)
        = source_pixels srv cl (x + 16 * ?I) (y + 16 * ?J) ?w ?h" by (simp add: tile_pixels_def)
    have e2: "source_pixels srv cl (x + 16 * ?I) (y + 16 * ?J) ?w ?h ! (j mod 16 * ?w + i mod 16)
        = source_pixel srv cl (x + 16 * ?I + i mod 16) (y + 16 * ?J + j mod 16)"
      unfolding source_pixels_def
      by (rule nth_rows [OF i, of "\<lambda>i j. source_pixel srv cl (x + 16 * ?I + i) (y + 16 * ?J + j)"])
    have "x + 16 * ?I + i mod 16 = x + i" "y + 16 * ?J + j mod 16 = y + j" by simp_all
    with e2 show ?thesis unfolding e1 by simp
  qed
  then have "map (\<lambda>i. map (tile_pixels srv cl) (tiles x y w h) ! (j div 16 * ((w + 15) div 16) + i div 16)
      ! (j mod 16 * min 16 (w - 16 * (i div 16)) + i mod 16)) [0..<w]
      = map (\<lambda>i. source_pixel srv cl (x + i) (y + j)) [0..<w]" if "j < h" for j
    using that by simp
  then show ?thesis unfolding assemble_def source_pixels_def by (intro arg_cong [where f = concat] map_cong refl) simp
qed

text \<open>The rectangle as a whole: a message of hextile encoding that is decoded to the source pixels.\<close>

lemma sends_Hextile:
  assumes d: "drawable srv cl" and u: "ublen cl \<le> UPDATE_BUF_SIZE"
  shows "\<exists>msg. sends cl msg (rfbSendRectEncodingHextile srv x y w h cl) \<and>
    carries (decode_hextile (bytesPerPixel cl)) rfbEncodingHextile srv cl x y w h msg"
proof -
  let ?n = "bytesPerPixel cl" and ?k = "sz_rfbFramebufferUpdateRectHeader"
  let ?hh = "rect_header (int x) (int y) (int w) (int h) rfbEncodingHextile"
  let ?g = "\<lambda>c. count_rect rfbEncodingHextile ?k (put_buf ?hh c)"
  let ?z = "replicate ?n (0::u8)"
  let ?f = "\<lambda>c. send_tiles srv (tiles x y w h) (False, ?z, False, ?z) c"
  have bpp: "valid_bpp (bitsPerPixel (format cl))" using d by (simp add: drawable_def)
  have step: "in_step (False, ?z, False, ?z) (?z, ?z)" by (simp add: in_step_def)
  have pos: "?k \<le> UPDATE_BUF_SIZE" by (simp add: UPDATE_BUF_SIZE_def sz_rfbFramebufferUpdateRectHeader_def)
  have eq: "rfbSendRectEncodingHextile srv x y w h cl
      = (case make_room ?k cl of (False, cl) \<Rightarrow> (False, cl) | (True, cl) \<Rightarrow> ?f (?g cl))"
  proof -
    have "valid_bpp (bitsPerPixel (format (?g c)))" "bytesPerPixel (?g c) = ?n" if "make_room ?k cl = (True, c)" for c
    proof -
      have s: "settings (?g c) = settings cl" using sends_make_room [OF u, of ?k] that by (simp add: sends_def)
      show "valid_bpp (bitsPerPixel (format (?g c)))" "bytesPerPixel (?g c) = ?n"
        using bpp settings_fields(3) [OF s] source_settings(3) [OF s] by simp_all
    qed
    then show ?thesis unfolding rfbSendRectEncodingHextile_def sendHextiles_def Let_def
      by (cases "make_room ?k cl") (auto split: bool.split)
  qed
  obtain m where m: "\<forall>bs. decode_tiles ?n (tiles x y w h) (?z, ?z) (m @ bs) = (map (tile_pixels srv cl) (tiles x y w h), bs)"
    and s: "sends cl (?hh @ m) (case make_room ?k cl of (False, cl) \<Rightarrow> (False, cl) | (True, cl) \<Rightarrow> ?f (?g cl))"
  proof (cases "\<exists>c. make_room ?k cl = (True, c)")
    case True
    then obtain c where c: "make_room ?k cl = (True, c)" by blast
    then have sg: "settings (?g c) = settings cl" using sends_make_room [OF u, of ?k] by (simp add: sends_def)
    have "ublen (?g c) \<le> UPDATE_BUF_SIZE" using make_room_fits [OF c pos] by simp
    from sends_tiles [OF drawable_settings [OF d sg] this tiles_ok step] obtain m where
      sm: "sends (?g c) m (?f (?g c))"
      and dm: "\<forall>bs. decode_tiles (bytesPerPixel (?g c)) (tiles x y w h) (?z, ?z) (m @ bs) = (map (tile_pixels srv (?g c)) (tiles x y w h), bs)"
      by blast
    have "tile_pixels srv (?g c) = tile_pixels srv cl"
      by (intro ext) (simp add: tile_pixels_def source_pixels_def source_settings(5) [OF sg])
    moreover have "sends c (?hh @ m) (?f (?g c))" by (rule sends_more [OF sm]) simp_all
    moreover from this have "sends cl ([] @ ?hh @ m) (case make_room ?k cl of (False, cl) \<Rightarrow> (False, cl) | (True, cl) \<Rightarrow> ?f (?g cl))"
      using c by (intro sends_seq [OF sends_make_room [OF u]]) auto
    ultimately show ?thesis using that [of m] dm source_settings(3) [OF sg] by simp
  next
    case False
    obtain m where dm: "\<forall>bs. decode_tiles ?n (tiles x y w h) (?z, ?z) (m @ bs) = (map (tile_pixels srv cl) (tiles x y w h), bs)"
      using sends_tiles [OF d u tiles_ok step] by blast
    have "sends cl ([] @ ?hh @ m) (case make_room ?k cl of (False, cl) \<Rightarrow> (False, cl) | (True, cl) \<Rightarrow> ?f (?g cl))"
      using False by (intro sends_seq [OF sends_make_room [OF u]]) auto
    then show ?thesis using that [of m] dm by simp
  qed
  have "decode_hextile ?n w h (m @ bs) = (source_pixels srv cl x y w h, bs)" for bs
  proof -
    have "decode_tiles ?n (tiles 0 0 w h) (?z, ?z) (m @ bs) = (map (tile_pixels srv cl) (tiles x y w h), bs)"
      using m decode_tiles_sizes [OF tiles_sizes, of ?n x y w h "(?z, ?z)" "m @ bs"] by simp
    then show ?thesis by (simp add: decode_hextile_def assemble_tiles)
  qed
  then have "carries (decode_hextile ?n) rfbEncodingHextile srv cl x y w h (?hh @ m)"
    unfolding carries_def by blast
  with s show ?thesis unfolding eq by blast
qed

section \<open>The properties\<close>

text \<open>
  C10: Whatever rfbSendRectEncodingHextile sends, a viewer decodes to the pixels of the rectangle: it
  reads the tiles in the order of the protocol, keeping the background and the foreground colour from
  tile to tile as the flags of the tiles say, puts them together, and finds the source pixels and the
  end of the message.
\<close>

theorem hextile_decodes_to_source:
  assumes "drawable srv cl" "ublen cl \<le> UPDATE_BUF_SIZE"
  shows "\<exists>msg. sends cl msg (rfbSendRectEncodingHextile srv x y w h cl) \<and>
    carries (decode_hextile (bytesPerPixel cl)) rfbEncodingHextile srv cl x y w h msg"
  by (rule sends_Hextile [OF assms])

theorem hextile_decodes_to_source_witness:
  "\<exists>msg. sends demo_client msg (rfbSendRectEncodingHextile demo_server 0 0 4 3 demo_client) \<and>
    carries (decode_hextile (bytesPerPixel demo_client)) rfbEncodingHextile demo_server demo_client 0 0 4 3 msg"
  by (rule hextile_decodes_to_source [OF demo_drawable demo_ublen])

text \<open>
  C35: A hextile tile never takes more than the room that sendHextiles makes for it, a viewer decodes it
  to its pixels (so that the number of its rectangles fits the byte that counts them), and the colours that the encoder takes as known to the
  viewer are those the viewer has.
\<close>

theorem hextile_tile_bounds:
  assumes "length D = w * h" "\<forall>p \<in> set D. length p = n" "0 < w" "w \<le> 16" "0 < h" "h \<le> 16" "0 < n"
    and "in_step st d" "hextile_tile n (concat D) w h st = (bytes, st')"
  shows "length bytes \<le> 1 + (2 + 16 * 16) * n \<and>
    (\<exists>d'. in_step st' d' \<and> (\<forall>bs. decode_tile n w h d (bytes @ bs) = (D, d', bs)))"
  using hextile_tile_decodes [of D w h n st d bytes st'] assms by blast

theorem hextile_tile_bounds_witness:
  "hextile_tile 1 (concat [[3], [3], [5], [3]]) 2 2 (False, [0], False, [0]) = ([14, 3, 5, 1, 1, 0], (True, [3], True, [5])) \<and>
   length [14, 3, 5, 1, 1, 0::u8] \<le> 1 + (2 + 16 * 16) * 1 \<and>
   (\<exists>d'. in_step (True, [3], True, [5]) d' \<and>
     (\<forall>bs. decode_tile 1 2 2 ([0], [0]) ([14, 3, 5, 1, 1, 0] @ bs) = ([[3], [3], [5], [3]], d', bs)))"
proof -
  have e: "hextile_tile 1 (concat [[3], [3], [5], [3]]) 2 2 (False, [0], False, [0]) = ([14, 3, 5, 1, 1, 0], (True, [3], True, [5]))"
    by code_simp
  show ?thesis
    using hextile_tile_bounds [of "[[3], [3], [5], [3]]" 2 2 1 "(False, [0], False, [0])" "([0], [0])", OF _ _ _ _ _ _ _ _ e] e
    by (simp add: in_step_def)
qed

end
