(* ===== verification/Cursor.thy ===== *)
theory Cursor
  imports Hextile
begin

text \<open>
  The cursor updates of \<^verbatim>\<open>OSXvnc-server/mousecursor.c\<close>: whether a client needs the shape or the position
  of the cursor, and sending them. The statics of the file are the record \<open>cursor\<close>; how they are read
  from the window server (loadCurrentCursorData) is left out, coordinates are
  whole numbers.
\<close>

record cursor =
  lastCursorSeed :: int
  lastCursorPosition :: "int \<times> int"
  cursorData :: "buffer option"
  cursorMaskData :: "u8 list"
  cursorRowBytes :: nat
  hotspot :: "int \<times> int"
  cursorWidth :: nat
  cursorHeight :: nat
  cursorFormat :: rfbPixelFormat

definition rfbStatsRichCursor :: nat where "rfbStatsRichCursor = 10"
definition rfbStatsCursorPosition :: nat where "rfbStatsCursorPosition = 11"

definition rfbShouldSendNewCursor :: "cursor \<Rightarrow> rfbClientRec \<Rightarrow> bool" where
  "rfbShouldSendNewCursor cur cl =
    (if \<not> useRichCursorEncoding cl then False else currentCursorSeed cl \<noteq> lastCursorSeed cur)"

definition rfbShouldSendNewPosition :: "cursor \<Rightarrow> rfbClientRec \<Rightarrow> bool" where
  "rfbShouldSendNewPosition cur cl =
    (if \<not> enableCursorPosUpdates cl then False else clientCursorLocation cl \<noteq> lastCursorPosition cur)"

definition rfbSendCursorPos :: "cursor \<Rightarrow> rfbClientRec \<Rightarrow> bool \<times> rfbClientRec" where
  "rfbSendCursorPos cur cl =
    (case make_room sz_rfbFramebufferUpdateRectHeader cl of
       (False, cl) \<Rightarrow> (False, cl)
     | (True, cl) \<Rightarrow>
        let cl = cl\<lparr>clientCursorLocation := lastCursorPosition cur\<rparr>;
            cl = put_buf (rect_header (fst (clientCursorLocation cl)) (snd (clientCursorLocation cl)) 0 0
                   rfbEncodingPointerPos) cl;
            cl = count_rect rfbStatsCursorPosition sz_rfbFramebufferUpdateRectHeader cl
        in rfbSendUpdateBuf cl)"

text \<open>
  The shape: header, pixels translated from the cursor's format, mask. For the translation the
  client's function and table are set up for the cursor's format and restored afterwards; the results
  of the two calls are not looked at.
\<close>

definition rfbSendRichCursorUpdate :: "u8 \<Rightarrow> cursor \<Rightarrow> server \<Rightarrow> rfbClientRec \<Rightarrow> bool \<times> rfbClientRec" where
  "rfbSendRichCursorUpdate pad cur srv cl =
    (let cursorIsDifferentFormat = (\<not> PF_EQ (cursorFormat cur) (rfbServerFormat srv));
         cursorSize = cursorWidth cur * cursorHeight cur * bytesPerPixel cl;
         cursorMaskSize = length (cursorMaskData cur)
     in if cursorData cur = None \<or> cursorHeight cur > 128 \<or> cursorWidth cur > 128
        then (False, cl\<lparr>currentCursorSeed := lastCursorSeed cur\<rparr>)
        else case make_room (sz_rfbFramebufferUpdateRectHeader + cursorSize + cursorMaskSize) cl of
          (False, cl) \<Rightarrow> (False, cl)
        | (True, cl) \<Rightarrow>
           let cl = put_buf (rect_header (fst (hotspot cur)) (snd (hotspot cur))
                      (int (cursorWidth cur)) (int (cursorHeight cur)) rfbEncodingRichCursor) cl;
               cl = (if cursorIsDifferentFormat
                     then snd (rfbSetTranslateFunctionUsingFormat pad srv (cursorFormat cur) cl) else cl);
               cl = put_buf (translate_rect (srv\<lparr>rfbServerFormat := cursorFormat cur\<rparr>) cl (the (cursorData cur)) 0
                      (cursorRowBytes cur) (cursorWidth cur) (cursorHeight cur)) cl;
               cl = (if cursorIsDifferentFormat
                     then snd (rfbSetTranslateFunctionUsingFormat pad srv (rfbServerFormat srv) cl) else cl);
               cl = put_buf (cursorMaskData cur) cl;
               cl = count_rect rfbStatsRichCursor (sz_rfbFramebufferUpdateRectHeader + cursorSize + cursorMaskSize) cl
           in (True, cl\<lparr>currentCursorSeed := lastCursorSeed cur\<rparr>))"

section \<open>What is sent\<close>

text \<open>The settings without those that a cursor update changes.\<close>

definition settings_cursor :: "rfbClientRec \<Rightarrow> rfbClientRec" where
  "settings_cursor cl = (settings cl)\<lparr>clientCursorLocation := (0, 0), currentCursorSeed := 0\<rparr>"

definition cursor_pos_rect :: "cursor \<Rightarrow> u8 list" where
  "cursor_pos_rect cur = rect_header (fst (lastCursorPosition cur)) (snd (lastCursorPosition cur)) 0 0 rfbEncodingPointerPos"

lemma settings_cursorI: "settings a = settings b \<Longrightarrow> settings_cursor a = settings_cursor b"
  by (simp add: settings_cursor_def)

lemma settings_cursor_loc [simp]: "settings_cursor (cl\<lparr>clientCursorLocation := p\<rparr>) = settings_cursor cl"
  "settings_cursor (cl\<lparr>currentCursorSeed := s\<rparr>) = settings_cursor cl"
  by (simp_all add: settings_cursor_def settings_def)

lemma stream_cursor_loc [simp]: "stream (cl\<lparr>clientCursorLocation := p\<rparr>) = stream cl"
  "stream (cl\<lparr>currentCursorSeed := q\<rparr>) = stream cl" "ublen (cl\<lparr>currentCursorSeed := q\<rparr>) = ublen cl"
  by (simp_all add: stream_def ublen_def)

text \<open>As \<open>sends\<close>, for the calls that also update what the client knows of the cursor.\<close>

definition sends_cur :: "rfbClientRec \<Rightarrow> u8 list \<Rightarrow> bool \<times> rfbClientRec \<Rightarrow> bool" where
  "sends_cur cl bs res \<longleftrightarrow> settings_cursor (snd res) = settings_cursor cl \<and>
     (\<exists>rest. sent (snd res) @ rest = stream cl @ bs) \<and>
     (if fst res then stream (snd res) = stream cl @ bs \<and> ublen (snd res) \<le> UPDATE_BUF_SIZE \<and> sock (snd res) = sock cl
      else sock (snd res) = -1 \<or> exited (snd res))"

lemma sends_CursorPos:
  assumes "ublen cl \<le> UPDATE_BUF_SIZE"
  shows "sends_cur cl (cursor_pos_rect cur) (rfbSendCursorPos cur cl)"
proof -
  let ?n = "sz_rfbFramebufferUpdateRectHeader"
  let ?g = "\<lambda>c. count_rect rfbStatsCursorPosition ?n (put_buf (cursor_pos_rect cur) (c\<lparr>clientCursorLocation := lastCursorPosition cur\<rparr>))"
  have eq: "rfbSendCursorPos cur cl = (case make_room ?n cl of (False, cl) \<Rightarrow> (False, cl) | (True, cl) \<Rightarrow> rfbSendUpdateBuf (?g cl))"
    unfolding rfbSendCursorPos_def Let_def cursor_pos_rect_def by (simp add: put_buf_def split: prod.split bool.split)
  note mr = sends_make_room [OF assms, of ?n]
  show ?thesis
  proof (cases "make_room ?n cl")
    case (Pair ok c)
    show ?thesis
    proof (cases ok)
      case False
      then obtain rest where c: "sent c @ rest = stream cl" "settings c = settings cl" "sock c = -1 \<or> exited c"
        using mr Pair by (auto simp: sends_def)
      have "sent c @ (rest @ cursor_pos_rect cur) = stream cl @ cursor_pos_rect cur"
        using c(1) by (metis append_assoc)
      then have "\<exists>r. sent c @ r = stream cl @ cursor_pos_rect cur" by blast
      then show ?thesis using Pair False c(3) settings_cursorI [OF c(2)] unfolding eq sends_cur_def by simp
    next
      case True
      then have c: "settings c = settings cl" "stream c = stream cl" "sock c = sock cl"
        using mr Pair by (auto simp: sends_def)
      have "stream (?g c) = stream cl @ cursor_pos_rect cur" using c(2) by simp
      moreover have "settings_cursor (?g c) = settings_cursor cl"
        using settings_cursorI [of "?g c" "c\<lparr>clientCursorLocation := lastCursorPosition cur\<rparr>"] settings_cursorI [OF c(1)] by simp
      moreover have "sock (?g c) = sock cl" using c(3) by simp
      moreover have "sends (?g c) [] (rfbSendUpdateBuf (?g c))" by (rule sends_SendUpdateBuf)
      ultimately have "sends_cur cl (cursor_pos_rect cur) (rfbSendUpdateBuf (?g c))"
        using settings_cursorI [of "snd (rfbSendUpdateBuf (?g c))" "?g c"] unfolding sends_cur_def sends_def by simp
      then show ?thesis using Pair True by (simp add: eq)
    qed
  qed
qed

text \<open>A shape whose format is that of the screen, so that the translation stays as it is.\<close>

definition shape_bytes :: "cursor \<Rightarrow> server \<Rightarrow> rfbClientRec \<Rightarrow> u8 list" where
  "shape_bytes cur srv cl =
     rect_header (fst (hotspot cur)) (snd (hotspot cur)) (int (cursorWidth cur)) (int (cursorHeight cur)) rfbEncodingRichCursor @
     translate_rect srv cl (the (cursorData cur)) 0 (cursorRowBytes cur) (cursorWidth cur) (cursorHeight cur) @
     cursorMaskData cur"

definition shape_size :: "cursor \<Rightarrow> rfbClientRec \<Rightarrow> nat" where
  "shape_size cur cl = sz_rfbFramebufferUpdateRectHeader + cursorWidth cur * cursorHeight cur * bytesPerPixel cl
     + length (cursorMaskData cur)"

lemma length_shape_bytes: "trans_ok srv cl \<Longrightarrow> length (shape_bytes cur srv cl) = shape_size cur cl"
  by (simp add: shape_bytes_def shape_size_def length_translate_rect bytesPerPixel_def ac_simps)

lemma PF_EQ_refl [simp]: "PF_EQ f f"
  by (simp add: PF_EQ_def)

lemma server_same_format [simp]: "rfbServerFormat_update (\<lambda>_. rfbServerFormat srv) srv = srv"
  by simp

lemma RichCursor_same_format:
  assumes "cursorFormat cur = rfbServerFormat srv" "cursorData cur = Some mem" "cursorWidth cur \<le> 128" "cursorHeight cur \<le> 128"
    and "make_room (shape_size cur cl) cl = (True, c)" "ublen cl \<le> UPDATE_BUF_SIZE"
  shows "\<exists>cl'. rfbSendRichCursorUpdate pad cur srv cl = (True, cl') \<and> updateBuf cl' = updateBuf c @ shape_bytes cur srv cl"
proof -
  have s: "settings c = settings cl" using sends_make_room [OF assms(6)] assms(5) by (metis sends_def snd_conv)
  have t: "translate_rect srv c = translate_rect srv cl"
    using settings_fields [OF s] by (intro ext) (cases "translateFn cl"; simp add: translate_rect_def)
  have p: "put_buf bs c = c\<lparr>updateBuf := updateBuf c @ bs\<rparr>" for bs c by (simp add: put_buf_def)
  have t': "translate_rect srv (c\<lparr>updateBuf := b\<rparr>) = translate_rect srv c" for b
    by (intro ext) (cases "translateFn c"; simp add: translate_rect_def)
  show ?thesis
    using assms(1-4) assms(5) [unfolded shape_size_def]
    unfolding rfbSendRichCursorUpdate_def Let_def
    by (simp add: t t' p count_rect_def shape_bytes_def)
qed

text \<open>
  C36: The limits for the shape of a cursor do not keep it within the output buffer: with a shape
  of at most 128 by 128 pixels, but more bytes than the buffer has, the call succeeds and leaves
  \<open>ublen\<close> beyond the size of the buffer, so that the bytes were written past its end.
\<close>

theorem cursor_overruns_buffer:
  assumes "trans_ok srv cl" "cursorFormat cur = rfbServerFormat srv" "cursorData cur = Some mem"
    and "cursorWidth cur \<le> 128" "cursorHeight cur \<le> 128" "shape_size cur cl > UPDATE_BUF_SIZE"
    and "ublen cl \<le> UPDATE_BUF_SIZE" "fst (rfbSendUpdateBuf cl)"
  shows "\<exists>cl'. rfbSendRichCursorUpdate pad cur srv cl = (True, cl') \<and> ublen cl' > UPDATE_BUF_SIZE"
proof -
  have m: "make_room (shape_size cur cl) cl = rfbSendUpdateBuf cl" using assms(6) by (simp add: make_room_def)
  then obtain c where c: "make_room (shape_size cur cl) cl = (True, c)" using assms(8) by (metis prod.collapse)
  from RichCursor_same_format [OF assms(2-5) c assms(7)] obtain cl' where
    "rfbSendRichCursorUpdate pad cur srv cl = (True, cl')" "updateBuf cl' = updateBuf c @ shape_bytes cur srv cl" by blast
  moreover have "ublen cl' = length (updateBuf c) + shape_size cur cl"
    using calculation(2) length_shape_bytes [OF assms(1)] by (simp add: ublen_def)
  ultimately show ?thesis using assms(6) by auto
qed

definition demo_cursor :: cursor where
  "demo_cursor = \<lparr>lastCursorSeed = 3, lastCursorPosition = (10, 20), cursorData = Some (\<lambda>_. 255),
     cursorMaskData = replicate 1056 255, cursorRowBytes = 352, hotspot = (4, 4), cursorWidth = 88, cursorHeight = 96,
     cursorFormat = demo_format\<rparr>"

theorem cursor_overruns_buffer_witness:
  "\<exists>cl'. rfbSendRichCursorUpdate 0 demo_cursor demo_server demo_client = (True, cl') \<and> ublen cl' > UPDATE_BUF_SIZE"
  by (rule cursor_overruns_buffer [where mem = "\<lambda>_. 255"])
    (simp_all add: trans_ok_def demo_client_def demo_server_def demo_cursor_def shape_size_def bytesPerPixel_def
      demo_format_def UPDATE_BUF_SIZE_def ublen_def rfbSendUpdateBuf_def WriteExact_def)

end
