(* ===== verification/Messages.thy ===== *)
theory Messages
  imports Updatebuf
begin

text \<open>
  The messages a client sends once it is connected: rfbProcessClientNormalMessage of
  \<^verbatim>\<open>OSXvnc-server/rfbserver.c\<close>, one definition for each case of its switch. A handler takes and returns
  the globals and the client. What the handlers ask of the window system is appended to \<open>events\<close>.
\<close>

section \<open>Messages\<close>

definition rfbFramebufferUpdate :: u8 where "rfbFramebufferUpdate = 0"
definition rfbServerCutText :: u8 where "rfbServerCutText = 3"
definition rfbReSizeFrameBuffer :: u8 where "rfbReSizeFrameBuffer = 0xF"

definition rfbSetPixelFormat :: u8 where "rfbSetPixelFormat = 0"
definition rfbFixColourMapEntries :: u8 where "rfbFixColourMapEntries = 1"
definition rfbSetEncodings :: u8 where "rfbSetEncodings = 2"
definition rfbFramebufferUpdateRequest :: u8 where "rfbFramebufferUpdateRequest = 3"
definition rfbKeyEvent :: u8 where "rfbKeyEvent = 4"
definition rfbPointerEvent :: u8 where "rfbPointerEvent = 5"
definition rfbClientCutText :: u8 where "rfbClientCutText = 6"
definition rfbSetScaleFactorULTRA :: u8 where "rfbSetScaleFactorULTRA = 8"
definition rfbSetScaleFactor :: u8 where "rfbSetScaleFactor = 0xF"
definition rfbRichClipboardAvailable :: u8 where "rfbRichClipboardAvailable = 0x83"
definition rfbRichClipboardRequest :: u8 where "rfbRichClipboardRequest = 0x84"
definition rfbRichClipboardData :: u8 where "rfbRichClipboardData = 0x85"

definition sz_rfbSetPixelFormatMsg :: nat where "sz_rfbSetPixelFormatMsg = sz_rfbPixelFormat + 4"
definition sz_rfbFixColourMapEntriesMsg :: nat where "sz_rfbFixColourMapEntriesMsg = 6"
definition sz_rfbSetEncodingsMsg :: nat where "sz_rfbSetEncodingsMsg = 4"
definition sz_rfbSetScaleFactorMsg :: nat where "sz_rfbSetScaleFactorMsg = 4"
definition sz_rfbFramebufferUpdateRequestMsg :: nat where "sz_rfbFramebufferUpdateRequestMsg = 10"
definition sz_rfbKeyEventMsg :: nat where "sz_rfbKeyEventMsg = 8"
definition sz_rfbPointerEventMsg :: nat where "sz_rfbPointerEventMsg = 6"
definition sz_rfbClientCutTextMsg :: nat where "sz_rfbClientCutTextMsg = 8"

lemmas message_types = rfbSetPixelFormat_def rfbFixColourMapEntries_def rfbSetEncodings_def
  rfbFramebufferUpdateRequest_def rfbKeyEvent_def rfbPointerEvent_def rfbClientCutText_def
  rfbSetScaleFactorULTRA_def rfbSetScaleFactor_def rfbRichClipboardAvailable_def
  rfbRichClipboardRequest_def rfbRichClipboardData_def

lemmas message_sizes = sz_rfbSetPixelFormatMsg_def sz_rfbFixColourMapEntriesMsg_def sz_rfbSetEncodingsMsg_def
  sz_rfbSetScaleFactorMsg_def sz_rfbFramebufferUpdateRequestMsg_def sz_rfbKeyEventMsg_def
  sz_rfbPointerEventMsg_def sz_rfbClientCutTextMsg_def sz_rfbPixelFormat_def

text \<open>
  What the handlers take from outside: the contents of memory that was never written (bytes of the
  stack and of the heap), the handlers of the clipboard extension, which belong to the pasteboard, and
  what the machine makes of \<open>1 << n\<close> for an \<open>n\<close> beyond the width of an int, which C leaves undefined.
\<close>

type_synonym handler = "server \<times> rfbClientRec \<Rightarrow> server \<times> rfbClientRec"

record env =
  stackByte :: "nat \<Rightarrow> u8"
  heapBytes :: buffer
  richClipboard :: "u8 \<Rightarrow> handler"
  shiftPast :: "nat \<Rightarrow> int"

text \<open>The pattern at the head of every case: read the rest of the message, or close the client.\<close>

definition read_msg :: "nat \<Rightarrow> (u8 list \<Rightarrow> handler) \<Rightarrow> handler" where
  "read_msg n f = (\<lambda>(srv, cl). case read_or_close n cl of Inl cl \<Rightarrow> (srv, cl) | Inr (msg, cl) \<Rightarrow> f msg (srv, cl))"

subsection \<open>Formats and encodings\<close>

definition processSetPixelFormat :: "env \<Rightarrow> handler" where
  "processSetPixelFormat env = read_msg (sz_rfbSetPixelFormatMsg - 1) (\<lambda>msg (srv, cl).
    let fmt = get_format (drop 3 msg) in
    if rfbMaxBitDepth srv = 0 \<or> bitsPerPixel fmt \<le> rfbMaxBitDepth srv
    then (srv, snd (rfbSetTranslateFunction (stackByte env 0) srv (cl\<lparr>format := fmt\<rparr>)))
    else (srv, cl))"

definition processFixColourMapEntries :: handler where
  "processFixColourMapEntries = read_msg (sz_rfbFixColourMapEntriesMsg - 1) (\<lambda>msg (srv, cl). (srv, rfbCloseClient cl))"

text \<open>The switch over the encodings.\<close>

definition real_encodings :: "nat list" where
  "real_encodings = [rfbEncodingRaw, rfbEncodingRRE, rfbEncodingCoRRE, rfbEncodingHextile, rfbEncodingZlib,
     rfbEncodingTight, rfbEncodingZlibHex, rfbEncodingZRLE]"

definition apply_encoding :: "server \<Rightarrow> nat \<Rightarrow> rfbClientRec \<Rightarrow> rfbClientRec" where
  "apply_encoding srv enc cl =
    (if enc = rfbEncodingCopyRect then cl
     else if enc \<in> set real_encodings then
       (if preferredEncoding cl = -1 then cl\<lparr>preferredEncoding := int enc\<rparr> else cl)
     else if enc = rfbEncodingUltra then cl
     else if enc = rfbEncodingLastRect then cl\<lparr>enableLastRectEncoding := True\<rparr>
     else if enc = rfbEncodingXCursor then cl\<lparr>enableXCursorShapeUpdates := True\<rparr>
     else if enc = rfbEncodingRichCursor then cl\<lparr>useRichCursorEncoding := True, currentCursorSeed := 0\<rparr>
     else if enc = rfbEncodingPointerPos then cl\<lparr>enableCursorPosUpdates := True, clientCursorLocation := (-1, -1)\<rparr>
     else if enc = rfbEncodingDesktopResize then cl\<lparr>desktopSizeUpdate := True\<rparr>
     else if enc = rfbImmediateUpdate then cl\<lparr>immediateUpdate := True\<rparr>
     else if enc = rfbPasteboardRequest then cl\<lparr>generalPBLastChange := -2\<rparr>
     else if enc = rfbRichPasteboard then
       (if \<not> rfbDisableRichClipboards srv then
          let cl = cl\<lparr>richClipboardSupport := True\<rparr>
          in if generalPBLastChange cl \<noteq> -2 then cl\<lparr>generalPBLastChange := -3\<rparr> else cl
        else cl)
     else if rfbEncodingCompressLevel0 \<le> enc \<and> enc \<le> rfbEncodingCompressLevel9 then
       cl\<lparr>zlibCompressLevel := enc mod 16, tightCompressLevel := enc mod 16\<rparr>
     else if rfbEncodingQualityLevel0 \<le> enc \<and> enc \<le> rfbEncodingQualityLevel9 then
       cl\<lparr>tightQualityLevel := int (enc mod 16)\<rparr>
     else cl)"

text \<open>The loop that reads the encodings; \<open>Inl\<close> is its return after a failed read.\<close>

fun encodings_loop :: "server \<Rightarrow> nat \<Rightarrow> rfbClientRec \<Rightarrow> rfbClientRec + rfbClientRec" where
  "encodings_loop srv 0 cl = Inr cl"
| "encodings_loop srv (Suc n) cl =
    (case read_or_close 4 cl of Inl cl \<Rightarrow> Inl cl
     | Inr (bs, cl) \<Rightarrow> encodings_loop srv n (apply_encoding srv (nat (rd32 bs)) cl))"

definition clear_encodings :: "rfbClientRec \<Rightarrow> rfbClientRec" where
  "clear_encodings cl =
    cl\<lparr>preferredEncoding := -1, enableLastRectEncoding := False, enableXCursorShapeUpdates := False,
       useRichCursorEncoding := False, enableCursorPosUpdates := False, desktopSizeUpdate := False,
       immediateUpdate := False\<rparr>"

text \<open>
  The case after its first read, with updateMutex locked on the way. The signal that follows if the
  cursor is now to be sent is left out: the thread it wakes would only make its test again.
\<close>

definition set_encodings :: "u8 list \<Rightarrow> handler" where
  "set_encodings msg = (\<lambda>(srv, cl).
    let nEncodings = nat (rd16 (drop 1 msg));
        cl = clear_encodings (cl\<lparr>updateLocked := True\<rparr>)
    in case encodings_loop srv nEncodings cl of
         Inl cl \<Rightarrow> (srv, cl)
       | Inr cl \<Rightarrow>
           let cl = (if preferredEncoding cl = -1 then cl\<lparr>preferredEncoding := int rfbEncodingRaw\<rparr> else cl)
           in (srv, cl\<lparr>updateLocked := False\<rparr>))"

definition processSetEncodings :: handler where
  "processSetEncodings = read_msg (sz_rfbSetEncodingsMsg - 1) set_encodings"

subsection \<open>Requests and events\<close>

text \<open>REGION_UNION with the first source as the destination.\<close>

definition region_add :: "RegionRec \<Rightarrow> RegionRec \<Rightarrow> RegionRec" where
  "region_add a b = miUnion 0 0 1 ((\<lambda>_. b)(0 := a)) 0"

text \<open>The sides of the box are stored as shorts; the right and the lower side are computed from them.\<close>

definition request_box :: "int \<Rightarrow> int \<Rightarrow> int \<Rightarrow> int \<Rightarrow> int \<Rightarrow> BoxRec" where
  "request_box s x y w h =
    (let x1 = short (x * s); y1 = short (y * s) in box x1 y1 (short ((x1 + w) * s)) (short ((y1 + h) * s)))"

definition record_request :: "u8 list \<Rightarrow> handler" where
  "record_request msg = (\<lambda>(srv, cl).
    let tmpRegion = SAFE_REGION_INIT (request_box (int (scalingFactor cl)) (rd16 (drop 1 msg)) (rd16 (drop 3 msg))
          (rd16 (drop 5 msg)) (rd16 (drop 7 msg)));
        cl = cl\<lparr>requestedRegion := region_add (requestedRegion cl) tmpRegion\<rparr>;
        cl = (if msg ! 0 = 0 then cl\<lparr>modifiedRegion := region_add (modifiedRegion cl) tmpRegion\<rparr> else cl)
    in (srv, pthread_cond_signal cl))"

definition processFramebufferUpdateRequest :: handler where
  "processFramebufferUpdateRequest = read_msg (sz_rfbFramebufferUpdateRequestMsg - 1) record_request"

definition processKeyEvent :: handler where
  "processKeyEvent = (\<lambda>(srv, cl).
    let cl = (if \<not> disableRemoteEvents cl then cl\<lparr>rfbKeyEventsRcvd := rfbKeyEventsRcvd cl + 1\<rparr> else cl)
    in read_msg (sz_rfbKeyEventMsg - 1) (\<lambda>msg (srv, cl).
         (if \<not> disableRemoteEvents cl
          then srv\<lparr>events := events srv @ [KbdAddEvent (msg ! 0 \<noteq> 0) (rd32 (drop 3 msg)) (cid cl)]\<rparr> else srv, cl))
       (srv, cl))"

definition processPointerEvent :: handler where
  "processPointerEvent = (\<lambda>(srv, cl).
    let cl = (if \<not> disableRemoteEvents cl then cl\<lparr>rfbPointerEventsRcvd := rfbPointerEventsRcvd cl + 1\<rparr> else cl)
    in read_msg (sz_rfbPointerEventMsg - 1) (\<lambda>msg (srv, cl).
         if disableRemoteEvents cl \<or> (pointerClient srv \<noteq> None \<and> pointerClient srv \<noteq> Some (cid cl)) then (srv, cl)
         else
           let srv = srv\<lparr>pointerClient := (if msg ! 0 = 0 then None else Some (cid cl))\<rparr>;
               s = int (scalingFactor cl)
           in (srv\<lparr>events := events srv @
                 [PtrAddEvent (msg ! 0) ((rd16 (drop 1 msg) + s - 1) * s) ((rd16 (drop 3 msg) + s - 1) * s) (cid cl)]\<rparr>, cl))
       (srv, cl))"

definition processClientCutText :: handler where
  "processClientCutText = read_msg (sz_rfbClientCutTextMsg - 1) (\<lambda>msg.
    read_msg (nat (rd32 (drop 3 msg))) (\<lambda>str (srv, cl).
      (if \<not> disableRemoteEvents cl then srv\<lparr>events := events srv @ [SetCutText str (cid cl)]\<rparr> else srv, cl)))"

subsection \<open>Scaling\<close>

text \<open>The header of an update in the buffer; its padding byte keeps what the buffer held there.\<close>

definition fu_header :: "u8 \<Rightarrow> nat \<Rightarrow> u8 list" where
  "fu_header pad n = [rfbFramebufferUpdate, pad] @ be16 (int n)"

text \<open>A scale of zero divides by zero, which ends the process.\<close>

definition rescale :: "env \<Rightarrow> server \<Rightarrow> nat \<Rightarrow> rfbClientRec \<Rightarrow> rfbClientRec" where
  "rescale env srv scale cl =
    (let csw = (swidth (rfbScreen srv) + scale - 1) div scale;
         cl = cl\<lparr>scalingFactor := scale\<rparr>
     in if scale = 1
        then cl\<lparr>scalingFrameBuffer := screenBuffer cl, scalingPaddedWidthInBytes := paddedWidthInBytes (rfbScreen srv)\<rparr>
        else cl\<lparr>scalingFrameBuffer := heapBytes env,
                scalingPaddedWidthInBytes := csw * sbitsPerPixel (rfbScreen srv) div 8\<rparr>)"

definition resize_msg :: "env \<Rightarrow> server \<Rightarrow> nat \<Rightarrow> u8 list" where
  "resize_msg env srv scale =
    (let csh = (sheight (rfbScreen srv) + scale - 1) div scale;
         csw = (swidth (rfbScreen srv) + scale - 1) div scale
     in [rfbReSizeFrameBuffer, stackByte env 1] @
        be16 (int (swidth (rfbScreen srv))) @ be16 (int (sheight (rfbScreen srv))) @
        be16 (int csw) @ be16 (int csh) @ [stackByte env 2, stackByte env 3])"

definition set_scale :: "env \<Rightarrow> u8 \<Rightarrow> u8 list \<Rightarrow> handler" where
  "set_scale env ty msg = (\<lambda>(srv, cl).
    let scale = unat (msg ! 0) in
    if scalingFactor cl \<noteq> scale then
      if scale = 0 then (srv, cl\<lparr>exited := True\<rparr>)
      else
        let cl = rescale env srv scale cl
        in if ty = rfbSetScaleFactor then (srv, snd (write_or_close (resize_msg env srv scale) cl))
           else (srv, snd (rfbSendScreenUpdateEncoding srv (cl\<lparr>updateBuf := fu_header (stackByte env 4) 1\<rparr>)))
    else (srv, cl))"

definition processSetScaleFactor :: "env \<Rightarrow> u8 \<Rightarrow> handler" where
  "processSetScaleFactor env ty = read_msg (sz_rfbSetScaleFactorMsg - 1) (set_scale env ty)"

subsection \<open>The switch\<close>

definition message_handler :: "env \<Rightarrow> u8 \<Rightarrow> handler" where
  "message_handler env ty =
    (if ty = rfbSetPixelFormat then processSetPixelFormat env
     else if ty = rfbFixColourMapEntries then processFixColourMapEntries
     else if ty = rfbSetEncodings then processSetEncodings
     else if ty = rfbFramebufferUpdateRequest then processFramebufferUpdateRequest
     else if ty = rfbKeyEvent then processKeyEvent
     else if ty = rfbPointerEvent then processPointerEvent
     else if ty = rfbClientCutText then processClientCutText
     else if ty = rfbSetScaleFactorULTRA \<or> ty = rfbSetScaleFactor then processSetScaleFactor env ty
     else if ty \<in> {rfbRichClipboardAvailable, rfbRichClipboardRequest, rfbRichClipboardData} then richClipboard env ty
     else (\<lambda>(srv, cl). (srv, rfbCloseClient cl)))"

definition rfbProcessClientNormalMessage :: "env \<Rightarrow> handler" where
  "rfbProcessClientNormalMessage env = read_msg 1 (\<lambda>msg. message_handler env (msg ! 0))"

text \<open>A message of the server: the clipboard, written without the buffer.\<close>

definition rfbSendServerCutText :: "env \<Rightarrow> u8 list \<Rightarrow> rfbClientRec \<Rightarrow> rfbClientRec" where
  "rfbSendServerCutText env str cl =
    (let cl = snd (write_or_close ([rfbServerCutText, stackByte env 0, stackByte env 1, stackByte env 2] @
           be32 (int (length str))) cl)
     in snd (write_or_close str cl))"

section \<open>What a handler does to the stream of the client\<close>

text \<open>
  A client that is in step after a handler: it is closed, or the process has ended, or the handler has
  taken exactly \<open>bs\<close> from what the client sent.
\<close>

definition gone :: "rfbClientRec \<Rightarrow> bool" where
  "gone cl \<longleftrightarrow> sock cl < 0 \<or> exited cl"

definition takes :: "rfbClientRec \<Rightarrow> u8 list \<Rightarrow> rfbClientRec \<Rightarrow> bool" where
  "takes cl bs cl' \<longleftrightarrow> gone cl' \<or> incoming (rdev cl) = bs @ incoming (rdev cl')"

lemma read_takes:
  assumes "read_or_close n cl = Inr (bs, cl')"
  shows "incoming (rdev cl) = bs @ incoming (rdev cl')" "length bs = n"
proof -
  obtain r where r: "ReadExact n cl = (r, bs, cl')" "0 < r"
    using assms by (auto simp: read_or_close_def split: prod.splits if_splits)
  show "length bs = n" by (rule ReadExact_length [OF r])
  show "incoming (rdev cl) = bs @ incoming (rdev cl')"
  proof (cases "n = 0 \<or> exited cl \<or> sock cl < 0")
    case True
    then show ?thesis using r by (auto simp: ReadExact_def split: if_splits)
  next
    case False
    then show ?thesis using ReadExact_cases [OF r(1)] r(2) by (auto split: if_splits)
  qed
qed

lemma read_Inl_gone: "read_or_close n cl = Inl cl' \<Longrightarrow> gone cl'"
  using read_or_close_Inl [of n cl cl'] by (simp add: gone_def)

lemma read_Inl_more: "read_or_close n cl = Inl cl' \<Longrightarrow> conn.more cl' = conn.more cl"
proof -
  assume a: "read_or_close n cl = Inl cl'"
  obtain r bs c where r: "ReadExact n cl = (r, bs, c)" by (metis prod_cases3)
  then have "cl' = rfbCloseClient c" using a by (simp add: read_or_close_def split: if_splits)
  then show ?thesis using ReadExact_frame [OF r] by (simp add: rfbCloseClient_def)
qed

lemma close_gone [simp]: "gone (rfbCloseClient cl)"
  by (simp add: gone_def rfbCloseClient_def)

lemma read_msg_takes:
  assumes "read_msg n f (srv, cl) = (srv', cl')" "\<not> gone cl'"
  obtains msg c where "length msg = n" "f msg (srv, c) = (srv', cl')" "conn.more c = conn.more cl"
    "incoming (rdev cl) = msg @ incoming (rdev c)" "sock c = sock cl" "exited c = exited cl"
    "read_or_close n cl = Inr (msg, c)"
proof (cases "read_or_close n cl")
  case (Inl c)
  then show ?thesis using assms read_Inl_gone by (auto simp: read_msg_def)
next
  case (Inr p)
  obtain msg c where p: "p = (msg, c)" by fastforce
  show ?thesis
    using that [of msg c] read_takes [OF Inr [unfolded p]] read_or_close_Inr [OF Inr [unfolded p]] assms(1) Inr
    by (simp add: read_msg_def p)
qed

lemma rdev_write_or_close [simp]: "rdev (snd (write_or_close buf cl)) = rdev cl"
proof -
  obtain r c where r: "WriteExact buf cl = (r, c)" by fastforce
  show ?thesis using WriteExact_frame [OF r] by (simp add: write_or_close_def r rfbCloseClient_def)
qed

lemma rdev_SendUpdateBuf [simp]: "rdev (snd (rfbSendUpdateBuf cl)) = rdev cl"
proof -
  obtain r c where r: "WriteExact (updateBuf cl) cl = (r, c)" by fastforce
  show ?thesis using WriteExact_frame [OF r] by (simp add: rfbSendUpdateBuf_def r rfbCloseClient_def)
qed

lemma rdev_put [simp]: "rdev (put_buf bs cl) = rdev cl" "rdev (count_rect e n cl) = rdev cl"
  by (simp_all add: put_buf_def count_rect_def)

lemma rdev_ScreenUpdate [simp]: "rdev (snd (rfbSendScreenUpdateEncoding srv cl)) = rdev cl"
proof -
  obtain ok c where m: "make_room sz_rfbFramebufferUpdateRectHeader cl = (ok, c)" by fastforce
  have "rdev (snd (make_room sz_rfbFramebufferUpdateRectHeader cl)) = rdev cl" by (simp add: make_room_def)
  then show ?thesis by (cases ok) (simp_all add: rfbSendScreenUpdateEncoding_def Let_def m)
qed

lemma rdev_choose [simp]: "rdev (choose_translation srv f cl) = rdev cl"
  by (simp add: choose_translation_def)

lemma rdev_SetTranslate [simp]: "rdev (snd (rfbSetTranslateFunction pad srv cl)) = rdev cl"
proof -
  let ?c = "cl\<lparr>translateFn := TransNone, translateLookupTable := NoTable\<rparr>"
  have "rdev (snd (rfbSetClientColourMapBGR233 pad ?c)) = rdev cl"
    by (simp add: rfbSetClientColourMapBGR233_def rfbCloseClient_def)
  then show ?thesis
    by (auto simp: rfbSetTranslateFunction_def rfbSetTranslateFunctionUsingFormat_def rfbCloseClient_def
        split: prod.split bool.split)
qed

text \<open>How long a message is, by its first bytes.\<close>

definition message_size :: "u8 list \<Rightarrow> nat option" where
  "message_size bs =
    (let ty = bs ! 0 in
     if ty = rfbSetPixelFormat then Some sz_rfbSetPixelFormatMsg
     else if ty = rfbSetEncodings then Some (sz_rfbSetEncodingsMsg + 4 * nat (rd16 (drop 2 bs)))
     else if ty = rfbFramebufferUpdateRequest then Some sz_rfbFramebufferUpdateRequestMsg
     else if ty = rfbKeyEvent then Some sz_rfbKeyEventMsg
     else if ty = rfbPointerEvent then Some sz_rfbPointerEventMsg
     else if ty = rfbClientCutText then Some (sz_rfbClientCutTextMsg + nat (rd32 (drop 4 bs)))
     else if ty = rfbSetScaleFactorULTRA \<or> ty = rfbSetScaleFactor then Some sz_rfbSetScaleFactorMsg
     else None)"

definition rich_types :: "u8 set" where
  "rich_types = {rfbRichClipboardAvailable, rfbRichClipboardRequest, rfbRichClipboardData}"

lemma apply_encoding_conn [simp]:
  "rdev (apply_encoding srv e cl) = rdev cl" "sock (apply_encoding srv e cl) = sock cl"
  "exited (apply_encoding srv e cl) = exited cl" "sent (apply_encoding srv e cl) = sent cl"
  by (simp_all add: apply_encoding_def Let_def)

lemma apply_encoding_conn_update [simp]:
  "apply_encoding srv e (cl\<lparr>rdev := es\<rparr>) = (apply_encoding srv e cl)\<lparr>rdev := es\<rparr>"
  "apply_encoding srv e (cl\<lparr>errno := n\<rparr>) = (apply_encoding srv e cl)\<lparr>errno := n\<rparr>"
  unfolding apply_encoding_def Let_def if_distrib [of "rdev_update (\<lambda>_. es)"] if_distrib [of "errno_update (\<lambda>_. n)"]
  by (intro if_cong refl; simp)+

text \<open>A successful read changes nothing but the script and \<open>errno\<close>.\<close>

lemma read_Inr_eq:
  assumes "read_or_close n cl = Inr (bs, cl')"
  shows "cl' = cl\<lparr>rdev := rdev cl', errno := errno cl'\<rparr>"
proof -
  obtain r where "ReadExact n cl = (r, bs, cl')"
    using assms by (auto simp: read_or_close_def split: prod.splits if_splits)
  then show ?thesis by (auto simp: ReadExact_def split: if_splits prod.splits)
qed

text \<open>The encodings that a completed loop has read.\<close>

lemma fold_apply_conn:
  "fold (apply_encoding srv) es (cl\<lparr>rdev := r, errno := n\<rparr>) = (fold (apply_encoding srv) es cl)\<lparr>rdev := r, errno := n\<rparr>"
  by (induction es arbitrary: cl) simp_all

lemma encodings_loop_reads:
  assumes "encodings_loop srv n cl = Inr cl'"
  shows "\<exists>encs. length encs = n \<and> incoming (rdev cl) = concat encs @ incoming (rdev cl') \<and>
    (\<forall>e \<in> set encs. length e = 4) \<and>
    cl' = (fold (apply_encoding srv) (map (\<lambda>e. nat (rd32 e)) encs) cl)\<lparr>rdev := rdev cl', errno := errno cl'\<rparr>"
  using assms
proof (induction n arbitrary: cl)
  case 0
  then show ?case by simp
next
  case (Suc n)
  obtain e c where r: "read_or_close 4 cl = Inr (e, c)"
    and l: "encodings_loop srv n (apply_encoding srv (nat (rd32 e)) c) = Inr cl'"
    using Suc.prems by (auto split: sum.splits)
  let ?A = "apply_encoding srv (nat (rd32 e))" and ?F = "\<lambda>encs. fold (apply_encoding srv) (map (\<lambda>e. nat (rd32 e)) encs)"
  note m = read_takes [OF r]
  from Suc.IH [OF l] obtain encs where e: "length encs = n"
    "incoming (rdev c) = concat encs @ incoming (rdev cl')" "\<forall>e \<in> set encs. length e = 4"
    "cl' = (?F encs (?A c))\<lparr>rdev := rdev cl', errno := errno cl'\<rparr>"
    by auto
  obtain es n where c: "c = cl\<lparr>rdev := es, errno := n\<rparr>" using read_Inr_eq [OF r] by blast
  have "?F encs (?A c) = (?F encs (?A cl))\<lparr>rdev := es, errno := n\<rparr>"
    unfolding c by (simp add: fold_apply_conn)
  then have "cl' = (?F (e # encs) cl)\<lparr>rdev := rdev cl', errno := errno cl'\<rparr>"
    using e(4) by simp
  with e(1-3) m show ?case by (intro exI [of _ "e # encs"]) simp
qed

lemma read_msg_exact:
  assumes "read_msg n f (srv, cl) = (srv', cl')" "\<not> gone cl'"
    "\<And>msg srv c. rdev (snd (f msg (srv, c))) = rdev c"
  shows "\<exists>m. length m = n \<and> incoming (rdev cl) = m @ incoming (rdev cl')"
proof -
  obtain msg c where "length msg = n" "f msg (srv, c) = (srv', cl')" "incoming (rdev cl) = msg @ incoming (rdev c)"
    by (rule read_msg_takes [OF assms(1,2)])
  then show ?thesis using assms(3) [of msg srv c] by auto
qed

lemma takes_SetPixelFormat:
  "processSetPixelFormat env (srv, cl) = (srv', cl') \<Longrightarrow> \<not> gone cl' \<Longrightarrow>
    \<exists>m. length m = sz_rfbSetPixelFormatMsg - 1 \<and> incoming (rdev cl) = m @ incoming (rdev cl')"
  unfolding processSetPixelFormat_def by (rule read_msg_exact) (auto simp: Let_def)

lemma takes_FramebufferUpdateRequest:
  "processFramebufferUpdateRequest (srv, cl) = (srv', cl') \<Longrightarrow> \<not> gone cl' \<Longrightarrow>
    \<exists>m. length m = sz_rfbFramebufferUpdateRequestMsg - 1 \<and> incoming (rdev cl) = m @ incoming (rdev cl')"
  unfolding processFramebufferUpdateRequest_def by (rule read_msg_exact) (auto simp: record_request_def Let_def)

lemma takes_SetScaleFactor:
  "processSetScaleFactor env ty (srv, cl) = (srv', cl') \<Longrightarrow> \<not> gone cl' \<Longrightarrow>
    \<exists>m. length m = sz_rfbSetScaleFactorMsg - 1 \<and> incoming (rdev cl) = m @ incoming (rdev cl')"
  unfolding processSetScaleFactor_def by (rule read_msg_exact) (auto simp: set_scale_def rescale_def Let_def)

lemma takes_KeyEvent:
  assumes "processKeyEvent (srv, cl) = (srv', cl')" "\<not> gone cl'"
  shows "\<exists>m. length m = sz_rfbKeyEventMsg - 1 \<and> incoming (rdev cl) = m @ incoming (rdev cl')"
proof -
  let ?c = "if \<not> disableRemoteEvents cl then cl\<lparr>rfbKeyEventsRcvd := rfbKeyEventsRcvd cl + 1\<rparr> else cl"
  have "\<exists>m. length m = sz_rfbKeyEventMsg - 1 \<and> incoming (rdev ?c) = m @ incoming (rdev cl')"
    using assms(1) unfolding processKeyEvent_def Let_def prod.case
    by (rule read_msg_exact [OF _ assms(2)]) auto
  moreover have "rdev ?c = rdev cl" by simp
  ultimately show ?thesis by (simp only:)
qed

lemma takes_PointerEvent:
  assumes "processPointerEvent (srv, cl) = (srv', cl')" "\<not> gone cl'"
  shows "\<exists>m. length m = sz_rfbPointerEventMsg - 1 \<and> incoming (rdev cl) = m @ incoming (rdev cl')"
proof -
  let ?c = "if \<not> disableRemoteEvents cl then cl\<lparr>rfbPointerEventsRcvd := rfbPointerEventsRcvd cl + 1\<rparr> else cl"
  have "\<exists>m. length m = sz_rfbPointerEventMsg - 1 \<and> incoming (rdev ?c) = m @ incoming (rdev cl')"
    using assms(1) unfolding processPointerEvent_def Let_def prod.case
    by (rule read_msg_exact [OF _ assms(2)]) auto
  moreover have "rdev ?c = rdev cl" by simp
  ultimately show ?thesis by (simp only:)
qed

lemma rd_take: "2 \<le> length a \<Longrightarrow> rd16 (a @ b) = rd16 a" "4 \<le> length a \<Longrightarrow> rd32 (a @ b) = rd32 a"
  by (auto simp: rd16_def rd32_def nth_append)

lemma takes_ClientCutText:
  assumes "processClientCutText (srv, cl) = (srv', cl')" "\<not> gone cl'"
  shows "\<exists>m. length m = sz_rfbClientCutTextMsg - 1 + nat (rd32 (drop 3 (incoming (rdev cl)))) \<and>
    incoming (rdev cl) = m @ incoming (rdev cl')"
proof -
  from read_msg_takes [OF assms(1) [unfolded processClientCutText_def] assms(2)]
  obtain a c where a: "length a = sz_rfbClientCutTextMsg - 1" "incoming (rdev cl) = a @ incoming (rdev c)"
    and f: "read_msg (nat (rd32 (drop 3 a))) (\<lambda>str (srv, cl). (if \<not> disableRemoteEvents cl
          then srv\<lparr>events := events srv @ [SetCutText str (cid cl)]\<rparr> else srv, cl)) (srv, c) = (srv', cl')"
    by blast
  have "\<exists>m. length m = nat (rd32 (drop 3 a)) \<and> incoming (rdev c) = m @ incoming (rdev cl')"
    by (rule read_msg_exact [OF f assms(2)]) auto
  moreover have "rd32 (drop 3 (incoming (rdev cl))) = rd32 (drop 3 a)"
    using a by (simp add: rd_take message_sizes)
  ultimately show ?thesis using a by (metis append.assoc length_append)
qed

lemma encodings_loop_gone: "encodings_loop srv n cl = Inl d \<Longrightarrow> gone d"
  by (induction srv n cl rule: encodings_loop.induct) (auto split: sum.splits dest: read_Inl_gone)

lemma apply_encoding_locked [simp]: "apply_encoding srv e (cl\<lparr>updateLocked := b\<rparr>) = (apply_encoding srv e cl)\<lparr>updateLocked := b\<rparr>"
  by (simp add: apply_encoding_def Let_def)

lemma fold_apply_locked: "fold (apply_encoding srv) es (cl\<lparr>updateLocked := b\<rparr>) = (fold (apply_encoding srv) es cl)\<lparr>updateLocked := b\<rparr>"
  by (induction es arbitrary: cl) simp_all

lemma takes_SetEncodings:
  assumes "processSetEncodings (srv, cl) = (srv', cl')" "\<not> gone cl'"
  shows "srv' = srv \<and> (\<exists>m encs c. length m = sz_rfbSetEncodingsMsg - 1 \<and> length encs = nat (rd16 (drop 1 m)) \<and>
    (\<forall>e \<in> set encs. length e = 4) \<and> incoming (rdev cl) = m @ concat encs @ incoming (rdev cl') \<and>
    c = fold (apply_encoding srv) (map (\<lambda>e. nat (rd32 e)) encs) (clear_encodings cl) \<and>
    cl' = c\<lparr>preferredEncoding := (if preferredEncoding c = -1 then int rfbEncodingRaw else preferredEncoding c),
       updateLocked := False, rdev := rdev cl', errno := errno cl'\<rparr>)"
proof -
  obtain m c where m: "length m = sz_rfbSetEncodingsMsg - 1" "set_encodings m (srv, c) = (srv', cl')"
      "incoming (rdev cl) = m @ incoming (rdev c)" "read_or_close (sz_rfbSetEncodingsMsg - 1) cl = Inr (m, c)"
    by (rule read_msg_takes [OF assms(1) [unfolded processSetEncodings_def] assms(2)])
  note f = m(2) [unfolded set_encodings_def Let_def prod.case]
  let ?c = "clear_encodings (c\<lparr>updateLocked := True\<rparr>)"
  obtain d where d: "encodings_loop srv (nat (rd16 (drop 1 m))) ?c = Inr d"
    using f encodings_loop_gone assms(2) by (cases "encodings_loop srv (nat (rd16 (drop 1 m))) ?c") auto
  from encodings_loop_reads [OF this] obtain encs where e: "length encs = nat (rd16 (drop 1 m))"
    "incoming (rdev ?c) = concat encs @ incoming (rdev d)" "\<forall>e \<in> set encs. length e = 4"
    "d = (fold (apply_encoding srv) (map (\<lambda>e. nat (rd32 e)) encs) ?c)\<lparr>rdev := rdev d, errno := errno d\<rparr>" by blast
  obtain es k where c: "c = cl\<lparr>rdev := es, errno := k\<rparr>" using read_Inr_eq [OF m(4)] by blast
  let ?d = "fold (apply_encoding srv) (map (\<lambda>e. nat (rd32 e)) encs) (clear_encodings cl)"
  have "?c = (clear_encodings cl)\<lparr>rdev := es, errno := k, updateLocked := True\<rparr>"
    unfolding c clear_encodings_def by simp
  then have "d = ?d\<lparr>updateLocked := True, rdev := rdev d, errno := errno d\<rparr>"
    using e(4) by (simp add: fold_apply_conn fold_apply_locked)
  then obtain r n where d2: "d = ?d\<lparr>updateLocked := True, rdev := r, errno := n\<rparr>" by blast
  have f2: "srv' = srv" "cl' = (if preferredEncoding d = -1 then d\<lparr>preferredEncoding := int rfbEncodingRaw\<rparr> else d)\<lparr>updateLocked := False\<rparr>"
    using f d by simp_all
  have "rdev cl' = rdev d" unfolding f2(2) by simp
  moreover have "rdev ?c = rdev c" by (simp add: clear_encodings_def)
  moreover have "cl' = ?d\<lparr>preferredEncoding := (if preferredEncoding ?d = -1 then int rfbEncodingRaw else preferredEncoding ?d),
       updateLocked := False, rdev := rdev cl', errno := errno cl'\<rparr>"
    unfolding f2(2) d2 by simp
  ultimately show ?thesis using f2(1) m(1,3) e(1-3) by (intro conjI exI [of _ m] exI [of _ encs] exI [of _ ?d]) simp_all
qed

lemma normal_message_framed:
  assumes "rfbProcessClientNormalMessage env (srv, cl) = (srv', cl')" "\<not> gone cl'"
    and plain: "incoming (rdev cl) ! 0 \<notin> rich_types"
  shows "\<exists>m. message_size (incoming (rdev cl)) = Some (length m) \<and> incoming (rdev cl) = m @ incoming (rdev cl')"
proof -
  let ?in = "incoming (rdev cl)"
  from read_msg_takes [OF assms(1) [unfolded rfbProcessClientNormalMessage_def] assms(2)]
  obtain t c where t: "length t = 1" "?in = t @ incoming (rdev c)" and f: "message_handler env (t ! 0) (srv, c) = (srv', cl')"
    by blast
  obtain ty where ty: "t = [ty]" using t(1) by (cases t) auto
  have i0: "?in = ty # incoming (rdev c)" using t(2) ty by simp
  have no_rich: "ty \<notin> {rfbRichClipboardAvailable, rfbRichClipboardRequest, rfbRichClipboardData}"
    using plain i0 by (simp add: rich_types_def)
  have close: "\<not> processFixColourMapEntries (srv, c) = (srv', cl')"
  proof
    assume "processFixColourMapEntries (srv, c) = (srv', cl')"
    from read_msg_takes [OF this [unfolded processFixColourMapEntries_def] assms(2)]
    obtain d where "rfbCloseClient d = cl'" by auto
    then show False using assms(2) close_gone [of d] by simp
  qed
  have f1: "(if ty = rfbSetPixelFormat then processSetPixelFormat env
    else if ty = rfbFixColourMapEntries then processFixColourMapEntries
    else if ty = rfbSetEncodings then processSetEncodings
    else if ty = rfbFramebufferUpdateRequest then processFramebufferUpdateRequest
    else if ty = rfbKeyEvent then processKeyEvent
    else if ty = rfbPointerEvent then processPointerEvent
    else if ty = rfbClientCutText then processClientCutText
    else processSetScaleFactor env ty) (srv, c) = (srv', cl')"
    and scale: "ty \<notin> {rfbSetPixelFormat, rfbFixColourMapEntries, rfbSetEncodings, rfbFramebufferUpdateRequest, rfbKeyEvent,
      rfbPointerEvent, rfbClientCutText} \<Longrightarrow> ty = rfbSetScaleFactorULTRA \<or> ty = rfbSetScaleFactor"
    using f assms(2) close_gone no_rich unfolding ty message_handler_def by (auto split: if_splits)
  have "\<exists>m. message_size ?in = Some (Suc (length m)) \<and> incoming (rdev c) = m @ incoming (rdev cl')"
  proof -
    consider "ty = rfbSetPixelFormat" | "ty = rfbFixColourMapEntries" | "ty = rfbSetEncodings"
      | "ty = rfbFramebufferUpdateRequest" | "ty = rfbKeyEvent" | "ty = rfbPointerEvent" | "ty = rfbClientCutText"
      | "ty = rfbSetScaleFactorULTRA \<or> ty = rfbSetScaleFactor"
      using scale by auto
    then show ?thesis
    proof cases
      case 1
      with f1 have "processSetPixelFormat env (srv, c) = (srv', cl')" by simp
      from takes_SetPixelFormat [OF this assms(2)] 1 show ?thesis
        by (auto simp: message_size_def i0 message_sizes)
    next
      case 2
      with f1 close show ?thesis by (simp add: message_types)
    next
      case 3
      with f1 have "processSetEncodings (srv, c) = (srv', cl')" by (simp add: message_types)
      from takes_SetEncodings [OF this assms(2)] obtain m encs where
        m: "length m = 3" "length encs = nat (rd16 (drop 1 m))" "\<forall>e \<in> set encs. length e = 4"
           "incoming (rdev c) = m @ concat encs @ incoming (rdev cl')"
        by (auto simp: message_sizes)
      have "rd16 (drop 2 ?in) = rd16 (drop 1 m)" using m(1) by (simp add: i0 m(4) rd_take)
      moreover have "length (concat encs) = length encs * 4"
        using length_concat_map_const [of encs "\<lambda>e. e" 4] m(3) by simp
      ultimately have "message_size ?in = Some (Suc (length (m @ concat encs)))"
        using 3 m(1,2) by (simp add: message_size_def i0 message_types message_sizes)
      then show ?thesis using m(4) by (intro exI [of _ "m @ concat encs"]) simp
    next
      case 4
      with f1 have "processFramebufferUpdateRequest (srv, c) = (srv', cl')" by (simp add: message_types)
      from takes_FramebufferUpdateRequest [OF this assms(2)] 4 show ?thesis
        by (auto simp: message_size_def i0 message_sizes message_types)
    next
      case 5
      with f1 have "processKeyEvent (srv, c) = (srv', cl')" by (simp add: message_types)
      from takes_KeyEvent [OF this assms(2)] 5 show ?thesis
        by (auto simp: message_size_def i0 message_sizes message_types)
    next
      case 6
      with f1 have "processPointerEvent (srv, c) = (srv', cl')" by (simp add: message_types)
      from takes_PointerEvent [OF this assms(2)] 6 show ?thesis
        by (auto simp: message_size_def i0 message_sizes message_types)
    next
      case 7
      with f1 have "processClientCutText (srv, c) = (srv', cl')" by (simp add: message_types)
      from takes_ClientCutText [OF this assms(2)] obtain m where
        m: "length m = sz_rfbClientCutTextMsg - 1 + nat (rd32 (drop 3 (incoming (rdev c))))"
          "incoming (rdev c) = m @ incoming (rdev cl')" by blast
      have "message_size ?in = Some (Suc (length m))"
        using 7 by (simp add: message_size_def i0 message_types m(1) message_sizes)
      then show ?thesis using m(2) by blast
    next
      case 8
      with f1 have "processSetScaleFactor env ty (srv, c) = (srv', cl')" by (auto simp: message_types)
      from takes_SetScaleFactor [OF this assms(2)] 8 show ?thesis
        by (auto simp: message_size_def i0 message_sizes message_types)
    qed
  qed
  then obtain m where "message_size ?in = Some (Suc (length m))" "incoming (rdev c) = m @ incoming (rdev cl')" by blast
  then show ?thesis using i0 by (intro exI [of _ "ty # m"]) simp
qed

section \<open>The encodings a client is served with\<close>

lemma encoding_fields:
  "enableLastRectEncoding (apply_encoding srv e cl) = (enableLastRectEncoding cl \<or> e = rfbEncodingLastRect)"
  "useRichCursorEncoding (apply_encoding srv e cl) = (useRichCursorEncoding cl \<or> e = rfbEncodingRichCursor)"
  "enableCursorPosUpdates (apply_encoding srv e cl) = (enableCursorPosUpdates cl \<or> e = rfbEncodingPointerPos)"
  "desktopSizeUpdate (apply_encoding srv e cl) = (desktopSizeUpdate cl \<or> e = rfbEncodingDesktopResize)"
  "immediateUpdate (apply_encoding srv e cl) = (immediateUpdate cl \<or> e = rfbImmediateUpdate)"
  "enableXCursorShapeUpdates (apply_encoding srv e cl) = (enableXCursorShapeUpdates cl \<or> e = rfbEncodingXCursor)"
  "preferredEncoding (apply_encoding srv e cl)
    = (if preferredEncoding cl = -1 \<and> e \<in> set real_encodings then int e else preferredEncoding cl)"
  by (simp_all add: apply_encoding_def Let_def real_encodings_def rfbEncodingCopyRect_def rfbEncodingRaw_def
      rfbEncodingRRE_def rfbEncodingCoRRE_def rfbEncodingHextile_def rfbEncodingZlib_def rfbEncodingTight_def
      rfbEncodingZlibHex_def rfbEncodingZRLE_def rfbEncodingUltra_def rfbEncodingLastRect_def rfbEncodingXCursor_def
      rfbEncodingRichCursor_def rfbEncodingPointerPos_def rfbEncodingDesktopResize_def rfbImmediateUpdate_def
      rfbPasteboardRequest_def rfbRichPasteboard_def)

lemma mod16_level: "a \<le> e \<Longrightarrow> e \<le> a + 9 \<Longrightarrow> a mod 16 = 0 \<Longrightarrow> e mod 16 \<le> (9::nat)"
proof -
  assume a: "a \<le> e" "e \<le> a + 9" "a mod 16 = 0"
  then obtain k where "e = a + k" "k \<le> 9" by (metis le_add_diff_inverse add_le_cancel_left)
  then show ?thesis using a(3) by (metis add_0 mod_add_left_eq mod_less_eq_dividend order_trans)
qed

lemma level_fields: "tightCompressLevel cl \<le> 9 \<Longrightarrow> tightCompressLevel (apply_encoding srv e cl) \<le> 9"
  using mod16_level [of rfbEncodingCompressLevel0 e]
  by (simp add: apply_encoding_def Let_def rfbEncodingCompressLevel0_def rfbEncodingCompressLevel9_def)

lemma fold_level_fields:
  "tightCompressLevel cl \<le> 9 \<Longrightarrow> tightCompressLevel (fold (apply_encoding srv) es cl) \<le> 9"
  by (induction es arbitrary: cl) (simp_all add: level_fields)

lemma fold_encoding_fields:
  "enableLastRectEncoding (fold (apply_encoding srv) es cl) = (enableLastRectEncoding cl \<or> rfbEncodingLastRect \<in> set es)"
  "useRichCursorEncoding (fold (apply_encoding srv) es cl) = (useRichCursorEncoding cl \<or> rfbEncodingRichCursor \<in> set es)"
  "enableCursorPosUpdates (fold (apply_encoding srv) es cl) = (enableCursorPosUpdates cl \<or> rfbEncodingPointerPos \<in> set es)"
  "desktopSizeUpdate (fold (apply_encoding srv) es cl) = (desktopSizeUpdate cl \<or> rfbEncodingDesktopResize \<in> set es)"
  "immediateUpdate (fold (apply_encoding srv) es cl) = (immediateUpdate cl \<or> rfbImmediateUpdate \<in> set es)"
  "enableXCursorShapeUpdates (fold (apply_encoding srv) es cl) = (enableXCursorShapeUpdates cl \<or> rfbEncodingXCursor \<in> set es)"
  by (induction es arbitrary: cl) (auto simp: encoding_fields)

text \<open>The settings that the last entry of a kind determines.\<close>

definition is_compress_level :: "nat \<Rightarrow> bool" where
  "is_compress_level e \<longleftrightarrow> rfbEncodingCompressLevel0 \<le> e \<and> e \<le> rfbEncodingCompressLevel9"

definition is_quality_level :: "nat \<Rightarrow> bool" where
  "is_quality_level e \<longleftrightarrow> rfbEncodingQualityLevel0 \<le> e \<and> e \<le> rfbEncodingQualityLevel9"

definition last_level :: "(nat \<Rightarrow> bool) \<Rightarrow> nat list \<Rightarrow> nat \<Rightarrow> nat" where
  "last_level p es old = (case find p (rev es) of Some e \<Rightarrow> e mod 16 | None \<Rightarrow> old)"

lemma encoding_levels:
  "zlibCompressLevel (apply_encoding srv e cl) = (if is_compress_level e then e mod 16 else zlibCompressLevel cl)"
  "tightCompressLevel (apply_encoding srv e cl) = (if is_compress_level e then e mod 16 else tightCompressLevel cl)"
  "tightQualityLevel (apply_encoding srv e cl) = (if is_quality_level e then int (e mod 16) else tightQualityLevel cl)"
  "richClipboardSupport (apply_encoding srv e cl) =
    (richClipboardSupport cl \<or> e = rfbRichPasteboard \<and> \<not> rfbDisableRichClipboards srv)"
  by (simp_all add: apply_encoding_def Let_def real_encodings_def is_compress_level_def is_quality_level_def rfbEncodingCopyRect_def
      rfbEncodingRaw_def rfbEncodingRRE_def rfbEncodingCoRRE_def rfbEncodingHextile_def rfbEncodingZlib_def rfbEncodingTight_def
      rfbEncodingZlibHex_def rfbEncodingZRLE_def rfbEncodingUltra_def rfbEncodingLastRect_def rfbEncodingXCursor_def
      rfbEncodingRichCursor_def rfbEncodingPointerPos_def rfbEncodingDesktopResize_def rfbImmediateUpdate_def
      rfbPasteboardRequest_def rfbRichPasteboard_def rfbEncodingCompressLevel0_def rfbEncodingCompressLevel9_def
      rfbEncodingQualityLevel0_def rfbEncodingQualityLevel9_def)

lemma fold_encoding_levels:
  "zlibCompressLevel (fold (apply_encoding srv) es cl) = last_level is_compress_level es (zlibCompressLevel cl)"
  "tightCompressLevel (fold (apply_encoding srv) es cl) = last_level is_compress_level es (tightCompressLevel cl)"
  "tightQualityLevel (fold (apply_encoding srv) es cl) =
    (case find is_quality_level (rev es) of Some e \<Rightarrow> int (e mod 16) | None \<Rightarrow> tightQualityLevel cl)"
  "richClipboardSupport (fold (apply_encoding srv) es cl) =
    (richClipboardSupport cl \<or> rfbRichPasteboard \<in> set es \<and> \<not> rfbDisableRichClipboards srv)"
  by (induction es rule: rev_induct) (auto simp: encoding_levels last_level_def)

lemma clear_levels:
  "zlibCompressLevel (clear_encodings cl) = zlibCompressLevel cl" "tightCompressLevel (clear_encodings cl) = tightCompressLevel cl"
  "tightQualityLevel (clear_encodings cl) = tightQualityLevel cl" "richClipboardSupport (clear_encodings cl) = richClipboardSupport cl"
  by (simp_all add: clear_encodings_def)

lemma fold_encoding_preferred:
  "preferredEncoding (fold (apply_encoding srv) es cl) =
    (if preferredEncoding cl \<noteq> -1 then preferredEncoding cl
     else case find (\<lambda>e. e \<in> set real_encodings) es of Some e \<Rightarrow> int e | None \<Rightarrow> -1)"
  by (induction es arbitrary: cl) (simp_all add: encoding_fields)

section \<open>Clients stay fit for the encoders\<close>

text \<open>
  What the sender of updates relies on: a translation that belongs to the formats, lines of whole
  pixels, a scaling factor, piece sizes, an encoding that is implemented, and a compression level
  that is an index of the table of levels.
\<close>

definition server_ok :: "server \<Rightarrow> bool" where
  "server_ok srv \<longleftrightarrow> valid_bpp (bitsPerPixel (rfbServerFormat srv)) \<and>
     sbitsPerPixel (rfbScreen srv) = bitsPerPixel (rfbServerFormat srv) \<and>
     (bitsPerPixel (rfbServerFormat srv) div 8) dvd paddedWidthInBytes (rfbScreen srv)"

definition client_ok :: "server \<Rightarrow> rfbClientRec \<Rightarrow> bool" where
  "client_ok srv cl \<longleftrightarrow> drawable srv cl \<and> 0 < scalingFactor cl \<and>
     0 < correMaxWidth cl \<and> correMaxWidth cl < 256 \<and> 0 < correMaxHeight cl \<and> correMaxHeight cl < 256 \<and>
     preferredEncoding cl \<in> int ` set real_encodings \<and> tightCompressLevel cl \<le> 9"

lemma drawable_more:
  fixes a b :: rfbClientRec
  assumes "conn.more a = conn.more b"
  shows "drawable srv a = drawable srv b"
proof -
  have "settings a = settings b" using assms by (cases a; cases b; simp add: settings_def)
  then show ?thesis using drawable_settings [of srv a b] drawable_settings [of srv b a] by auto
qed

lemma more_fields_ok:
  fixes a b :: rfbClientRec
  assumes "conn.more a = conn.more b"
  shows "scalingFactor a = scalingFactor b" "scalingPaddedWidthInBytes a = scalingPaddedWidthInBytes b"
    "correMaxWidth a = correMaxWidth b" "correMaxHeight a = correMaxHeight b"
    "preferredEncoding a = preferredEncoding b" "tightCompressLevel a = tightCompressLevel b"
  using assms by (cases a; cases b; simp)+

lemma client_ok_more:
  fixes a b :: rfbClientRec
  assumes "conn.more a = conn.more b"
  shows "client_ok srv a = client_ok srv b"
  using more_fields_ok [OF assms] drawable_more [OF assms, of srv] by (simp add: client_ok_def)

lemma client_ok_updates [simp]:
  "client_ok srv (cl\<lparr>requestedRegion := r\<rparr>) = client_ok srv cl"
  "client_ok srv (cl\<lparr>modifiedRegion := r\<rparr>) = client_ok srv cl"
  "client_ok srv (cl\<lparr>outputWaiting := w\<rparr>) = client_ok srv cl" "client_ok srv (pthread_cond_signal cl) = client_ok srv cl"
  "client_ok srv (cl\<lparr>rfbKeyEventsRcvd := k\<rparr>) = client_ok srv cl"
  "client_ok srv (cl\<lparr>rfbPointerEventsRcvd := k\<rparr>) = client_ok srv cl"
  "client_ok (srv\<lparr>events := es\<rparr>) cl = client_ok srv cl"
  "client_ok (srv\<lparr>pointerClient := p\<rparr>) cl = client_ok srv cl"
  by (simp_all add: client_ok_def drawable_def trans_ok_def pthread_cond_signal_def cong: trans_fn.case_cong)

lemma client_ok_settings:
  assumes "settings a = settings b"
  shows "client_ok srv a = client_ok srv b"
proof -
  have "tightCompressLevel a = tightCompressLevel b" using assms by (cases a; cases b; simp add: settings_def)
  then show ?thesis using settings_fields [OF assms] drawable_settings [OF _ assms, of srv]
      drawable_settings [OF _ assms [symmetric], of srv] by (auto simp: client_ok_def)
qed

text \<open>A handler that keeps clients fit, unless they are gone.\<close>

definition keeps_ok :: "handler \<Rightarrow> bool" where
  "keeps_ok h \<longleftrightarrow> (\<forall>srv cl srv' cl'. h (srv, cl) = (srv', cl') \<longrightarrow> server_ok srv \<longrightarrow> client_ok srv cl \<longrightarrow>
     srv' = srv\<lparr>events := events srv', pointerClient := pointerClient srv'\<rparr> \<and> (gone cl' \<or> client_ok srv cl'))"

lemma keeps_okI:
  assumes "\<And>srv cl. server_ok srv \<Longrightarrow> client_ok srv cl \<Longrightarrow>
      fst (h (srv, cl)) = srv\<lparr>events := events (fst (h (srv, cl))), pointerClient := pointerClient (fst (h (srv, cl)))\<rparr>"
    "\<And>srv cl. server_ok srv \<Longrightarrow> client_ok srv cl \<Longrightarrow> \<not> gone (snd (h (srv, cl))) \<Longrightarrow> client_ok srv (snd (h (srv, cl)))"
  shows "keeps_ok h"
  unfolding keeps_ok_def
proof (intro allI impI)
  fix srv cl srv' cl' assume h: "h (srv, cl) = (srv', cl')" and ok: "server_ok srv" "client_ok srv cl"
  show "srv' = srv\<lparr>events := events srv', pointerClient := pointerClient srv'\<rparr> \<and> (gone cl' \<or> client_ok srv cl')"
    using assms(1) [OF ok] assms(2) [OF ok] by (auto simp: h)
qed

lemma keeps_okD:
  "keeps_ok h \<Longrightarrow> h (srv, cl) = (srv', cl') \<Longrightarrow> server_ok srv \<Longrightarrow> client_ok srv cl \<Longrightarrow>
    srv' = srv\<lparr>events := events srv', pointerClient := pointerClient srv'\<rparr> \<and> (gone cl' \<or> client_ok srv cl')"
  unfolding keeps_ok_def by blast

lemma keeps_ok_read:
  assumes "\<And>msg. keeps_ok (f msg)"
  shows "keeps_ok (read_msg n f)"
  unfolding keeps_ok_def
proof (intro allI impI)
  fix srv cl srv' cl' assume h: "read_msg n f (srv, cl) = (srv', cl')" and ok: "server_ok srv" "client_ok srv cl"
  show "srv' = srv\<lparr>events := events srv', pointerClient := pointerClient srv'\<rparr> \<and> (gone cl' \<or> client_ok srv cl')"
  proof (cases "read_or_close n cl")
    case (Inl c)
    then have "srv' = srv" "cl' = c" using h by (simp_all add: read_msg_def)
    then show ?thesis using read_Inl_gone [OF Inl] by simp
  next
    case (Inr p)
    obtain msg c where p: "p = (msg, c)" by fastforce
    then have "f msg (srv, c) = (srv', cl')" using h Inr by (simp add: read_msg_def)
    moreover have "client_ok srv c" using client_ok_more [OF read_or_close_Inr(2) [OF Inr [unfolded p]]] ok(2) by simp
    ultimately show ?thesis using assms [of msg] ok(1) by (simp add: keeps_ok_def)
  qed
qed

lemma ok_FixColourMapEntries: "keeps_ok processFixColourMapEntries"
  unfolding processFixColourMapEntries_def by (rule keeps_ok_read, rule keeps_okI) auto

lemma ok_FramebufferUpdateRequest: "keeps_ok processFramebufferUpdateRequest"
  unfolding processFramebufferUpdateRequest_def
  by (rule keeps_ok_read, rule keeps_okI) (auto simp: record_request_def Let_def)

lemma ok_ClientCutText: "keeps_ok processClientCutText"
  unfolding processClientCutText_def by (rule keeps_ok_read, rule keeps_ok_read, rule keeps_okI) (auto simp: Let_def)

lemma SetTranslate_keeps:
  "scalingFactor (snd (rfbSetTranslateFunction pad srv cl)) = scalingFactor cl"
  "scalingPaddedWidthInBytes (snd (rfbSetTranslateFunction pad srv cl)) = scalingPaddedWidthInBytes cl"
  "correMaxWidth (snd (rfbSetTranslateFunction pad srv cl)) = correMaxWidth cl"
  "correMaxHeight (snd (rfbSetTranslateFunction pad srv cl)) = correMaxHeight cl"
  "preferredEncoding (snd (rfbSetTranslateFunction pad srv cl)) = preferredEncoding cl"
  "tightCompressLevel (snd (rfbSetTranslateFunction pad srv cl)) = tightCompressLevel cl"
proof -
  let ?cl = "cl\<lparr>translateFn := TransNone, translateLookupTable := NoTable\<rparr>"
  obtain ok c where w: "write_or_close (1 # pad # be16 0 @ be16 256 @ bgr233_map) ?cl = (ok, c)" by fastforce
  have m: "conn.more c = conn.more ?cl" using write_or_close_more [of "1 # pad # be16 0 @ be16 256 @ bgr233_map" ?cl] w by simp
  note f = more_fields_ok [OF m, simplified]
  let ?keeps = "\<lambda>d. scalingFactor d = scalingFactor cl \<and> scalingPaddedWidthInBytes d = scalingPaddedWidthInBytes cl \<and>
    correMaxWidth d = correMaxWidth cl \<and> correMaxHeight d = correMaxHeight cl \<and>
    preferredEncoding d = preferredEncoding cl \<and> tightCompressLevel d = tightCompressLevel cl"
  have "?keeps (snd (rfbSetTranslateFunction pad srv cl))"
    unfolding rfbSetTranslateFunction_def rfbSetTranslateFunctionUsingFormat_def rfbSetClientColourMapBGR233_def
    using f by (cases ok) (simp_all add: w choose_translation_def rfbCloseClient_def)
  then show "scalingFactor (snd (rfbSetTranslateFunction pad srv cl)) = scalingFactor cl"
    "scalingPaddedWidthInBytes (snd (rfbSetTranslateFunction pad srv cl)) = scalingPaddedWidthInBytes cl"
    "correMaxWidth (snd (rfbSetTranslateFunction pad srv cl)) = correMaxWidth cl"
    "correMaxHeight (snd (rfbSetTranslateFunction pad srv cl)) = correMaxHeight cl"
    "preferredEncoding (snd (rfbSetTranslateFunction pad srv cl)) = preferredEncoding cl"
    "tightCompressLevel (snd (rfbSetTranslateFunction pad srv cl)) = tightCompressLevel cl" by simp_all
qed

lemma ok_SetPixelFormat: "keeps_ok (processSetPixelFormat env)"
  unfolding processSetPixelFormat_def
proof (rule keeps_ok_read, rule keeps_okI)
  fix msg srv cl assume ok: "server_ok srv" "client_ok srv cl"
  let ?f = "\<lambda>(srv, cl). let fmt = get_format (drop 3 msg) in
      if rfbMaxBitDepth srv = 0 \<or> bitsPerPixel fmt \<le> rfbMaxBitDepth srv
      then (srv, snd (rfbSetTranslateFunction (stackByte env 0) srv (cl\<lparr>format := fmt\<rparr>))) else (srv, cl)"
  show "fst (?f (srv, cl)) = srv\<lparr>events := events (fst (?f (srv, cl))), pointerClient := pointerClient (fst (?f (srv, cl)))\<rparr>"
    by (simp add: Let_def)
  assume g: "\<not> gone (snd (?f (srv, cl)))"
  let ?fmt = "get_format (drop 3 msg)"
  show "client_ok srv (snd (?f (srv, cl)))"
  proof (cases "rfbMaxBitDepth srv = 0 \<or> bitsPerPixel ?fmt \<le> rfbMaxBitDepth srv")
    case True
    let ?c = "snd (rfbSetTranslateFunction (stackByte env 0) srv (cl\<lparr>format := ?fmt\<rparr>))"
    have e: "?f (srv, cl) = (srv, ?c)" using True by (simp add: Let_def)
    have "valid_bpp (bitsPerPixel (format ?c)) \<and> valid_bpp (bitsPerPixel (rfbServerFormat srv)) \<and> trans_ok srv ?c"
      using g SetTranslate_sound [of srv "stackByte env 0" "cl\<lparr>format := ?fmt\<rparr>"]
      unfolding e by (auto simp: gone_def split: prod.splits if_splits)
    then show ?thesis unfolding e using ok SetTranslate_keeps [of "stackByte env 0" srv "cl\<lparr>format := ?fmt\<rparr>"]
      by (simp add: client_ok_def drawable_def)
  next
    case False
    then show ?thesis using ok by (simp add: Let_def)
  qed
qed

lemma ok_KeyEvent: "keeps_ok processKeyEvent"
proof -
  let ?f = "\<lambda>msg (srv, cl). (if \<not> disableRemoteEvents cl
      then srv\<lparr>events := events srv @ [KbdAddEvent (msg ! 0 \<noteq> 0) (rd32 (drop 3 msg)) (cid cl)]\<rparr> else srv, cl)"
  have "keeps_ok (read_msg (sz_rfbKeyEventMsg - 1) ?f)" by (rule keeps_ok_read, rule keeps_okI) auto
  then show ?thesis unfolding processKeyEvent_def keeps_ok_def Let_def prod.case by (simp split: if_split)
qed

lemma ok_PointerEvent: "keeps_ok processPointerEvent"
proof -
  let ?f = "\<lambda>msg (srv, cl).
         if disableRemoteEvents cl \<or> (pointerClient srv \<noteq> None \<and> pointerClient srv \<noteq> Some (cid cl)) then (srv, cl)
         else
           (srv\<lparr>pointerClient := (if msg ! 0 = 0 then None else Some (cid cl))\<rparr>\<lparr>events :=
               events (srv\<lparr>pointerClient := (if msg ! 0 = 0 then None else Some (cid cl))\<rparr>) @
                 [PtrAddEvent (msg ! 0) ((rd16 (drop 1 msg) + int (scalingFactor cl) - 1) * int (scalingFactor cl))
                    ((rd16 (drop 3 msg) + int (scalingFactor cl) - 1) * int (scalingFactor cl)) (cid cl)]\<rparr>, cl)"
  have "keeps_ok (read_msg (sz_rfbPointerEventMsg - 1) ?f)" by (rule keeps_ok_read, rule keeps_okI) auto
  then show ?thesis unfolding processPointerEvent_def keeps_ok_def Let_def prod.case by (simp split: if_split)
qed

lemma apply_encoding_keeps:
  "drawable srv (apply_encoding srv' e cl) = drawable srv cl"
  "scalingFactor (apply_encoding srv' e cl) = scalingFactor cl"
  "correMaxWidth (apply_encoding srv' e cl) = correMaxWidth cl"
  "correMaxHeight (apply_encoding srv' e cl) = correMaxHeight cl"
  by (simp_all add: apply_encoding_def Let_def drawable_def trans_ok_def cong: trans_fn.case_cong)

lemma fold_encoding_keeps:
  "drawable srv (fold (apply_encoding srv') es cl) = drawable srv cl"
  "scalingFactor (fold (apply_encoding srv') es cl) = scalingFactor cl"
  "correMaxWidth (fold (apply_encoding srv') es cl) = correMaxWidth cl"
  "correMaxHeight (fold (apply_encoding srv') es cl) = correMaxHeight cl"
  by (induction es arbitrary: cl) (simp_all add: apply_encoding_keeps)

lemma SetEncodings_server: "fst (processSetEncodings (srv, cl)) = srv"
  by (simp add: processSetEncodings_def read_msg_def set_encodings_def Let_def split: sum.split prod.split)

lemma ok_SetEncodings: "keeps_ok processSetEncodings"
proof (rule keeps_okI)
  fix srv cl assume ok: "server_ok srv" "client_ok srv cl"
  show "fst (processSetEncodings (srv, cl)) = srv\<lparr>events := events (fst (processSetEncodings (srv, cl))),
      pointerClient := pointerClient (fst (processSetEncodings (srv, cl)))\<rparr>" by (simp add: SetEncodings_server)
  assume g: "\<not> gone (snd (processSetEncodings (srv, cl)))"
  obtain srv' cl' where h: "processSetEncodings (srv, cl) = (srv', cl')" by fastforce
  have "\<not> gone cl'" using g h by simp
  from takes_SetEncodings [OF h this] obtain encs where
    "cl' = (let c = fold (apply_encoding srv) (map (\<lambda>e. nat (rd32 e)) encs) (clear_encodings cl) in
       c\<lparr>preferredEncoding := (if preferredEncoding c = -1 then int rfbEncodingRaw else preferredEncoding c),
       updateLocked := False, rdev := rdev cl', errno := errno cl'\<rparr>)" unfolding Let_def by blast
  then obtain es r n where
    "cl' = (let c = fold (apply_encoding srv) es (clear_encodings cl) in
       c\<lparr>preferredEncoding := (if preferredEncoding c = -1 then int rfbEncodingRaw else preferredEncoding c),
       updateLocked := False, rdev := r, errno := n\<rparr>)" by blast
  moreover define c where "c = fold (apply_encoding srv) es (clear_encodings cl)"
  ultimately have cl': "cl' = c\<lparr>preferredEncoding := (if preferredEncoding c = -1 then int rfbEncodingRaw else preferredEncoding c),
       updateLocked := False, rdev := r, errno := n\<rparr>" by (simp add: Let_def)
  have pe: "preferredEncoding c \<in> insert (-1) (int ` set real_encodings)"
    unfolding c_def by (auto simp: fold_encoding_preferred clear_encodings_def find_Some_iff split: option.split)
  have raw: "rfbEncodingRaw \<in> set real_encodings" by (simp add: real_encodings_def)
  have "tightCompressLevel c \<le> 9"
    unfolding c_def using ok(2) by (intro fold_level_fields) (simp add: clear_encodings_def client_ok_def)
  moreover have "drawable srv (clear_encodings cl)"
    using ok(2) by (simp add: client_ok_def clear_encodings_def drawable_def trans_ok_def cong: trans_fn.case_cong)
  then have "drawable srv c" by (simp add: c_def fold_encoding_keeps)
  moreover have "scalingFactor c = scalingFactor cl" "correMaxWidth c = correMaxWidth cl" "correMaxHeight c = correMaxHeight cl"
    unfolding c_def by (simp_all add: fold_encoding_keeps clear_encodings_def)
  moreover have "client_ok srv (c\<lparr>preferredEncoding := e, updateLocked := False, rdev := r, errno := n\<rparr>)
      \<longleftrightarrow> client_ok srv c \<or> drawable srv c \<and> 0 < scalingFactor c \<and> 0 < correMaxWidth c \<and> correMaxWidth c < 256 \<and>
        0 < correMaxHeight c \<and> correMaxHeight c < 256 \<and> tightCompressLevel c \<le> 9" if "e \<in> int ` set real_encodings" for e
    using that by (auto simp: client_ok_def drawable_def trans_ok_def cong: trans_fn.case_cong)
  ultimately have "client_ok srv (c\<lparr>preferredEncoding := e, updateLocked := False, rdev := r, errno := n\<rparr>)"
    if "e \<in> int ` set real_encodings" for e using that ok(2) by (simp add: client_ok_def)
  moreover have "(if preferredEncoding c = -1 then int rfbEncodingRaw else preferredEncoding c) \<in> int ` set real_encodings"
    using pe raw by auto
  ultimately show "client_ok srv (snd (processSetEncodings (srv, cl)))"
    unfolding h snd_conv by (subst cl') blast
qed

lemma ScreenUpdate_settings:
  "ublen cl \<le> UPDATE_BUF_SIZE \<Longrightarrow> settings (snd (rfbSendScreenUpdateEncoding srv cl)) = settings cl"
  using sends_ScreenUpdate [of cl srv] by (simp add: sends_def)

lemma rescale_ok:
  assumes "server_ok srv" "client_ok srv cl" "scale \<noteq> 0"
  shows "client_ok srv (rescale env srv scale cl)"
proof -
  have n: "bitsPerPixel (rfbServerFormat srv) div 8 dvd k * bitsPerPixel (rfbServerFormat srv) div 8" for k
    using assms(1) by (auto simp: server_ok_def valid_bpp_def mult.commute [of k])
  show ?thesis using assms n unfolding client_ok_def drawable_def server_ok_def rescale_def Let_def
    by (simp add: trans_ok_def cong: trans_fn.case_cong)
qed

lemma ok_SetScaleFactor: "keeps_ok (processSetScaleFactor env ty)"
  unfolding processSetScaleFactor_def
proof (rule keeps_ok_read, rule keeps_okI)
  fix msg srv cl
  show "fst (set_scale env ty msg (srv, cl)) = srv\<lparr>events := events (fst (set_scale env ty msg (srv, cl))),
      pointerClient := pointerClient (fst (set_scale env ty msg (srv, cl)))\<rparr>"
    by (simp add: set_scale_def Let_def)
  assume ok: "server_ok srv" "client_ok srv cl" and g: "\<not> gone (snd (set_scale env ty msg (srv, cl)))"
  let ?s = "unat (msg ! 0 :: u8)"
  let ?cl = "rescale env srv ?s cl"
  consider "scalingFactor cl = ?s" | "scalingFactor cl \<noteq> ?s" "?s = 0"
    | "scalingFactor cl \<noteq> ?s" "?s \<noteq> 0" "ty = rfbSetScaleFactor" | "scalingFactor cl \<noteq> ?s" "?s \<noteq> 0" "ty \<noteq> rfbSetScaleFactor"
    by blast
  then show "client_ok srv (snd (set_scale env ty msg (srv, cl)))"
  proof cases
    case 1
    then show ?thesis using ok(2) by (simp add: set_scale_def)
  next
    case 2
    then have "gone (snd (set_scale env ty msg (srv, cl)))" by (simp add: set_scale_def gone_def)
    then show ?thesis using g by simp
  next
    case 3
    then have "snd (set_scale env ty msg (srv, cl)) = snd (write_or_close (resize_msg env srv ?s) ?cl)"
      by (simp add: set_scale_def Let_def)
    then show ?thesis using rescale_ok [OF ok 3(2)] client_ok_more [OF write_or_close_more] by simp
  next
    case 4
    let ?c = "?cl\<lparr>updateBuf := fu_header (stackByte env 4) 1\<rparr>"
    have "snd (set_scale env ty msg (srv, cl)) = snd (rfbSendScreenUpdateEncoding srv ?c)"
      using 4 by (simp add: set_scale_def Let_def)
    moreover have "settings (snd (rfbSendScreenUpdateEncoding srv ?c)) = settings ?cl"
      using ScreenUpdate_settings [of ?c srv] by (simp add: ublen_def fu_header_def UPDATE_BUF_SIZE_def)
    ultimately show ?thesis using client_ok_settings [of _ ?cl srv] rescale_ok [OF ok 4(2)] by simp
  qed
qed

lemma normal_message_ok:
  assumes "server_ok srv" "client_ok srv cl" "rfbProcessClientNormalMessage env (srv, cl) = (srv', cl')"
    and plain: "incoming (rdev cl) ! 0 \<notin> rich_types"
  shows "srv' = srv\<lparr>events := events srv', pointerClient := pointerClient srv'\<rparr> \<and> (gone cl' \<or> client_ok srv cl')"
proof (cases "read_or_close 1 cl")
  case (Inl c)
  then show ?thesis using assms(3) read_Inl_gone [OF Inl] by (simp add: rfbProcessClientNormalMessage_def read_msg_def)
next
  case (Inr p)
  obtain t c where p: "p = (t, c)" by fastforce
  note r = read_takes [OF Inr [unfolded p]] read_or_close_Inr(2) [OF Inr [unfolded p]]
  obtain ty where ty: "t = [ty]" using r(2) by (cases t) auto
  have no_rich: "ty \<notin> {rfbRichClipboardAvailable, rfbRichClipboardRequest, rfbRichClipboardData}"
    using plain r(1) by (simp add: rich_types_def ty)
  let ?h = "if ty = rfbSetPixelFormat then processSetPixelFormat env
    else if ty = rfbFixColourMapEntries then processFixColourMapEntries
    else if ty = rfbSetEncodings then processSetEncodings
    else if ty = rfbFramebufferUpdateRequest then processFramebufferUpdateRequest
    else if ty = rfbKeyEvent then processKeyEvent
    else if ty = rfbPointerEvent then processPointerEvent
    else if ty = rfbClientCutText then processClientCutText
    else if ty = rfbSetScaleFactorULTRA \<or> ty = rfbSetScaleFactor then processSetScaleFactor env ty
    else (\<lambda>(srv, cl). (srv, rfbCloseClient cl))"
  have "keeps_ok (\<lambda>(srv, cl). (srv, rfbCloseClient cl))" by (rule keeps_okI) auto
  moreover define h where "h = ?h"
  ultimately have k: "keeps_ok h" unfolding h_def
    by (simp add: ok_SetPixelFormat ok_FixColourMapEntries ok_SetEncodings ok_FramebufferUpdateRequest ok_KeyEvent
        ok_PointerEvent ok_ClientCutText ok_SetScaleFactor)
  have "message_handler env ty = h"
    unfolding h_def message_handler_def if_not_P [OF no_rich] ..
  moreover have "rfbProcessClientNormalMessage env (srv, cl) = message_handler env ty (srv, c)"
    unfolding rfbProcessClientNormalMessage_def read_msg_def prod.case Inr p ty by simp
  ultimately have "h (srv, c) = (srv', cl')" using assms(3) by simp
  moreover have "client_ok srv c" using client_ok_more [OF r(3)] assms(2) by simp
  ultimately show ?thesis using keeps_okD [OF k _ assms(1)] by blast
qed

section \<open>Requests and the regions of a client\<close>

lemma region_add_ok:
  assumes "region_ok a" "region_ok b"
  shows "region_ok (region_add a b)" "area (region_add a b) = area a \<union> area b"
  using miUnion_computes [of "(\<lambda>_. b)(0 := a)" 0 1 0] assms by (simp_all add: region_add_def computes_def)

lemma SAFE_REGION_INIT_ok:
  assumes "bx1 r \<le> bx2 r" "by1 r \<le> by2 r"
  shows "region_ok (SAFE_REGION_INIT r)" "area (SAFE_REGION_INIT r) = {(x, y). INBOX r x y}"
  using assms by (auto simp: SAFE_REGION_INIT_def miRegionInit_def region_ok_def solid_def miEmptyBox_def
      area_def REGION_RECTS_def mem_pts INBOX_def)

definition request_bytes :: "u8 \<Rightarrow> int \<Rightarrow> int \<Rightarrow> int \<Rightarrow> int \<Rightarrow> u8 list" where
  "request_bytes inc x y w h = [inc] @ be16 x @ be16 y @ be16 w @ be16 h"

lemma request_fields:
  assumes "length msg = 9" "msg @ a = request_bytes inc x y w h @ b" "{x, y, w, h} \<subseteq> {0..<65536}"
  shows "msg ! 0 = inc" "rd16 (drop 1 msg) = x" "rd16 (drop 3 msg) = y" "rd16 (drop 5 msg) = w" "rd16 (drop 7 msg) = h"
proof -
  have m: "msg = request_bytes inc x y w h" using append_eq_append_conv [of msg "request_bytes inc x y w h" a b] assms(1,2)
    by (simp add: request_bytes_def)
  have d: "drop 3 msg = be16 y @ be16 w @ be16 h @ []" "drop 5 msg = be16 w @ be16 h @ []" "drop 7 msg = be16 h @ []"
    by (simp_all add: m request_bytes_def be16_def)
  show "msg ! 0 = inc" "rd16 (drop 1 msg) = x" by (use assms(3) in \<open>simp_all add: m request_bytes_def rd16_be16\<close>)
  show "rd16 (drop 3 msg) = y" "rd16 (drop 5 msg) = w" "rd16 (drop 7 msg) = h"
    unfolding d rd16_be16 using assms(3) by simp_all
qed

text \<open>What a request that arrives does to the two regions.\<close>

lemma request_effect:
  assumes "processFramebufferUpdateRequest (srv, cl) = (srv', cl')" "\<not> gone cl'"
    and m: "incoming (rdev cl) = request_bytes inc x y w h @ rest" "{x, y, w, h} \<subseteq> {0..<65536}"
  shows "requestedRegion cl' = region_add (requestedRegion cl) (SAFE_REGION_INIT (request_box (int (scalingFactor cl)) x y w h))"
    "modifiedRegion cl' = (if inc = 0
      then region_add (modifiedRegion cl) (SAFE_REGION_INIT (request_box (int (scalingFactor cl)) x y w h)) else modifiedRegion cl)"
    "\<not> outputWaiting cl'"
proof -
  obtain msg c where c: "length msg = sz_rfbFramebufferUpdateRequestMsg - 1" "incoming (rdev cl) = msg @ incoming (rdev c)"
      "record_request msg (srv, c) = (srv', cl')" "read_or_close (sz_rfbFramebufferUpdateRequestMsg - 1) cl = Inr (msg, c)"
    by (rule read_msg_takes [OF assms(1) [unfolded processFramebufferUpdateRequest_def] assms(2)])
  obtain r e where ce: "c = cl\<lparr>rdev := r, errno := e\<rparr>" using read_Inr_eq [OF c(4)] by blast
  have l: "length msg = 9" using c(1) by (simp add: message_sizes)
  have "msg @ incoming (rdev c) = request_bytes inc x y w h @ rest" using m(1) c(2) by simp
  note f = request_fields [OF l this m(2), unfolded One_nat_def]
  show "requestedRegion cl' = region_add (requestedRegion cl) (SAFE_REGION_INIT (request_box (int (scalingFactor cl)) x y w h))"
    "modifiedRegion cl' = (if inc = 0
      then region_add (modifiedRegion cl) (SAFE_REGION_INIT (request_box (int (scalingFactor cl)) x y w h)) else modifiedRegion cl)"
    "\<not> outputWaiting cl'"
    using c(3) f by (cases "inc = 0"; auto simp: record_request_def ce Let_def)+
qed

lemma request_box_unscaled:
  assumes "0 \<le> x" "0 \<le> y" "0 \<le> w" "0 \<le> h" "x + w \<le> MAXSHORT" "y + h \<le> MAXSHORT"
  shows "request_box 1 x y w h = box x y (x + w) (y + h)"
  using assms by (simp add: request_box_def Let_def short_id MINSHORT_def MAXSHORT_def)

lemma short_wide: "-32768 \<le> n \<Longrightarrow> n \<le> 32767 \<Longrightarrow> short n = n"
  by (simp add: short_def sint_sbintrunc' signed_take_bit_int_eq_self_iff)

lemma short_wraps:
  assumes "32768 \<le> n" "n < 65536"
  shows "short n = n - 65536"
proof -
  have "(word_of_int (n - 65536) :: 16 word) = word_of_int n" by simp
  then have "short n = short (n - 65536)" by (simp only: short_def)
  then show ?thesis using assms by (simp add: short_wide)
qed

lemma request_box_wraps:
  assumes "0 \<le> x" "x \<le> MAXSHORT" "MAXSHORT < x + w" "x + w < 65536" "0 \<le> y" "0 \<le> h" "y + h \<le> MAXSHORT"
  shows "request_box 1 x y w h = box x y (x + w - 65536) (y + h)"
  using assms by (simp add: request_box_def Let_def short_wide short_wraps MAXSHORT_def)

lemma region_add_NIL: "REGION_NIL a \<Longrightarrow> region_add a b = b"
  by (simp add: region_add_def miUnion_def miRegionCopy_def)

text \<open>A client of whom the given bytes arrive, for the applications of the properties.\<close>

definition demo_env :: env where
  "demo_env = \<lparr>stackByte = (\<lambda>_. 0), heapBytes = (\<lambda>_. 0), richClipboard = (\<lambda>_ p. p), shiftPast = (\<lambda>_. 1)\<rparr>"

definition demo_sends :: "u8 list \<Rightarrow> rfbClientRec" where
  "demo_sends bs = demo_client\<lparr>rdev := [RdData bs]\<rparr>"

lemma incoming_demo: "bs \<noteq> [] \<Longrightarrow> incoming (rdev (demo_sends bs)) = bs"
  by (simp add: demo_sends_def)

lemmas demo_run = demo_sends_def demo_client_def rfbProcessClientNormalMessage_def
  message_handler_def read_msg_def read_or_close_def ReadExact_def message_types message_sizes

lemma demo_server_ok: "server_ok demo_server"
  by (simp add: server_ok_def demo_server_def demo_format_def valid_bpp_def)

lemma demo_client_ok: "client_ok demo_server (demo_sends bs)"
  using demo_drawable client_ok_more [of "demo_sends bs" demo_client demo_server]
  by (simp add: client_ok_def demo_sends_def) (simp add: demo_client_def real_encodings_def rfbEncodingRaw_def)

section \<open>Properties\<close>

text \<open>
  C6: The server stays in step with the client. Whatever the message but for the three of the clipboard
  extension (types 0x83, 0x84 and 0x85), the handler either closes the client or ends the process, or has taken exactly the bytes
  of one message from the stream, with the length that the type of the message and its count fields
  give; the next message begins where this one ended.
\<close>

theorem messages_in_step:
  assumes "rfbProcessClientNormalMessage env (srv, cl) = (srv', cl')" "\<not> gone cl'"
    and "incoming (rdev cl) ! 0 \<notin> rich_types"
  shows "\<exists>m. message_size (incoming (rdev cl)) = Some (length m) \<and> incoming (rdev cl) = m @ incoming (rdev cl')"
  by (rule normal_message_framed [OF assms])

theorem messages_in_step_witness:
  "\<exists>m. message_size [4, 1, 0, 0, 0, 0, 0, 97, 5] = Some (length m) \<and> [4, 1, 0, 0, 0, 0, 0, 97, 5] =
    m @ incoming (rdev (snd (rfbProcessClientNormalMessage demo_env (demo_server, demo_sends [4, 1, 0, 0, 0, 0, 0, 97, 5]))))"
proof -
  let ?bs = "[4, 1, 0, 0, 0, 0, 0, 97, 5]"
  obtain srv' cl' where r: "rfbProcessClientNormalMessage demo_env (demo_server, demo_sends ?bs) = (srv', cl')" by fastforce
  have "\<not> gone (snd (rfbProcessClientNormalMessage demo_env (demo_server, demo_sends ?bs)))"
    by (simp add: demo_run processKeyEvent_def gone_def)
  then show ?thesis using messages_in_step [OF r] r by (simp add: incoming_demo rich_types_def message_types)
qed

text \<open>
  C7: Every message but those of the clipboard extension (types 0x83, 0x84 and 0x85) leaves the client fit for the
  encoders or gone: the translation belongs to the
  two pixel formats, the lines of the buffer hold whole pixels, the scaling factor is not zero, the
  preferred encoding is one that is implemented, and the compression level indexes its table. Of the
  globals only the events for the window system and the owner of the pointer change.
\<close>

theorem messages_keep_client_ok:
  assumes "server_ok srv" "client_ok srv cl" "rfbProcessClientNormalMessage env (srv, cl) = (srv', cl')"
    and "incoming (rdev cl) ! 0 \<notin> rich_types"
  shows "srv' = srv\<lparr>events := events srv', pointerClient := pointerClient srv'\<rparr> \<and> (gone cl' \<or> client_ok srv cl')"
  by (rule normal_message_ok [OF assms])

theorem messages_keep_client_ok_witness:
  "let (srv', cl') = rfbProcessClientNormalMessage demo_env (demo_server, demo_sends [15, 2, 0, 0])
   in scalingFactor cl' = 2 \<and> client_ok demo_server cl'"
proof -
  let ?p = "rfbProcessClientNormalMessage demo_env (demo_server, demo_sends [15, 2, 0, 0])"
  obtain srv' cl' where r: "?p = (srv', cl')" by fastforce
  have "scalingFactor (snd ?p) = 2 \<and> \<not> gone (snd ?p)"
    by (simp add: demo_run processSetScaleFactor_def set_scale_def rescale_def resize_msg_def write_or_close_def
        WriteExact_def gone_def Let_def)
  then show ?thesis using messages_keep_client_ok [OF demo_server_ok demo_client_ok r] r
    by (simp add: incoming_demo rich_types_def message_types)
qed

text \<open>
  C38: A request that an unscaled client makes within the coordinate range adds exactly its rectangle
  to the requested region, and to the modified region exactly if it is not incremental; and it wakes the
  output thread.
\<close>

theorem request_recorded:
  assumes "processFramebufferUpdateRequest (srv, cl) = (srv', cl')" "\<not> gone cl'" "scalingFactor cl = 1"
    and "region_ok (requestedRegion cl)" "region_ok (modifiedRegion cl)"
    and "incoming (rdev cl) = request_bytes inc x y w h @ rest"
    and "0 \<le> x" "0 \<le> y" "0 \<le> w" "0 \<le> h" "x + w \<le> MAXSHORT" "y + h \<le> MAXSHORT"
  shows "region_ok (requestedRegion cl') \<and> region_ok (modifiedRegion cl') \<and>
    area (requestedRegion cl') = area (requestedRegion cl) \<union> {x..<x + w} \<times> {y..<y + h} \<and>
    area (modifiedRegion cl') = area (modifiedRegion cl) \<union> (if inc = 0 then {x..<x + w} \<times> {y..<y + h} else {}) \<and>
    \<not> outputWaiting cl'"
proof -
  have r: "{x, y, w, h} \<subseteq> {0..<65536}" using assms(7-12) by (simp add: MAXSHORT_def)
  let ?b = "box x y (x + w) (y + h)"
  have b: "request_box (int (scalingFactor cl)) x y w h = ?b" using request_box_unscaled assms(3,7-12) by simp
  have "region_ok (SAFE_REGION_INIT ?b)" "area (SAFE_REGION_INIT ?b) = {x..<x + w} \<times> {y..<y + h}"
    using SAFE_REGION_INIT_ok [of ?b] assms(9,10) by (auto simp: INBOX_def)
  then show ?thesis using request_effect [OF assms(1,2,6) r] region_add_ok assms(4,5) by (simp add: b)
qed

theorem request_recorded_witness:
  "area (requestedRegion (snd (processFramebufferUpdateRequest (demo_server, demo_sends (request_bytes 1 0 0 4 3)))))
    = {0..<4} \<times> {0..<3}"
proof -
  let ?p = "processFramebufferUpdateRequest (demo_server, demo_sends (request_bytes 1 0 0 4 3))"
  obtain srv' cl' where r: "?p = (srv', cl')" by fastforce
  have "\<not> gone (snd ?p)"
    by (simp add: demo_run processFramebufferUpdateRequest_def record_request_def gone_def Let_def request_bytes_def)
  moreover have "scalingFactor (demo_sends bs) = 1" "region_ok (requestedRegion (demo_sends bs))"
    "region_ok (modifiedRegion (demo_sends bs))" "area (requestedRegion (demo_sends bs)) = {}" for bs
    by (simp_all add: demo_sends_def demo_client_def region_ok_def miEmptyBox_def solid_def area_def REGION_RECTS_def)
  ultimately show ?thesis
    using request_recorded [OF r, of 1 0 0 4 3 "[]"] r by (simp add: incoming_demo request_bytes_def MAXSHORT_def)
qed

text \<open>
  The coordinates of a request are stored in 16 bit signed sides without a check: a request whose
  right side lies beyond 32767 gives an inverted rectangle, which the consistency check of the
  regions refuses, and which the server then goes on working with.
\<close>

lemma request_wraps_around:
  assumes "processFramebufferUpdateRequest (srv, cl) = (srv', cl')" "\<not> gone cl'" "scalingFactor cl = 1"
    and "REGION_NIL (requestedRegion cl)" "incoming (rdev cl) = request_bytes inc x y w h @ rest"
    and "0 \<le> x" "x \<le> MAXSHORT" "MAXSHORT < x + w" "x + w < 65536" "0 \<le> y" "0 < h" "y + h \<le> MAXSHORT"
  shows "requestedRegion cl' = \<lparr>extents = box x y (x + w - 65536) (y + h), rdata = None\<rparr> \<and>
    \<not> miValidRegion (requestedRegion cl')"
proof -
  have r: "{x, y, w, h} \<subseteq> {0..<65536}" using assms(6-12) by (auto simp: MAXSHORT_def)
  let ?b = "box x y (x + w - 65536) (y + h)"
  have "request_box (int (scalingFactor cl)) x y w h = ?b"
    using request_box_wraps [of x w y h] assms(3,6-12) by simp
  then have "requestedRegion cl' = SAFE_REGION_INIT ?b"
    using request_effect(1) [OF assms(1,2,5) r] by (simp add: region_add_NIL [OF assms(4)])
  moreover have "SAFE_REGION_INIT ?b = \<lparr>extents = ?b, rdata = None\<rparr>"
    using assms(6,7,9,11) by (simp add: SAFE_REGION_INIT_def miRegionInit_def MAXSHORT_def)
  ultimately show ?thesis using assms(6,9) by (simp add: miValidRegion_def)
qed

lemma request_wraps_around_witness:
  "requestedRegion (snd (processFramebufferUpdateRequest (demo_server, demo_sends (request_bytes 0 0 0 40000 10))))
    = \<lparr>extents = box 0 0 (-25536) 10, rdata = None\<rparr>"
proof -
  let ?p = "processFramebufferUpdateRequest (demo_server, demo_sends (request_bytes 0 0 0 40000 10))"
  obtain srv' cl' where r: "?p = (srv', cl')" by fastforce
  have "\<not> gone (snd ?p)"
    by (simp add: demo_run processFramebufferUpdateRequest_def record_request_def gone_def Let_def request_bytes_def)
  moreover have "scalingFactor (demo_sends bs) = 1" "REGION_NIL (requestedRegion (demo_sends bs))" for bs
    by (simp_all add: demo_sends_def demo_client_def REGION_NIL_def)
  ultimately show ?thesis
    using request_wraps_around [OF r, of 0 0 0 40000 10 "[]"] r by (simp add: incoming_demo request_bytes_def MAXSHORT_def)
qed

text \<open>
  C37: A SetEncodings message whose encodings all arrive sets the preferred encoding to the first of
  them that the server implements, or to raw if there is none, and the six extensions last rectangle, the two
  of the cursor's shape, cursor position, desktop size and immediate updates to whether the
  message lists them, whatever was set by an earlier message. What is not cleared stays: the compression levels
  and the quality are those of the last entry that gives one, or else as before, and the rich pasteboard, once
  listed and unless it is disabled, stays on.
\<close>

theorem encodings_chosen:
  assumes "processSetEncodings (srv, cl) = (srv', cl')" "\<not> gone cl'"
  shows "\<exists>m encs. length m = 3 \<and> length encs = nat (rd16 (drop 1 m)) \<and> (\<forall>e \<in> set encs. length e = 4) \<and>
    incoming (rdev cl) = m @ concat encs @ incoming (rdev cl') \<and>
    (let es = map (\<lambda>e. nat (rd32 e)) encs in
      preferredEncoding cl' = (case find (\<lambda>e. e \<in> set real_encodings) es of Some e \<Rightarrow> int e | None \<Rightarrow> int rfbEncodingRaw) \<and>
      enableLastRectEncoding cl' = (rfbEncodingLastRect \<in> set es) \<and>
      enableXCursorShapeUpdates cl' = (rfbEncodingXCursor \<in> set es) \<and>
      useRichCursorEncoding cl' = (rfbEncodingRichCursor \<in> set es) \<and>
      enableCursorPosUpdates cl' = (rfbEncodingPointerPos \<in> set es) \<and>
      desktopSizeUpdate cl' = (rfbEncodingDesktopResize \<in> set es) \<and>
      immediateUpdate cl' = (rfbImmediateUpdate \<in> set es) \<and>
      zlibCompressLevel cl' = last_level is_compress_level es (zlibCompressLevel cl) \<and>
      tightCompressLevel cl' = last_level is_compress_level es (tightCompressLevel cl) \<and>
      tightQualityLevel cl' = (case find is_quality_level (rev es) of Some e \<Rightarrow> int (e mod 16) | None \<Rightarrow> tightQualityLevel cl) \<and>
      richClipboardSupport cl' = (richClipboardSupport cl \<or> rfbRichPasteboard \<in> set es \<and> \<not> rfbDisableRichClipboards srv) \<and>
      \<not> updateLocked cl')"
proof -
  obtain m encs c where m: "length m = sz_rfbSetEncodingsMsg - 1" "length encs = nat (rd16 (drop 1 m))"
    "\<forall>e \<in> set encs. length e = 4" "incoming (rdev cl) = m @ concat encs @ incoming (rdev cl')"
    and c: "c = fold (apply_encoding srv) (map (\<lambda>e. nat (rd32 e)) encs) (clear_encodings cl)"
    and cl': "cl' = c\<lparr>preferredEncoding := (if preferredEncoding c = -1 then int rfbEncodingRaw else preferredEncoding c),
       updateLocked := False, rdev := rdev cl', errno := errno cl'\<rparr>"
    using takes_SetEncodings [OF assms] by blast
  let ?es = "map (\<lambda>e. nat (rd32 e)) encs"
  obtain r n where cl'2: "cl' = c\<lparr>preferredEncoding := (if preferredEncoding c = -1 then int rfbEncodingRaw else preferredEncoding c),
       updateLocked := False, rdev := r, errno := n\<rparr>" using cl' by blast
  have "preferredEncoding c = (case find (\<lambda>e. e \<in> set real_encodings) ?es of Some e \<Rightarrow> int e | None \<Rightarrow> -1)"
    by (simp add: c fold_encoding_preferred clear_encodings_def)
  then have "preferredEncoding cl' = (case find (\<lambda>e. e \<in> set real_encodings) ?es of Some e \<Rightarrow> int e | None \<Rightarrow> int rfbEncodingRaw)"
    by (simp add: cl'2 split: option.split)
  moreover have "enableLastRectEncoding cl' = (rfbEncodingLastRect \<in> set ?es)"
    "enableXCursorShapeUpdates cl' = (rfbEncodingXCursor \<in> set ?es)"
    "useRichCursorEncoding cl' = (rfbEncodingRichCursor \<in> set ?es)"
    "enableCursorPosUpdates cl' = (rfbEncodingPointerPos \<in> set ?es)"
    "desktopSizeUpdate cl' = (rfbEncodingDesktopResize \<in> set ?es)"
    "immediateUpdate cl' = (rfbImmediateUpdate \<in> set ?es)" "\<not> updateLocked cl'"
    unfolding cl'2 c by (simp_all add: fold_encoding_fields clear_encodings_def)
  moreover have l: "zlibCompressLevel cl' = zlibCompressLevel c" "tightCompressLevel cl' = tightCompressLevel c"
    "tightQualityLevel cl' = tightQualityLevel c" "richClipboardSupport cl' = richClipboardSupport c"
    by (simp_all add: cl'2)
  moreover have "zlibCompressLevel cl' = last_level is_compress_level ?es (zlibCompressLevel cl)"
    "tightCompressLevel cl' = last_level is_compress_level ?es (tightCompressLevel cl)"
    "tightQualityLevel cl' = (case find is_quality_level (rev ?es) of Some e \<Rightarrow> int (e mod 16) | None \<Rightarrow> tightQualityLevel cl)"
    "richClipboardSupport cl' = (richClipboardSupport cl \<or> rfbRichPasteboard \<in> set ?es \<and> \<not> rfbDisableRichClipboards srv)"
    unfolding l unfolding c fold_encoding_levels clear_levels by (rule refl)+
  ultimately show ?thesis using m unfolding Let_def
    by (intro exI [of _ m] exI [of _ encs]) (simp add: sz_rfbSetEncodingsMsg_def)
qed

theorem encodings_chosen_witness:
  "\<exists>m encs. length m = 3 \<and> length encs = 1 \<and> [0, 0, 1, 0, 0, 0, 5, 9] =
     m @ concat encs @ incoming (rdev (snd (processSetEncodings (demo_server, demo_sends [0, 0, 1, 0, 0, 0, 5, 9]))))"
proof -
  let ?bs = "[0, 0, 1, 0, 0, 0, 5, 9]"
  obtain srv' cl' where r: "processSetEncodings (demo_server, demo_sends ?bs) = (srv', cl')" by fastforce
  have "\<not> gone (snd (processSetEncodings (demo_server, demo_sends ?bs)))"
    by (simp add: demo_run processSetEncodings_def set_encodings_def clear_encodings_def gone_def Let_def rd16_def)
  then obtain m encs where m: "length m = 3" "length encs = nat (rd16 (drop 1 m))"
    "incoming (rdev (demo_sends ?bs)) = m @ concat encs @ incoming (rdev cl')"
    using encodings_chosen [OF r] r by auto
  have "m = [0, 0, 1]" using m(1,3) by (auto simp: incoming_demo length_Suc_conv numeral_3_eq_3)
  then show ?thesis using m r by (intro exI [of _ m] exI [of _ encs]) (simp add: incoming_demo rd16_def)
qed

text \<open>
  C39: A client that goes away inside its list of encodings is closed with its update lock still held:
  the early return of the loop skips the unlock, and the thread that sends its updates waits forever.
\<close>

theorem truncated_encodings_keep_lock:
  assumes "read_or_close (sz_rfbSetEncodingsMsg - 1) cl = Inr (msg, c)"
    and "length (incoming (rdev c)) < 4 * nat (rd16 (drop 1 msg))"
  shows "updateLocked (snd (processSetEncodings (srv, cl))) \<and> sock (snd (processSetEncodings (srv, cl))) = -1"
proof -
  let ?c = "clear_encodings (c\<lparr>updateLocked := True\<rparr>)"
  have "\<exists>d. encodings_loop srv (nat (rd16 (drop 1 msg))) ?c = Inl d"
  proof (cases "encodings_loop srv (nat (rd16 (drop 1 msg))) ?c")
    case (Inr d)
    from encodings_loop_reads [OF Inr] obtain encs where e: "length encs = nat (rd16 (drop 1 msg))"
      "incoming (rdev ?c) = concat encs @ incoming (rdev d)" "\<forall>e \<in> set encs. length e = 4" by blast
    have "length (concat encs) = length encs * 4"
      using length_concat_map_const [of encs "\<lambda>e. e" 4] e(3) by simp
    then have "4 * nat (rd16 (drop 1 msg)) \<le> length (incoming (rdev ?c))" using e(1,2) by simp
    then show ?thesis using assms(2) by (simp add: clear_encodings_def)
  qed blast
  then obtain d where d: "encodings_loop srv (nat (rd16 (drop 1 msg))) ?c = Inl d" by blast
  have "encodings_loop srv n e = Inl d \<Longrightarrow> updateLocked e \<Longrightarrow> updateLocked d \<and> sock d = -1" for n e
  proof (induction n arbitrary: e)
    case (Suc n)
    show ?case
    proof (cases "read_or_close 4 e")
      case (Inl e')
      have "updateLocked e'" using Suc.prems(2) read_Inl_more [OF Inl] by (cases e; cases e'; simp)
      then show ?thesis using Suc.prems(1) Inl read_or_close_Inl [OF Inl] by simp
    next
      case (Inr p)
      obtain bs e' where p: "p = (bs, e')" by fastforce
      obtain r k where "e' = e\<lparr>rdev := r, errno := k\<rparr>" using read_Inr_eq [OF Inr [unfolded p]] by blast
      then have "updateLocked (apply_encoding srv (nat (rd32 bs)) e')"
        using Suc.prems(2) by (simp add: apply_encoding_def Let_def)
      then show ?thesis using Suc.IH Suc.prems(1) by (simp add: Inr p)
    qed
  qed simp
  from this [OF d] have "updateLocked d \<and> sock d = -1" by (simp add: clear_encodings_def)
  then show ?thesis unfolding processSetEncodings_def read_msg_def prod.case assms(1) sum.case set_encodings_def Let_def d by simp
qed

theorem truncated_encodings_keep_lock_witness:
  "updateLocked (snd (processSetEncodings (demo_server, demo_sends [0, 0, 2, 0, 0, 0, 5])))"
proof -
  obtain c where "read_or_close (sz_rfbSetEncodingsMsg - 1) (demo_sends [0, 0, 2, 0, 0, 0, 5]) = Inr ([0, 0, 2], c)"
    "incoming (rdev c) = [0, 0, 0, 5]"
    by (simp add: demo_run)
  then show ?thesis using truncated_encodings_keep_lock by (simp add: rd16_def)
qed

text \<open>
  A pointer event of a client that views the screen scaled down by \<open>s\<close> is reported at the wrong
  place: not at \<open>s\<close> times its coordinates but \<open>s * (s - 1)\<close> further right and down.
\<close>

lemma scaled_pointer_displaced:
  assumes "read_or_close (sz_rfbPointerEventMsg - 1)
      (if disableRemoteEvents cl then cl else cl\<lparr>rfbPointerEventsRcvd := rfbPointerEventsRcvd cl + 1\<rparr>) = Inr (msg, c)"
    and "\<not> disableRemoteEvents cl" "pointerClient srv = None"
  shows "events (fst (processPointerEvent (srv, cl))) = events srv @
    [let s = int (scalingFactor cl)
     in PtrAddEvent (msg ! 0) (s * rd16 (drop 1 msg) + s * (s - 1)) (s * rd16 (drop 3 msg) + s * (s - 1)) (cid cl)]"
proof -
  have c: "disableRemoteEvents c = disableRemoteEvents cl" "scalingFactor c = scalingFactor cl" "cid c = cid cl"
    by (subst read_Inr_eq [OF assms(1)]; simp)+
  let ?s = "int (scalingFactor cl)"
  have "(v + ?s - 1) * ?s = ?s * v + ?s * (?s - 1)" for v by (simp add: algebra_simps)
  then show ?thesis using assms c by (simp add: processPointerEvent_def read_msg_def Let_def)
qed

lemma scaled_pointer_displaced_witness:
  "events (fst (processPointerEvent (demo_server, (demo_sends [0, 0, 10, 0, 20])\<lparr>scalingFactor := 2\<rparr>))) =
    events demo_server @ [PtrAddEvent 0 22 42 (cid demo_client)]"
proof -
  let ?cl = "(demo_sends [0, 0, 10, 0, 20])\<lparr>scalingFactor := 2\<rparr>"
  obtain c where "read_or_close (sz_rfbPointerEventMsg - 1)
      (if disableRemoteEvents ?cl then ?cl else ?cl\<lparr>rfbPointerEventsRcvd := rfbPointerEventsRcvd ?cl + 1\<rparr>) =
      Inr ([0, 0, 10, 0, 20], c)"
    by (simp add: demo_run)
  moreover have "\<not> disableRemoteEvents ?cl" "pointerClient demo_server = None"
    by (simp_all add: demo_run demo_server_def)
  ultimately have "events (fst (processPointerEvent (demo_server, ?cl))) = events demo_server @
    [let s = int (scalingFactor ?cl)
     in PtrAddEvent 0 (s * rd16 [0, 10, 0, 20] + s * (s - 1)) (s * rd16 [0, 20] + s * (s - 1)) (cid ?cl)]"
    using scaled_pointer_displaced [of ?cl "[0, 0, 10, 0, 20]" c demo_server] by simp
  then show ?thesis by (simp add: rd16_def demo_sends_def)
qed

end
