(* ===== verification/Clients.thy ===== *)
theory Clients
  imports Messages
begin

text \<open>
  The life of a client in \<^verbatim>\<open>OSXvnc-server/rfbserver.c\<close>: a new connection, the version and initialisation
  messages, the dispatch on the state of the protocol, the end of the connection; and the list of all
  clients. The list hangs at \<open>rfbClientHead\<close>, newest client first. A client is found by its address,
  \<open>cid\<close>. The notifications of the GUI, like the log, are left out.
\<close>

section \<open>The list of clients\<close>

record system =
  globals :: server
  rfbClientHead :: "rfbClientRec list"

definition client :: "nat \<Rightarrow> system \<Rightarrow> rfbClientRec option" where
  "client i sys = find (\<lambda>c. cid c = i) (rfbClientHead sys)"

definition set_client :: "rfbClientRec \<Rightarrow> system \<Rightarrow> system" where
  "set_client cl sys = sys\<lparr>rfbClientHead := map (\<lambda>c. if cid c = cid cl then cl else c) (rfbClientHead sys)\<rparr>"

definition rfbClientsConnected :: "system \<Rightarrow> bool" where
  "rfbClientsConnected sys \<longleftrightarrow> rfbClientHead sys \<noteq> []"

section \<open>The version string\<close>

text \<open>What \<^verbatim>\<open>printf\<close> makes of \<^verbatim>\<open>%d\<close> and \<^verbatim>\<open>%03d\<close>.\<close>

fun decimal :: "nat \<Rightarrow> u8 list" where
  "decimal n = (if n < 10 then [48 + of_nat n] else decimal (n div 10) @ [48 + of_nat (n mod 10)])"

definition print_d :: "int \<Rightarrow> u8 list" where
  "print_d n = (if n < 0 then 45 # decimal (nat (- n)) else decimal (nat n))"

definition print_03d :: "int \<Rightarrow> u8 list" where
  "print_03d n =
    (let s = decimal (nat \<bar>n\<bar>)
     in if n < 0 then 45 # replicate (2 - length s) 48 @ s else replicate (3 - length s) 48 @ s)"

definition sz_rfbProtocolVersionMsg :: nat where "sz_rfbProtocolVersionMsg = 12"

definition version_string :: "int \<Rightarrow> int \<Rightarrow> u8 list" where
  "version_string n m = take sz_rfbProtocolVersionMsg (bytes_of ''RFB '' @ print_03d n @ [46] @ print_03d m @ [10])"

text \<open>
  And \<^verbatim>\<open>sscanf\<close> with the same format: a space matches any white space, \<^verbatim>\<open>%3d\<close> skips white space and
  takes at most three characters, a sign among them. The result is what is stored in the two
  variables; the call returns 2 if the second is stored.
\<close>

definition isspace :: "u8 \<Rightarrow> bool" where
  "isspace b \<longleftrightarrow> b = 32 \<or> (9 \<le> b \<and> b \<le> 13)"

definition isdigit :: "u8 \<Rightarrow> bool" where
  "isdigit b \<longleftrightarrow> 48 \<le> b \<and> b \<le> 57"

definition digits_value :: "u8 list \<Rightarrow> int" where
  "digits_value ds = foldl (\<lambda>n d. 10 * n + (uint d - 48)) 0 ds"

definition scan_int :: "nat \<Rightarrow> u8 list \<Rightarrow> (int \<times> u8 list) option" where
  "scan_int width bs =
    (let bs = dropWhile isspace bs;
         signed = bs \<noteq> [] \<and> hd bs \<in> {43, 45};
         rest = (if signed then tl bs else bs);
         ds = takeWhile isdigit (take (if signed then width - 1 else width) rest)
     in if ds = [] then None
        else Some (if signed \<and> hd bs = 45 then - digits_value ds else digits_value ds, drop (length ds) rest))"

definition sscanf_version :: "u8 list \<Rightarrow> int option \<times> int option" where
  "sscanf_version bs =
    (let bs = cstr bs in
     if take 3 bs \<noteq> bytes_of ''RFB'' then (None, None)
     else case scan_int 3 (dropWhile isspace (drop 3 bs)) of
       None \<Rightarrow> (None, None)
     | Some (n, r) \<Rightarrow>
         if r = [] \<or> hd r \<noteq> 46 then (Some n, None)
         else case scan_int 3 (tl r) of None \<Rightarrow> (Some n, None) | Some (m, _) \<Rightarrow> (Some n, Some m))"

section \<open>A new client\<close>

definition TIGHT_DEFAULT_COMPRESSION :: nat where "TIGHT_DEFAULT_COMPRESSION = 6"

definition MAX_ENCODINGS :: nat where "MAX_ENCODINGS = 17"

definition rfbResetStats :: "rfbClientRec \<Rightarrow> rfbClientRec" where
  "rfbResetStats cl =
    cl\<lparr>rfbBytesSent := (\<lambda>i. if i < MAX_ENCODINGS then 0 else rfbBytesSent cl i),
       rfbRectanglesSent := (\<lambda>i. if i < MAX_ENCODINGS then 0 else rfbRectanglesSent cl i),
       rfbLastRectMarkersSent := 0, rfbLastRectBytesSent := 0, rfbFramebufferUpdateMessagesSent := 0,
       rfbRawBytesEquivalent := 0, rfbKeyEventsRcvd := 0, rfbPointerEventsRcvd := 0\<rparr>"

text \<open>The record after \<^verbatim>\<open>memset\<close>. All its pointers are null, all its regions have no rectangle.\<close>

definition zeroed :: "nat \<Rightarrow> rfbClientRec" where
  "zeroed i = \<lparr>sock = 0, rdev = [], wrev = [], sent = [], errno = 0, exited = False,
     cid = i, host = '''', major = 0, minor = 0, state = RFB_PROTOCOL_VERSION,
     correMaxWidth = 0, correMaxHeight = 0, authChallenge = replicate CHALLENGESIZE 0, updateLocked = False, outputWaiting = False,
     modifiedRegion = \<lparr>extents = miEmptyBox, rdata = None\<rparr>, requestedRegion = \<lparr>extents = miEmptyBox, rdata = None\<rparr>,
     translateFn = TransNone, translateLookupTable = NoTable,
     format = \<lparr>bitsPerPixel = 0, depth = 0, bigEndian = False, trueColour = False, redMax = 0, greenMax = 0, blueMax = 0,
       redShift = 0, greenShift = 0, blueShift = 0\<rparr>,
     scalingFactor = 0, screenBuffer = (\<lambda>_. 0), scalingFrameBuffer = (\<lambda>_. 0), scalingPaddedWidthInBytes = 0,
     rfbBytesSent = (\<lambda>_. 0), rfbRectanglesSent = (\<lambda>_. 0), rfbLastRectMarkersSent = 0, rfbLastRectBytesSent = 0,
     rfbFramebufferUpdateMessagesSent = 0, rfbRawBytesEquivalent = 0, rfbKeyEventsRcvd = 0, rfbPointerEventsRcvd = 0,
     compStream = (0, []), compStreamInited = False, zlibCompressLevel = 0, compStreamRaw = None, compStreamHex = None,
     zsStruct = (\<lambda>_. None), tightAfterBufSize = 0, zrleData = None, tightCompressLevel = 0, tightQualityLevel = 0,
     enableLastRectEncoding = False, enableXCursorShapeUpdates = False, useRichCursorEncoding = False,
     enableCursorPosUpdates = False, desktopSizeUpdate = False, reverseConnection = False,
     preferredEncoding = 0, disableRemoteEvents = False, swapMouseButtons23 = False,
     immediateUpdate = False, richClipboardSupport = False, generalPBLastChange = 0,
     currentCursorSeed = 0, clientCursorLocation = (0, 0), needNewScreenSize = False, updateBuf = []\<rparr>"

definition initPasteboardForClient :: "rfbClientRec \<Rightarrow> rfbClientRec" where
  "initPasteboardForClient cl = cl\<lparr>generalPBLastChange := -1\<rparr>"

text \<open>The format a client starts with. The fields of \<open>rfbPixelFormat\<close> keep 8 and 16 bits.\<close>

definition initial_format :: "env \<Rightarrow> server \<Rightarrow> rfbPixelFormat" where
  "initial_format env srv =
    (if rfbMaxBitDepth srv \<in> {8, 16, 32} then
       let bpp = max (rfbMaxBitDepth srv) (sbitsPerPixel (rfbScreen srv)) mod 256;
           bitsPerSample = 4 * bpp;
           sampleMax = nat (((if bitsPerSample < 31 then 2 ^ bitsPerSample else shiftPast env bitsPerSample) - 1) mod 65536)
       in \<lparr>bitsPerPixel = bpp, depth = bitsPerSample * 3 mod 256, bigEndian = \<not> littleEndian srv, trueColour = True,
           redMax = sampleMax, greenMax = sampleMax, blueMax = sampleMax,
           redShift = bitsPerSample * 2 mod 256, greenShift = bitsPerSample mod 256, blueShift = 0\<rparr>
     else rfbServerFormat srv)"

text \<open>The fields that are set before the client enters the list.\<close>

definition init_client :: "env \<Rightarrow> server \<Rightarrow> int \<Rightarrow> string \<Rightarrow> rfbClientRec \<Rightarrow> rfbClientRec" where
  "init_client env srv fd peer cl =
    (let cl = cl\<lparr>sock := fd, host := peer, state := RFB_PROTOCOL_VERSION,
            disableRemoteEvents := rfbDisableRemote srv, swapMouseButtons23 := rfbSwapButtons srv,
            needNewScreenSize := False\<rparr>;
         cl = initPasteboardForClient cl;
         cl = cl\<lparr>reverseConnection := False, preferredEncoding := int rfbEncodingRaw,
            correMaxWidth := 48, correMaxHeight := 48, zrleData := None,
            modifiedRegion := miRegionInit (Some (box 0 0 (short (int (swidth (rfbScreen srv)))) (short (int (sheight (rfbScreen srv)))))),
            requestedRegion := miRegionInit None, format := initial_format env srv\<rparr>;
         cl = snd (rfbSetTranslateFunctionUsingFormat (stackByte env 0) srv (rfbServerFormat srv) cl)
     in cl\<lparr>scalingFactor := 1, screenBuffer := framebuffer srv, scalingFrameBuffer := framebuffer srv,
           scalingPaddedWidthInBytes := paddedWidthInBytes (rfbScreen srv),
           tightCompressLevel := TIGHT_DEFAULT_COMPRESSION, tightQualityLevel := -1,
           zsStruct := (\<lambda>_. None), enableLastRectEncoding := False, enableXCursorShapeUpdates := False, useRichCursorEncoding := False,
           enableCursorPosUpdates := False, desktopSizeUpdate := False, immediateUpdate := False\<rparr>)"

text \<open>
  rfbNewClient: the client of the given address, with what its socket will answer. The result is
  whether it returns the client, or NULL after a failed write, when the closed client stays in the list.
\<close>

definition rfbNewClient :: "env \<Rightarrow> nat \<Rightarrow> int \<Rightarrow> string \<Rightarrow> rd_ev list \<Rightarrow> wr_ev list \<Rightarrow> system \<Rightarrow> bool \<times> system" where
  "rfbNewClient env i fd peer reads writes sys =
    (let srv = globals sys;
         cl = init_client env srv fd peer ((zeroed i)\<lparr>rdev := reads, wrev := writes\<rparr>);
         cl = rfbResetStats cl;
         cl = cl\<lparr>compStreamInited := False, compStream := (0, []), zlibCompressLevel := 5,
            compStreamRaw := None, compStreamHex := None\<rparr>;
         pv = version_string (rfbProtocolMajorVersion srv) (rfbProtocolMinorVersion srv);
         (ok, cl) = write_or_close pv cl
     in (ok, sys\<lparr>rfbClientHead := cl # rfbClientHead sys\<rparr>))"

text \<open>
  rfbReverseConnection, once its connection stands. The caller starts a thread for a new client only
  if there is one; that of a listener does not check.
\<close>

definition rfbReverseConnection :: "env \<Rightarrow> nat \<Rightarrow> int \<Rightarrow> string \<Rightarrow> rd_ev list \<Rightarrow> wr_ev list \<Rightarrow> system \<Rightarrow> bool \<times> system" where
  "rfbReverseConnection env i fd peer reads writes sys =
    (if fd < 0 then (False, sys)
     else
       let (ok, sys) = rfbNewClient env i fd peer reads writes sys
       in if ok then (True, case client i sys of None \<Rightarrow> sys | Some cl \<Rightarrow> set_client (cl\<lparr>reverseConnection := True\<rparr>) sys)
          else (False, sys))"

section \<open>The end of a client\<close>

definition keyboardReleaseKeysForClient :: "nat \<Rightarrow> server \<Rightarrow> server" where
  "keyboardReleaseKeysForClient i srv = srv\<lparr>events := events srv @ [ReleaseKeys i]\<rparr>"

definition rfbClientConnectionGone :: "nat \<Rightarrow> system \<Rightarrow> system" where
  "rfbClientConnectionGone i sys =
    (let srv = keyboardReleaseKeysForClient i (globals sys);
         srv = (if pointerClient srv = Some i then srv\<lparr>pointerClient := None\<rparr> else srv)
     in sys\<lparr>globals := srv, rfbClientHead := filter (\<lambda>c. cid c \<noteq> i) (rfbClientHead sys)\<rparr>)"

section \<open>The handshake\<close>

definition rfbClientConnFailed :: "u8 list \<Rightarrow> rfbClientRec \<Rightarrow> rfbClientRec" where
  "rfbClientConnFailed reason cl =
    rfbCloseClient (snd (WriteExact (be32 rfbConnFailed @ be32 (int (length reason)) @ reason) cl))"

definition mismatch_reason :: "server \<Rightarrow> rfbClientRec \<Rightarrow> u8 list" where
  "mismatch_reason srv cl = take 255 (bytes_of ''RFB protocol version mismatch - server '' @
     print_d (rfbProtocolMajorVersion srv) @ [46] @ print_d (rfbProtocolMinorVersion srv) @ bytes_of '', client '' @
     print_d (major cl) @ [46] @ print_d (minor cl))"

definition rfbProcessClientProtocolVersion :: "env \<Rightarrow> server \<Rightarrow> rfbClientRec \<Rightarrow> rfbClientRec" where
  "rfbProcessClientProtocolVersion env srv cl =
    (case read_or_close sz_rfbProtocolVersionMsg cl of
       Inl cl \<Rightarrow> cl
     | Inr (pv, cl) \<Rightarrow>
         (case sscanf_version pv of
            (None, _) \<Rightarrow> rfbCloseClient cl
          | (Some n, None) \<Rightarrow> rfbCloseClient (cl\<lparr>major := n\<rparr>)
          | (Some n, Some m) \<Rightarrow>
              let cl = cl\<lparr>major := n, minor := m\<rparr> in
              if major cl \<noteq> rfbProtocolMajorVersion srv then rfbClientConnFailed (mismatch_reason srv cl) cl
              else rfbAuthNewClient (map (stackByte env) [0, 1, 2]) srv cl))"

definition sz_rfbClientInitMsg :: nat where "sz_rfbClientInitMsg = 1"

text \<open>The name of the desktop is a C string that is cut in place.\<close>

definition cut_name :: "u8 list \<Rightarrow> u8 list" where
  "cut_name name = (if strlen name > 128 then name[128 := 0] else name)"

definition server_init :: "server \<Rightarrow> u8 list" where
  "server_init srv =
    be16 (int (swidth (rfbScreen srv))) @ be16 (int (sheight (rfbScreen srv))) @ put_format (rfbServerFormat srv) @
    be32 (int (strlen (desktopName srv))) @ cstr (desktopName srv)"

text \<open>
  The end of rfbProcessClientInitMessage: a client that does not share the desktop closes the others,
  or with \<^verbatim>\<open>-dontdisconnect\<close> is closed itself if there are others.
\<close>

definition other_normal :: "nat \<Rightarrow> rfbClientRec \<Rightarrow> bool" where
  "other_normal i c \<longleftrightarrow> cid c \<noteq> i \<and> state c = RFB_NORMAL"

definition share_desktop :: "bool \<Rightarrow> rfbClientRec \<Rightarrow> system \<Rightarrow> system" where
  "share_desktop shared cl sys =
    (let srv = globals sys in
     if \<not> reverseConnection cl \<and> (rfbNeverShared srv \<or> (\<not> rfbAlwaysShared srv \<and> \<not> shared)) then
       if rfbDontDisconnect srv then
         if \<exists>c \<in> set (rfbClientHead sys). other_normal (cid cl) c then set_client (rfbCloseClient cl) sys else sys
       else sys\<lparr>rfbClientHead :=
              map (\<lambda>c. if other_normal (cid cl) c then rfbCloseClient c else c) (rfbClientHead sys)\<rparr>
     else sys)"

definition rfbProcessClientInitMessage :: "rfbClientRec \<Rightarrow> system \<Rightarrow> system" where
  "rfbProcessClientInitMessage cl sys =
    (case read_or_close sz_rfbClientInitMsg cl of
       Inl cl \<Rightarrow> set_client cl sys
     | Inr (ci, cl) \<Rightarrow>
         let srv = (globals sys)\<lparr>desktopName := cut_name (desktopName (globals sys))\<rparr>;
             sys = sys\<lparr>globals := srv\<rparr>;
             (ok, cl) = write_or_close (server_init srv) cl
         in if \<not> ok then set_client cl sys
            else
              let cl = cl\<lparr>state := RFB_NORMAL\<rparr>
              in share_desktop (ci ! 0 \<noteq> 0) cl (set_client cl sys))"

section \<open>The dispatch\<close>

definition in_globals :: "handler \<Rightarrow> rfbClientRec \<Rightarrow> system \<Rightarrow> system" where
  "in_globals h cl sys = (let (srv, cl) = h (globals sys, cl) in set_client cl (sys\<lparr>globals := srv\<rparr>))"

definition rfbProcessClientMessage :: "env \<Rightarrow> nat \<Rightarrow> system \<Rightarrow> system" where
  "rfbProcessClientMessage env i sys =
    (case client i sys of
       None \<Rightarrow> sys
     | Some cl \<Rightarrow>
         (case state cl of
            RFB_PROTOCOL_VERSION \<Rightarrow> set_client (rfbProcessClientProtocolVersion env (globals sys) cl) sys
          | RFB_AUTH_VERSION \<Rightarrow> set_client (rfbProcessAuthVersion (globals sys) cl) sys
          | RFB_AUTHENTICATION \<Rightarrow> in_globals rfbAuthProcessClientMessage cl sys
          | RFB_INITIALISATION \<Rightarrow> rfbProcessClientInitMessage cl sys
          | RFB_NORMAL \<Rightarrow> in_globals (rfbProcessClientNormalMessage env) cl sys))"

section \<open>The version string is read back\<close>

declare decimal.simps [simp del]

definition digit :: "nat \<Rightarrow> u8" where
  "digit d = 48 + of_nat d"

lemma uint_digit: "d < 10 \<Longrightarrow> uint (digit d) = 48 + int d"
proof -
  assume d: "d < 10"
  have "digit d = of_nat (48 + d)" by (simp add: digit_def)
  then have "unat (digit d) = 48 + d" using d by (simp only: unat_of_nat) simp
  then show ?thesis by (simp add: uint_nat)
qed

lemma digit_class:
  assumes "d < 10"
  shows "isdigit (digit d)" "\<not> isspace (digit d)" "digit d \<noteq> 43" "digit d \<noteq> 45" "digit d \<noteq> 0" "digit d \<noteq> 46"
proof -
  note u = uint_digit [OF assms]
  show "isdigit (digit d)" using assms by (simp add: isdigit_def word_le_def u)
  show n: "digit d \<noteq> 43" "digit d \<noteq> 45" "digit d \<noteq> 0" "digit d \<noteq> 46"
    by (rule notI, drule arg_cong [where f = uint], simp add: u)+
  have "digit d \<noteq> 32" by (rule notI, drule arg_cong [where f = uint], simp add: u)
  then show "\<not> isspace (digit d)" using assms by (simp add: isspace_def word_le_def u)
qed

lemma print_03d_digits:
  assumes "0 \<le> n" "n < 1000"
  shows "print_03d n = [digit (nat n div 100), digit (nat n div 10 mod 10), digit (nat n mod 10)]"
proof -
  define k where "k = nat n"
  have k: "k < 1000" "print_03d n = (let s = decimal k in replicate (3 - length s) 48 @ s)"
    using assms by (simp_all add: k_def print_03d_def)
  consider "k < 10" | "10 \<le> k" "k < 100" | "100 \<le> k" by linarith
  then show ?thesis
  proof cases
    case 1
    then show ?thesis unfolding k(2) by (simp add: decimal.simps [of k] digit_def k_def [symmetric] numeral_3_eq_3)
  next
    case 2
    then have "k div 10 < 10" by presburger
    then have "decimal k = [digit (k div 10), digit (k mod 10)]" using 2
      by (simp add: decimal.simps [of k] decimal.simps [of "k div 10"] digit_def)
    then show ?thesis using 2 unfolding k(2) by (simp add: k_def [symmetric]) (simp add: digit_def)
  next
    case 3
    have "k div 10 div 10 = k div 100" "k div 100 < 10" "\<not> k div 10 < 10"
      using 3 k(1) by (simp_all add: div_mult2_eq less_mult_imp_div_less not_less div_greater_zero_iff)
    then have "decimal k = [digit (k div 100), digit (k div 10 mod 10), digit (k mod 10)]"
      using 3 k(1) by (simp add: decimal.simps [of k] decimal.simps [of "k div 10"] decimal.simps [of "k div 100"] digit_def)
    then show ?thesis unfolding k(2) by (simp add: k_def [symmetric])
  qed
qed

lemma scan_digits:
  assumes "a < 10" "b < 10" "c < 10"
  shows "scan_int 3 (digit a # digit b # digit c # r) = Some (int (100 * a + 10 * b + c), r)"
  using assms by (simp add: scan_int_def Let_def digit_class uint_digit digits_value_def numeral_3_eq_3)

lemma scan_03d:
  assumes "0 \<le> n" "n < 1000"
  shows "scan_int 3 (print_03d n @ r) = Some (n, r)"
proof -
  define k where "k = nat n"
  have "k div 100 = k div 10 div 10" by (simp add: div_mult2_eq)
  then have "100 * (nat n div 100) + 10 * (nat n div 10 mod 10) + nat n mod 10 = nat n"
    using mult_div_mod_eq [of 10 k] mult_div_mod_eq [of 10 "k div 10"] unfolding k_def [symmetric] by linarith
  moreover have "nat n div 100 < 10" "nat n div 10 mod 10 < 10" "nat n mod 10 < 10" using assms by auto
  note scan_digits [OF this, of r]
  ultimately show ?thesis using assms(1) by (simp only: print_03d_digits [OF assms] append_Cons append_Nil nat_0_le)
qed

lemma version_string_parts:
  assumes "0 \<le> n" "n < 1000" "0 \<le> m" "m < 1000"
  shows "version_string n m = [82, 70, 66, 32] @ print_03d n @ [46] @ print_03d m @ [10]"
  by (simp add: version_string_def sz_rfbProtocolVersionMsg_def print_03d_digits [OF assms(1,2)] print_03d_digits [OF assms(3,4)]
      bytes_of_def)

lemma sscanf_version_string:
  assumes "0 \<le> n" "n < 1000" "0 \<le> m" "m < 1000"
  shows "sscanf_version (version_string n m) = (Some n, Some m)" "length (version_string n m) = sz_rfbProtocolVersionMsg"
proof -
  have b: "nat n div 100 < 10" "nat m div 100 < 10" using assms by auto
  have "cstr (version_string n m) = version_string n m"
    using b by (simp add: cstr_def version_string_parts [OF assms] print_03d_digits assms digit_class)
  moreover have "dropWhile isspace (32 # print_03d n @ r) = print_03d n @ r" for r
    using b by (simp add: print_03d_digits assms digit_class) (simp add: isspace_def)
  ultimately show "sscanf_version (version_string n m) = (Some n, Some m)"
    using scan_03d [OF assms(1,2), of "46 # print_03d m @ [10]"] scan_03d [OF assms(3,4), of "[10]"]
    by (simp add: sscanf_version_def Let_def version_string_parts [OF assms] bytes_of_def)
  show "length (version_string n m) = sz_rfbProtocolVersionMsg"
    by (simp add: version_string_parts [OF assms] print_03d_digits assms sz_rfbProtocolVersionMsg_def)
qed

end
