(* ===== verification/Zlib.thy ===== *)
theory Zlib
  imports Rre
begin

text \<open>
  The zlib encoding, \<^verbatim>\<open>OSXvnc-server/zlib.c\<close>. The compressor is zlib's: \<open>deflate\<close> with a sync flush is
  a parameter that maps the state of a stream and a block to the compressed bytes, or to nothing if it
  reports an error. The state of a stream is the level it was set up with and the blocks it has
  compressed, oldest first. The static buffers are modelled by their sizes.
\<close>

type_synonym deflater = "nat \<times> u8 list list \<Rightarrow> u8 list \<Rightarrow> u8 list option"

definition sz_rfbZlibHeader :: nat where "sz_rfbZlibHeader = 4"
definition VNC_ENCODE_ZLIB_MIN_COMP_SIZE :: nat where "VNC_ENCODE_ZLIB_MIN_COMP_SIZE = 17"
definition ZLIB_MAX_RECT_SIZE :: nat where "ZLIB_MAX_RECT_SIZE = 128 * 256"

definition ZLIB_MAX_SIZE :: "nat \<Rightarrow> nat" where
  "ZLIB_MAX_SIZE m = (if m * 2 > ZLIB_MAX_RECT_SIZE then m * 2 else ZLIB_MAX_RECT_SIZE)"

text \<open>A rectangle that is too small to compress goes out raw, from an aligned place in the buffer.\<close>

definition zlib_small :: "server \<Rightarrow> nat \<Rightarrow> nat \<Rightarrow> nat \<Rightarrow> nat \<Rightarrow> rfbClientRec \<Rightarrow> bool \<times> rfbClientRec" where
  "zlib_small srv x y w h cl =
    (case (if bitsPerPixel (format cl) > 8 \<and> ublen cl mod bytesPerPixel cl \<noteq> 0 then rfbSendUpdateBuf cl else (True, cl)) of
       (False, cl) \<Rightarrow> (False, cl)
     | (True, cl) \<Rightarrow> rfbSendRectEncodingRaw srv x y w h cl)"

text \<open>The compression: the stream is set up by the first rectangle.\<close>

definition zlib_compress :: "deflater \<Rightarrow> u8 list \<Rightarrow> rfbClientRec \<Rightarrow> u8 list option \<times> rfbClientRec" where
  "zlib_compress deflate block cl =
    (let cl = (if \<not> compStreamInited cl then cl\<lparr>compStream := (zlibCompressLevel cl, []), compStreamInited := True\<rparr> else cl)
     in (deflate (compStream cl) block, cl\<lparr>compStream := (fst (compStream cl), snd (compStream cl) @ [block])\<rparr>))"

definition rfbSendOneRectEncodingZlib ::
    "deflater \<Rightarrow> nat \<Rightarrow> server \<Rightarrow> nat \<Rightarrow> nat \<Rightarrow> nat \<Rightarrow> nat \<Rightarrow> rfbClientRec \<Rightarrow> bool \<times> rfbClientRec" where
  "rfbSendOneRectEncodingZlib deflate oldSize srv x y w h cl =
    (let maxRawSize = swidth (rfbScreen srv) * sheight (rfbScreen srv) * bytesPerPixel cl;
         zlibBeforeBufSize = (if oldSize < maxRawSize then maxRawSize else oldSize)
     in if w * h * (sbitsPerPixel (rfbScreen srv) div 8) < VNC_ENCODE_ZLIB_MIN_COMP_SIZE then zlib_small srv x y w h cl
        else
          let zlibBeforeBuf = pixels_at srv cl (fbptr srv cl x y) w h in
          if length zlibBeforeBuf > zlibBeforeBufSize then (False, cl\<lparr>exited := True\<rparr>)
          else
            let (res, cl) = zlib_compress deflate zlibBeforeBuf cl in
            case res of None \<Rightarrow> (False, cl)
            | Some zlibAfterBuf \<Rightarrow>
                let cl = count_rect rfbEncodingZlib
                      (sz_rfbFramebufferUpdateRectHeader + sz_rfbZlibHeader + length zlibAfterBuf) cl
                in case make_room (sz_rfbFramebufferUpdateRectHeader + sz_rfbZlibHeader) cl of
                     (False, cl) \<Rightarrow> (False, cl)
                   | (True, cl) \<Rightarrow>
                       let cl = put_buf (rect_header (int x) (int y) (int w) (int h) rfbEncodingZlib) cl;
                           cl = put_buf (be32 (int (length zlibAfterBuf))) cl
                       in copy_loop zlibAfterBuf cl)"

text \<open>The loop over pieces of at most \<open>maxLines\<close> lines; the buffer is flushed after every full one.\<close>

function zlib_loop ::
    "deflater \<Rightarrow> nat \<Rightarrow> server \<Rightarrow> nat \<Rightarrow> nat \<Rightarrow> nat \<Rightarrow> nat \<Rightarrow> nat \<Rightarrow> rfbClientRec \<Rightarrow> bool \<times> rfbClientRec" where
  "zlib_loop deflate oldSize srv maxLines x y w linesRemaining cl =
    (if linesRemaining = 0 \<or> maxLines = 0 then (True, cl)
     else
       let linesToComp = (if maxLines < linesRemaining then maxLines else linesRemaining) in
       case rfbSendOneRectEncodingZlib deflate oldSize srv x y w linesToComp cl of
         (False, cl) \<Rightarrow> (False, cl)
       | (True, cl) \<Rightarrow>
           (case (if ublen cl > 0 \<and> linesToComp = maxLines then rfbSendUpdateBuf cl else (True, cl)) of
              (False, cl) \<Rightarrow> (False, cl)
            | (True, cl) \<Rightarrow>
                zlib_loop deflate oldSize srv maxLines x (y + linesToComp) w (linesRemaining - linesToComp) cl))"
  by pat_completeness auto
termination by (relation "measure (\<lambda>(_, _, _, _, _, _, _, n, _). n)") (auto split: if_splits)

declare zlib_loop.simps [simp del]

text \<open>A width of zero divides by zero.\<close>

definition rfbSendRectEncodingZlib ::
    "deflater \<Rightarrow> nat \<Rightarrow> server \<Rightarrow> nat \<Rightarrow> nat \<Rightarrow> nat \<Rightarrow> nat \<Rightarrow> rfbClientRec \<Rightarrow> bool \<times> rfbClientRec" where
  "rfbSendRectEncodingZlib deflate oldSize srv x y w h cl =
    (if w = 0 then (False, cl\<lparr>exited := True\<rparr>)
     else zlib_loop deflate oldSize srv (ZLIB_MAX_SIZE w div w) x y w h cl)"

end
