(* ===== verification/Update.thy ===== *)
theory Update
  imports Messages Cursor Zlib
begin

text \<open>
  Sending an update: rfbSendFramebufferUpdate of \<^verbatim>\<open>OSXvnc-server/rfbserver.c\<close> with the number of rectangles
  that it announces, the copy of the screen that it takes (rfbGetFramebufferUpdateInRect of \<^verbatim>\<open>main.c\<close>) and
  the reduction for clients that scale the screen (CopyScalingRect).

  The rectangles of a region are boxes of shorts. A box left of or above the screen, or inverted, makes
  the encoders address memory before their buffers; what follows is undefined, and the model lets the
  process end there.
\<close>

section \<open>The copy of the screen\<close>

text \<open>
  What the update takes from outside. \<open>image\<close> is what CoreGraphics answers for a rectangle: bytes,
  bytes per row and bits per pixel. \<open>frameBufferData\<close> tells whether the server keeps a copy of the
  screen, as it does from 10.7 on; before, it works on the memory of the display itself.
  \<open>rreBufSize\<close> is the size of the static buffers of the encoders, which only grows.
\<close>

type_synonym sender = "server \<Rightarrow> nat \<Rightarrow> nat \<Rightarrow> nat \<Rightarrow> nat \<Rightarrow> rfbClientRec \<Rightarrow> bool \<times> rfbClientRec"

record surroundings =
  frameBufferData :: bool
  frameBufferBytesPerRow :: nat
  frameBufferBitsPerPixel :: nat
  image :: "nat \<Rightarrow> nat \<Rightarrow> nat \<Rightarrow> nat \<Rightarrow> buffer \<times> nat \<times> nat"
  rreBufSize :: nat
  deflate :: deflater
  sendTight :: sender
  sendZlibHex :: sender
  sendZRLE :: sender

text \<open>\<^verbatim>\<open>memcpy\<close> of \<open>n\<close> bytes.\<close>

definition copy_bytes :: "nat \<Rightarrow> nat \<Rightarrow> nat \<Rightarrow> buffer \<Rightarrow> buffer \<Rightarrow> buffer" where
  "copy_bytes dest source n src mem = (\<lambda>a. if dest \<le> a \<and> a < dest + n then src (source + (a - dest)) else mem a)"

fun copy_rows :: "nat \<Rightarrow> nat \<Rightarrow> nat \<Rightarrow> nat \<Rightarrow> nat \<Rightarrow> nat \<Rightarrow> buffer \<Rightarrow> buffer \<Rightarrow> buffer" where
  "copy_rows 0 dest source n destRow sourceRow src mem = mem"
| "copy_rows (Suc h) dest source n destRow sourceRow src mem =
    copy_rows h (dest + destRow) (source + sourceRow) n destRow sourceRow src (copy_bytes dest source n src mem)"

definition rfbGetFramebufferUpdateInRect :: "surroundings \<Rightarrow> nat \<Rightarrow> nat \<Rightarrow> nat \<Rightarrow> nat \<Rightarrow> server \<Rightarrow> server" where
  "rfbGetFramebufferUpdateInRect u x y w h srv =
    (if frameBufferData u then
       let (src, imgBytesPerRow, imgBitsPerPixel) = image u x y w h;
           dest = frameBufferBytesPerRow u * y + x * (frameBufferBitsPerPixel u div 8)
       in srv\<lparr>framebuffer := copy_rows h dest 0 (w * (imgBitsPerPixel div 8)) (frameBufferBytesPerRow u) imgBytesPerRow
             src (framebuffer srv)\<rparr>
     else srv)"

section \<open>Scaling\<close>

text \<open>The rectangle on the reduced screen; all numbers are small enough for 32 bits.\<close>

definition scaled_rect :: "server \<Rightarrow> rfbClientRec \<Rightarrow> nat \<times> nat \<times> nat \<times> nat \<Rightarrow> nat \<times> nat \<times> nat \<times> nat" where
  "scaled_rect srv cl = (\<lambda>(x, y, w, h).
    let s = scalingFactor cl;
        csh = (sheight (rfbScreen srv) + s - 1) div s;
        csw = (swidth (rfbScreen srv) + s - 1) div s;
        cy = y div s; ch = (h + s - 1) div s + 1;
        cx = x div s; cw = (w + s - 1) div s + 1;
        cy = (if cy > csh then csh else cy);
        ch = (if cy + ch > csh then csh - cy else ch);
        cx = (if cx > csw then csw else cx);
        cw = (if cx + cw > csw then csw - cx else cw)
    in (cx, cy, cw, ch))"

text \<open>
  A load and a store through the pointers of the two switches over \<open>bytesPerPixel\<close>: for 3 and 4 bytes
  they are pointers to \<open>unsigned long\<close>, which has 8.
\<close>

definition access_size :: "nat \<Rightarrow> nat" where
  "access_size n = (if n = 1 then 1 else if n = 2 then 2 else if n = 3 \<or> n = 4 then 8 else 0)"

definition load_long :: "bool \<Rightarrow> nat \<Rightarrow> buffer \<Rightarrow> nat \<Rightarrow> ulong" where
  "load_long le n mem a =
    (let bs = map (\<lambda>i. mem (a + i)) [0..<n]; bs = (if le then bs else rev bs)
     in foldr (\<lambda>b v. push_bit 8 v OR ucast b) bs 0)"

definition store_long :: "bool \<Rightarrow> nat \<Rightarrow> ulong \<Rightarrow> nat \<Rightarrow> buffer \<Rightarrow> buffer" where
  "store_long le n v a mem =
    (let bs = map (\<lambda>i. ucast (drop_bit (8 * i) v)) [0..<n]; bs = (if le then bs else rev bs)
     in copy_bytes a 0 n (\<lambda>i. bs ! i) mem)"

text \<open>One component of the blend: the mean over the square of pixels whose upper left corner is at \<open>a\<close>.\<close>

definition blend :: "server \<Rightarrow> nat \<Rightarrow> buffer \<Rightarrow> nat \<Rightarrow> nat \<Rightarrow> nat \<Rightarrow> ulong" where
  "blend srv s mem a shift mx =
    (let n = sbitsPerPixel (rfbScreen srv) div 8;
         pixel = (\<lambda>v u. load_long (littleEndian srv) (access_size n) mem (a + v * n + u * paddedWidthInBytes (rfbScreen srv)))
     in sum_list (concat (map (\<lambda>v. map (\<lambda>u. drop_bit shift (pixel v u) AND of_nat mx) [0..<s]) [0..<s])) div of_nat (s * s))"

definition blended_pixel :: "server \<Rightarrow> nat \<Rightarrow> buffer \<Rightarrow> nat \<Rightarrow> ulong" where
  "blended_pixel srv s mem a =
    (let f = rfbServerFormat srv in
     push_bit (redShift f) (blend srv s mem a (redShift f) (redMax f)) +
     push_bit (greenShift f) (blend srv s mem a (greenShift f) (greenMax f)) +
     push_bit (blueShift f) (blend srv s mem a (blueShift f) (blueMax f)))"

definition copy_scaled_pixel :: "server \<Rightarrow> rfbClientRec \<Rightarrow> nat \<Rightarrow> nat \<Rightarrow> nat \<Rightarrow> nat \<Rightarrow> buffer \<Rightarrow> buffer" where
  "copy_scaled_pixel srv cl cx cy xx yy dst =
    (let s = scalingFactor cl;
         n = sbitsPerPixel (rfbScreen srv) div 8;
         srcptr = (cy + yy) * s * paddedWidthInBytes (rfbScreen srv) + (cx + xx) * s * n;
         dstptr = (cy + yy) * scalingPaddedWidthInBytes cl + (cx + xx) * n
     in if trueColour (format cl)
        then store_long (littleEndian srv) (access_size n) (blended_pixel srv s (screenBuffer cl) srcptr) dstptr dst
        else copy_bytes dstptr srcptr n (screenBuffer cl) dst)"

definition CopyScalingRect ::
    "server \<Rightarrow> nat \<times> nat \<times> nat \<times> nat \<Rightarrow> rfbClientRec \<Rightarrow> (nat \<times> nat \<times> nat \<times> nat) \<times> rfbClientRec" where
  "CopyScalingRect srv r cl =
    (let (cx, cy, cw, ch) = scaled_rect srv cl r;
         dst = fold (\<lambda>yy. fold (\<lambda>xx. copy_scaled_pixel srv cl cx cy xx yy) [0..<cw]) [0..<ch] (scalingFrameBuffer cl)
     in ((cx, cy, cw, ch), cl\<lparr>scalingFrameBuffer := dst\<rparr>))"

section \<open>The number of rectangles\<close>

definition MIN_SPLIT_RECT_SIZE :: nat where "MIN_SPLIT_RECT_SIZE = 4096"

text \<open>The columns maxRectSize and maxRectWidth of \<open>tightConf\<close>.\<close>

definition tight_max_size :: "nat list" where
  "tight_max_size = [512, 2048, 6144, 10240, 16384, 32768, 65536, 65536, 65536, 65536]"

definition tight_max_width :: "nat list" where
  "tight_max_width = [32, 128, 256, 1024, 2048, 2048, 2048, 2048, 2048, 2048]"

definition rfbNumCodedRectsTight :: "rfbClientRec \<Rightarrow> nat \<Rightarrow> nat \<Rightarrow> nat" where
  "rfbNumCodedRectsTight cl w h =
    (if enableLastRectEncoding cl \<and> w * h \<ge> MIN_SPLIT_RECT_SIZE then 0
     else
       let maxRectSize = tight_max_size ! tightCompressLevel cl;
           maxRectWidth = tight_max_width ! tightCompressLevel cl
       in if w > maxRectWidth \<or> w * h > maxRectSize then
            let subrectMaxWidth = (if w > maxRectWidth then maxRectWidth else w);
                subrectMaxHeight = maxRectSize div subrectMaxWidth
            in ((w - 1) div maxRectWidth + 1) * ((h - 1) div subrectMaxHeight + 1)
          else 1)"

definition box_size :: "BoxRec \<Rightarrow> nat \<times> nat" where
  "box_size b = (nat (bx2 b - bx1 b), nat (by2 b - by1 b))"

text \<open>
  The loop for Tight, with its break; the sums of the pieces of a region cannot exceed 32 bits, since
  there are fewer of them than pixels.
\<close>

fun count_tight :: "rfbClientRec \<Rightarrow> (nat \<times> nat) list \<Rightarrow> nat \<Rightarrow> nat" where
  "count_tight cl [] k = k"
| "count_tight cl ((w, h) # sizes) k =
    (let n = rfbNumCodedRectsTight cl w h in if n = 0 then 0xFFFF else count_tight cl sizes (k + n))"

definition nUpdateRegionRects :: "rfbClientRec \<Rightarrow> (nat \<times> nat) list \<Rightarrow> nat" where
  "nUpdateRegionRects cl sizes =
    (if preferredEncoding cl = int rfbEncodingCoRRE then
       sum_list (map (\<lambda>(w, h). ((w - 1) div correMaxWidth cl + 1) * ((h - 1) div correMaxHeight cl + 1)) sizes)
     else if preferredEncoding cl = int rfbEncodingZlib then
       sum_list (map (\<lambda>(w, h). (h - 1) div (ZLIB_MAX_SIZE w div w) + 1) sizes)
     else if preferredEncoding cl = int rfbEncodingTight then count_tight cl sizes 0
     else length sizes)"

section \<open>The update\<close>

text \<open>The switch over the encodings; an encoding that is not among them sends nothing.\<close>

definition send_rect :: "surroundings \<Rightarrow> int \<Rightarrow> sender" where
  "send_rect u enc =
    (if enc = int rfbEncodingRaw then rfbSendRectEncodingRaw
     else if enc = int rfbEncodingRRE then rfbSendRectEncodingRRE (rreBufSize u)
     else if enc = int rfbEncodingCoRRE then rfbSendRectEncodingCoRRE (rreBufSize u)
     else if enc = int rfbEncodingHextile then rfbSendRectEncodingHextile
     else if enc = int rfbEncodingZlib then rfbSendRectEncodingZlib (deflate u) (rreBufSize u)
     else if enc = int rfbEncodingTight then sendTight u
     else if enc = int rfbEncodingZlibHex then sendZlibHex u
     else if enc = int rfbEncodingZRLE then sendZRLE u
     else (\<lambda>srv x y w h cl. (True, cl)))"

text \<open>
  The loop over the rectangles. \<open>screenBuffer\<close> points into the copy of the screen, so it shows what has
  just been copied; without scaling the encoders read it directly.
\<close>

definition proper_box :: "BoxRec \<Rightarrow> bool" where
  "proper_box b \<longleftrightarrow> 0 \<le> bx1 b \<and> bx1 b < bx2 b \<and> 0 \<le> by1 b \<and> by1 b < by2 b"

fun send_rects :: "surroundings \<Rightarrow> BoxRec list \<Rightarrow> server \<times> rfbClientRec \<Rightarrow> bool \<times> server \<times> rfbClientRec" where
  "send_rects u [] (srv, cl) = (True, srv, cl)"
| "send_rects u (b # bs) (srv, cl) =
    (let (w, h) = box_size b; x = nat (bx1 b); y = nat (by1 b);
         srv = rfbGetFramebufferUpdateInRect u x y w h srv;
         cl = cl\<lparr>screenBuffer := framebuffer srv\<rparr>;
         ((x, y, w, h), cl) = (if scalingFactor cl \<noteq> 1 then CopyScalingRect srv (x, y, w, h) cl
                               else ((x, y, w, h), cl\<lparr>scalingFrameBuffer := screenBuffer cl\<rparr>));
         cl = cl\<lparr>rfbRawBytesEquivalent := rfbRawBytesEquivalent cl +
                (sz_rfbFramebufferUpdateRectHeader + w * bytesPerPixel cl * h)\<rparr>;
         (ok, cl) = send_rect u (preferredEncoding cl) srv x y w h cl
     in if ok then send_rects u bs (srv, cl) else (False, srv, cl))"

text \<open>The count in the header, if it is still in the buffer.\<close>

definition patch_count :: "nat \<Rightarrow> rfbClientRec \<Rightarrow> rfbClientRec" where
  "patch_count n cl =
    cl\<lparr>updateBuf := (if 4 \<le> length (updateBuf cl) then take 2 (updateBuf cl) @ be16 (int n) @ drop 4 (updateBuf cl)
                    else updateBuf cl)\<rparr>"

text \<open>The pseudo rectangles that come first; the shape of the cursor is left out if it cannot be sent.\<close>

definition send_shape :: "env \<Rightarrow> cursor \<Rightarrow> server \<Rightarrow> nat \<Rightarrow> rfbClientRec \<Rightarrow> nat \<times> rfbClientRec" where
  "send_shape env cur srv n cl =
    (case rfbSendRichCursorUpdate (stackByte env 0) cur srv cl of
       (True, cl) \<Rightarrow> (n, cl)
     | (False, cl) \<Rightarrow> (n - 1, patch_count (n - 1) cl))"

definition send_position_and_size :: "cursor \<Rightarrow> server \<Rightarrow> bool \<Rightarrow> rfbClientRec \<Rightarrow> bool \<times> rfbClientRec" where
  "send_position_and_size cur srv position cl =
    (case (if position then rfbSendCursorPos cur cl else (True, cl)) of
       (False, cl) \<Rightarrow> (False, cl)
     | (True, cl) \<Rightarrow>
         if needNewScreenSize cl then
           (case rfbSendScreenUpdateEncoding srv cl of
              (True, cl) \<Rightarrow> (True, cl\<lparr>needNewScreenSize := False\<rparr>)
            | (False, cl) \<Rightarrow> (False, cl))
         else (True, cl))"

definition finish_update :: "nat \<Rightarrow> rfbClientRec \<Rightarrow> bool \<times> rfbClientRec" where
  "finish_update n cl =
    (case (if n = 0xFFFF then rfbSendLastRectMarker cl else (True, cl)) of
       (False, cl) \<Rightarrow> (False, cl)
     | (True, cl) \<Rightarrow> rfbSendUpdateBuf cl)"

definition rfbSendFramebufferUpdate ::
    "env \<Rightarrow> surroundings \<Rightarrow> cursor \<Rightarrow> RegionRec \<Rightarrow> server \<times> rfbClientRec \<Rightarrow> bool \<times> server \<times> rfbClientRec" where
  "rfbSendFramebufferUpdate env u cur updateRegion = (\<lambda>(srv, cl).
    let boxes = REGION_RECTS updateRegion;
        cl = cl\<lparr>rfbFramebufferUpdateMessagesSent := rfbFramebufferUpdateMessagesSent cl + 1\<rparr>
    in if \<exists>b \<in> set boxes. \<not> proper_box b then (False, srv, cl\<lparr>exited := True\<rparr>)
       else
         let n = nUpdateRegionRects cl (map box_size boxes);
             sendShape = (n \<noteq> 0xFFFF \<and> rfbShouldSendNewCursor cur cl);
             sendPosition = (n \<noteq> 0xFFFF \<and> rfbShouldSendNewPosition cur cl);
             n = (if n = 0xFFFF then n else n + of_bool sendShape + of_bool sendPosition + of_bool (needNewScreenSize cl));
             cl = cl\<lparr>updateBuf := fu_header (stackByte env 1) n\<rparr>;
             (n, cl) = (if sendShape then send_shape env cur srv n cl else (n, cl))
         in case send_position_and_size cur srv sendPosition cl of
              (False, cl) \<Rightarrow> (False, srv, cl)
            | (True, cl) \<Rightarrow>
                let cl = cl\<lparr>screenBuffer := framebuffer srv\<rparr> in
                case send_rects u boxes (srv, cl) of
                  (False, srv, cl) \<Rightarrow> (False, srv, cl)
                | (True, srv, cl) \<Rightarrow> let (ok, cl) = finish_update n cl in (ok, srv, cl))"

end
