(* ===== verification/Updatespec.thy ===== *)
theory Updatespec
  imports Update
begin

text \<open>
  What an update shows. A viewer that decodes the rectangles of an update and paints them has, at every
  pixel of the updated region and only there, what the screen of the server shows, translated to the
  viewer's format. The encoders enter through the locale \<open>rect_encoder\<close>, of which each is an instance.
\<close>

section \<open>Copying rows\<close>

lemma copy_rows_above: "a < dest \<Longrightarrow> copy_rows h dest source n destRow sourceRow src mem a = mem a"
  by (induction h arbitrary: dest source mem) (simp_all add: copy_bytes_def)

lemma copy_rows_nth:
  assumes "n \<le> destRow" "j < h" "k < n"
  shows "copy_rows h dest source n destRow sourceRow src mem (dest + j * destRow + k) = src (source + j * sourceRow + k)"
  using assms
proof (induction h arbitrary: j dest source mem)
  case (Suc h)
  show ?case
  proof (cases j)
    case 0
    then have "dest + k < dest + destRow" using Suc.prems by simp
    then show ?thesis using 0 Suc.prems by (simp add: copy_rows_above copy_bytes_def)
  next
    case (Suc i)
    then show ?thesis using Suc.IH [of i "dest + destRow" "source + sourceRow"] Suc.prems
      by (simp add: algebra_simps)
  qed
qed simp

lemma copy_rows_below:
  assumes "dest + (h - 1) * destRow + n \<le> a"
  shows "copy_rows h dest source n destRow sourceRow src mem a = mem a"
  using assms
proof (induction h arbitrary: dest source mem)
  case (Suc h)
  have "dest + n \<le> a" using Suc.prems by (meson add_leE add_le_mono1 le_add1 order_trans)
  moreover have "h \<noteq> 0 \<Longrightarrow> dest + destRow + (h - 1) * destRow + n \<le> a"
    using Suc.prems by (cases h) (simp_all add: algebra_simps)
  ultimately show ?case using Suc.IH [of "dest + destRow"] by (cases "h = 0") (simp_all add: copy_bytes_def)
qed simp

section \<open>The pixels of the screen\<close>

text \<open>
  \<open>D\<close> is the memory of the display, laid out like the server's copy. CoreGraphics answers with its
  rows; without a copy the server works on \<open>D\<close> itself.
\<close>

definition shows_screen :: "surroundings \<Rightarrow> server \<Rightarrow> buffer \<Rightarrow> bool" where
  "shows_screen u srv D \<longleftrightarrow>
    (let row = paddedWidthInBytes (rfbScreen srv); n = sbitsPerPixel (rfbScreen srv) div 8 in
     if frameBufferData u then
       frameBufferBytesPerRow u = row \<and> frameBufferBitsPerPixel u = sbitsPerPixel (rfbScreen srv) \<and>
       (\<forall>x y w h. case image u x y w h of (src, imgRow, bpp) \<Rightarrow> bpp = sbitsPerPixel (rfbScreen srv) \<and>
          (\<forall>j < h. \<forall>k < w * n. src (j * imgRow + k) = D (row * (y + j) + x * n + k)))
     else framebuffer srv = D)"

lemma shown_after_copy:
  assumes "shows_screen u srv D" "(x + w) * (sbitsPerPixel (rfbScreen srv) div 8) \<le> paddedWidthInBytes (rfbScreen srv)"
    and "j < h" "k < w * (sbitsPerPixel (rfbScreen srv) div 8)"
    and a: "a = paddedWidthInBytes (rfbScreen srv) * (y + j) + x * (sbitsPerPixel (rfbScreen srv) div 8) + k"
  shows "framebuffer (rfbGetFramebufferUpdateInRect u x y w h srv) a = D a"
proof (cases "frameBufferData u")
  case True
  let ?row = "paddedWidthInBytes (rfbScreen srv)" and ?n = "sbitsPerPixel (rfbScreen srv) div 8"
  obtain src imgRow bpp where i: "image u x y w h = (src, imgRow, bpp)" by (metis prod_cases3)
  have s: "bpp = sbitsPerPixel (rfbScreen srv)" "src (j * imgRow + k) = D a"
  proof -
    have "case image u x y w h of (src, imgRow, bpp) \<Rightarrow> bpp = sbitsPerPixel (rfbScreen srv) \<and>
          (\<forall>j < h. \<forall>k < w * ?n. src (j * imgRow + k) = D (?row * (y + j) + x * ?n + k))"
      using assms(1) True by (simp add: shows_screen_def Let_def)
    then show "bpp = sbitsPerPixel (rfbScreen srv)" "src (j * imgRow + k) = D a"
      using assms(3,4) unfolding i a by auto
  qed
  have "w * ?n \<le> ?row" using assms(2) by (simp add: algebra_simps)
  from copy_rows_nth [OF this assms(3,4), of "?row * y + x * ?n" 0 imgRow src "framebuffer srv"]
  have "copy_rows h (?row * y + x * ?n) 0 (w * ?n) ?row imgRow src (framebuffer srv) a = src (j * imgRow + k)"
    by (simp add: a algebra_simps)
  then show ?thesis using assms(1) True s
    by (simp add: rfbGetFramebufferUpdateInRect_def i shows_screen_def Let_def)
next
  case False
  then show ?thesis using assms(1) by (simp add: rfbGetFramebufferUpdateInRect_def shows_screen_def Let_def)
qed

lemma copy_keeps [simp]:
  "rfbScreen (rfbGetFramebufferUpdateInRect u x y w h srv) = rfbScreen srv"
  "rfbServerFormat (rfbGetFramebufferUpdateInRect u x y w h srv) = rfbServerFormat srv"
  "littleEndian (rfbGetFramebufferUpdateInRect u x y w h srv) = littleEndian srv"
  by (simp_all add: rfbGetFramebufferUpdateInRect_def split: prod.split)

lemma copy_frame: "rfbGetFramebufferUpdateInRect u x y w h srv =
    srv\<lparr>framebuffer := framebuffer (rfbGetFramebufferUpdateInRect u x y w h srv)\<rparr>"
  by (simp add: rfbGetFramebufferUpdateInRect_def split: prod.split)

lemma shows_screen_copy: "shows_screen u srv D \<Longrightarrow> shows_screen u (rfbGetFramebufferUpdateInRect u x y w h srv) D"
  by (simp add: shows_screen_def Let_def) (simp add: rfbGetFramebufferUpdateInRect_def)

text \<open>The pixel a viewer shall see, of the memory \<open>D\<close>.\<close>

definition screen_pixel :: "server \<Rightarrow> rfbClientRec \<Rightarrow> buffer \<Rightarrow> nat \<Rightarrow> nat \<Rightarrow> u8 list" where
  "screen_pixel srv cl D x y = source_pixel srv (cl\<lparr>scalingFrameBuffer := D\<rparr>) x y"

definition same_view :: "server \<Rightarrow> rfbClientRec \<Rightarrow> server \<Rightarrow> rfbClientRec \<Rightarrow> bool" where
  "same_view srv cl srv' cl' \<longleftrightarrow>
     rfbScreen srv' = rfbScreen srv \<and> rfbServerFormat srv' = rfbServerFormat srv \<and> littleEndian srv' = littleEndian srv \<and>
     translateFn cl' = translateFn cl \<and> translateLookupTable cl' = translateLookupTable cl \<and> format cl' = format cl \<and>
     scalingPaddedWidthInBytes cl' = scalingPaddedWidthInBytes cl"

lemma load_pixel_cong: "(\<And>k. k < bpp div 8 \<Longrightarrow> m1 (a + k) = m2 (a + k)) \<Longrightarrow> load_pixel le bpp m1 a = load_pixel le bpp m2 a"
proof -
  assume "\<And>k. k < bpp div 8 \<Longrightarrow> m1 (a + k) = m2 (a + k)"
  then have "map (\<lambda>i. m1 (a + i)) [0..<bpp div 8] = map (\<lambda>i. m2 (a + i)) [0..<bpp div 8]" by simp
  then show ?thesis by (simp only: load_pixel_def)
qed

lemma source_pixel_cong:
  assumes v: "same_view srv cl srv' cl'" and d: "drawable srv cl"
    and m: "\<And>k. k < sbitsPerPixel (rfbScreen srv) div 8 \<Longrightarrow>
      scalingFrameBuffer cl (fbptr srv cl x y + k) = scalingFrameBuffer cl' (fbptr srv cl x y + k)"
  shows "source_pixel srv cl x y = source_pixel srv' cl' x y"
proof -
  have a: "fbptr srv' cl' x y = fbptr srv cl x y" using v by (simp add: same_view_def fbptr_def)
  note v' = v [unfolded same_view_def]
  show ?thesis
  proof (cases "translateFn cl")
    case TransNone
    then have "bitsPerPixel (format cl) = sbitsPerPixel (rfbScreen srv)"
      using d PF_EQ_bpp by (simp add: drawable_def trans_ok_def)
    then show ?thesis using v' m TransNone
      by (simp add: source_pixel_def pixels_at_def translate_rect_def rfbTranslateNone_def a cong: map_cong)
  next
    case (TransSingle i out)
    then have "i = sbitsPerPixel (rfbScreen srv)" using d by (simp add: drawable_def trans_ok_def)
    then show ?thesis using v' m TransSingle load_pixel_cong [of i "scalingFrameBuffer cl" _ "scalingFrameBuffer cl'"]
      by (simp add: source_pixel_def pixels_at_def translate_rect_def rfbTranslateWithSingleTable_def trans_lines_def a
          split: trans_table.split)
  next
    case (TransRGB i out)
    then have "i = sbitsPerPixel (rfbScreen srv)" using d by (simp add: drawable_def trans_ok_def)
    then show ?thesis using v' m TransRGB load_pixel_cong [of i "scalingFrameBuffer cl" _ "scalingFrameBuffer cl'"]
      by (simp add: source_pixel_def pixels_at_def translate_rect_def rfbTranslateWithRGBTables_def trans_lines_def a
          split: trans_table.split)
  qed
qed

section \<open>What a viewer reads\<close>

definition rect_pixels :: "(nat \<Rightarrow> nat \<Rightarrow> u8 list) \<Rightarrow> rect \<Rightarrow> u8 list list" where
  "rect_pixels p = (\<lambda>(x, y, w, h). concat (map (\<lambda>j. map (\<lambda>i. p (x + i) (y + j)) [0..<w]) [0..<h]))"

definition shown_as :: "(nat \<Rightarrow> nat \<Rightarrow> u8 list \<Rightarrow> u8 list list \<times> u8 list) \<Rightarrow> nat \<Rightarrow> (nat \<Rightarrow> nat \<Rightarrow> u8 list) \<Rightarrow> rect
    \<Rightarrow> u8 list \<Rightarrow> bool" where
  "shown_as dec enc p r msg \<longleftrightarrow>
     (case r of (x, y, w, h) \<Rightarrow> \<exists>body. msg = rect_header (int x) (int y) (int w) (int h) enc @ body \<and>
       (\<forall>bs. dec w h (body @ bs) = (rect_pixels p r, bs)))"

text \<open>The viewer decodes by the encoding in the header; \<open>n\<close> is its bytes per pixel.\<close>

definition viewer_reads :: "nat \<Rightarrow> (nat \<Rightarrow> nat \<Rightarrow> u8 list) \<Rightarrow> rect \<Rightarrow> u8 list \<Rightarrow> bool" where
  "viewer_reads n p r msg \<longleftrightarrow>
     shown_as (decode_raw n) rfbEncodingRaw p r msg \<or>
     shown_as (decode_rre (rre_get n) n) rfbEncodingRRE p r msg \<or>
     shown_as (decode_rre (corre_get n) n) rfbEncodingCoRRE p r msg \<or>
     shown_as (decode_hextile n) rfbEncodingHextile p r msg"

lemma carries_shown: "carries dec enc srv cl x y w h msg = shown_as dec enc (source_pixel srv cl) (x, y, w, h) msg"
  by (simp add: carries_def shown_as_def rect_pixels_def source_pixels_def)

lemma rect_pixels_cong:
  assumes "\<And>px py. in_rect px py r \<Longrightarrow> p px py = q px py"
  shows "rect_pixels p r = rect_pixels q r"
proof -
  obtain x y w h where r: "r = (x, y, w, h)" by (metis prod_cases4)
  show ?thesis using assms unfolding r
    by (auto simp: rect_pixels_def in_rect_def intro!: arg_cong [where f = concat])
qed

lemma viewer_reads_cong:
  assumes "\<And>px py. in_rect px py r \<Longrightarrow> p px py = q px py"
  shows "viewer_reads n p r = viewer_reads n q r"
  by (intro ext) (simp add: viewer_reads_def shown_as_def rect_pixels_cong [OF assms])

lemma carries_all_mono:
  "carries_all P rs m \<Longrightarrow> (\<And>r m. r \<in> set rs \<Longrightarrow> P r m \<Longrightarrow> Q r m) \<Longrightarrow> carries_all Q rs m"
  by (induction rs arbitrary: m) (auto, metis)

section \<open>Calls that send, again\<close>

text \<open>
  As \<open>sends\<close>, for calls that also change what an update changes: the two buffers and what the client
  knows of the cursor.
\<close>

definition settings_upd :: "rfbClientRec \<Rightarrow> rfbClientRec" where
  "settings_upd cl = settings (cl\<lparr>screenBuffer := (\<lambda>_. 0), scalingFrameBuffer := (\<lambda>_. 0),
     clientCursorLocation := (0, 0), currentCursorSeed := 0\<rparr>)"

definition sends_upd :: "rfbClientRec \<Rightarrow> u8 list \<Rightarrow> bool \<times> rfbClientRec \<Rightarrow> bool" where
  "sends_upd cl bs res \<longleftrightarrow> settings_upd (snd res) = settings_upd cl \<and>
     (\<exists>rest. sent (snd res) @ rest = stream cl @ bs) \<and>
     (if fst res then stream (snd res) = stream cl @ bs \<and> ublen (snd res) \<le> UPDATE_BUF_SIZE \<and> sock (snd res) = sock cl
      else gone (snd res))"

lemma settings_updI: "settings a = settings b \<Longrightarrow> settings_upd a = settings_upd b"
proof -
  have "settings_upd c = (settings c)\<lparr>screenBuffer := (\<lambda>_. 0), scalingFrameBuffer := (\<lambda>_. 0),
     clientCursorLocation := (0, 0), currentCursorSeed := 0\<rparr>" for c
    by (simp add: settings_upd_def settings_def)
  then show "settings a = settings b \<Longrightarrow> settings_upd a = settings_upd b" by simp
qed

lemma settings_upd_cursor: "settings_cursor a = settings_cursor b \<Longrightarrow> settings_upd a = settings_upd b"
proof -
  have "settings_upd c = (settings_cursor c)\<lparr>screenBuffer := (\<lambda>_. 0), scalingFrameBuffer := (\<lambda>_. 0)\<rparr>" for c
    by (simp add: settings_upd_def settings_cursor_def settings_def)
  then show "settings_cursor a = settings_cursor b \<Longrightarrow> settings_upd a = settings_upd b" by simp
qed

lemma sends_updI: "sends cl bs res \<Longrightarrow> sends_upd cl bs res"
  by (auto simp: sends_def sends_upd_def gone_def intro: settings_updI)

lemma sends_upd_cursor: "sends_cur cl bs res \<Longrightarrow> sends_upd cl bs res"
  by (auto simp: sends_cur_def sends_upd_def gone_def intro: settings_upd_cursor)

lemma sends_upd_more:
  assumes "sends_upd c bs res" "settings_upd c = settings_upd cl" "stream c = stream cl @ as" "sock c = sock cl"
  shows "sends_upd cl (as @ bs) res"
  using assms by (auto simp: sends_upd_def)

lemma sends_upd_fail:
  assumes "sends_upd cl as (False, c)"
  shows "sends_upd cl (as @ bs) (False, c)"
proof -
  obtain rest where "sent c @ rest = stream cl @ as" using assms by (auto simp: sends_upd_def)
  then have "sent c @ (rest @ bs) = stream cl @ as @ bs" by simp
  then have "\<exists>r. sent c @ r = stream cl @ as @ bs" by blast
  then show ?thesis using assms by (simp add: sends_upd_def)
qed

lemma sends_upd_seq:
  assumes "sends_upd cl as (ok, c)"
    and "ok \<Longrightarrow> settings_upd c = settings_upd cl \<Longrightarrow> ublen c \<le> UPDATE_BUF_SIZE \<Longrightarrow> sends_upd c bs (f c)"
  shows "sends_upd cl (as @ bs) (if ok then f c else (False, c))"
proof (cases ok)
  case True
  then have "settings_upd c = settings_upd cl" "stream c = stream cl @ as" "ublen c \<le> UPDATE_BUF_SIZE" "sock c = sock cl"
    using assms(1) by (auto simp: sends_upd_def)
  then show ?thesis using assms(2) True sends_upd_more [of c bs "f c" cl as] by simp
next
  case False
  then show ?thesis using assms(1) sends_upd_fail [of cl as c bs] by simp
qed

lemma settings_upd_fields:
  assumes "settings_upd a = settings_upd b"
  shows "translateFn a = translateFn b" "translateLookupTable a = translateLookupTable b" "format a = format b"
    "scalingPaddedWidthInBytes a = scalingPaddedWidthInBytes b" "scalingFactor a = scalingFactor b"
    "preferredEncoding a = preferredEncoding b" "correMaxWidth a = correMaxWidth b" "correMaxHeight a = correMaxHeight b"
    "needNewScreenSize a = needNewScreenSize b" "bytesPerPixel a = bytesPerPixel b"
  using settings_fields [OF assms [unfolded settings_upd_def]] by (simp_all add: bytesPerPixel_def)

section \<open>The encoders as an interface\<close>

text \<open>What an encoder depends on, apart from the contents of the buffers.\<close>

definition same_setup :: "server \<Rightarrow> rfbClientRec \<Rightarrow> server \<Rightarrow> rfbClientRec \<Rightarrow> bool" where
  "same_setup srv cl srv' cl' \<longleftrightarrow> same_view srv cl srv' cl' \<and>
     correMaxWidth cl' = correMaxWidth cl \<and> correMaxHeight cl' = correMaxHeight cl"

lemma same_setup_drawable: "same_setup srv cl srv' cl' \<Longrightarrow> drawable srv cl \<Longrightarrow> drawable srv' cl'"
  by (cases "translateFn cl") (auto simp: same_setup_def same_view_def drawable_def trans_ok_def)

lemma same_setup_bpp: "same_setup srv cl srv' cl' \<Longrightarrow> bytesPerPixel cl' = bytesPerPixel cl"
  by (simp add: same_setup_def same_view_def bytesPerPixel_def)

text \<open>The screen lies in memory line by line, and the client's buffer has its layout.\<close>

definition unscaled :: "server \<Rightarrow> rfbClientRec \<Rightarrow> bool" where
  "unscaled srv cl \<longleftrightarrow> scalingFactor cl = 1 \<and> scalingPaddedWidthInBytes cl = paddedWidthInBytes (rfbScreen srv) \<and>
     swidth (rfbScreen srv) * (sbitsPerPixel (rfbScreen srv) div 8) \<le> paddedWidthInBytes (rfbScreen srv)"

definition box_rect :: "BoxRec \<Rightarrow> rect" where
  "box_rect b = (nat (bx1 b), nat (by1 b), fst (box_size b), snd (box_size b))"

definition on_screen :: "server \<Rightarrow> BoxRec \<Rightarrow> bool" where
  "on_screen srv b \<longleftrightarrow> proper_box b \<and> bx2 b \<le> int (swidth (rfbScreen srv)) \<and> by2 b \<le> int (sheight (rfbScreen srv))"

text \<open>
  An encoder for an encoding: it sends, for a rectangle that fits it, a message for each of the pieces
  into which it cuts the rectangle, which the viewer reads as the pixels of the piece; the pieces
  partition the rectangle, none of them is empty, and they are as many as announced.
\<close>

definition solid_rect :: "rect \<Rightarrow> bool" where
  "solid_rect = (\<lambda>(x, y, w, h). 0 < w \<and> 0 < h)"

locale rect_encoder =
  fixes send :: sender and fits :: "server \<Rightarrow> rfbClientRec \<Rightarrow> nat \<Rightarrow> nat \<Rightarrow> bool"
    and pieces :: "rfbClientRec \<Rightarrow> rect \<Rightarrow> rect list" and number :: "rfbClientRec \<Rightarrow> nat \<Rightarrow> nat \<Rightarrow> nat"
  assumes encoded: "drawable srv cl \<Longrightarrow> ublen cl \<le> UPDATE_BUF_SIZE \<Longrightarrow> fits srv cl w h \<Longrightarrow>
      \<exists>msg. sends cl msg (send srv x y w h cl) \<and>
        carries_all (viewer_reads (bytesPerPixel cl) (source_pixel srv cl)) (pieces cl (x, y, w, h)) msg"
    and partition: "fits srv cl w h \<Longrightarrow>
      length (filter (in_rect px py) (pieces cl (x, y, w, h))) = of_bool (in_rect px py (x, y, w, h))"
    and counted: "fits srv cl w h \<Longrightarrow> length (pieces cl (x, y, w, h)) = number cl w h"
    and solid_pieces: "fits srv cl w h \<Longrightarrow> r \<in> set (pieces cl (x, y, w, h)) \<Longrightarrow> solid_rect r"
    and stable: "same_setup srv cl srv' cl' \<Longrightarrow> pieces cl' = pieces cl \<and> fits srv' cl' = fits srv cl \<and> number cl' = number cl"
begin

lemma piece_inside:
  assumes "fits srv cl w h" "r \<in> set (pieces cl (x, y, w, h))" "in_rect px py r"
  shows "in_rect px py (x, y, w, h)"
proof -
  have "r \<in> set (filter (in_rect px py) (pieces cl (x, y, w, h)))" using assms(2,3) by simp
  then have "length (filter (in_rect px py) (pieces cl (x, y, w, h))) \<noteq> 0" by (cases "filter (in_rect px py) (pieces cl (x, y, w, h))") auto
  then show ?thesis using partition [OF assms(1), of px py x y] by (cases "in_rect px py (x, y, w, h)") auto
qed

lemma boxes_partition:
  assumes "\<forall>b \<in> set bs. fits srv cl (fst (box_size b)) (snd (box_size b))"
  shows "length (filter (in_rect px py) (concat (map (pieces cl \<circ> box_rect) bs))) =
    length (filter (in_rect px py) (map box_rect bs))"
  using assms
proof (induction bs)
  case (Cons b bs)
  then show ?case using partition [of srv cl "fst (box_size b)" "snd (box_size b)" px py] by (simp add: box_rect_def)
qed simp

lemma boxes_solid:
  assumes "\<forall>b \<in> set bs. fits srv cl (fst (box_size b)) (snd (box_size b))" "r \<in> set (concat (map (pieces cl \<circ> box_rect) bs))"
  shows "solid_rect r"
proof -
  obtain b where "b \<in> set bs" "r \<in> set (pieces cl (box_rect b))" using assms(2) by auto
  then show ?thesis using solid_pieces assms(1) unfolding box_rect_def by blast
qed

lemma boxes_counted:
  assumes "\<forall>b \<in> set bs. fits srv cl (fst (box_size b)) (snd (box_size b))"
  shows "length (concat (map (pieces cl \<circ> box_rect) bs)) = sum_list (map (\<lambda>(w, h). number cl w h) (map box_size bs))"
  using assms
proof (induction bs)
  case (Cons b bs)
  then show ?case using counted [of srv cl "fst (box_size b)" "snd (box_size b)"]
    by (simp add: box_rect_def split: prod.split)
qed simp

end

section \<open>The loop over the rectangles\<close>

text \<open>The client as the encoder of a rectangle gets it, after the copy of that rectangle.\<close>

definition prepared :: "server \<Rightarrow> nat \<Rightarrow> rfbClientRec \<Rightarrow> rfbClientRec" where
  "prepared srv k cl = cl\<lparr>screenBuffer := framebuffer srv, scalingFrameBuffer := framebuffer srv,
     rfbRawBytesEquivalent := rfbRawBytesEquivalent cl + k\<rparr>"

lemma prepared_fields [simp]:
  "stream (prepared srv k cl) = stream cl" "ublen (prepared srv k cl) = ublen cl" "sock (prepared srv k cl) = sock cl"
  "settings_upd (prepared srv k cl) = settings_upd cl"
  "preferredEncoding (prepared srv k cl) = preferredEncoding cl"
  "bytesPerPixel (prepared srv k cl) = bytesPerPixel cl"
  by (simp_all add: prepared_def stream_def ublen_def settings_upd_def settings_def bytesPerPixel_def)

lemma send_rects_unscaled:
  assumes "scalingFactor cl = 1" and srv1: "srv1 = (case box_rect b of (x, y, w, h) \<Rightarrow> rfbGetFramebufferUpdateInRect u x y w h srv)"
  shows "send_rects u (b # bs) (srv, cl) = (case box_rect b of (x, y, w, h) \<Rightarrow>
    let (ok, c) = send_rect u (preferredEncoding cl) srv1 x y w h
          (prepared srv1 (sz_rfbFramebufferUpdateRectHeader + w * bytesPerPixel cl * h) cl)
    in if ok then send_rects u bs (srv1, c) else (False, srv1, c))"
  using assms(1) by (simp add: srv1 box_rect_def prepared_def Let_def bytesPerPixel_def split: prod.split)

lemma prepared_pixel:
  assumes "shows_screen u srv D" "unscaled srv cl" "on_screen srv b" "drawable srv cl" "box_rect b = (x, y, w, h)"
    and "in_rect px py (box_rect b)" and srv1: "srv1 = rfbGetFramebufferUpdateInRect u x y w h srv"
  shows "source_pixel srv1 (prepared srv1 k cl) px py = screen_pixel srv cl D px py"
proof -
  let ?n = "sbitsPerPixel (rfbScreen srv) div 8" and ?row = "paddedWidthInBytes (rfbScreen srv)"
  have i: "x \<le> px" "px < x + w" "y \<le> py" "py < y + h" using assms(5,6) by (auto simp: in_rect_def)
  have "x + w \<le> swidth (rfbScreen srv)"
    using assms(3,5) by (auto simp: on_screen_def proper_box_def box_rect_def box_size_def)
  then have "(x + w) * ?n \<le> ?row" using assms(2) mult_le_mono1 [of "x + w" "swidth (rfbScreen srv)" ?n]
    unfolding unscaled_def by linarith
  note c = shown_after_copy [OF assms(1) this, where y = y and j = "py - y" and h = h]
  have "framebuffer srv1 (fbptr srv cl px py + k) = D (fbptr srv cl px py + k)" if "k < ?n" for k
  proof -
    have "px - x + 1 \<le> w" using i by simp
    then have "(px - x + 1) * ?n \<le> w * ?n" by (rule mult_le_mono1)
    then have kk: "(px - x) * ?n + k < w * ?n" using that by (simp add: algebra_simps)
    have "px * ?n = x * ?n + (px - x) * ?n" using i(1) by (simp add: add_mult_distrib [symmetric])
    then have "fbptr srv cl px py + k = ?row * (y + (py - y)) + x * ?n + ((px - x) * ?n + k)"
      using i assms(2) by (simp add: fbptr_def unscaled_def)
    from c [OF _ kk this] i show ?thesis by (simp add: srv1)
  qed
  moreover have "same_view srv (cl\<lparr>scalingFrameBuffer := D\<rparr>) srv1 (prepared srv1 k cl)"
    by (simp add: same_view_def srv1 prepared_def)
  moreover have "drawable srv (cl\<lparr>scalingFrameBuffer := D\<rparr>)"
    using assms(4) by (simp add: drawable_def trans_ok_def cong: trans_fn.case_cong)
  moreover have "fbptr srv (cl\<lparr>scalingFrameBuffer := D\<rparr>) px py = fbptr srv cl px py" by (simp add: fbptr_def)
  ultimately show ?thesis unfolding screen_pixel_def
    by (intro source_pixel_cong [symmetric]) (simp_all add: prepared_def)
qed

lemma same_setup_upd:
  "settings_upd c = settings_upd cl \<Longrightarrow> rfbScreen srv' = rfbScreen srv \<Longrightarrow> rfbServerFormat srv' = rfbServerFormat srv \<Longrightarrow>
    littleEndian srv' = littleEndian srv \<Longrightarrow> same_setup srv cl srv' c"
  using settings_upd_fields [of c cl] by (simp add: same_setup_def same_view_def)

lemma screen_pixel_setup: "same_setup srv cl srv' c \<Longrightarrow> drawable srv cl \<Longrightarrow> screen_pixel srv' c D = screen_pixel srv cl D"
proof (intro ext)
  fix x y assume s: "same_setup srv cl srv' c" and d: "drawable srv cl"
  have "same_view srv (cl\<lparr>scalingFrameBuffer := D\<rparr>) srv' (c\<lparr>scalingFrameBuffer := D\<rparr>)"
    using s by (simp add: same_setup_def same_view_def)
  moreover have "drawable srv (cl\<lparr>scalingFrameBuffer := D\<rparr>)"
    using d by (simp add: drawable_def trans_ok_def cong: trans_fn.case_cong)
  ultimately show "screen_pixel srv' c D x y = screen_pixel srv cl D x y"
    unfolding screen_pixel_def by (intro source_pixel_cong [symmetric]) simp_all
qed

context rect_encoder
begin

lemma send_boxes:
  assumes "drawable srv cl" "ublen cl \<le> UPDATE_BUF_SIZE" "unscaled srv cl" "shows_screen u srv D"
    and "send_rect u (preferredEncoding cl) = send"
    and "\<forall>b \<in> set bs. on_screen srv b \<and> fits srv cl (fst (box_size b)) (snd (box_size b))"
  shows "\<exists>msg. carries_all (viewer_reads (bytesPerPixel cl) (screen_pixel srv cl D)) (concat (map (pieces cl \<circ> box_rect) bs)) msg \<and>
    (case send_rects u bs (srv, cl) of (ok, srv', cl') \<Rightarrow> sends_upd cl msg (ok, cl'))"
  using assms
proof (induction bs arbitrary: srv cl)
  case Nil
  then show ?case by (simp add: sends_upd_def stream_def)
next
  case (Cons b bs)
  obtain x y w h where r: "box_rect b = (x, y, w, h)" by (metis prod_cases4)
  then have wh: "w = fst (box_size b)" "h = snd (box_size b)" by (simp_all add: box_rect_def)
  let ?srv1 = "rfbGetFramebufferUpdateInRect u x y w h srv"
  let ?cl1 = "prepared ?srv1 (sz_rfbFramebufferUpdateRectHeader + w * bytesPerPixel cl * h) cl"
  obtain ok c where s: "send ?srv1 x y w h ?cl1 = (ok, c)" by fastforce
  have e: "send_rects u (b # bs) (srv, cl) = (if ok then send_rects u bs (?srv1, c) else (False, ?srv1, c))"
    using Cons.prems(3,5) send_rects_unscaled [of cl ?srv1 u srv b bs] by (simp add: unscaled_def r s)
  have s1: "same_setup srv cl ?srv1 ?cl1" by (simp add: same_setup_upd)
  have f1: "fits ?srv1 ?cl1 w h" using Cons.prems(6) stable [OF s1] wh by simp
  from encoded [OF same_setup_drawable [OF s1 Cons.prems(1)] _ f1, of x y] Cons.prems(2) s stable [OF s1]
  obtain m where m: "sends ?cl1 m (ok, c)"
    "carries_all (viewer_reads (bytesPerPixel cl) (source_pixel ?srv1 ?cl1)) (pieces cl (x, y, w, h)) m" by auto
  have rd: "carries_all (viewer_reads (bytesPerPixel cl) (screen_pixel srv cl D)) (pieces cl (x, y, w, h)) m"
  proof (rule carries_all_mono [OF m(2)])
    fix p msg assume p: "p \<in> set (pieces cl (x, y, w, h))"
      and v: "viewer_reads (bytesPerPixel cl) (source_pixel ?srv1 ?cl1) p msg"
    have "source_pixel ?srv1 ?cl1 px py = screen_pixel srv cl D px py" if "in_rect px py p" for px py
    proof (rule prepared_pixel [OF Cons.prems(4,3) _ Cons.prems(1) r])
      show "on_screen srv b" using Cons.prems(6) by simp
      have "fits srv cl w h" using Cons.prems(6) wh by simp
      from piece_inside [OF this p that] show "in_rect px py (box_rect b)" unfolding r .
    qed (rule refl)
    then have "viewer_reads (bytesPerPixel cl) (source_pixel ?srv1 ?cl1) p = viewer_reads (bytesPerPixel cl) (screen_pixel srv cl D) p"
      by (rule viewer_reads_cong)
    then show "viewer_reads (bytesPerPixel cl) (screen_pixel srv cl D) p msg" using v by simp
  qed
  have m': "sends_upd cl m (ok, c)"
    using sends_upd_more [OF sends_updI [OF m(1)], of cl "[]"] by simp
  have "\<exists>ms. carries_all (viewer_reads (bytesPerPixel cl) (screen_pixel srv cl D)) (concat (map (pieces cl \<circ> box_rect) bs)) ms \<and>
    (ok \<longrightarrow> (case send_rects u bs (?srv1, c) of (ok, srv', cl') \<Rightarrow> sends_upd c ms (ok, cl')))"
  proof (cases ok)
    case True
    then have c: "settings_upd c = settings_upd cl" "ublen c \<le> UPDATE_BUF_SIZE" using m' by (simp_all add: sends_upd_def)
    have s2: "same_setup srv cl ?srv1 c" using same_setup_upd [OF c(1)] by simp
    note f = settings_upd_fields [OF c(1)]
    have "unscaled ?srv1 c" "shows_screen u ?srv1 D" "send_rect u (preferredEncoding c) = send"
      "\<forall>b \<in> set bs. on_screen ?srv1 b \<and> fits ?srv1 c (fst (box_size b)) (snd (box_size b))"
      using Cons.prems(3-6) stable [OF s2] shows_screen_copy by (simp_all add: unscaled_def f on_screen_def)
    from Cons.IH [OF same_setup_drawable [OF s2 Cons.prems(1)] c(2) this]
    obtain ms where ms: "carries_all (viewer_reads (bytesPerPixel c) (screen_pixel ?srv1 c D)) (concat (map (pieces c \<circ> box_rect) bs)) ms"
      "case send_rects u bs (?srv1, c) of (ok, srv', cl') \<Rightarrow> sends_upd c ms (ok, cl')" by (elim exE conjE)
    have p: "pieces c = pieces cl" using stable [OF s2] by (elim conjE)
    show ?thesis using ms by (intro exI [of _ ms]) (simp only: f(10) screen_pixel_setup [OF s2 Cons.prems(1)] p simp_thms)
  next
    case False
    have "\<forall>b \<in> set bs. on_screen srv b \<and> fits srv cl (fst (box_size b)) (snd (box_size b))"
      using Cons.prems(6) by simp
    from Cons.IH [OF Cons.prems(1-5) this] show ?thesis using False by (elim exE conjE) (intro exI conjI, assumption, simp)
  qed
  then obtain ms where ms: "carries_all (viewer_reads (bytesPerPixel cl) (screen_pixel srv cl D)) (concat (map (pieces cl \<circ> box_rect) bs)) ms"
    "ok \<longrightarrow> (case send_rects u bs (?srv1, c) of (ok, srv', cl') \<Rightarrow> sends_upd c ms (ok, cl'))" by (elim exE conjE)
  obtain ok2 srv2 c2 where r2: "send_rects u bs (?srv1, c) = (ok2, srv2, c2)" by (metis prod_cases3)
  have "sends_upd cl (m @ ms) (if ok then (ok2, c2) else (False, c))"
    using sends_upd_seq [OF m', where f = "\<lambda>_. (ok2, c2)"] ms(2) by (simp add: r2)
  then have snt: "case send_rects u (b # bs) (srv, cl) of (ok, srv', cl') \<Rightarrow> sends_upd cl (m @ ms) (ok, cl')"
    unfolding e by (cases ok) (simp_all add: r2)
  have "carries_all (viewer_reads (bytesPerPixel cl) (screen_pixel srv cl D)) (concat (map (pieces cl \<circ> box_rect) (b # bs))) (m @ ms)"
    using carries_all_append [OF rd ms(1)] by (simp add: r)
  then show ?case using snt by (intro exI [of _ "m @ ms"] conjI)
qed

end

section \<open>The encoders of the development\<close>

lemmas encoding_numbers = rfbEncodingRaw_def rfbEncodingRRE_def rfbEncodingCoRRE_def rfbEncodingHextile_def
  rfbEncodingZlib_def rfbEncodingTight_def

lemma carries_all_one: "carries_all P [r] m = P r m"
  by simp

interpretation raw_encoder: rect_encoder rfbSendRectEncodingRaw "\<lambda>_ _ w h. 0 < w \<and> 0 < h" "\<lambda>_ r. [r]" "\<lambda>_ _ _. 1"
proof
  fix srv cl and x y w h :: nat
  assume "drawable srv cl" "ublen cl \<le> UPDATE_BUF_SIZE" "0 < w \<and> 0 < h"
  then show "\<exists>msg. sends cl msg (rfbSendRectEncodingRaw srv x y w h cl) \<and>
      carries_all (viewer_reads (bytesPerPixel cl) (source_pixel srv cl)) [(x, y, w, h)] msg"
    using sends_Raw [of srv cl w x y h] carries_raw [of srv cl x y w h]
    by (auto simp: viewer_reads_def carries_shown)
qed (auto simp: solid_rect_def)

lemma encodable_setup: "same_setup srv cl srv' cl' \<Longrightarrow> encodable k srv' cl' = encodable k srv cl"
  by (intro ext) (simp add: encodable_def same_setup_bpp, simp add: same_setup_def same_view_def)

interpretation rre_encoder: rect_encoder "rfbSendRectEncodingRRE k" "encodable k" "\<lambda>_ r. [r]" "\<lambda>_ _ _. 1" for k
proof
  fix srv cl and x y w h :: nat
  assume "drawable srv cl" "ublen cl \<le> UPDATE_BUF_SIZE" "encodable k srv cl w h"
  from sends_RRE [OF this, of x y]
  show "\<exists>msg. sends cl msg (rfbSendRectEncodingRRE k srv x y w h cl) \<and>
      carries_all (viewer_reads (bytesPerPixel cl) (source_pixel srv cl)) [(x, y, w, h)] msg"
    unfolding carries_all_one viewer_reads_def rre_or_raw_def carries_shown by blast
qed (auto simp: encodable_setup solid_rect_def encodable_def [of _ _ _ w h for w h])

lemma corre_pieces_solid: "0 < w \<Longrightarrow> 0 < h \<Longrightarrow> r \<in> set (corre_pieces maxW maxH x y w h) \<Longrightarrow> solid_rect r"
proof (induction maxW maxH x y w h rule: corre_pieces.induct)
  case (1 maxW maxH x y w h)
  show ?case using 1 by (subst (asm) (5) corre_pieces.simps) (auto simp: solid_rect_def split: if_splits)
qed

definition corre_fits :: "nat \<Rightarrow> server \<Rightarrow> rfbClientRec \<Rightarrow> nat \<Rightarrow> nat \<Rightarrow> bool" where
  "corre_fits k srv cl w h \<longleftrightarrow> encodable k srv cl w h \<and> 0 < correMaxWidth cl \<and> correMaxWidth cl < 256 \<and>
     0 < correMaxHeight cl \<and> correMaxHeight cl < 256"

definition corre_cut :: "rfbClientRec \<Rightarrow> rect \<Rightarrow> rect list" where
  "corre_cut cl = (\<lambda>(x, y, w, h). corre_pieces (correMaxWidth cl) (correMaxHeight cl) x y w h)"

interpretation corre_encoder: rect_encoder "rfbSendRectEncodingCoRRE k" "corre_fits k" corre_cut
  "\<lambda>cl w h. ((w - 1) div correMaxWidth cl + 1) * ((h - 1) div correMaxHeight cl + 1)" for k
proof
  fix srv cl and x y w h :: nat
  assume a: "drawable srv cl" "ublen cl \<le> UPDATE_BUF_SIZE" and f: "corre_fits k srv cl w h"
  from f have f: "encodable k srv cl w h" "0 < correMaxWidth cl" "correMaxWidth cl < 256"
     "0 < correMaxHeight cl" "correMaxHeight cl < 256" by (simp_all add: corre_fits_def)
  from sends_CoRRE [OF a f, of x y] obtain msg where m: "sends cl msg (rfbSendRectEncodingCoRRE k srv x y w h cl)"
    "carries_all (\<lambda>(x, y, w, h). corre_or_raw (bytesPerPixel cl) srv cl x y w h) (corre_cut cl (x, y, w, h)) msg"
    by (auto simp: corre_cut_def)
  have "carries_all (viewer_reads (bytesPerPixel cl) (source_pixel srv cl)) (corre_cut cl (x, y, w, h)) msg"
    by (rule carries_all_mono [OF m(2)]) (auto simp: corre_or_raw_def carries_shown viewer_reads_def split: prod.splits)
  then show "\<exists>msg. sends cl msg (rfbSendRectEncodingCoRRE k srv x y w h cl) \<and>
      carries_all (viewer_reads (bytesPerPixel cl) (source_pixel srv cl)) (corre_cut cl (x, y, w, h)) msg"
    using m(1) by (intro exI conjI)
next
  fix srv cl and x y w h px py :: nat assume f: "corre_fits k srv cl w h"
  show "length (filter (in_rect px py) (corre_cut cl (x, y, w, h))) = of_bool (in_rect px py (x, y, w, h))"
    using f corre_pieces_partition [of "correMaxWidth cl" "correMaxHeight cl"] by (simp add: corre_fits_def corre_cut_def)
  show "length (corre_cut cl (x, y, w, h)) = ((w - 1) div correMaxWidth cl + 1) * ((h - 1) div correMaxHeight cl + 1)"
    using f corre_pieces_count [of "correMaxWidth cl" "correMaxHeight cl" w h x y]
    by (simp add: corre_fits_def corre_cut_def encodable_def)
  show "solid_rect r" if "r \<in> set (corre_cut cl (x, y, w, h))" for r
  proof (rule corre_pieces_solid)
    show "0 < w" "0 < h" using f by (simp_all add: corre_fits_def encodable_def)
    show "r \<in> set (corre_pieces (correMaxWidth cl) (correMaxHeight cl) x y w h)" using that by (simp add: corre_cut_def)
  qed
next
  fix srv cl srv' cl' assume s: "same_setup srv cl srv' cl'"
  then have c: "correMaxWidth cl' = correMaxWidth cl" "correMaxHeight cl' = correMaxHeight cl" by (simp_all add: same_setup_def)
  have "corre_fits k srv' cl' = corre_fits k srv cl" by (intro ext) (simp add: corre_fits_def encodable_setup [OF s] c)
  then show "corre_cut cl' = corre_cut cl \<and> corre_fits k srv' cl' = corre_fits k srv cl \<and>
      (\<lambda>w h. ((w - 1) div correMaxWidth cl' + 1) * ((h - 1) div correMaxHeight cl' + 1)) =
      (\<lambda>w h. ((w - 1) div correMaxWidth cl + 1) * ((h - 1) div correMaxHeight cl + 1))"
    by (simp add: corre_cut_def c)
qed

interpretation hextile_encoder: rect_encoder rfbSendRectEncodingHextile "\<lambda>_ _ w h. 0 < w \<and> 0 < h" "\<lambda>_ r. [r]" "\<lambda>_ _ _. 1"
proof
  fix srv cl and x y w h :: nat
  assume "drawable srv cl" "ublen cl \<le> UPDATE_BUF_SIZE"
  from sends_Hextile [OF this, of x y w h]
  show "\<exists>msg. sends cl msg (rfbSendRectEncodingHextile srv x y w h cl) \<and>
      carries_all (viewer_reads (bytesPerPixel cl) (source_pixel srv cl)) [(x, y, w, h)] msg"
    unfolding carries_all_one viewer_reads_def carries_shown by blast
qed (auto simp: solid_rect_def)

section \<open>The boxes of a region\<close>

lemma banded_once: "banded rs \<Longrightarrow> length (filter (\<lambda>b. INBOX b x y) rs) = of_bool ((x, y) \<in> pts rs)"
proof (induction rs)
  case (Cons b rs)
  have "\<not> INBOX c x y" if "INBOX b x y" "c \<in> set rs" for c
  proof -
    have "follows b c" using Cons.prems that(2) by (simp add: banded_Cons)
    then show ?thesis using that(1) by (auto simp: follows_def INBOX_def)
  qed
  then show ?case using Cons by (auto simp: banded_Cons mem_pts filter_empty_conv)
qed simp

definition screen_area :: "server \<Rightarrow> (int \<times> int) set" where
  "screen_area srv = {0..<int (swidth (rfbScreen srv))} \<times> {0..<int (sheight (rfbScreen srv))}"

lemma region_on_screen:
  assumes "region_ok R" "area R \<subseteq> screen_area srv" "b \<in> set (REGION_RECTS R)"
  shows "on_screen srv b"
proof -
  have "solid b" using region_ok_banded [OF assms(1)] assms(3) by (simp add: banded_def)
  then have "INBOX b (bx1 b) (by1 b)" "INBOX b (bx2 b - 1) (by2 b - 1)" by (auto simp: INBOX_def solid_def)
  then have "(bx1 b, by1 b) \<in> area R" "(bx2 b - 1, by2 b - 1) \<in> area R"
    unfolding area_def mem_pts using assms(3) by blast+
  then have "(bx1 b, by1 b) \<in> screen_area srv" "(bx2 b - 1, by2 b - 1) \<in> screen_area srv"
    using assms(2) by (meson subsetD)+
  then show ?thesis using \<open>solid b\<close> by (auto simp: on_screen_def proper_box_def screen_area_def solid_def)
qed

lemma in_box_rect: "proper_box b \<Longrightarrow> in_rect px py (box_rect b) = INBOX b (int px) (int py)"
  by (auto simp: in_rect_def box_rect_def box_size_def INBOX_def proper_box_def)

lemma region_once:
  assumes "region_ok R" "area R \<subseteq> screen_area srv"
  shows "length (filter (in_rect px py) (map box_rect (REGION_RECTS R))) = of_bool ((int px, int py) \<in> area R)"
proof -
  have "filter (in_rect px py \<circ> box_rect) (REGION_RECTS R) = filter (\<lambda>b. INBOX b (int px) (int py)) (REGION_RECTS R)"
    by (rule filter_cong) (use region_on_screen [OF assms] in \<open>auto simp: in_box_rect on_screen_def\<close>)
  then show ?thesis using banded_once [OF region_ok_banded [OF assms(1)]] by (simp add: filter_map area_def)
qed

text \<open>Rectangles of the screen fit the static buffers.\<close>

lemma on_screen_encodable:
  assumes "on_screen srv b" "swidth (rfbScreen srv) < 65536" "sheight (rfbScreen srv) < 65536"
  shows "encodable k srv cl (fst (box_size b)) (snd (box_size b))"
proof -
  have b: "0 < fst (box_size b)" "0 < snd (box_size b)" "fst (box_size b) \<le> swidth (rfbScreen srv)"
    "snd (box_size b) \<le> sheight (rfbScreen srv)"
    using assms(1) by (auto simp: on_screen_def proper_box_def box_size_def)
  have "fst (box_size b) * bytesPerPixel cl * snd (box_size b) \<le> swidth (rfbScreen srv) * bytesPerPixel cl * sheight (rfbScreen srv)"
    using b by (intro mult_le_mono) simp_all
  also have "\<dots> = swidth (rfbScreen srv) * sheight (rfbScreen srv) * bytesPerPixel cl" by simp
  finally show ?thesis using b assms(2,3) by (auto simp: encodable_def le_max_iff_disj)
qed

section \<open>The whole update\<close>

definition update_message :: "u8 \<Rightarrow> cursor \<Rightarrow> rfbClientRec \<Rightarrow> rect list \<Rightarrow> u8 list \<Rightarrow> u8 list" where
  "update_message pad cur cl rs body =
    (let position = rfbShouldSendNewPosition cur cl in
     fu_header pad (length rs + of_bool position) @ (if position then cursor_pos_rect cur else []) @ body)"

text \<open>
  How a call that sends a message ends: the message is sent and the buffer empty, or the client is gone
  and has got a part of it. Otherwise only the copies of the screen change, the counters and what
  the client knows of the cursor.
\<close>

definition update_outcome :: "server \<Rightarrow> rfbClientRec \<Rightarrow> u8 list \<Rightarrow> bool \<times> server \<times> rfbClientRec \<Rightarrow> bool" where
  "update_outcome srv cl msg = (\<lambda>(ok, srv', cl').
     settings_upd cl' = settings_upd cl \<and> srv' = srv\<lparr>framebuffer := framebuffer srv'\<rparr> \<and>
     (if ok then sent cl' = sent cl @ msg \<and> updateBuf cl' = [] \<and> sock cl' = sock cl
      else gone cl' \<and> (\<exists>rest. sent cl' @ rest = sent cl @ msg)))"

lemma send_rects_server: "send_rects u bs (srv, cl) = (ok, srv', cl') \<Longrightarrow> srv' = srv\<lparr>framebuffer := framebuffer srv'\<rparr>"
proof (induction bs arbitrary: srv cl)
  case (Cons b bs)
  obtain x y w h where r: "box_rect b = (x, y, w, h)" by (metis prod_cases4)
  let ?srv1 = "rfbGetFramebufferUpdateInRect u x y w h srv"
  have wh: "nat (bx1 b) = x" "nat (by1 b) = y" "box_size b = (w, h)" using r by (auto simp: box_rect_def)
  obtain c ok1 where "(if ok1 then send_rects u bs (?srv1, c) else (False, ?srv1, c)) = (ok, srv', cl')"
    using Cons.prems by (auto simp: wh Let_def split: prod.splits)
  then have "srv' = ?srv1\<lparr>framebuffer := framebuffer srv'\<rparr>" using Cons.IH by (cases ok1) auto
  moreover obtain f where "?srv1 = srv\<lparr>framebuffer := f\<rparr>" using copy_frame by blast
  ultimately show ?case by simp
qed simp

text \<open>The client when the header is in its buffer.\<close>

definition begun :: "u8 \<Rightarrow> nat \<Rightarrow> rfbClientRec \<Rightarrow> rfbClientRec" where
  "begun pad n cl = cl\<lparr>rfbFramebufferUpdateMessagesSent := rfbFramebufferUpdateMessagesSent cl + 1, updateBuf := fu_header pad n\<rparr>"

lemma begun_fields [simp]:
  "stream (begun pad n cl) = sent cl @ fu_header pad n" "ublen (begun pad n cl) = 4" "sock (begun pad n cl) = sock cl"
  "settings_upd (begun pad n cl) = settings_upd cl" "needNewScreenSize (begun pad n cl) = needNewScreenSize cl"
  by (simp_all add: begun_def stream_def ublen_def settings_upd_def settings_def fu_header_def)

lemma SendFramebufferUpdate_plain:
  assumes "\<forall>b \<in> set (REGION_RECTS R). proper_box b" "\<not> rfbShouldSendNewCursor cur cl" "\<not> needNewScreenSize cl"
    and n: "n = nUpdateRegionRects cl (map box_size (REGION_RECTS R))" "Suc n < 0xFFFF"
  shows "rfbSendFramebufferUpdate env u cur R (srv, cl) =
    (let position = rfbShouldSendNewPosition cur cl; k = n + of_bool position;
         (ok, c) = send_position_and_size cur srv position (begun (stackByte env 1) k cl)
     in if \<not> ok then (False, srv, c)
        else let (ok, srv, c) = send_rects u (REGION_RECTS R) (srv, c\<lparr>screenBuffer := framebuffer srv\<rparr>)
             in if \<not> ok then (False, srv, c) else let (ok, c) = rfbSendUpdateBuf c in (ok, srv, c))"
proof -
  let ?cl = "cl\<lparr>rfbFramebufferUpdateMessagesSent := rfbFramebufferUpdateMessagesSent cl + 1\<rparr>"
  have c: "nUpdateRegionRects ?cl = nUpdateRegionRects cl"
  proof -
    have "rfbNumCodedRectsTight ?cl = rfbNumCodedRectsTight cl" by (intro ext) (simp add: rfbNumCodedRectsTight_def)
    then have "count_tight ?cl s k = count_tight cl s k" for s k
      by (induction s arbitrary: k) (auto simp: Let_def)
    then show ?thesis by (intro ext) (simp add: nUpdateRegionRects_def)
  qed
  have f: "rfbShouldSendNewCursor cur ?cl = rfbShouldSendNewCursor cur cl"
    "rfbShouldSendNewPosition cur ?cl = rfbShouldSendNewPosition cur cl" "needNewScreenSize ?cl = needNewScreenSize cl"
    by (simp_all add: rfbShouldSendNewCursor_def rfbShouldSendNewPosition_def)
  have n': "n \<noteq> 65535" "n \<noteq> 65534" using n(2) by simp_all
  show ?thesis
    unfolding rfbSendFramebufferUpdate_def Let_def prod.case c f n(1) [symmetric]
    using assms(1-3) n'
    by (cases "rfbShouldSendNewPosition cur cl") (simp_all add: begun_def finish_update_def split: prod.split bool.split)
qed

lemma send_position:
  assumes "ublen cl \<le> UPDATE_BUF_SIZE" "\<not> needNewScreenSize cl"
  shows "sends_upd cl (if position then cursor_pos_rect cur else []) (send_position_and_size cur srv position cl)"
proof (cases position)
  case True
  obtain ok c where s: "rfbSendCursorPos cur cl = (ok, c)" by fastforce
  have "sends_upd cl (cursor_pos_rect cur) (ok, c)" using sends_upd_cursor [OF sends_CursorPos [OF assms(1), of cur]] by (simp add: s)
  moreover have "needNewScreenSize c = needNewScreenSize cl"
    using calculation settings_upd_fields(9) [of c cl] by (simp add: sends_upd_def)
  ultimately show ?thesis using True assms(2) by (cases ok) (simp_all add: send_position_and_size_def s)
next
  case False
  then show ?thesis using assms by (simp add: send_position_and_size_def sends_upd_def stream_def)
qed

context rect_encoder
begin

lemma update_sent:
  assumes "drawable srv cl" "unscaled srv cl" "shows_screen u srv D" "send_rect u (preferredEncoding cl) = send"
    and "\<forall>b \<in> set (REGION_RECTS R). on_screen srv b \<and> fits srv cl (fst (box_size b)) (snd (box_size b))"
    and "nUpdateRegionRects cl (map box_size (REGION_RECTS R)) = length (concat (map (pieces cl \<circ> box_rect) (REGION_RECTS R)))"
    and "Suc (nUpdateRegionRects cl (map box_size (REGION_RECTS R))) < 0xFFFF"
    and "\<not> rfbShouldSendNewCursor cur cl" "\<not> needNewScreenSize cl"
    and "rs = concat (map (pieces cl \<circ> box_rect) (REGION_RECTS R))"
  shows "\<exists>body. carries_all (viewer_reads (bytesPerPixel cl) (screen_pixel srv cl D)) rs body \<and>
    update_outcome srv cl (update_message (stackByte env 1) cur cl rs body) (rfbSendFramebufferUpdate env u cur R (srv, cl))"
proof -
  let ?p = "rfbShouldSendNewPosition cur cl" and ?pad = "stackByte env 1"
  let ?b = "begun ?pad (length rs + of_bool ?p) cl"
  let ?pos = "if ?p then cursor_pos_rect cur else []"
  have n: "length rs = nUpdateRegionRects cl (map box_size (REGION_RECTS R))" using assms(6,10) by simp
  have proper: "\<forall>b \<in> set (REGION_RECTS R). proper_box b" using assms(5) by (simp add: on_screen_def)
  note eq = SendFramebufferUpdate_plain [OF proper assms(8,9) n, unfolded n [symmetric], OF assms(7) [folded n], of env u srv]
  obtain ok1 c1 where s1: "send_position_and_size cur srv ?p ?b = (ok1, c1)" by fastforce
  have p1: "sends_upd ?b ?pos (ok1, c1)"
    using send_position [of ?b ?p cur srv] assms(9) s1 by (simp add: UPDATE_BUF_SIZE_def)
  let ?c1 = "c1\<lparr>screenBuffer := framebuffer srv\<rparr>"
  obtain ok2 srv2 c2 where s2: "send_rects u (REGION_RECTS R) (srv, ?c1) = (ok2, srv2, c2)" by (metis prod_cases3)
  have "\<exists>body. carries_all (viewer_reads (bytesPerPixel cl) (screen_pixel srv cl D)) rs body \<and> (ok1 \<longrightarrow> sends_upd ?c1 body (ok2, c2))"
  proof (cases ok1)
    case True
    have u1: "settings_upd ?c1 = settings_upd cl"
    proof -
      have "settings_upd ?c1 = settings_upd c1" by (simp add: settings_upd_def settings_def)
      then show ?thesis using p1 by (simp add: sends_upd_def)
    qed
    have st: "same_setup srv cl srv ?c1" by (rule same_setup_upd [OF u1]) simp_all
    have "ublen ?c1 \<le> UPDATE_BUF_SIZE" using p1 True by (simp add: sends_upd_def ublen_def)
    moreover have "unscaled srv ?c1" "send_rect u (preferredEncoding ?c1) = send"
      using assms(2,4) settings_upd_fields(4,5,6) [OF u1] by (simp_all add: unscaled_def)
    moreover have "pieces ?c1 = pieces cl" "fits srv ?c1 = fits srv cl" using stable [OF st] by simp_all
    ultimately show ?thesis
      using send_boxes [OF same_setup_drawable [OF st assms(1)] _ _ assms(3), of "REGION_RECTS R"] assms(5) s2
        screen_pixel_setup [OF st assms(1), of D] settings_upd_fields(10) [OF u1] assms(10) True
      by auto
  next
    case False
    have "ublen ?b \<le> UPDATE_BUF_SIZE" by (simp add: UPDATE_BUF_SIZE_def)
    moreover have st: "same_setup srv cl srv ?b" by (rule same_setup_upd) simp_all
    moreover have "unscaled srv ?b" "send_rect u (preferredEncoding ?b) = send"
      using assms(2,4) by (simp_all add: unscaled_def begun_def)
    moreover have "pieces ?b = pieces cl" "fits srv ?b = fits srv cl" using stable [OF st] by simp_all
    moreover have "bytesPerPixel ?b = bytesPerPixel cl" by (simp add: begun_def bytesPerPixel_def)
    ultimately show ?thesis
      using send_boxes [OF same_setup_drawable [OF st assms(1)] _ _ assms(3), of "REGION_RECTS R"] assms(5)
        screen_pixel_setup [OF st assms(1), of D] assms(10) False
      by auto
  qed
  then obtain body where body: "carries_all (viewer_reads (bytesPerPixel cl) (screen_pixel srv cl D)) rs body"
    "ok1 \<longrightarrow> sends_upd ?c1 body (ok2, c2)" by (elim exE conjE)
  obtain ok3 c3 where s3: "rfbSendUpdateBuf c2 = (ok3, c3)" by fastforce
  have p3: "sends_upd c2 [] (ok3, c3)" using sends_updI [OF sends_SendUpdateBuf, of c2] by (simp add: s3)
  have p2: "sends_upd c1 body (ok2, c2)" if ok1
  proof -
    have "settings_upd ?c1 = settings_upd c1" "stream ?c1 = stream c1 @ []" "sock ?c1 = sock c1"
      by (simp_all add: settings_upd_def settings_def stream_def)
    then show ?thesis using sends_upd_more [of ?c1 body "(ok2, c2)" c1 "[]"] body(2) that by simp
  qed
  have p23: "sends_upd c1 (body @ []) (if ok2 then (ok3, c3) else (False, c2))" if ok1
    by (rule sends_upd_seq [OF p2 [OF that]]) (rule p3)
  have all: "sends_upd ?b (?pos @ (body @ [])) (if ok1 then (if ok2 then (ok3, c3) else (False, c2)) else (False, c1))"
    by (rule sends_upd_seq [OF p1]) (rule p23)
  have res: "rfbSendFramebufferUpdate env u cur R (srv, cl) =
      (if ok1 then (if ok2 then (ok3, srv2, c3) else (False, srv2, c2)) else (False, srv, c1))"
    unfolding eq Let_def s1 prod.case s2 s3 by simp
  have empty: "ok3 \<Longrightarrow> updateBuf c3 = [] \<and> stream c3 = sent c3"
    using SendUpdateBuf_empty [of c2 c3] s3 by (simp add: stream_def)
  have msg: "stream ?b @ ?pos @ (body @ []) = sent cl @ update_message ?pad cur cl rs body"
    by (simp add: update_message_def Let_def)
  have srv2: "srv2 = srv\<lparr>framebuffer := framebuffer srv2\<rparr>" by (rule send_rects_server [OF s2])
  show ?thesis
    using body(1) all empty srv2 unfolding res sends_upd_def msg update_outcome_def
    by (intro exI [of _ body] conjI) (cases ok1; cases ok2; cases ok3; simp)+
qed

end

definition stateless_encodings :: "nat set" where
  "stateless_encodings = {rfbEncodingRaw, rfbEncodingRRE, rfbEncodingCoRRE, rfbEncodingHextile}"

lemma update_shown:
  assumes ok: "client_ok srv cl" "unscaled srv cl" "shows_screen u srv D"
    and enc: "preferredEncoding cl \<in> int ` stateless_encodings"
    and R: "region_ok R" "area R \<subseteq> screen_area srv" "swidth (rfbScreen srv) < 65536" "sheight (rfbScreen srv) < 65536"
    and n: "Suc (nUpdateRegionRects cl (map box_size (REGION_RECTS R))) < 0xFFFF"
    and cur: "\<not> rfbShouldSendNewCursor cur cl" "\<not> needNewScreenSize cl"
  shows "\<exists>rs body. length rs = nUpdateRegionRects cl (map box_size (REGION_RECTS R)) \<and>
    (\<forall>px py. length (filter (in_rect px py) rs) = of_bool ((int px, int py) \<in> area R)) \<and>
    (\<forall>r \<in> set rs. solid_rect r) \<and>
    carries_all (viewer_reads (bytesPerPixel cl) (screen_pixel srv cl D)) rs body \<and>
    update_outcome srv cl (update_message (stackByte env 1) cur cl rs body) (rfbSendFramebufferUpdate env u cur R (srv, cl))"
proof -
  have d: "drawable srv cl" and cw: "0 < correMaxWidth cl" "correMaxWidth cl < 256" "0 < correMaxHeight cl" "correMaxHeight cl < 256"
    using ok(1) by (simp_all add: client_ok_def)
  have scr: "\<forall>b \<in> set (REGION_RECTS R). on_screen srv b" using region_on_screen [OF R(1,2)] by blast
  have fits: "encodable (rreBufSize u) srv cl (fst (box_size b)) (snd (box_size b))" if "b \<in> set (REGION_RECTS R)" for b
    using on_screen_encodable [OF _ R(3,4)] scr that by blast
  have pos: "0 < fst (box_size b)" "0 < snd (box_size b)" if "b \<in> set (REGION_RECTS R)" for b
    using scr that by (auto simp: on_screen_def proper_box_def box_size_def)
  have sol: "\<forall>r \<in> set (map box_rect (REGION_RECTS R)). solid_rect r" using pos by (simp add: solid_rect_def box_rect_def case_prod_beta)
  have one: "concat (map ((\<lambda>r. [r]) \<circ> box_rect) bs) = map box_rect bs" for bs by (induction bs) simp_all
  consider (raw) "preferredEncoding cl = int rfbEncodingRaw" | (rre) "preferredEncoding cl = int rfbEncodingRRE"
    | (corre) "preferredEncoding cl = int rfbEncodingCoRRE" | (hextile) "preferredEncoding cl = int rfbEncodingHextile"
    using enc by (auto simp: stateless_encodings_def)
  then show ?thesis
  proof cases
    case raw
    have c: "nUpdateRegionRects cl (map box_size (REGION_RECTS R)) = length (concat (map ((\<lambda>r. [r]) \<circ> box_rect) (REGION_RECTS R)))"
      by (simp add: nUpdateRegionRects_def raw encoding_numbers one)
    have s: "send_rect u (preferredEncoding cl) = rfbSendRectEncodingRaw" by (simp add: send_rect_def raw)
    from raw_encoder.update_sent [OF d ok(2,3) s _ c n cur refl, of env] scr pos
    show ?thesis using region_once [OF R(1,2)] sol unfolding c one by (intro exI [of _ "map box_rect (REGION_RECTS R)"]) simp
  next
    case rre
    have c: "nUpdateRegionRects cl (map box_size (REGION_RECTS R)) = length (concat (map ((\<lambda>r. [r]) \<circ> box_rect) (REGION_RECTS R)))"
      by (simp add: nUpdateRegionRects_def rre encoding_numbers one)
    have s: "send_rect u (preferredEncoding cl) = rfbSendRectEncodingRRE (rreBufSize u)"
      by (simp add: send_rect_def rre encoding_numbers)
    from rre_encoder.update_sent [OF d ok(2,3) s _ c n cur refl, of env] scr fits
    show ?thesis using region_once [OF R(1,2)] sol unfolding c one by (intro exI [of _ "map box_rect (REGION_RECTS R)"]) simp
  next
    case hextile
    have c: "nUpdateRegionRects cl (map box_size (REGION_RECTS R)) = length (concat (map ((\<lambda>r. [r]) \<circ> box_rect) (REGION_RECTS R)))"
      by (simp add: nUpdateRegionRects_def hextile encoding_numbers one)
    have s: "send_rect u (preferredEncoding cl) = rfbSendRectEncodingHextile"
      by (simp add: send_rect_def hextile encoding_numbers)
    from hextile_encoder.update_sent [OF d ok(2,3) s _ c n cur refl, of env] scr pos
    show ?thesis using region_once [OF R(1,2)] sol unfolding c one by (intro exI [of _ "map box_rect (REGION_RECTS R)"]) simp
  next
    case corre
    have f: "\<forall>b \<in> set (REGION_RECTS R). corre_fits (rreBufSize u) srv cl (fst (box_size b)) (snd (box_size b))"
      using fits cw by (simp add: corre_fits_def)
    have c: "nUpdateRegionRects cl (map box_size (REGION_RECTS R)) = length (concat (map (corre_cut cl \<circ> box_rect) (REGION_RECTS R)))"
      using corre_encoder.boxes_counted [OF f] by (simp add: nUpdateRegionRects_def corre encoding_numbers)
    have s: "send_rect u (preferredEncoding cl) = rfbSendRectEncodingCoRRE (rreBufSize u)"
      by (simp add: send_rect_def corre encoding_numbers)
    from corre_encoder.update_sent [OF d ok(2,3) s _ c n cur refl, of env] scr f
    show ?thesis using region_once [OF R(1,2)] corre_encoder.boxes_partition [OF f] corre_encoder.boxes_solid [OF f] unfolding c
      by (intro exI [of _ "concat (map (corre_cut cl \<circ> box_rect) (REGION_RECTS R))"]) simp
  qed
qed

section \<open>The property\<close>

text \<open>
  C4: An update shows the screen. For a client that views the screen unscaled, in the raw, RRE, CoRRE or
  hextile encoding, with neither a shape of the cursor nor a new size of the screen to be sent, the update of a
  region of the screen that is cut into less than 65534 rectangles sends a header with the right number of rectangles, then
  the rectangles, one after the other and nothing else: every pixel of the region lies in exactly one of
  them and no other pixel in any, and the viewer decodes each to what the screen shows there, in its own
  pixel format. If the call fails the client is gone and has got a part of this message.
\<close>

theorem update_shows_screen:
  assumes "client_ok srv cl" "unscaled srv cl" "shows_screen u srv D"
    and "preferredEncoding cl \<in> int ` stateless_encodings"
    and "region_ok R" "area R \<subseteq> screen_area srv" "swidth (rfbScreen srv) < 65536" "sheight (rfbScreen srv) < 65536"
    and "Suc (nUpdateRegionRects cl (map box_size (REGION_RECTS R))) < 0xFFFF"
    and "\<not> rfbShouldSendNewCursor cur cl" "\<not> needNewScreenSize cl"
  shows "\<exists>rs body. length rs = nUpdateRegionRects cl (map box_size (REGION_RECTS R)) \<and>
    (\<forall>px py. length (filter (in_rect px py) rs) = of_bool ((int px, int py) \<in> area R)) \<and>
    (\<forall>r \<in> set rs. solid_rect r) \<and>
    carries_all (viewer_reads (bytesPerPixel cl) (screen_pixel srv cl D)) rs body \<and>
    update_outcome srv cl (update_message (stackByte env 1) cur cl rs body) (rfbSendFramebufferUpdate env u cur R (srv, cl))"
  by (rule update_shown [OF assms])

definition demo_surroundings :: surroundings where
  "demo_surroundings = \<lparr>frameBufferData = False, frameBufferBytesPerRow = 16, frameBufferBitsPerPixel = 32,
     image = (\<lambda>x y w h. (\<lambda>i. of_nat i, 16, 32)), rreBufSize = 0, deflate = (\<lambda>_ b. Some b),
     sendTight = (\<lambda>_ _ _ _ _ cl. (True, cl)), sendZlibHex = (\<lambda>_ _ _ _ _ cl. (True, cl)), sendZRLE = (\<lambda>_ _ _ _ _ cl. (True, cl))\<rparr>"

definition demo_pointer :: cursor where
  "demo_pointer = \<lparr>lastCursorSeed = 1, lastCursorPosition = (2, 1), cursorData = None, cursorMaskData = [],
     cursorRowBytes = 0, hotspot = (0, 0), cursorWidth = 0, cursorHeight = 0, cursorFormat = demo_format\<rparr>"

theorem update_shows_screen_witness:
  "\<exists>rs body. length rs = 1 \<and>
    (\<forall>px py. length (filter (in_rect px py) rs) = of_bool (px < 4 \<and> py < 3)) \<and>
    carries_all (viewer_reads 4 (screen_pixel demo_server demo_client (framebuffer demo_server))) rs body"
proof -
  let ?R = "modifiedRegion demo_client"
  have r: "region_ok ?R" "area ?R = {0..<4} \<times> {0..<3}" "REGION_RECTS ?R = [box 0 0 4 3]"
    by (auto simp: demo_client_def region_ok_def solid_def area_def REGION_RECTS_def mem_pts INBOX_def)
  have ok: "client_ok demo_server demo_client"
    using demo_drawable by (simp add: client_ok_def) (simp add: demo_client_def real_encodings_def rfbEncodingRaw_def)
  have un: "unscaled demo_server demo_client" by (simp add: unscaled_def demo_server_def demo_client_def)
  have sh: "shows_screen demo_surroundings demo_server (framebuffer demo_server)"
    by (simp add: shows_screen_def demo_surroundings_def)
  have p: "preferredEncoding demo_client = int rfbEncodingRaw" "\<not> rfbShouldSendNewCursor demo_pointer demo_client"
    "\<not> needNewScreenSize demo_client" "bytesPerPixel demo_client = 4"
    by (simp_all add: demo_client_def rfbEncodingRaw_def rfbShouldSendNewCursor_def bytesPerPixel_def demo_format_def)
  have enc: "preferredEncoding demo_client \<in> int ` stateless_encodings" by (simp add: p stateless_encodings_def)
  have scr: "area ?R \<subseteq> screen_area demo_server" "swidth (rfbScreen demo_server) < 65536" "sheight (rfbScreen demo_server) < 65536"
    using r(2) by (simp_all add: screen_area_def demo_server_def)
  have n: "nUpdateRegionRects demo_client (map box_size (REGION_RECTS ?R)) = 1"
    by (simp add: r(3) nUpdateRegionRects_def p encoding_numbers)
  then have n': "Suc (nUpdateRegionRects demo_client (map box_size (REGION_RECTS ?R))) < 0xFFFF" by simp
  obtain rs body where w: "length rs = 1" "\<forall>px py. length (filter (in_rect px py) rs) = of_bool ((int px, int py) \<in> area ?R)"
    "carries_all (viewer_reads (bytesPerPixel demo_client) (screen_pixel demo_server demo_client (framebuffer demo_server))) rs body"
    using update_shows_screen [OF ok un sh enc r(1) scr n' p(2,3), of demo_env] unfolding n by (elim exE conjE)
  then show ?thesis by (intro exI [of _ rs] exI [of _ body]) (simp add: p(4) r(2))
qed

end
