(* ===== verification/Mainloop.thy ===== *)
theory Mainloop
  imports Clients Update
begin

text \<open>
  The two threads of a client and the callbacks of the window system, \<^verbatim>\<open>OSXvnc-server/main.c\<close>. A step of a
  thread is what it does between two points where it waits or holds no lock.
\<close>

section \<open>The screen changes\<close>

text \<open>
  The rectangles of the callback; their coordinates, floats of whole numbers, are stored in shorts. The
  output thread of each client is signalled once its modified region has grown.
\<close>

definition refresh_box :: "int \<times> int \<times> int \<times> int \<Rightarrow> BoxRec" where
  "refresh_box = (\<lambda>(x, y, w, h).
    let x1 = short x; y1 = short y in box x1 y1 (short (x1 + w)) (short (y1 + h)))"

definition mark_modified :: "BoxRec \<Rightarrow> rfbClientRec \<Rightarrow> rfbClientRec" where
  "mark_modified b cl =
    pthread_cond_signal (cl\<lparr>modifiedRegion := region_add (modifiedRegion cl) (SAFE_REGION_INIT b)\<rparr>)"

definition refreshCallback :: "(int \<times> int \<times> int \<times> int) list \<Rightarrow> system \<Rightarrow> system" where
  "refreshCallback rects sys =
    fold (\<lambda>r sys. sys\<lparr>rfbClientHead := map (mark_modified (refresh_box r)) (rfbClientHead sys)\<rparr>) rects sys"

text \<open>The cursor has moved or changed: those whose viewers are to know are signalled.\<close>

definition rfbCheckForCursorChange :: "cursor \<Rightarrow> cursor \<Rightarrow> system \<Rightarrow> system" where
  "rfbCheckForCursorChange old cur sys =
    (if lastCursorPosition old \<noteq> lastCursorPosition cur \<or> lastCursorSeed old \<noteq> lastCursorSeed cur
     then sys\<lparr>rfbClientHead := map (\<lambda>cl. if rfbShouldSendNewCursor cur cl \<or> rfbShouldSendNewPosition cur cl
            then pthread_cond_signal cl else cl) (rfbClientHead sys)\<rparr>
     else sys)"

section \<open>The output thread\<close>

definition REGION_NOTEMPTY :: "RegionRec \<Rightarrow> bool" where
  "REGION_NOTEMPTY r \<longleftrightarrow> \<not> REGION_NIL r"

text \<open>REGION_INTERSECT into a third region, and REGION_SUBTRACT into the minuend.\<close>

definition region_and :: "RegionRec \<Rightarrow> RegionRec \<Rightarrow> RegionRec" where
  "region_and a b = miIntersect 2 0 1 ((\<lambda>_. miRegionInit None)(0 := a, 1 := b)) 2"

definition region_diff :: "RegionRec \<Rightarrow> RegionRec \<Rightarrow> RegionRec" where
  "region_diff a b = miSubtract 0 0 1 ((\<lambda>_. b)(0 := a)) 0"

text \<open>Whether there is something to send; \<open>defer\<close> is \<open>rfbDeferUpdateTime\<close>.\<close>

definition have_update :: "int \<Rightarrow> cursor \<Rightarrow> rfbClientRec \<Rightarrow> bool" where
  "have_update defer cur cl \<longleftrightarrow>
     REGION_NOTEMPTY (requestedRegion cl) \<and>
     ((if defer > 0 \<and> \<not> immediateUpdate cl
       then REGION_NOTEMPTY (region_and (modifiedRegion cl) (requestedRegion cl)) else True) \<or>
      rfbShouldSendNewCursor cur cl \<or> rfbShouldSendNewPosition cur cl \<or> needNewScreenSize cl)"

text \<open>
  What the output thread does with the lock at the head of its loop: it leaves if the client is closed,
  goes on to send if there is something to send, and otherwise sleeps on updateCond. (The pasteboard, which
  it sends first if that has changed, is left out.)
\<close>

datatype output_next = Leaves | Sends | Sleeps

definition output_test :: "int \<Rightarrow> cursor \<Rightarrow> rfbClientRec \<Rightarrow> output_next \<times> rfbClientRec" where
  "output_test defer cur cl =
    (if sock cl = -1 then (Leaves, cl)
     else if have_update defer cur cl then (Sends, cl)
     else (Sleeps, cl\<lparr>outputWaiting := True\<rparr>))"

text \<open>The region to send, taken out of the modified one before it is sent; the request is used up.\<close>

definition take_update :: "rfbClientRec \<Rightarrow> RegionRec \<times> rfbClientRec" where
  "take_update cl =
    (let updateRegion = region_and (modifiedRegion cl) (requestedRegion cl);
         cl = cl\<lparr>modifiedRegion := region_diff (modifiedRegion cl) updateRegion\<rparr>;
         cl = cl\<lparr>requestedRegion := miRegionInit None\<rparr>
     in (updateRegion, cl))"

text \<open>
  A pass of clientOutput once there is something to send; it ignores what rfbSendFramebufferUpdate
  returns. Between the test and the pass the thread may sleep without its lock.
\<close>

definition output_pass :: "env \<Rightarrow> surroundings \<Rightarrow> cursor \<Rightarrow> server \<times> rfbClientRec \<Rightarrow> server \<times> rfbClientRec" where
  "output_pass env u cur = (\<lambda>(srv, cl).
    let (updateRegion, cl) = take_update cl;
        (ok, srv, cl) = rfbSendFramebufferUpdate env u cur updateRegion (srv, cl)
    in (srv, cl))"

section \<open>A new screen\<close>

text \<open>
  The display as rfbScreenInit finds it: its size, the bytes in a row of its image, its depth, its memory, and
  whether a drawing context could be had.
\<close>

record display =
  pixelsWide :: nat
  pixelsHigh :: nat
  displayBitsPerPixel :: nat
  bytesPerRow :: nat
  contextOk :: bool
  displayMemory :: buffer

definition rfbScreenInit :: "display \<Rightarrow> server \<Rightarrow> bool \<times> server" where
  "rfbScreenInit d srv =
    (let bitsPerSample = 8; samplesPerPixel = 3;
         scr = (rfbScreen srv)\<lparr>swidth := pixelsWide d, sheight := pixelsHigh d,
                 sbitsPerPixel := displayBitsPerPixel d, sdepth := samplesPerPixel * bitsPerSample\<rparr>
     in if \<not> contextOk d then (False, srv\<lparr>rfbScreen := scr\<rparr>)
        else
          (True, srv\<lparr>rfbScreen := scr\<lparr>paddedWidthInBytes := bytesPerRow d\<rparr>,
             rfbServerFormat :=
               \<lparr>bitsPerPixel = sbitsPerPixel scr, depth = sdepth scr, bigEndian = \<not> littleEndian srv, trueColour = True,
                redMax = 2 ^ bitsPerSample - 1, greenMax = 2 ^ bitsPerSample - 1, blueMax = 2 ^ bitsPerSample - 1,
                redShift = bitsPerSample * 2, greenShift = bitsPerSample, blueShift = 0\<rparr>,
             framebuffer := displayMemory d\<rparr>))"

text \<open>The loop that tries again, at most 12 times; then the process exits, as when the display never answers.\<close>

fun init_tries :: "display list \<Rightarrow> nat \<Rightarrow> server \<Rightarrow> server option" where
  "init_tries [] maxTries srv = None"
| "init_tries (d # ds) maxTries srv =
    (case rfbScreenInit d srv of
       (True, srv) \<Rightarrow> Some srv
     | (False, srv) \<Rightarrow> (case maxTries of 0 \<Rightarrow> None | Suc n \<Rightarrow> init_tries ds n srv))"

text \<open>What a client is told.\<close>

definition resize_client :: "env \<Rightarrow> server \<Rightarrow> rfbClientRec \<Rightarrow> rfbClientRec" where
  "resize_client env srv cl =
    (if desktopSizeUpdate cl then
       let cl = snd (rfbSendScreenUpdateEncoding srv (cl\<lparr>updateBuf := fu_header (stackByte env 0) 1\<rparr>));
           cl = cl\<lparr>screenBuffer := framebuffer srv\<rparr>;
           cl = (if scalingFactor cl = 1
                 then cl\<lparr>scalingFrameBuffer := screenBuffer cl, scalingPaddedWidthInBytes := paddedWidthInBytes (rfbScreen srv)\<rparr>
                 else cl\<lparr>scalingFrameBuffer := heapBytes env,
                         scalingPaddedWidthInBytes := scaled_size (swidth (rfbScreen srv)) cl * sbitsPerPixel (rfbScreen srv) div 8\<rparr>)
       in cl\<lparr>modifiedRegion := miRegionInit (Some (box 0 0 (short (int (swidth (rfbScreen srv)))) (short (int (sheight (rfbScreen srv))))))\<rparr>
     else rfbCloseClient cl)"

definition recolour_client :: "env \<Rightarrow> server \<Rightarrow> rfbClientRec \<Rightarrow> rfbClientRec" where
  "recolour_client env srv cl = snd (rfbSetTranslateFunction (stackByte env 0) srv (rfbCloseClient cl))"

definition rfbCheckForScreenResolutionChange :: "env \<Rightarrow> display \<Rightarrow> display list \<Rightarrow> system \<Rightarrow> system option" where
  "rfbCheckForScreenResolutionChange env now tries sys =
    (let srv = globals sys;
         sizeChange = (swidth (rfbScreen srv) \<noteq> pixelsWide now \<or> sheight (rfbScreen srv) \<noteq> pixelsHigh now);
         colorChange = (displayBitsPerPixel now > 0 \<and> sbitsPerPixel (rfbScreen srv) \<noteq> displayBitsPerPixel now)
     in if \<not> (sizeChange \<or> colorChange) then Some sys
        else case init_tries tries 12 srv of
          None \<Rightarrow> None
        | Some srv \<Rightarrow>
            Some (sys\<lparr>globals := srv,
              rfbClientHead := map (\<lambda>cl. pthread_cond_signal
                ((if sizeChange then resize_client env srv else recolour_client env srv) cl)) (rfbClientHead sys)\<rparr>))"

section \<open>The input thread\<close>

text \<open>
  The end of the output thread, which the input thread signals and then waits for. A sleeping thread
  wakes; awake it takes the lock, unless that was left locked, and makes its test. The signal is given
  without the lock: it is \<open>late\<close> if the thread has found the socket open but does not sleep yet, and is
  then lost. \<open>None\<close>: pthread_join waits for a thread that sleeps or that waits for the lock. (Only another
  signal, of a later change of the screen, would wake a sleeping one.)
\<close>

definition join_output :: "int \<Rightarrow> cursor \<Rightarrow> bool \<Rightarrow> rfbClientRec \<Rightarrow> rfbClientRec option" where
  "join_output defer cur late cl =
    (let cl = pthread_cond_signal cl;
         cl = (if late then cl\<lparr>outputWaiting := True\<rparr> else cl)
     in if outputWaiting cl \<or> updateLocked cl then None
        else case output_test defer cur cl of
          (Leaves, cl) \<Rightarrow> Some cl
        | _ \<Rightarrow> None)"

text \<open>
  clientInput: messages are processed until the client is closed; then the output thread is ended, and the
  client is freed. An exit of the process ends the thread too. Registering the callback with the window
  system, which it does with the first request, is left out.
\<close>

partial_function (option) clientInput :: "env \<Rightarrow> int \<Rightarrow> cursor \<Rightarrow> bool \<Rightarrow> nat \<Rightarrow> system \<Rightarrow> system option" where
  "clientInput env defer cur late i sys =
    (let sys = rfbProcessClientMessage env i sys in
     case client i sys of
       None \<Rightarrow> Some sys
     | Some cl \<Rightarrow>
         if exited cl then Some sys
         else if sock cl = -1 then
           (case join_output defer cur late cl of
              None \<Rightarrow> None
            | Some cl \<Rightarrow> Some (rfbClientConnectionGone i (set_client cl sys)))
         else clientInput env defer cur late i sys)"

text \<open>
  rfbStartClientWithFD: the thread is started with whatever rfbNewClient returns. \<open>None\<close>: it
  was started with NULL and its first access ends the process.
\<close>

definition rfbStartClientWithFD ::
    "env \<Rightarrow> display \<Rightarrow> display list \<Rightarrow> nat \<Rightarrow> int \<Rightarrow> string \<Rightarrow> rd_ev list \<Rightarrow> wr_ev list \<Rightarrow> system \<Rightarrow> system option" where
  "rfbStartClientWithFD env now tries i fd peer reads writes sys =
    (case (if \<not> rfbClientsConnected sys then rfbCheckForScreenResolutionChange env now tries sys else Some sys) of
       None \<Rightarrow> None
     | Some sys \<Rightarrow>
         let (started, sys) = rfbNewClient env i fd peer reads writes sys
         in if started then Some sys else None)"

definition connectReverseClient ::
    "env \<Rightarrow> nat \<Rightarrow> int \<Rightarrow> string \<Rightarrow> rd_ev list \<Rightarrow> wr_ev list \<Rightarrow> system \<Rightarrow> system" where
  "connectReverseClient env i fd peer reads writes sys = snd (rfbReverseConnection env i fd peer reads writes sys)"

end
