(* ===== verification/Session.thy ===== *)
theory Session
  imports Mainloop Updatespec
begin

text \<open>
  A session: a client that views the unscaled screen, the output thread that serves it, and the viewer
  at the other end, which decodes what it is sent. The specification of the server is that the viewer
  shows the screen wherever the client's modified region does not say otherwise.
\<close>

section \<open>The viewer\<close>

type_synonym view = "nat \<Rightarrow> nat \<Rightarrow> u8 list"

definition decode_body :: "nat \<Rightarrow> int \<Rightarrow> nat \<Rightarrow> nat \<Rightarrow> u8 list \<Rightarrow> (u8 list list \<times> u8 list) option" where
  "decode_body n enc w h bs =
    (if enc = int rfbEncodingRaw then Some (decode_raw n w h bs)
     else if enc = int rfbEncodingRRE then Some (decode_rre (rre_get n) n w h bs)
     else if enc = int rfbEncodingCoRRE then Some (decode_rre (corre_get n) n w h bs)
     else if enc = int rfbEncodingHextile then Some (decode_hextile n w h bs)
     else None)"

definition paint_pixels :: "rect \<Rightarrow> u8 list list \<Rightarrow> view \<Rightarrow> view" where
  "paint_pixels r ps v = (\<lambda>px py. if in_rect px py r
     then (case r of (x, y, w, h) \<Rightarrow> ps ! ((py - y) * w + (px - x))) else v px py)"

text \<open>The rectangles of an update; a cursor position has no body and changes no pixel.\<close>

fun view_rects :: "nat \<Rightarrow> nat \<Rightarrow> u8 list \<Rightarrow> view \<Rightarrow> (view \<times> u8 list) option" where
  "view_rects n 0 bs v = Some (v, bs)"
| "view_rects n (Suc k) bs v =
    (case get_rect_header bs of (x, y, w, h, enc) \<Rightarrow>
      if enc = int rfbEncodingPointerPos then view_rects n k (drop sz_rfbFramebufferUpdateRectHeader bs) v
      else case decode_body n enc (nat w) (nat h) (drop sz_rfbFramebufferUpdateRectHeader bs) of
        None \<Rightarrow> None
      | Some (ps, bs) \<Rightarrow> view_rects n k bs (paint_pixels (nat x, nat y, nat w, nat h) ps v))"

definition view_update :: "nat \<Rightarrow> u8 list \<Rightarrow> view \<Rightarrow> (view \<times> u8 list) option" where
  "view_update n bs v = (if bs ! 0 = rfbFramebufferUpdate then view_rects n (nat (rd16 (drop 2 bs))) (drop 4 bs) v else None)"

section \<open>The viewer reads the updates\<close>

definition paint_view :: "rect \<Rightarrow> view \<Rightarrow> view \<Rightarrow> view" where
  "paint_view r p v = (\<lambda>px py. if in_rect px py r then p px py else v px py)"

lemma paint_rect_pixels: "paint_pixels r (rect_pixels p r) v = paint_view r p v"
proof (intro ext)
  fix px py
  obtain x y w h where r: "r = (x, y, w, h)" by (metis prod_cases4)
  show "paint_pixels r (rect_pixels p r) v px py = paint_view r p v px py"
  proof (cases "in_rect px py r")
    case True
    then have "px - x < w" "py - y < h" "x \<le> px" "y \<le> py" by (auto simp: r in_rect_def)
    then show ?thesis using nth_rows [of "px - x" w "py - y" h "\<lambda>i j. p (x + i) (y + j)"] True
      by (simp add: paint_pixels_def paint_view_def rect_pixels_def r)
  qed (simp add: paint_pixels_def paint_view_def)
qed

lemma header_encoding:
  assumes "enc < 2 ^ 32"
  shows "\<exists>x' y' w' h'. get_rect_header (rect_header x y w h enc @ bs) = (x', y', w', h', int enc)"
proof -
  have "drop 8 (rect_header x y w h enc @ bs) = be32 (int enc) @ bs" by (simp add: rect_header_def be16_def)
  then show ?thesis using assms by (simp add: get_rect_header_def rd32_be32)
qed

definition small_rect :: "rect \<Rightarrow> bool" where
  "small_rect = (\<lambda>(x, y, w, h). x < 65536 \<and> y < 65536 \<and> w < 65536 \<and> h < 65536)"

lemma view_rects_shown:
  assumes "shown_as dec enc p r msg" "small_rect r" "enc < 2 ^ 32" "int enc \<noteq> int rfbEncodingPointerPos"
    and "\<And>w h bs. decode_body n (int enc) w h bs = Some (dec w h bs)"
  shows "view_rects n (Suc k) (msg @ rest) v = view_rects n k rest (paint_view r p v)"
proof -
  obtain x y w h where r: "r = (x, y, w, h)" by (metis prod_cases4)
  obtain body where b: "msg = rect_header (int x) (int y) (int w) (int h) enc @ body"
    "\<And>bs. dec w h (body @ bs) = (rect_pixels p r, bs)" using assms(1) by (auto simp: shown_as_def r)
  have "get_rect_header (msg @ rest) = (int x, int y, int w, int h, int enc)"
    using assms(2,3) by (simp add: b(1) r small_rect_def get_put_rect_header)
  moreover have "drop sz_rfbFramebufferUpdateRectHeader (msg @ rest) = body @ rest" by (simp add: b(1))
  ultimately show ?thesis using assms(4) by (simp add: assms(5) b(2) paint_rect_pixels [symmetric]) (simp add: r)
qed

lemma view_rects_read:
  assumes "viewer_reads n p r msg" "small_rect r"
  shows "view_rects n (Suc k) (msg @ rest) v = view_rects n k rest (paint_view r p v)"
proof -
  note e = decode_body_def encoding_numbers rfbEncodingPointerPos_def
  consider "shown_as (decode_raw n) rfbEncodingRaw p r msg" | "shown_as (decode_rre (rre_get n) n) rfbEncodingRRE p r msg"
    | "shown_as (decode_rre (corre_get n) n) rfbEncodingCoRRE p r msg" | "shown_as (decode_hextile n) rfbEncodingHextile p r msg"
    using assms(1) by (auto simp: viewer_reads_def)
  then show ?thesis
  proof cases
    case 1
    show ?thesis by (rule view_rects_shown [OF 1 assms(2)]) (simp_all add: e)
  next
    case 2
    show ?thesis by (rule view_rects_shown [OF 2 assms(2)]) (simp_all add: e)
  next
    case 3
    show ?thesis by (rule view_rects_shown [OF 3 assms(2)]) (simp_all add: e)
  next
    case 4
    show ?thesis by (rule view_rects_shown [OF 4 assms(2)]) (simp_all add: e)
  qed
qed

lemma view_rects_all:
  assumes "carries_all (viewer_reads n p) rs body" "\<forall>r \<in> set rs. small_rect r"
  shows "view_rects n (length rs) (body @ rest) v = Some (fold (\<lambda>r. paint_view r p) rs v, rest)"
  using assms
proof (induction rs arbitrary: body v)
  case (Cons r rs)
  then obtain m ms where m: "body = m @ ms" "viewer_reads n p r m" "carries_all (viewer_reads n p) rs ms" by auto
  have "small_rect r" using Cons.prems(2) by simp
  from view_rects_read [OF m(2) this, of "length rs" "ms @ rest" v] Cons.IH [OF m(3)] Cons.prems(2)
  show ?case by (simp add: m(1))
qed simp

lemma fold_paint: "fold (\<lambda>r. paint_view r p) rs v px py = (if \<exists>r \<in> set rs. in_rect px py r then p px py else v px py)"
  by (induction rs arbitrary: v) (auto simp: paint_view_def)

lemma view_update_message:
  assumes "carries_all (viewer_reads n p) rs body" "\<forall>r \<in> set rs. small_rect r" "Suc (length rs) < 65536"
  shows "view_update n (update_message pad cur cl rs body) v = Some (fold (\<lambda>r. paint_view r p) rs v, [])"
proof -
  let ?k = "length rs + of_bool (rfbShouldSendNewPosition cur cl)"
  have k: "nat (rd16 (be16 (int ?k) @ bs)) = ?k" for bs
    using assms(3) by (intro rd16_nat) (simp add: of_bool_def)
  have h: "update_message pad cur cl rs body ! 0 = rfbFramebufferUpdate"
    "drop 2 (update_message pad cur cl rs body) = be16 (int ?k) @ drop 4 (update_message pad cur cl rs body)"
    "drop 4 (update_message pad cur cl rs body) = (if rfbShouldSendNewPosition cur cl then cursor_pos_rect cur else []) @ body"
    by (simp_all add: update_message_def Let_def fu_header_def be16_def)
  have "view_rects n ?k ((if rfbShouldSendNewPosition cur cl then cursor_pos_rect cur else []) @ body) v =
      Some (fold (\<lambda>r. paint_view r p) rs v, [])"
  proof (cases "rfbShouldSendNewPosition cur cl")
    case True
    obtain x' y' w' h' where g: "get_rect_header (cursor_pos_rect cur @ body) = (x', y', w', h', int rfbEncodingPointerPos)"
      using header_encoding [of rfbEncodingPointerPos] unfolding cursor_pos_rect_def by (fastforce simp: rfbEncodingPointerPos_def)
    have "drop sz_rfbFramebufferUpdateRectHeader (cursor_pos_rect cur @ body) = body" by (simp add: cursor_pos_rect_def)
    then show ?thesis using True g view_rects_all [OF assms(1,2), of "[]"] by simp
  next
    case False
    then show ?thesis using view_rects_all [OF assms(1,2), of "[]"] by simp
  qed
  then show ?thesis by (simp only: view_update_def h(1) h(2) k h(3) if_True simp_thms refl)
qed

section \<open>The regions\<close>

lemma region_and_ok:
  assumes "region_ok a" "region_ok b"
  shows "region_ok (region_and a b)" "area (region_and a b) = area a \<inter> area b"
  using miIntersect_computes [of "(\<lambda>_. miRegionInit None)(0 := a, 1 := b)" 0 1 2] assms
  by (simp_all add: region_and_def computes_def)

lemma region_diff_ok:
  assumes "region_ok a" "region_ok b"
  shows "region_ok (region_diff a b)" "area (region_diff a b) = area a - area b"
  using miSubtract_computes [of "(\<lambda>_. b)(0 := a)" 0 1 0] assms by (simp_all add: region_diff_def computes_def)

lemma region_empty: "region_ok (miRegionInit None)" "area (miRegionInit None) = {}"
  by (simp_all add: miRegionInit_def region_ok_def miEmptyBox_def area_def REGION_RECTS_def)

text \<open>Refinement: the thread takes the requested part out of what has changed, and uses the request up.\<close>

lemma take_update_area:
  assumes "region_ok (modifiedRegion cl)" "region_ok (requestedRegion cl)" "take_update cl = (R, c)"
  shows "region_ok R" "area R = area (modifiedRegion cl) \<inter> area (requestedRegion cl)"
    "c = cl\<lparr>modifiedRegion := modifiedRegion c, requestedRegion := requestedRegion c\<rparr>"
    "region_ok (modifiedRegion c)" "area (modifiedRegion c) = area (modifiedRegion cl) - area (requestedRegion cl)"
    "region_ok (requestedRegion c)" "area (requestedRegion c) = {}"
  using assms(3) region_and_ok [OF assms(1,2)] region_diff_ok [OF assms(1) region_and_ok(1) [OF assms(1,2)]] region_empty
  by (auto simp: take_update_def Let_def)

text \<open>The boxes of a callback, in the range of the shorts.\<close>

definition on_screen_rect :: "server \<Rightarrow> int \<times> int \<times> int \<times> int \<Rightarrow> bool" where
  "on_screen_rect srv = (\<lambda>(x, y, w, h). 0 \<le> x \<and> 0 \<le> y \<and> 0 \<le> w \<and> 0 \<le> h \<and>
     x + w \<le> int (swidth (rfbScreen srv)) \<and> y + h \<le> int (sheight (rfbScreen srv)))"

definition rect_area :: "int \<times> int \<times> int \<times> int \<Rightarrow> (int \<times> int) set" where
  "rect_area = (\<lambda>(x, y, w, h). {x..<x + w} \<times> {y..<y + h})"

definition short_screen :: "server \<Rightarrow> bool" where
  "short_screen srv \<longleftrightarrow> swidth (rfbScreen srv) \<le> 32767 \<and> sheight (rfbScreen srv) \<le> 32767"

lemma mark_modified_area:
  assumes "on_screen_rect srv r" "short_screen srv" "region_ok (modifiedRegion cl)"
  shows "region_ok (modifiedRegion (mark_modified (refresh_box r) cl))"
    "area (modifiedRegion (mark_modified (refresh_box r) cl)) = area (modifiedRegion cl) \<union> rect_area r"
proof -
  obtain x y w h where r: "r = (x, y, w, h)" by (metis prod_cases4)
  have b: "refresh_box r = box x y (x + w) (y + h)"
    using assms(1,2) by (simp add: r refresh_box_def on_screen_rect_def short_screen_def Let_def short_wide)
  have "region_ok (SAFE_REGION_INIT (refresh_box r))" "area (SAFE_REGION_INIT (refresh_box r)) = rect_area r"
    using SAFE_REGION_INIT_ok [of "refresh_box r"] assms(1) unfolding b
    by (auto simp: r on_screen_rect_def rect_area_def INBOX_def)
  then show "region_ok (modifiedRegion (mark_modified (refresh_box r) cl))"
    "area (modifiedRegion (mark_modified (refresh_box r) cl)) = area (modifiedRegion cl) \<union> rect_area r"
    using region_add_ok [OF assms(3)] by (simp_all add: mark_modified_def)
qed

definition marked :: "(int \<times> int \<times> int \<times> int) list \<Rightarrow> rfbClientRec \<Rightarrow> rfbClientRec" where
  "marked rects = fold (\<lambda>r. mark_modified (refresh_box r)) rects"

lemma marked_area:
  assumes "\<forall>r \<in> set rects. on_screen_rect srv r" "short_screen srv" "region_ok (modifiedRegion cl)"
  shows "region_ok (modifiedRegion (marked rects cl)) \<and>
    area (modifiedRegion (marked rects cl)) = area (modifiedRegion cl) \<union> \<Union> (rect_area ` set rects)"
  using assms
proof (induction rects arbitrary: cl)
  case (Cons r rects)
  have "on_screen_rect srv r" using Cons.prems(1) by simp
  note m = mark_modified_area [OF this Cons.prems(2,3)]
  from Cons.IH [OF _ Cons.prems(2) m(1)] Cons.prems(1) m(2) show ?case by (auto simp: marked_def)
qed (simp add: marked_def)

lemma marked_frame: "\<exists>m. marked rects cl = cl\<lparr>modifiedRegion := m, outputWaiting := outputWaiting cl \<and> rects = []\<rparr>"
proof (induction rects arbitrary: cl)
  case Nil
  have "marked [] cl = cl\<lparr>modifiedRegion := modifiedRegion cl, outputWaiting := outputWaiting cl \<and> [] = []\<rparr>" by (simp add: marked_def)
  then show ?case by blast
next
  case (Cons r rects)
  obtain m where "marked rects (mark_modified (refresh_box r) cl) =
      (mark_modified (refresh_box r) cl)\<lparr>modifiedRegion := m, outputWaiting := outputWaiting (mark_modified (refresh_box r) cl) \<and> rects = []\<rparr>"
    using Cons by blast
  then have "marked (r # rects) cl = cl\<lparr>modifiedRegion := m, outputWaiting := outputWaiting cl \<and> r # rects = []\<rparr>"
    by (simp add: marked_def mark_modified_def pthread_cond_signal_def)
  then show ?case by blast
qed

text \<open>Every client in the list is marked alike.\<close>

lemma refreshCallback_marks:
  "rfbClientHead (refreshCallback rects sys) = map (marked rects) (rfbClientHead sys) \<and>
   globals (refreshCallback rects sys) = globals sys"
proof -
  have "fold (\<lambda>r sys. sys\<lparr>rfbClientHead := map (mark_modified (refresh_box r)) (rfbClientHead sys)\<rparr>) rects sys =
    sys\<lparr>rfbClientHead := map (marked rects) (rfbClientHead sys)\<rparr>"
    by (induction rects arbitrary: sys) (simp_all add: marked_def comp_def)
  then show ?thesis by (simp add: refreshCallback_def)
qed

section \<open>The session\<close>

text \<open>
  The state: the globals, the client, the memory of the display, and what the viewer shows. A draw
  changes pixels inside the rectangles that the callback then reports; a request is for a part of the
  screen; the output thread makes its test and may go to sleep; awake it sends an update, which is
  decoded by the viewer as it arrives.
\<close>

type_synonym session = "server \<times> rfbClientRec \<times> buffer \<times> view"

text \<open>The number of rectangles of an update, with one for the cursor, is not the mark of an unknown number.\<close>

definition few_rects :: "rfbClientRec \<Rightarrow> bool" where
  "few_rects cl \<longleftrightarrow> (case take_update cl of (R, c) \<Rightarrow> Suc (nUpdateRegionRects c (map box_size (REGION_RECTS R))) < 0xFFFF)"

inductive session_step :: "env \<Rightarrow> session \<Rightarrow> session \<Rightarrow> bool" for env :: env where
  draw: "\<lbrakk>\<forall>r \<in> set rects. on_screen_rect srv r;
     \<forall>px py. (int px, int py) \<in> screen_area srv - \<Union> (rect_area ` set rects) \<longrightarrow>
       screen_pixel srv cl D' px py = screen_pixel srv cl D px py\<rbrakk>
   \<Longrightarrow> session_step env (srv, cl, D, v) (srv\<lparr>framebuffer := fb\<rparr>, marked rects cl, D', v)"
| request: "\<lbrakk>incoming (rdev cl) = rfbFramebufferUpdateRequest # request_bytes inc x y w h @ rest;
     on_screen_rect srv (x, y, w, h);
     rfbProcessClientNormalMessage env (srv, cl) = (srv', cl'); \<not> gone cl'\<rbrakk>
   \<Longrightarrow> session_step env (srv, cl, D, v) (srv', cl', D, v)"
| event: "\<lbrakk>incoming (rdev cl) ! 0 \<in> {rfbKeyEvent, rfbPointerEvent, rfbClientCutText};
     rfbProcessClientNormalMessage env (srv, cl) = (srv', cl'); \<not> gone cl'\<rbrakk>
   \<Longrightarrow> session_step env (srv, cl, D, v) (srv', cl', D, v)"
| test: "output_test defer cur cl = (r, cl') \<Longrightarrow> session_step env (srv, cl, D, v) (srv, cl', D, v)"
| update: "\<lbrakk>shows_screen u srv D; few_rects cl; \<not> outputWaiting cl;
     output_pass env u cur (srv, cl) = (srv', cl'); \<not> gone cl';
     sent cl' = sent cl @ msg; view_update (bytesPerPixel cl) msg v = Some (v', [])\<rbrakk>
   \<Longrightarrow> session_step env (srv, cl, D, v) (srv', cl', D, v')"

definition session_ok :: "server \<Rightarrow> rfbClientRec \<Rightarrow> bool" where
  "session_ok srv cl \<longleftrightarrow> server_ok srv \<and> client_ok srv cl \<and> unscaled srv cl \<and> short_screen srv \<and>
     preferredEncoding cl \<in> int ` stateless_encodings \<and>
     region_ok (modifiedRegion cl) \<and> area (modifiedRegion cl) \<subseteq> screen_area srv \<and>
     region_ok (requestedRegion cl) \<and> area (requestedRegion cl) \<subseteq> screen_area srv \<and>
     updateBuf cl = [] \<and> \<not> useRichCursorEncoding cl \<and> \<not> needNewScreenSize cl"

text \<open>The viewer shows the screen, except where the modified region says that it may not.\<close>

definition in_sync :: "session \<Rightarrow> bool" where
  "in_sync = (\<lambda>(srv, cl, D, v). \<forall>px py. (int px, int py) \<in> screen_area srv - area (modifiedRegion cl) \<longrightarrow>
     v px py = screen_pixel srv cl D px py)"

text \<open>The output thread does not sleep while a part of the screen has changed and is requested.\<close>

definition wakeful :: "rfbClientRec \<Rightarrow> bool" where
  "wakeful cl \<longleftrightarrow> \<not> (outputWaiting cl \<and> area (modifiedRegion cl) \<inter> area (requestedRegion cl) \<noteq> {})"

section \<open>Every step keeps the viewer in sync\<close>

lemma same_setup_frame:
  assumes "\<exists>f es q. srv' = srv\<lparr>framebuffer := f, events := es, pointerClient := q\<rparr>" "settings_upd c' = settings_upd cl"
    "settings_upd c = settings_upd c'"
  shows "same_setup srv cl srv' c"
  using same_setup_upd [of c cl srv' srv] assms by auto

lemma session_ok_frame:
  assumes s: "session_ok srv cl" and srv': "\<exists>f es q. srv' = srv\<lparr>framebuffer := f, events := es, pointerClient := q\<rparr>"
    and c: "client_ok srv c" "settings_upd c = settings_upd (cl\<lparr>modifiedRegion := modifiedRegion c, requestedRegion := requestedRegion c,
        rfbKeyEventsRcvd := rfbKeyEventsRcvd c, rfbPointerEventsRcvd := rfbPointerEventsRcvd c\<rparr>)"
      "updateBuf c = []"
    and r: "region_ok (modifiedRegion c)" "area (modifiedRegion c) \<subseteq> screen_area srv"
      "region_ok (requestedRegion c)" "area (requestedRegion c) \<subseteq> screen_area srv"
  shows "session_ok srv' c" "same_setup srv cl srv' c"
proof -
  note f = settings_upd_fields [OF c(2)]
  have u: "useRichCursorEncoding c = useRichCursorEncoding cl"
    using c(2) by (cases c; cases cl; simp add: settings_upd_def settings_def)
  obtain g es q where g: "srv' = srv\<lparr>framebuffer := g, events := es, pointerClient := q\<rparr>" using srv' by blast
  have "server_ok srv'" "client_ok srv' c" "short_screen srv'" "screen_area srv' = screen_area srv"
    using s c(1) by (simp_all add: g session_ok_def server_ok_def client_ok_def drawable_def trans_ok_def short_screen_def
        screen_area_def cong: trans_fn.case_cong)
  then show "session_ok srv' c" using s r c(3) u f by (simp add: session_ok_def unscaled_def g)
  show "same_setup srv cl srv' c" using f by (simp add: same_setup_def same_view_def g)
qed

lemma in_sync_step:
  assumes "in_sync (srv, cl, D, v)" "same_setup srv cl srv' c" "drawable srv cl"
    and "\<And>px py. (int px, int py) \<in> screen_area srv \<Longrightarrow> (int px, int py) \<notin> area (modifiedRegion c) \<Longrightarrow>
      v' px py = screen_pixel srv cl D' px py"
  shows "in_sync (srv', c, D', v')"
proof -
  have "screen_area srv' = screen_area srv" using assms(2) by (simp add: same_setup_def same_view_def screen_area_def)
  then show ?thesis using assms(4) screen_pixel_setup [OF assms(2,3), of D'] by (auto simp: in_sync_def)
qed

lemma draw_ok:
  assumes "session_ok srv cl" "in_sync (srv, cl, D, v)" "\<forall>r \<in> set rects. on_screen_rect srv r"
    "\<forall>px py. (int px, int py) \<in> screen_area srv - \<Union> (rect_area ` set rects) \<longrightarrow>
       screen_pixel srv cl D' px py = screen_pixel srv cl D px py"
  shows "session_ok (srv\<lparr>framebuffer := fb\<rparr>) (marked rects cl) \<and> in_sync (srv\<lparr>framebuffer := fb\<rparr>, marked rects cl, D', v)"
proof -
  obtain m where m: "marked rects cl = cl\<lparr>modifiedRegion := m, outputWaiting := outputWaiting cl \<and> rects = []\<rparr>" using marked_frame by blast
  have s: "short_screen srv" "region_ok (modifiedRegion cl)" "drawable srv cl" "client_ok srv cl" "updateBuf cl = []"
      "area (modifiedRegion cl) \<subseteq> screen_area srv" "region_ok (requestedRegion cl)" "area (requestedRegion cl) \<subseteq> screen_area srv"
    using assms(1) by (simp_all add: session_ok_def client_ok_def)
  note a = marked_area [OF assms(3) s(1,2)]
  have "\<Union> (rect_area ` set rects) \<subseteq> screen_area srv"
    using assms(3) by (fastforce simp: on_screen_rect_def rect_area_def screen_area_def)
  then have "area m \<subseteq> screen_area srv" using a s(6) by (simp add: m)
  then have am: "area (modifiedRegion (marked rects cl)) \<subseteq> screen_area srv" by (simp add: m)
  have c: "client_ok srv (marked rects cl)" "updateBuf (marked rects cl) = []"
    "requestedRegion (marked rects cl) = requestedRegion cl" using s by (simp_all add: m)
  have u: "settings_upd (marked rects cl) = settings_upd (cl\<lparr>modifiedRegion := modifiedRegion (marked rects cl),
      requestedRegion := requestedRegion (marked rects cl), rfbKeyEventsRcvd := rfbKeyEventsRcvd (marked rects cl),
      rfbPointerEventsRcvd := rfbPointerEventsRcvd (marked rects cl)\<rparr>)"
    by (simp add: m settings_upd_def settings_def)
  have f: "\<exists>f es q. srv\<lparr>framebuffer := fb\<rparr> = srv\<lparr>framebuffer := f, events := es, pointerClient := q\<rparr>"
    by (intro exI [of _ fb] exI [of _ "events srv"] exI [of _ "pointerClient srv"]) simp
  have ok: "session_ok (srv\<lparr>framebuffer := fb\<rparr>) (marked rects cl)"
    "same_setup srv cl (srv\<lparr>framebuffer := fb\<rparr>) (marked rects cl)"
    using session_ok_frame [OF assms(1) f c(1) u c(2) conjunct1 [OF a] am] s(7,8) by (simp_all add: c(3))
  have "in_sync (srv\<lparr>framebuffer := fb\<rparr>, marked rects cl, D', v)"
    by (rule in_sync_step [OF assms(2) ok(2) s(3)]) (use assms(2,4) a in \<open>auto simp: in_sync_def m\<close>)
  then show ?thesis using ok(1) by simp
qed

text \<open>What the messages of a running session change of the client.\<close>

definition listens :: "rfbClientRec \<Rightarrow> rfbClientRec \<Rightarrow> bool" where
  "listens cl c \<longleftrightarrow> (\<exists>r e k p m q w. c = cl\<lparr>rdev := r, errno := e, rfbKeyEventsRcvd := k, rfbPointerEventsRcvd := p,
     modifiedRegion := m, requestedRegion := q, outputWaiting := w\<rparr>)"

lemma listensD:
  assumes "listens cl c"
  shows "settings_upd c = settings_upd (cl\<lparr>modifiedRegion := modifiedRegion c, requestedRegion := requestedRegion c,
        rfbKeyEventsRcvd := rfbKeyEventsRcvd c, rfbPointerEventsRcvd := rfbPointerEventsRcvd c\<rparr>)"
    "updateBuf c = updateBuf cl"
proof -
  obtain r e k p m q w where c: "c = cl\<lparr>rdev := r, errno := e, rfbKeyEventsRcvd := k, rfbPointerEventsRcvd := p,
     modifiedRegion := m, requestedRegion := q, outputWaiting := w\<rparr>" using assms unfolding listens_def by (elim exE)
  show "settings_upd c = settings_upd (cl\<lparr>modifiedRegion := modifiedRegion c, requestedRegion := requestedRegion c,
        rfbKeyEventsRcvd := rfbKeyEventsRcvd c, rfbPointerEventsRcvd := rfbPointerEventsRcvd c\<rparr>)" "updateBuf c = updateBuf cl"
    by (simp_all add: c settings_upd_def settings_def)
qed

lemma read_msg_Inr:
  assumes "read_msg n f (srv, cl) = (srv', cl')" "\<not> gone cl'"
  obtains msg r e where "f msg (srv, cl\<lparr>rdev := r, errno := e\<rparr>) = (srv', cl')" "length msg = n"
    "incoming (rdev cl) = msg @ incoming r"
proof -
  obtain msg c where m: "f msg (srv, c) = (srv', cl')" "read_or_close n cl = Inr (msg, c)" "length msg = n"
    "incoming (rdev cl) = msg @ incoming (rdev c)"
    by (rule read_msg_takes [OF assms])
  then show ?thesis using that [of msg "errno c" "rdev c"] read_Inr_eq [OF m(2)] by simp
qed

lemma listens_request:
  assumes "processFramebufferUpdateRequest (srv, cl) = (srv', c)" "\<not> gone c"
  shows "listens cl c" "\<not> outputWaiting c"
proof -
  obtain msg r e where m: "record_request msg (srv, cl\<lparr>rdev := r, errno := e\<rparr>) = (srv', c)"
    using read_msg_Inr [OF assms(1) [unfolded processFramebufferUpdateRequest_def] assms(2)] .
  then have "c = cl\<lparr>rdev := r, errno := e, rfbKeyEventsRcvd := rfbKeyEventsRcvd cl, rfbPointerEventsRcvd := rfbPointerEventsRcvd cl,
     modifiedRegion := modifiedRegion c, requestedRegion := requestedRegion c, outputWaiting := False\<rparr>"
    by (cases "msg ! 0 = 0") (auto simp: record_request_def pthread_cond_signal_def Let_def)
  then show "listens cl c" unfolding listens_def by (intro exI)
  show "\<not> outputWaiting c" using m by (auto simp: record_request_def pthread_cond_signal_def Let_def)
qed

definition heard :: "rfbClientRec \<Rightarrow> rfbClientRec \<Rightarrow> bool" where
  "heard cl c \<longleftrightarrow> listens cl c \<and> modifiedRegion c = modifiedRegion cl \<and> requestedRegion c = requestedRegion cl \<and>
     outputWaiting c = outputWaiting cl"

lemma heardI: "c = cl\<lparr>rdev := r, errno := e, rfbKeyEventsRcvd := k, rfbPointerEventsRcvd := p\<rparr> \<Longrightarrow> heard cl c"
proof -
  assume c: "c = cl\<lparr>rdev := r, errno := e, rfbKeyEventsRcvd := k, rfbPointerEventsRcvd := p\<rparr>"
  then have "c = cl\<lparr>rdev := r, errno := e, rfbKeyEventsRcvd := k, rfbPointerEventsRcvd := p,
     modifiedRegion := modifiedRegion cl, requestedRegion := requestedRegion cl, outputWaiting := outputWaiting cl\<rparr>" by simp
  then have "listens cl c" unfolding listens_def by (intro exI)
  then show ?thesis by (simp add: heard_def c)
qed

lemma read_msg_same:
  assumes "read_msg n f (srv, cl) = (srv', c)" "\<not> gone c" "\<And>msg srv c. snd (f msg (srv, c)) = c"
  shows "\<exists>r e. c = cl\<lparr>rdev := r, errno := e\<rparr>"
proof -
  obtain msg r e where "f msg (srv, cl\<lparr>rdev := r, errno := e\<rparr>) = (srv', c)" by (rule read_msg_Inr [OF assms(1,2)])
  from arg_cong [OF this, of snd] have "c = cl\<lparr>rdev := r, errno := e\<rparr>" unfolding assms(3) by simp
  then show ?thesis by (intro exI)
qed

lemma heard_key:
  assumes "processKeyEvent (srv, cl) = (srv', c)" "\<not> gone c"
  shows "heard cl c"
proof -
  define k where "k = (if \<not> disableRemoteEvents cl then rfbKeyEventsRcvd cl + 1 else rfbKeyEventsRcvd cl)"
  have cl: "(if \<not> disableRemoteEvents cl then cl\<lparr>rfbKeyEventsRcvd := rfbKeyEventsRcvd cl + 1\<rparr> else cl) =
      cl\<lparr>rfbKeyEventsRcvd := k\<rparr>" by (simp add: k_def)
  have "\<exists>r e. c = cl\<lparr>rfbKeyEventsRcvd := k, rdev := r, errno := e\<rparr>"
    by (rule read_msg_same [OF assms(1) [unfolded processKeyEvent_def Let_def prod.case cl] assms(2)]) simp
  then obtain r e where c: "c = cl\<lparr>rfbKeyEventsRcvd := k, rdev := r, errno := e\<rparr>" by (elim exE)
  show ?thesis by (rule heardI [where r = r and e = e and k = k and p = "rfbPointerEventsRcvd cl"]) (simp add: c)
qed

lemma heard_pointer:
  assumes "processPointerEvent (srv, cl) = (srv', c)" "\<not> gone c"
  shows "heard cl c"
proof -
  define k where "k = (if \<not> disableRemoteEvents cl then rfbPointerEventsRcvd cl + 1 else rfbPointerEventsRcvd cl)"
  have cl: "(if \<not> disableRemoteEvents cl then cl\<lparr>rfbPointerEventsRcvd := rfbPointerEventsRcvd cl + 1\<rparr> else cl) =
      cl\<lparr>rfbPointerEventsRcvd := k\<rparr>" by (simp add: k_def)
  have "\<exists>r e. c = cl\<lparr>rfbPointerEventsRcvd := k, rdev := r, errno := e\<rparr>"
    by (rule read_msg_same [OF assms(1) [unfolded processPointerEvent_def Let_def prod.case cl] assms(2)]) simp
  then obtain r e where c: "c = cl\<lparr>rfbPointerEventsRcvd := k, rdev := r, errno := e\<rparr>" by (elim exE)
  show ?thesis by (rule heardI [where r = r and e = e and k = "rfbKeyEventsRcvd cl" and p = k]) (simp add: c)
qed

lemma heard_cut_text:
  assumes "processClientCutText (srv, cl) = (srv', c)" "\<not> gone c"
  shows "heard cl c"
proof -
  obtain msg r e where m: "read_msg (nat (rd32 (drop 3 msg))) (\<lambda>str (srv, cl).
      (if \<not> disableRemoteEvents cl then srv\<lparr>events := events srv @ [SetCutText str (cid cl)]\<rparr> else srv, cl))
      (srv, cl\<lparr>rdev := r, errno := e\<rparr>) = (srv', c)"
    by (rule read_msg_Inr [OF assms(1) [unfolded processClientCutText_def] assms(2)])
  have "\<exists>r' e'. c = cl\<lparr>rdev := r, errno := e, rdev := r', errno := e'\<rparr>"
    by (rule read_msg_same [OF m assms(2)]) simp
  then obtain r' e' where c: "c = cl\<lparr>rdev := r', errno := e'\<rparr>" by auto
  show ?thesis by (rule heardI [where r = r' and e = e' and k = "rfbKeyEventsRcvd cl" and p = "rfbPointerEventsRcvd cl"]) (simp add: c)
qed

lemma heard_after_read: "heard (cl\<lparr>rdev := r, errno := e\<rparr>) c \<Longrightarrow> heard cl c"
  "listens (cl\<lparr>rdev := r, errno := e\<rparr>) c \<Longrightarrow> listens cl c"
  by (auto simp: heard_def listens_def)

lemma normal_message_dispatch:
  assumes "rfbProcessClientNormalMessage env (srv, cl) = (srv', c)" "\<not> gone c"
  obtains r e where "message_handler env (incoming (rdev cl) ! 0) (srv, cl\<lparr>rdev := r, errno := e\<rparr>) = (srv', c)"
    "incoming (rdev cl) = incoming (rdev cl) ! 0 # incoming r"
proof -
  obtain msg r e where m: "message_handler env (msg ! 0) (srv, cl\<lparr>rdev := r, errno := e\<rparr>) = (srv', c)" "length msg = 1"
    "incoming (rdev cl) = msg @ incoming r"
    by (rule read_msg_Inr [OF assms(1) [unfolded rfbProcessClientNormalMessage_def] assms(2)])
  obtain ty where "msg = [ty]" using m(2) by (cases msg) auto
  then show ?thesis using that m(1,3) by simp
qed

lemma session_ok_listens:
  assumes s: "session_ok srv cl" and m: "rfbProcessClientNormalMessage env (srv, cl) = (srv', c)" "\<not> gone c"
    and plain: "incoming (rdev cl) ! 0 \<notin> rich_types" and l: "listens cl c"
    and r: "region_ok (modifiedRegion c)" "area (modifiedRegion c) \<subseteq> screen_area srv"
      "region_ok (requestedRegion c)" "area (requestedRegion c) \<subseteq> screen_area srv"
  shows "session_ok srv' c" "same_setup srv cl srv' c"
proof -
  have ok: "server_ok srv" "client_ok srv cl" "updateBuf cl = []" using s by (simp_all add: session_ok_def)
  have n: "srv' = srv\<lparr>events := events srv', pointerClient := pointerClient srv'\<rparr>" "client_ok srv c"
    using normal_message_ok [OF ok(1,2) m(1) plain] m(2) by simp_all
  then have f: "\<exists>f es q. srv' = srv\<lparr>framebuffer := f, events := es, pointerClient := q\<rparr>"
    by (intro exI [of _ "framebuffer srv"] exI [of _ "events srv'"] exI [of _ "pointerClient srv'"]) simp
  have "updateBuf c = []" using listensD(2) [OF l] ok(3) by simp
  from session_ok_frame [OF s f n(2) listensD(1) [OF l] this r] show "session_ok srv' c" "same_setup srv cl srv' c" .
qed

lemma event_ok:
  assumes s: "session_ok srv cl" "in_sync (srv, cl, D, v)"
    and ty: "incoming (rdev cl) ! 0 \<in> {rfbKeyEvent, rfbPointerEvent, rfbClientCutText}"
    and m: "rfbProcessClientNormalMessage env (srv, cl) = (srv', c)" "\<not> gone c"
  shows "session_ok srv' c \<and> in_sync (srv', c, D, v) \<and> (wakeful cl \<longrightarrow> wakeful c)"
proof -
  obtain r e where h: "message_handler env (incoming (rdev cl) ! 0) (srv, cl\<lparr>rdev := r, errno := e\<rparr>) = (srv', c)"
    by (rule normal_message_dispatch [OF m])
  have "heard (cl\<lparr>rdev := r, errno := e\<rparr>) c"
  proof -
    consider "incoming (rdev cl) ! 0 = rfbKeyEvent" | "incoming (rdev cl) ! 0 = rfbPointerEvent"
      | "incoming (rdev cl) ! 0 = rfbClientCutText" using ty by blast
    then show ?thesis
    proof cases
      case 1
      then have "processKeyEvent (srv, cl\<lparr>rdev := r, errno := e\<rparr>) = (srv', c)"
        using h unfolding message_handler_def by (simp add: message_types)
      then show ?thesis by (rule heard_key [OF _ m(2)])
    next
      case 2
      then have "processPointerEvent (srv, cl\<lparr>rdev := r, errno := e\<rparr>) = (srv', c)"
        using h unfolding message_handler_def by (simp add: message_types)
      then show ?thesis by (rule heard_pointer [OF _ m(2)])
    next
      case 3
      then have "processClientCutText (srv, cl\<lparr>rdev := r, errno := e\<rparr>) = (srv', c)"
        using h unfolding message_handler_def by (simp add: message_types)
      then show ?thesis by (rule heard_cut_text [OF _ m(2)])
    qed
  qed
  then have "heard cl c" by (rule heard_after_read(1))
  then have g: "listens cl c" "modifiedRegion c = modifiedRegion cl" "requestedRegion c = requestedRegion cl"
    "outputWaiting c = outputWaiting cl"
    unfolding heard_def by blast+
  have plain: "incoming (rdev cl) ! 0 \<notin> rich_types"
    using ty by (auto simp: rich_types_def message_types)
  have ok: "session_ok srv' c" "same_setup srv cl srv' c"
    using session_ok_listens [OF s(1) m plain g(1)] s(1) by (simp_all add: g(2,3) session_ok_def)
  have "drawable srv cl" using s(1) by (simp add: session_ok_def client_ok_def)
  then have "in_sync (srv', c, D, v)"
    by (rule in_sync_step [OF s(2) ok(2)]) (use s(2) in \<open>simp add: in_sync_def g(2)\<close>)
  moreover have "wakeful cl \<longrightarrow> wakeful c" by (simp add: wakeful_def g(2-4))
  ultimately show ?thesis using ok(1) by blast
qed

lemma request_ok:
  assumes s: "session_ok srv cl" "in_sync (srv, cl, D, v)"
    and msg: "incoming (rdev cl) = rfbFramebufferUpdateRequest # request_bytes inc x y w h @ rest"
    and scr: "on_screen_rect srv (x, y, w, h)"
    and m: "rfbProcessClientNormalMessage env (srv, cl) = (srv', c)" "\<not> gone c"
  shows "session_ok srv' c \<and> in_sync (srv', c, D, v) \<and> wakeful c \<and>
    area (requestedRegion c) = area (requestedRegion cl) \<union> rect_area (x, y, w, h)"
proof -
  have ty: "incoming (rdev cl) ! 0 = rfbFramebufferUpdateRequest" by (simp add: msg)
  obtain r e where h: "message_handler env (incoming (rdev cl) ! 0) (srv, cl\<lparr>rdev := r, errno := e\<rparr>) = (srv', c)"
    "incoming (rdev cl) = incoming (rdev cl) ! 0 # incoming r"
    by (rule normal_message_dispatch [OF m])
  have p: "processFramebufferUpdateRequest (srv, cl\<lparr>rdev := r, errno := e\<rparr>) = (srv', c)"
    using h(1) unfolding message_handler_def ty by (simp add: message_types)
  have l: "listens cl c" by (rule heard_after_read(2) [OF listens_request(1) [OF p m(2)]])
  have w: "wakeful c" using listens_request(2) [OF p m(2)] by (simp add: wakeful_def)
  have b: "0 \<le> x" "0 \<le> y" "0 \<le> w" "0 \<le> h" "x + w \<le> 32767" "y + h \<le> 32767"
    using scr s(1) by (auto simp: on_screen_rect_def session_ok_def short_screen_def)
  have inc: "incoming (rdev (cl\<lparr>rdev := r, errno := e\<rparr>)) = request_bytes inc x y w h @ rest"
    using h(2) msg by simp
  let ?b = "SAFE_REGION_INIT (box x y (x + w) (y + h))"
  have box: "request_box (int (scalingFactor cl)) x y w h = box x y (x + w) (y + h)"
    using request_box_unscaled [OF b(1-4)] b(5,6) s(1) by (simp add: session_ok_def unscaled_def MAXSHORT_def)
  have r: "region_ok ?b" "area ?b = rect_area (x, y, w, h)"
    using SAFE_REGION_INIT_ok [of "box x y (x + w) (y + h)"] b(3,4) by (auto simp: rect_area_def INBOX_def)
  have "rect_area (x, y, w, h) \<subseteq> screen_area srv"
    using scr by (fastforce simp: on_screen_rect_def rect_area_def screen_area_def)
  moreover have e: "requestedRegion c = region_add (requestedRegion cl) ?b"
    "modifiedRegion c = (if inc = 0 then region_add (modifiedRegion cl) ?b else modifiedRegion cl)"
    using request_effect [OF p m(2) inc] b by (simp_all add: box)
  moreover have s': "region_ok (modifiedRegion cl)" "area (modifiedRegion cl) \<subseteq> screen_area srv"
    "region_ok (requestedRegion cl)" "area (requestedRegion cl) \<subseteq> screen_area srv" "drawable srv cl"
    using s(1) by (simp_all add: session_ok_def client_ok_def)
  moreover note q = region_add_ok [OF s'(3) r(1)] and q' = region_add_ok [OF s'(1) r(1)]
  ultimately have g: "region_ok (modifiedRegion c)" "area (modifiedRegion c) \<subseteq> screen_area srv"
      "region_ok (requestedRegion c)" "area (requestedRegion c) \<subseteq> screen_area srv"
      "area (modifiedRegion cl) \<subseteq> area (modifiedRegion c)"
    by (simp_all add: r(2))
  have plain: "incoming (rdev cl) ! 0 \<notin> rich_types"
    by (simp add: ty rich_types_def message_types)
  note ok = session_ok_listens [OF s(1) m plain l g(1-4)]
  have "in_sync (srv', c, D, v)"
    by (rule in_sync_step [OF s(2) ok(2) s'(5)]) (use s(2) g(5) in \<open>auto simp: in_sync_def\<close>)
  then show ?thesis using ok(1) q(2) w by (simp add: e(1) r(2))
qed

lemma client_ok_upd: "settings_upd a = settings_upd b \<Longrightarrow> client_ok srv a = client_ok srv b"
proof -
  let ?z = "\<lambda>cl. cl\<lparr>screenBuffer := (\<lambda>_. 0), scalingFrameBuffer := (\<lambda>_. 0), clientCursorLocation := (0, 0), currentCursorSeed := 0\<rparr>"
  have z: "client_ok srv (?z cl) = client_ok srv cl" for cl
    by (simp add: client_ok_def drawable_def trans_ok_def cong: trans_fn.case_cong)
  assume "settings_upd a = settings_upd b"
  then have "client_ok srv (?z a) = client_ok srv (?z b)" unfolding settings_upd_def by (rule client_ok_settings)
  then show ?thesis unfolding z .
qed

lemma settings_upd_regions:
  assumes "settings_upd a = settings_upd b"
  shows "modifiedRegion a = modifiedRegion b" "requestedRegion a = requestedRegion b"
    "rfbKeyEventsRcvd a = rfbKeyEventsRcvd b" "rfbPointerEventsRcvd a = rfbPointerEventsRcvd b"
proof -
  have e: "modifiedRegion c = modifiedRegion (settings_upd c)" "requestedRegion c = requestedRegion (settings_upd c)"
    "rfbKeyEventsRcvd c = rfbKeyEventsRcvd (settings_upd c)" "rfbPointerEventsRcvd c = rfbPointerEventsRcvd (settings_upd c)" for c
    by (simp_all add: settings_upd_def settings_def)
  show "modifiedRegion a = modifiedRegion b" by (rule trans [OF e(1) trans [OF arg_cong [OF assms, of modifiedRegion] e(1) [symmetric]]])
  show "requestedRegion a = requestedRegion b" by (rule trans [OF e(2) trans [OF arg_cong [OF assms, of requestedRegion] e(2) [symmetric]]])
  show "rfbKeyEventsRcvd a = rfbKeyEventsRcvd b" by (rule trans [OF e(3) trans [OF arg_cong [OF assms, of rfbKeyEventsRcvd] e(3) [symmetric]]])
  show "rfbPointerEventsRcvd a = rfbPointerEventsRcvd b" by (rule trans [OF e(4) trans [OF arg_cong [OF assms, of rfbPointerEventsRcvd] e(4) [symmetric]]])
qed

lemma requested_change_noticed:
  assumes "region_ok (modifiedRegion cl)" "region_ok (requestedRegion cl)"
    "area (modifiedRegion cl) \<inter> area (requestedRegion cl) \<noteq> {}"
  shows "have_update defer cur cl"
proof -
  have "\<not> REGION_NIL (requestedRegion cl)" using assms(3) area_NIL by blast
  moreover have "\<not> REGION_NIL (region_and (modifiedRegion cl) (requestedRegion cl))"
    using assms(3) area_NIL region_and_ok(2) [OF assms(1,2)] by metis
  ultimately show ?thesis by (simp add: have_update_def REGION_NOTEMPTY_def)
qed

lemma test_ok:
  assumes "session_ok srv cl" "in_sync (srv, cl, D, v)" "output_test defer cur cl = (r, c)"
  shows "session_ok srv c \<and> in_sync (srv, c, D, v) \<and> (wakeful cl \<longrightarrow> wakeful c)"
proof (cases "c = cl")
  case False
  then have c: "c = cl\<lparr>outputWaiting := True\<rparr>" "\<not> have_update defer cur cl"
    using assms(3) by (auto simp: output_test_def split: if_splits)
  have s: "region_ok (modifiedRegion cl)" "region_ok (requestedRegion cl)" "drawable srv cl"
    using assms(1) by (simp_all add: session_ok_def client_ok_def)
  have "session_ok srv c" using assms(1) by (simp add: c(1) session_ok_def unscaled_def)
  moreover have "in_sync (srv, c, D, v)"
    by (rule in_sync_step [OF assms(2) _ s(3)]) (use assms(2) in \<open>simp_all add: c(1) same_setup_def same_view_def in_sync_def\<close>)
  moreover have "wakeful c" using requested_change_noticed [OF s(1,2)] c(2) by (auto simp: c(1) wakeful_def)
  ultimately show ?thesis by blast
qed (use assms in simp)

text \<open>Rectangles that cover a part of the screen and nothing else have coordinates that a header can hold.\<close>

lemma pieces_small:
  assumes "\<forall>px py. length (filter (in_rect px py) rs) = of_bool ((int px, int py) \<in> A)" "\<forall>r \<in> set rs. solid_rect r"
    and "A \<subseteq> screen_area srv" "short_screen srv" "r \<in> set rs"
  shows "small_rect r"
proof -
  obtain x y w h where r: "r = (x, y, w, h)" by (metis prod_cases4)
  have w: "0 < w" "0 < h" using assms(2,5) by (auto simp: r solid_rect_def)
  have inside: "(int px, int py) \<in> screen_area srv" if "in_rect px py r" for px py
  proof -
    have "r \<in> set (filter (in_rect px py) rs)" using assms(5) that by simp
    then have "filter (in_rect px py) rs \<noteq> []" by (rule length_pos_if_in_set [THEN length_greater_0_conv [THEN iffD1]])
    then have "(int px, int py) \<in> A" using assms(1) by (cases "(int px, int py) \<in> A") (metis length_0_conv of_bool_eq(1))+
    then show ?thesis using assms(3) by (rule subsetD [rotated])
  qed
  have "in_rect x y r" "in_rect (x + w - 1) (y + h - 1) r" using w by (auto simp: r in_rect_def)
  from this [THEN inside] show ?thesis using assms(4) w
    by (auto simp: r small_rect_def screen_area_def short_screen_def)
qed

lemma update_ok:
  assumes s: "session_ok srv cl" "in_sync (srv, cl, D, v)"
    and u: "shows_screen u srv D" "few_rects cl" "output_pass env u cur (srv, cl) = (srv', cl')" "\<not> gone cl'"
  shows "\<exists>msg v'. sent cl' = sent cl @ msg \<and> view_update (bytesPerPixel cl) msg v = Some (v', []) \<and>
    session_ok srv' cl' \<and> in_sync (srv', cl', D, v') \<and>
    area (modifiedRegion cl') = area (modifiedRegion cl) - area (requestedRegion cl) \<and>
    area (requestedRegion cl') = {} \<and> same_setup srv cl srv' cl'"
proof -
  obtain R c where t: "take_update cl = (R, c)" by fastforce
  have s': "server_ok srv" "client_ok srv cl" "unscaled srv cl" "short_screen srv" "preferredEncoding cl \<in> int ` stateless_encodings"
     "region_ok (modifiedRegion cl)" "area (modifiedRegion cl) \<subseteq> screen_area srv" "region_ok (requestedRegion cl)"
     "area (requestedRegion cl) \<subseteq> screen_area srv" "\<not> useRichCursorEncoding cl" "\<not> needNewScreenSize cl"
    using s(1) by (simp_all add: session_ok_def)
  note a = take_update_area [OF s'(6,8) t]
  obtain m q where c: "c = cl\<lparr>modifiedRegion := m, requestedRegion := q\<rparr>" using a(3) by blast
  have c': "client_ok srv c" "unscaled srv c" "preferredEncoding c \<in> int ` stateless_encodings" "\<not> rfbShouldSendNewCursor cur c"
      "\<not> needNewScreenSize c" "sent c = sent cl" "bytesPerPixel c = bytesPerPixel cl"
    using s' by (simp_all add: c unscaled_def rfbShouldSendNewCursor_def bytesPerPixel_def)
  have R: "area R \<subseteq> screen_area srv" using a(2) s'(7) by auto
  have scr: "swidth (rfbScreen srv) < 65536" "sheight (rfbScreen srv) < 65536" using s'(4) by (simp_all add: short_screen_def)
  have n: "Suc (nUpdateRegionRects c (map box_size (REGION_RECTS R))) < 0xFFFF" using u(2) by (simp add: few_rects_def t)
  have pix: "screen_pixel srv c = screen_pixel srv cl"
    by (intro ext) (rule fun_cong [OF fun_cong [OF screen_pixel_setup]], simp_all add: c same_setup_def same_view_def,
      use s'(2) in \<open>simp add: client_ok_def\<close>)
  obtain rs body where rs: "length rs = nUpdateRegionRects c (map box_size (REGION_RECTS R))"
      "\<forall>px py. length (filter (in_rect px py) rs) = of_bool ((int px, int py) \<in> area R)" "\<forall>r \<in> set rs. solid_rect r"
      "carries_all (viewer_reads (bytesPerPixel c) (screen_pixel srv c D)) rs body"
      "update_outcome srv c (update_message (stackByte env 1) cur c rs body) (rfbSendFramebufferUpdate env u cur R (srv, c))"
    using update_shown [OF c'(1,2) u(1) c'(3) a(1) R scr n c'(4,5), of env] by (elim exE conjE)
  obtain ok where ok: "rfbSendFramebufferUpdate env u cur R (srv, c) = (ok, srv', cl')"
    using u(3) by (auto simp: output_pass_def t split: prod.splits)
  let ?msg = "update_message (stackByte env 1) cur c rs body" and ?v = "fold (\<lambda>r. paint_view r (screen_pixel srv cl D)) rs v"
  have o: "ok" "settings_upd cl' = settings_upd c" "srv' = srv\<lparr>framebuffer := framebuffer srv'\<rparr>" "sent cl' = sent c @ ?msg" "updateBuf cl' = []"
    using rs(5) u(4) unfolding ok update_outcome_def by (auto split: if_splits)
  have "Suc (length rs) < 65536" using n rs(1) by simp
  from view_update_message [OF rs(4) _ this] pieces_small [OF rs(2,3) R s'(4)]
  have view: "view_update (bytesPerPixel cl) ?msg v = Some (?v, [])" by (simp add: c'(7) pix)
  note g = settings_upd_regions [OF o(2)]
  have ok': "session_ok srv' cl'" "same_setup srv cl srv' cl'"
  proof -
    obtain fb where fb: "srv' = srv\<lparr>framebuffer := fb\<rparr>" using o(3) by blast
    have f: "\<exists>f es q. srv' = srv\<lparr>framebuffer := f, events := es, pointerClient := q\<rparr>"
      unfolding fb by (intro exI [of _ fb] exI [of _ "events srv"] exI [of _ "pointerClient srv"]) simp
    have "client_ok srv cl'" using client_ok_upd [OF o(2)] c'(1) by simp
    moreover have "settings_upd cl' = settings_upd (cl\<lparr>modifiedRegion := modifiedRegion cl', requestedRegion := requestedRegion cl',
        rfbKeyEventsRcvd := rfbKeyEventsRcvd cl', rfbPointerEventsRcvd := rfbPointerEventsRcvd cl'\<rparr>)"
      unfolding o(2) g by (simp add: c)
    moreover have "region_ok (modifiedRegion cl')" "area (modifiedRegion cl') \<subseteq> screen_area srv"
      "region_ok (requestedRegion cl')" "area (requestedRegion cl') \<subseteq> screen_area srv"
      unfolding g using a s'(7) by auto
    ultimately show "session_ok srv' cl'" "same_setup srv cl srv' cl'"
      using session_ok_frame [OF s(1) f _ _ o(5), of] by blast+
  qed
  have "drawable srv cl" using s'(2) by (simp add: client_ok_def)
  have covered: "(\<exists>r \<in> set rs. in_rect px py r) = ((int px, int py) \<in> area R)" for px py
  proof -
    have "(\<exists>r \<in> set rs. in_rect px py r) = (length (filter (in_rect px py) rs) \<noteq> 0)" by (simp add: filter_empty_conv)
    then show ?thesis using rs(2) by simp
  qed
  have "in_sync (srv', cl', D, ?v)"
    by (rule in_sync_step [OF s(2) ok'(2) \<open>drawable srv cl\<close>])
      (use s(2) in \<open>auto simp: fold_paint covered a(2) g a(5) in_sync_def\<close>)
  then show ?thesis using o(4) view ok' a(5,7) by (intro exI conjI) (simp_all add: c'(6) g)
qed

lemma pass_shows:
  assumes "session_ok srv cl" "in_sync (srv, cl, D, v)" "shows_screen u srv D" "few_rects cl"
  shows "case output_pass env u cur (srv, cl) of (srv', cl') \<Rightarrow> gone cl' \<or>
      (\<exists>msg v'. sent cl' = sent cl @ msg \<and> view_update (bytesPerPixel cl) msg v = Some (v', []) \<and>
        (\<forall>px py. (int px, int py) \<in> screen_area srv - (area (modifiedRegion cl) - area (requestedRegion cl)) \<longrightarrow>
           v' px py = screen_pixel srv cl D px py) \<and>
        area (modifiedRegion cl') = area (modifiedRegion cl) - area (requestedRegion cl))"
proof -
  have d: "drawable srv cl" using assms(1) by (simp add: session_ok_def client_ok_def)
  obtain srv' cl' where o: "output_pass env u cur (srv, cl) = (srv', cl')" by fastforce
  have "\<exists>msg v'. sent cl' = sent cl @ msg \<and> view_update (bytesPerPixel cl) msg v = Some (v', []) \<and>
        (\<forall>px py. (int px, int py) \<in> screen_area srv - (area (modifiedRegion cl) - area (requestedRegion cl)) \<longrightarrow>
           v' px py = screen_pixel srv cl D px py) \<and>
        area (modifiedRegion cl') = area (modifiedRegion cl) - area (requestedRegion cl)" if g: "\<not> gone cl'"
  proof -
    obtain msg v' where m: "sent cl' = sent cl @ msg" "view_update (bytesPerPixel cl) msg v = Some (v', [])"
      "in_sync (srv', cl', D, v')" "area (modifiedRegion cl') = area (modifiedRegion cl) - area (requestedRegion cl)"
      "same_setup srv cl srv' cl'"
      using update_ok [OF assms o g] by (elim exE conjE)
    have "screen_area srv' = screen_area srv" using m(5) by (simp add: same_setup_def same_view_def screen_area_def)
    then show ?thesis using m screen_pixel_setup [OF m(5) d, of D] by (intro exI conjI) (simp_all add: in_sync_def)
  qed
  then show ?thesis by (simp add: o) blast
qed

section \<open>Properties\<close>

lemma session_step_ok:
  assumes "session_step env st st'" "case st of (srv, cl, D, v) \<Rightarrow> session_ok srv cl" "in_sync st"
  shows "(case st' of (srv, cl, D, v) \<Rightarrow> session_ok srv cl) \<and> in_sync st' \<and>
    (wakeful (fst (snd st)) \<longrightarrow> wakeful (fst (snd st')))"
  using assms
proof (cases rule: session_step.cases)
  case (draw rects srv cl D' D v fb)
  have "wakeful cl \<longrightarrow> wakeful (marked rects cl)"
    using marked_frame [of rects cl] by (cases "rects = []") (auto simp: wakeful_def marked_def)
  then show ?thesis using draw draw_ok [of srv cl D v rects D' fb] assms(2,3) by simp
next
  case (request cl inc x y w h rest srv srv' cl' D v)
  then show ?thesis using request_ok [of srv cl D v inc x y w h rest env srv' cl'] assms(2,3) by simp
next
  case (event cl srv srv' cl' D v)
  then show ?thesis using event_ok [of srv cl D v env srv' cl'] assms(2,3) by simp
next
  case (test d cur cl r cl' srv D v)
  then show ?thesis using test_ok [of srv cl D v d cur r cl'] assms(2,3) by simp
next
  case (update u srv D cl cur srv' cl' msg v v')
  then show ?thesis using update_ok [of srv cl D v u env cur srv' cl'] assms(2,3) by (auto simp: wakeful_def)
qed

lemma session_steps_ok:
  assumes "(session_step env)\<^sup>*\<^sup>* (srv0, cl0, D0, v0) (srv, cl, D, v)" "session_ok srv0 cl0" "in_sync (srv0, cl0, D0, v0)"
  shows "session_ok srv cl" "in_sync (srv, cl, D, v)" "wakeful cl0 \<Longrightarrow> wakeful cl"
proof -
  have "(case st of (srv, cl, D, v) \<Rightarrow> session_ok srv cl) \<and> in_sync st \<and> (wakeful cl0 \<longrightarrow> wakeful (fst (snd st)))"
    if "(session_step env)\<^sup>*\<^sup>* (srv0, cl0, D0, v0) st" for st
    using that
  proof (induction rule: rtranclp_induct)
    case base
    then show ?case using assms(2,3) by simp
  next
    case (step st st')
    then show ?case using session_step_ok [of env st st'] by blast
  qed
  from this [OF assms(1)] show "session_ok srv cl" "in_sync (srv, cl, D, v)" "wakeful cl0 \<Longrightarrow> wakeful cl" by simp_all
qed

text \<open>
  C1: The viewer never shows stale pixels that the server has forgotten. The session is that of a client
  that views the screen unscaled, prefers raw, RRE, CoRRE or hextile, is not sent the shape of the cursor
  and has no change of the screen's size pending, on a screen whose sides are below 32768; its requests lie on
  the screen, and an update of it has less than 65535 rectangles. At first the viewer is in sync. Whatever the order in
  which the screen changes, such requests, input events and cut texts arrive, the output thread tests and
  sleeps, and updates are sent, while the connection lasts the viewer shows at every pixel of
  the screen outside the client's modified region what the screen shows, in the viewer's format; and the
  regions of the client remain well-formed and on the screen.
\<close>

theorem viewer_in_sync:
  assumes "(session_step env)\<^sup>*\<^sup>* (srv0, cl0, D0, v0) (srv, cl, D, v)" "session_ok srv0 cl0" "in_sync (srv0, cl0, D0, v0)"
  shows "session_ok srv cl \<and>
    (\<forall>px py. (int px, int py) \<in> screen_area srv - area (modifiedRegion cl) \<longrightarrow> v px py = screen_pixel srv cl D px py)"
  using session_steps_ok [OF assms] by (simp add: in_sync_def)

text \<open>A client that has asked for the whole screen of the demonstration, and a viewer that shows it.\<close>

definition demo_viewer :: rfbClientRec where
  "demo_viewer = (demo_sends (rfbFramebufferUpdateRequest # request_bytes 1 0 0 4 3))\<lparr>modifiedRegion := miRegionInit None\<rparr>"

lemma demo_viewer_ok: "session_ok demo_server demo_viewer"
  using demo_client_ok [of "rfbFramebufferUpdateRequest # request_bytes 1 0 0 4 3"] demo_server_ok region_empty
  by (simp add: session_ok_def demo_viewer_def)
    (simp add: demo_sends_def demo_client_def demo_server_def unscaled_def short_screen_def stateless_encodings_def
      rfbEncodingRaw_def region_ok_def area_def REGION_RECTS_def miEmptyBox_def)

lemma demo_drawn:
  assumes "px < 4" "py < 3" "(px, py) \<noteq> (1, 1)" and that: "drawable demo_server cl" "scalingPaddedWidthInBytes cl = 16"
  shows "screen_pixel demo_server cl ((framebuffer demo_server)(20 := 255)) px py = screen_pixel demo_server cl (framebuffer demo_server) px py"
  unfolding screen_pixel_def
proof (rule source_pixel_cong)
  fix k assume "k < sbitsPerPixel (rfbScreen demo_server) div 8"
  then have "py * 16 + px * 4 + k \<noteq> 20" using assms by (simp add: demo_server_def) presburger
  then show "scalingFrameBuffer (cl\<lparr>scalingFrameBuffer := (framebuffer demo_server)(20 := 255)\<rparr>)
      (fbptr demo_server (cl\<lparr>scalingFrameBuffer := (framebuffer demo_server)(20 := 255)\<rparr>) px py + k) =
    scalingFrameBuffer (cl\<lparr>scalingFrameBuffer := framebuffer demo_server\<rparr>)
      (fbptr demo_server (cl\<lparr>scalingFrameBuffer := (framebuffer demo_server)(20 := 255)\<rparr>) px py + k)"
    using that(2) by (simp add: fbptr_def demo_server_def algebra_simps)
qed (use that in \<open>simp_all add: same_view_def drawable_def trans_ok_def cong: trans_fn.case_cong\<close>)

theorem viewer_in_sync_witness:
  "\<exists>cl v. (session_step demo_env)\<^sup>*\<^sup>* (demo_server, demo_viewer, framebuffer demo_server, screen_pixel demo_server demo_viewer (framebuffer demo_server))
      (demo_server, cl, (framebuffer demo_server)(20 := 255), v) \<and>
    area (modifiedRegion cl) = {(1, 1)} \<and> area (requestedRegion cl) = {0..<4} \<times> {0..<3} \<and>
    v 2 2 = screen_pixel demo_server cl ((framebuffer demo_server)(20 := 255)) 2 2"
proof -
  let ?D = "framebuffer demo_server" and ?v = "screen_pixel demo_server demo_viewer (framebuffer demo_server)"
  have sync: "in_sync (demo_server, demo_viewer, ?D, ?v)" by (simp add: in_sync_def)
  obtain srv c where m: "rfbProcessClientNormalMessage demo_env (demo_server, demo_viewer) = (srv, c)" by fastforce
  have "srv = demo_server \<and> \<not> gone c \<and> modifiedRegion c = miRegionInit None"
    using m by (simp add: demo_viewer_def demo_run request_bytes_def be16_def processFramebufferUpdateRequest_def
      record_request_def Let_def gone_def) (elim conjE, hypsubst, simp)
  then have run: "srv = demo_server" "\<not> gone c" "modifiedRegion c = miRegionInit None" by simp_all
  have inc: "incoming (rdev demo_viewer) = rfbFramebufferUpdateRequest # request_bytes 1 0 0 4 3 @ []"
    by (simp add: demo_viewer_def demo_sends_def)
  have scr: "on_screen_rect demo_server (0, 0, 4, 3)" by (simp add: on_screen_rect_def demo_server_def)
  have s1: "session_step demo_env (demo_server, demo_viewer, ?D, ?v) (demo_server, c, ?D, ?v)"
    using session_step.request [OF inc scr m run(2), of ?D ?v] by (simp add: run(1))
  note ok = request_ok [OF demo_viewer_ok sync inc scr m run(2), unfolded run(1)]
  let ?c = "marked [(1, 1, 1, 1)] c"
  have p: "\<forall>px py. (int px, int py) \<in> screen_area demo_server - \<Union> (rect_area ` set [(1, 1, 1, 1)]) \<longrightarrow>
      screen_pixel demo_server c (?D(20 := 255)) px py = screen_pixel demo_server c ?D px py"
  proof (intro allI impI)
    fix px py assume a: "(int px, int py) \<in> screen_area demo_server - \<Union> (rect_area ` set [(1, 1, 1, 1)])"
    show "screen_pixel demo_server c (?D(20 := 255)) px py = screen_pixel demo_server c ?D px py"
    proof (rule demo_drawn)
      show "px < 4" "py < 3" "(px, py) \<noteq> (1, 1)" using a by (auto simp: screen_area_def rect_area_def demo_server_def)
      show "drawable demo_server c" "scalingPaddedWidthInBytes c = 16"
        using ok by (simp_all add: session_ok_def client_ok_def unscaled_def demo_server_def)
    qed
  qed
  have r: "\<forall>r \<in> set [(1, 1, 1, 1)]. on_screen_rect demo_server r" by (simp add: on_screen_rect_def demo_server_def)
  have "session_step demo_env (demo_server, c, ?D, ?v) (demo_server, ?c, ?D(20 := 255), ?v)"
    using session_step.draw [OF r p, of demo_env ?v ?D] by simp
  with s1 have steps: "(session_step demo_env)\<^sup>*\<^sup>* (demo_server, demo_viewer, ?D, ?v) (demo_server, ?c, ?D(20 := 255), ?v)"
    by (meson converse_rtranclp_into_rtranclp r_into_rtranclp)
  have a: "area (modifiedRegion ?c) = {(1, 1)}"
    using run(3) marked_area [OF r, of c] region_empty by (auto simp: short_screen_def demo_server_def rect_area_def)
  obtain m' where "?c = c\<lparr>modifiedRegion := m', outputWaiting := outputWaiting c \<and> [(1 :: int, 1 :: int, 1 :: int, 1 :: int)] = []\<rparr>"
    using marked_frame by blast
  then have "area (requestedRegion ?c) = {0..<4} \<times> {0..<3}"
    using ok by (simp add: demo_viewer_def) (simp add: demo_sends_def demo_client_def area_def REGION_RECTS_def rect_area_def)
  moreover have "?v 2 2 = screen_pixel demo_server ?c (?D(20 := 255)) 2 2"
    using viewer_in_sync [OF steps demo_viewer_ok sync] a by (simp add: screen_area_def demo_server_def)
  ultimately show ?thesis using steps a by blast
qed

text \<open>
  C2: What a viewer has asked for arrives, in the sessions of C1. The output thread sleeps on updateCond only
  as long as it has nothing to send: whenever a part that has changed is also requested, it has been
  signalled, by the callback of the screen or by the request, and if the client is connected its
  test makes it send. The pass that follows sends, unless the client is lost, an update that the viewer
  decodes without a byte left over, after which it shows the screen at every pixel that was requested or
  had not changed; exactly the changes that nobody asked for are still outstanding.
\<close>

theorem requested_change_arrives:
  assumes "(session_step env)\<^sup>*\<^sup>* (srv0, cl0, D0, v0) (srv, cl, D, v)" "session_ok srv0 cl0" "in_sync (srv0, cl0, D0, v0)"
    "wakeful cl0" "shows_screen u srv D" "few_rects cl"
  shows "(area (modifiedRegion cl) \<inter> area (requestedRegion cl) \<noteq> {} \<longrightarrow>
      \<not> outputWaiting cl \<and> (sock cl \<noteq> -1 \<longrightarrow> output_test defer cur cl = (Sends, cl))) \<and>
    (case output_pass env u cur (srv, cl) of (srv', cl') \<Rightarrow> gone cl' \<or>
      (\<exists>msg v'. sent cl' = sent cl @ msg \<and> view_update (bytesPerPixel cl) msg v = Some (v', []) \<and>
        (\<forall>px py. (int px, int py) \<in> screen_area srv - (area (modifiedRegion cl) - area (requestedRegion cl)) \<longrightarrow>
           v' px py = screen_pixel srv cl D px py) \<and>
        area (modifiedRegion cl') = area (modifiedRegion cl) - area (requestedRegion cl)))"
proof -
  note ok = session_steps_ok(1,2) [OF assms(1-3)] session_steps_ok(3) [OF assms(1-4)]
  have s: "region_ok (modifiedRegion cl)" "region_ok (requestedRegion cl)"
    using ok(1) by (simp_all add: session_ok_def)
  show ?thesis using requested_change_noticed [OF s] ok(3) pass_shows [OF ok(1,2) assms(5,6)]
    by (auto simp: wakeful_def output_test_def)
qed

definition demo_asked :: rfbClientRec where
  "demo_asked = demo_client\<lparr>requestedRegion := \<lparr>extents = box 0 0 4 3, rdata = None\<rparr>\<rparr>"

lemma demo_regions:
  "region_and \<lparr>extents = box 0 0 4 3, rdata = None\<rparr> \<lparr>extents = box 0 0 4 3, rdata = None\<rparr> = \<lparr>extents = box 0 0 4 3, rdata = None\<rparr>"
  by code_simp

lemma raw_at_once:
  assumes "ublen cl + 12 + w * bytesPerPixel cl * h \<le> UPDATE_BUF_SIZE" "0 < w * bytesPerPixel cl"
  shows "\<exists>body n. rfbSendRectEncodingRaw srv x y w h cl = (True, count_rect rfbEncodingRaw n (put_buf body cl))"
proof -
  let ?n = "sz_rfbFramebufferUpdateRectHeader + w * bytesPerPixel cl * h"
  let ?c = "count_rect rfbEncodingRaw ?n (put_buf (rect_header (int x) (int y) (int w) (int h) rfbEncodingRaw) cl)"
  have "h * (w * bytesPerPixel cl) \<le> UPDATE_BUF_SIZE - ublen ?c" using assms(1) by (simp add: algebra_simps sz_rfbFramebufferUpdateRectHeader_def)
  then have "h \<le> (UPDATE_BUF_SIZE - ublen ?c) div (w * bytesPerPixel cl)" using assms(2) by (simp add: less_eq_div_iff_mult_less_eq)
  then have "rfbSendRectEncodingRaw srv x y w h cl = (True, put_buf (pixels_at srv ?c (fbptr srv cl x y) w h) ?c)"
    using assms by (simp add: rfbSendRectEncodingRaw_def make_room_def raw_loop.simps [of srv w _ h] Let_def min_def sz_rfbFramebufferUpdateRectHeader_def)
  moreover have "put_buf bs (count_rect e n (put_buf as cl)) = count_rect e n (put_buf (as @ bs) cl)" for as bs e n
    by (simp add: put_buf_def count_rect_def)
  ultimately show ?thesis by auto
qed

lemma demo_arrives: "\<not> gone (snd (output_pass demo_env demo_surroundings demo_pointer (demo_server, demo_asked)))"
proof -
  let ?R = "\<lparr>extents = box 0 0 4 3, rdata = None\<rparr>"
  obtain c where t: "take_update demo_asked = (?R, c)" "c = demo_asked\<lparr>modifiedRegion := modifiedRegion c, requestedRegion := requestedRegion c\<rparr>"
    by (simp add: take_update_def Let_def demo_asked_def demo_regions) (simp add: demo_client_def demo_regions)
  have f: "preferredEncoding c = 0" "bytesPerPixel c = 4" "\<not> needNewScreenSize c" "scalingFactor c = 1"
    "\<not> rfbShouldSendNewCursor demo_pointer c" "\<not> rfbShouldSendNewPosition demo_pointer c" "wrev c = []" "sock c = 7" "\<not> exited c"
    by (subst t(2); simp add: demo_asked_def demo_client_def bytesPerPixel_def demo_format_def rfbShouldSendNewCursor_def
        rfbShouldSendNewPosition_def)+
  have r: "REGION_RECTS ?R = [box 0 0 4 3]" by (simp add: REGION_RECTS_def)
  have n: "nUpdateRegionRects c (map box_size (REGION_RECTS ?R)) = 1" by (simp add: r nUpdateRegionRects_def f encoding_numbers)
  let ?c = "(begun 0 1 c)\<lparr>screenBuffer := framebuffer demo_server\<rparr>"
  let ?p = "prepared demo_server (sz_rfbFramebufferUpdateRectHeader + 4 * bytesPerPixel ?c * 3) ?c"
  have p: "ublen ?p = 4" "bytesPerPixel ?p = 4" "wrev ?p = []" "sock ?p = 7" "\<not> exited ?p" "scalingFactor ?c = 1" "preferredEncoding ?c = 0"
    using f by (simp_all add: prepared_def begun_def ublen_def bytesPerPixel_def fu_header_def)
  obtain body n where raw: "rfbSendRectEncodingRaw demo_server 0 0 4 3 ?p = (True, count_rect rfbEncodingRaw n (put_buf body ?p))"
    using raw_at_once [of ?p 4 3 demo_server 0 0] p(1,2) by (auto simp: UPDATE_BUF_SIZE_def)
  have copy: "rfbGetFramebufferUpdateInRect demo_surroundings 0 0 4 3 demo_server = demo_server"
    by (simp add: rfbGetFramebufferUpdateInRect_def demo_surroundings_def)
  have br: "box_rect (box 0 0 4 3) = (0, 0, 4, 3)" by (simp add: box_rect_def box_size_def)
  let ?s = "count_rect rfbEncodingRaw n (put_buf body ?p)"
  have rects: "send_rects demo_surroundings [box 0 0 4 3] (demo_server, ?c) = (True, demo_server, ?s)"
  proof -
    have sr: "send_rect demo_surroundings (preferredEncoding ?c) = rfbSendRectEncodingRaw"
      unfolding p(7) by (simp add: send_rect_def rfbEncodingRaw_def)
    have "send_rects demo_surroundings [box 0 0 4 3] (demo_server, ?c) = (if True then send_rects demo_surroundings [] (demo_server, ?s)
        else (False, demo_server, ?s))"
      unfolding send_rects_unscaled [OF p(6) refl] br prod.case copy sr raw Let_def ..
    then show ?thesis by simp
  qed
  have pos: "send_position_and_size demo_pointer demo_server False (begun 0 1 c) = (True, begun 0 1 c)"
    using f(3) by (simp add: send_position_and_size_def)
  have "\<forall>b \<in> set (REGION_RECTS ?R). proper_box b" by (simp add: r proper_box_def)
  moreover have "rfbShouldSendNewPosition demo_pointer c = False" "stackByte demo_env 1 = 0" using f(6) by (simp_all add: demo_env_def)
  ultimately have "rfbSendFramebufferUpdate demo_env demo_surroundings demo_pointer ?R (demo_server, c) =
      (case (True, begun 0 1 c) of (ok, c) \<Rightarrow> if \<not> ok then (False, demo_server, c)
        else case send_rects demo_surroundings [box 0 0 4 3] (demo_server, c\<lparr>screenBuffer := framebuffer demo_server\<rparr>) of
          (ok, srv, c) \<Rightarrow> if \<not> ok then (False, srv, c) else let (ok, c) = rfbSendUpdateBuf c in (ok, srv, c))"
    using SendFramebufferUpdate_plain [OF _ f(5,3) n [symmetric], of demo_env demo_surroundings demo_server] pos
    by (simp only: r Let_def of_bool_eq add_0_right)
  then have "rfbSendFramebufferUpdate demo_env demo_surroundings demo_pointer ?R (demo_server, c) =
      (let (ok, c) = rfbSendUpdateBuf ?s in (ok, demo_server, c))"
    unfolding prod.case not_True_eq_False if_False rects .
  moreover have "wrev ?s = []" "sock ?s = 7" "\<not> exited ?s" using p by (simp_all add: count_rect_def put_buf_def)
  then have "\<not> gone (snd (rfbSendUpdateBuf ?s))" by (simp add: rfbSendUpdateBuf_def WriteExact_def gone_def)
  moreover obtain ok3 c3 where "rfbSendUpdateBuf ?s = (ok3, c3)" by fastforce
  ultimately show ?thesis unfolding output_pass_def prod.case t(1) Let_def by simp
qed

text \<open>
  The demonstration's screen was black, as its viewer shows it, and the output thread sleeps on a request for all
  of it; then the screen is drawn.
\<close>

definition demo_asleep :: rfbClientRec where
  "demo_asleep = demo_asked\<lparr>modifiedRegion := miRegionInit None, outputWaiting := True\<rparr>"

lemma demo_wakes: "marked [(0, 0, 4, 3)] demo_asleep = demo_asked"
proof -
  have "region_add (miRegionInit None) (SAFE_REGION_INIT (refresh_box (0, 0, 4, 3))) = \<lparr>extents = box 0 0 4 3, rdata = None\<rparr>"
    by code_simp
  then show ?thesis by (simp add: marked_def mark_modified_def pthread_cond_signal_def demo_asleep_def demo_asked_def demo_client_def)
qed

theorem requested_change_arrives_witness:
  "outputWaiting demo_asleep \<and> \<not> outputWaiting demo_asked \<and> output_test 260 demo_pointer demo_asked = (Sends, demo_asked) \<and>
    (case output_pass demo_env demo_surroundings demo_pointer (demo_server, demo_asked) of (srv', cl') \<Rightarrow>
      (\<exists>v'. view_update 4 (sent cl') (screen_pixel demo_server demo_asleep (\<lambda>_. 0)) = Some (v', []) \<and>
        (\<forall>px < 4. \<forall>py < 3. v' px py = screen_pixel demo_server demo_asked (framebuffer demo_server) px py)))"
proof -
  let ?v = "screen_pixel demo_server demo_asleep (\<lambda>_. 0)" and ?D = "framebuffer demo_server"
  have r: "area (modifiedRegion demo_asked) = {0..<4} \<times> {0..<3}" "area (requestedRegion demo_asked) = {0..<4} \<times> {0..<3}"
    by (auto simp: demo_asked_def demo_client_def area_def REGION_RECTS_def mem_pts INBOX_def)
  have a: "region_ok (modifiedRegion demo_asleep)" "area (modifiedRegion demo_asleep) = {}"
    "requestedRegion demo_asleep = requestedRegion demo_asked" "region_ok (requestedRegion demo_asked)"
    using region_empty by (simp_all add: demo_asleep_def) (simp add: demo_asked_def region_ok_def solid_def)
  have scr: "screen_area demo_server = {0..<4} \<times> {0..<3}" by (simp add: screen_area_def demo_server_def)
  have c: "client_ok demo_server demo_asleep"
    using demo_client_ok [of "[]"] client_ok_more [of "demo_sends []" demo_client demo_server]
    by (simp add: demo_asleep_def demo_asked_def) (simp add: demo_sends_def)
  have p: "unscaled demo_server demo_asleep" "short_screen demo_server" "preferredEncoding demo_asleep = 0" "updateBuf demo_asleep = []"
    "\<not> useRichCursorEncoding demo_asleep" "\<not> needNewScreenSize demo_asleep" "sent demo_asked = []" "bytesPerPixel demo_asked = 4"
    "preferredEncoding demo_asked = 0" "sock demo_asked = 7" "outputWaiting demo_asleep" "\<not> outputWaiting demo_asked"
    by (simp_all add: demo_asleep_def demo_asked_def demo_client_def demo_server_def unscaled_def short_screen_def bytesPerPixel_def demo_format_def)
  have ok: "session_ok demo_server demo_asleep"
    using c p a r demo_server_ok by (simp add: session_ok_def scr stateless_encodings_def rfbEncodingRaw_def)
  have sync: "in_sync (demo_server, demo_asleep, \<lambda>_. 0, ?v)" by (simp add: in_sync_def)
  have w: "wakeful demo_asleep" by (simp add: wakeful_def a(2))
  have "session_step demo_env (demo_server, demo_asleep, \<lambda>_. 0, ?v)
      (demo_server\<lparr>framebuffer := framebuffer demo_server\<rparr>, marked [(0, 0, 4, 3)] demo_asleep, ?D, ?v)"
    by (rule session_step.draw) (auto simp: on_screen_rect_def rect_area_def scr, simp_all add: demo_server_def)
  then have steps: "(session_step demo_env)\<^sup>*\<^sup>* (demo_server, demo_asleep, \<lambda>_. 0, ?v) (demo_server, demo_asked, ?D, ?v)"
    by (simp add: demo_wakes r_into_rtranclp)
  have sh: "shows_screen demo_surroundings demo_server ?D"
    by (simp add: shows_screen_def demo_surroundings_def)
  have few: "few_rects demo_asked"
    by (simp add: few_rects_def take_update_def Let_def nUpdateRegionRects_def p encoding_numbers)
      (simp add: demo_asked_def demo_client_def demo_regions REGION_RECTS_def nUpdateRegionRects_def encoding_numbers)
  show ?thesis
    using requested_change_arrives [OF steps ok sync w sh few, of 260 demo_pointer] demo_arrives
    by (auto simp: r scr p split: prod.splits)
qed

end
