(* ===== verification/Connection.thy ===== *)
theory Connection
  imports Mainloop
begin

text \<open>
  A connection from the greeting to its end: the versions are agreed on, a desktop that is not shared has
  one client, and the loop of the input thread ends: each message takes at least one byte of what the client
  sends, or closes the connection, after which the client is freed once its output thread has ended.
\<close>

section \<open>Whose client it is\<close>

lemma cid_writes [simp]:
  fixes cl :: rfbClientRec
  shows "cid (snd (WriteExact buf cl)) = cid cl" "rdev (snd (WriteExact buf cl)) = rdev cl"
    "cid (snd (write_or_close buf cl)) = cid cl" "cid (rfbCloseClient cl) = cid cl" "cid (snd (rfbSendUpdateBuf cl)) = cid cl"
proof -
  obtain r c where r: "WriteExact buf cl = (r, c)" by fastforce
  show "cid (snd (WriteExact buf cl)) = cid cl" "rdev (snd (WriteExact buf cl)) = rdev cl"
    using WriteExact_frame [OF r] more_fields(7) [of c cl] by (simp_all add: r)
  show "cid (snd (write_or_close buf cl)) = cid cl" by (rule more_fields(7) [OF write_or_close_more])
  show "cid (rfbCloseClient cl) = cid cl" by (simp add: rfbCloseClient_def)
  obtain r' c' where r': "WriteExact (updateBuf cl) cl = (r', c')" by fastforce
  have "cid c' = cid cl" using WriteExact_frame [OF r'] by (intro more_fields(7)) simp
  then show "cid (snd (rfbSendUpdateBuf cl)) = cid cl" by (simp add: rfbSendUpdateBuf_def r' rfbCloseClient_def)
qed

lemma cid_result [simp]: "cid (rfbSecurityResultMessage r e cl) = cid cl" "rdev (rfbSecurityResultMessage r e cl) = rdev cl"
  by (simp_all add: rfbSecurityResultMessage_def Let_def)

lemma cid_put [simp]: "cid (put_buf bs cl) = cid cl" "cid (count_rect e n cl) = cid cl"
  by (simp_all add: put_buf_def count_rect_def)

lemma cid_ScreenUpdate [simp]: "cid (snd (rfbSendScreenUpdateEncoding srv cl)) = cid cl"
proof -
  obtain ok c where m: "make_room sz_rfbFramebufferUpdateRectHeader cl = (ok, c)" by fastforce
  have "cid (snd (make_room sz_rfbFramebufferUpdateRectHeader cl)) = cid cl" by (simp add: make_room_def)
  then show ?thesis by (cases ok) (simp_all add: rfbSendScreenUpdateEncoding_def Let_def m)
qed

lemma cid_choose [simp]: "cid (choose_translation srv f cl) = cid cl"
  by (simp add: choose_translation_def)

lemma cid_SetTranslate [simp]: "cid (snd (rfbSetTranslateFunction pad srv cl)) = cid cl"
proof -
  let ?c = "cl\<lparr>translateFn := TransNone, translateLookupTable := NoTable\<rparr>"
  have "cid (snd (rfbSetClientColourMapBGR233 pad ?c)) = cid cl"
    by (simp add: rfbSetClientColourMapBGR233_def rfbCloseClient_def)
  then show ?thesis
    by (auto simp: rfbSetTranslateFunction_def rfbSetTranslateFunctionUsingFormat_def rfbCloseClient_def
        split: prod.split bool.split)
qed

lemma cid_encodings [simp]: "cid (apply_encoding srv e cl) = cid cl" "cid (clear_encodings cl) = cid cl"
  by (simp_all add: apply_encoding_def clear_encodings_def Let_def)

lemma cid_read:
  fixes cl :: rfbClientRec
  shows "read_or_close n cl = Inl c \<Longrightarrow> cid c = cid cl" "read_or_close n cl = Inr (bs, c) \<Longrightarrow> cid c = cid cl"
  using more_fields(7) [OF read_Inl_more] more_fields(7) [OF read_or_close_Inr(2)] by blast+

lemma cid_read_msg:
  assumes "\<And>msg srv c. cid (snd (f msg (srv, c))) = cid c"
  shows "cid (snd (read_msg n f (srv, cl))) = cid cl"
  using assms by (auto simp: read_msg_def cid_read split: sum.split prod.split)

definition either :: "'a + 'a \<Rightarrow> 'a" where
  "either r = (case r of Inl c \<Rightarrow> c | Inr c \<Rightarrow> c)"

lemma either_simps [simp]: "either (Inl c) = c" "either (Inr c) = c"
  by (simp_all add: either_def)

lemma cid_encodings_loop: "cid (either (encodings_loop srv n cl)) = cid cl"
proof (induction n arbitrary: cl)
  case (Suc n)
  show ?case
  proof (cases "read_or_close 4 cl")
    case (Inl c)
    then show ?thesis using cid_read(1) [OF Inl] by simp
  next
    case (Inr p)
    obtain bs c where p: "p = (bs, c)" by fastforce
    show ?thesis using Suc.IH [of "apply_encoding srv (nat (rd32 bs)) c"] cid_read(2) [OF Inr [unfolded p]]
      by (simp add: Inr p)
  qed
qed simp

lemma cid_handlers:
  "cid (snd (processSetPixelFormat env (srv, cl))) = cid cl"
  "cid (snd (processFixColourMapEntries (srv, cl))) = cid cl"
  "cid (snd (processFramebufferUpdateRequest (srv, cl))) = cid cl"
  "cid (snd (processClientCutText (srv, cl))) = cid cl"
  "cid (snd (processSetScaleFactor env ty (srv, cl))) = cid cl"
  unfolding processSetPixelFormat_def processFixColourMapEntries_def processFramebufferUpdateRequest_def
    processClientCutText_def processSetScaleFactor_def
  by (rule cid_read_msg, simp add: record_request_def set_scale_def rescale_def Let_def cid_read_msg)+

lemma cid_events: "cid (snd (processKeyEvent (srv, cl))) = cid cl" "cid (snd (processPointerEvent (srv, cl))) = cid cl"
proof -
  let ?k = "if \<not> disableRemoteEvents cl then cl\<lparr>rfbKeyEventsRcvd := rfbKeyEventsRcvd cl + 1\<rparr> else cl"
  have "cid (snd (processKeyEvent (srv, cl))) = cid ?k"
    unfolding processKeyEvent_def Let_def prod.case by (rule cid_read_msg) simp
  then show "cid (snd (processKeyEvent (srv, cl))) = cid cl" by simp
  let ?p = "if \<not> disableRemoteEvents cl then cl\<lparr>rfbPointerEventsRcvd := rfbPointerEventsRcvd cl + 1\<rparr> else cl"
  have "cid (snd (processPointerEvent (srv, cl))) = cid ?p"
    unfolding processPointerEvent_def Let_def prod.case by (rule cid_read_msg) simp
  then show "cid (snd (processPointerEvent (srv, cl))) = cid cl" by simp
qed

lemma cid_SetEncodings: "cid (snd (processSetEncodings (srv, cl))) = cid cl"
  unfolding processSetEncodings_def
proof (rule cid_read_msg)
  fix msg srv c
  let ?c = "clear_encodings (c\<lparr>updateLocked := True\<rparr>)"
  have "cid (either (encodings_loop srv (nat (rd16 (drop 1 msg))) ?c)) = cid c" by (simp add: cid_encodings_loop)
  then show "cid (snd (set_encodings msg (srv, c))) = cid c"
    by (cases "encodings_loop srv (nat (rd16 (drop 1 msg))) ?c") (simp_all add: set_encodings_def Let_def)
qed

text \<open>
  What the clipboard extension is relied on for: it serves the client it is given, leaves its lock as it was,
  and puts nothing back.
\<close>

definition clipboard_reads :: "env \<Rightarrow> bool" where
  "clipboard_reads env \<longleftrightarrow> (\<forall>ty srv cl. cid (snd (richClipboard env ty (srv, cl))) = cid cl \<and>
     updateLocked (snd (richClipboard env ty (srv, cl))) = updateLocked cl \<and>
     length (incoming (rdev (snd (richClipboard env ty (srv, cl))))) \<le> length (incoming (rdev cl)))"

lemma cid_NormalMessage:
  assumes "clipboard_reads env"
  shows "cid (snd (rfbProcessClientNormalMessage env (srv, cl))) = cid cl"
  unfolding rfbProcessClientNormalMessage_def
  by (rule cid_read_msg)
    (simp add: message_handler_def cid_handlers cid_events cid_SetEncodings assms [unfolded clipboard_reads_def])

section \<open>Only SetEncodings can leave the lock behind\<close>

lemma more_locked: "conn.more a = conn.more (b :: rfbClientRec) \<Longrightarrow> updateLocked a = updateLocked b"
  by (cases a; cases b; simp)

lemma locked_writes [simp]:
  fixes cl :: rfbClientRec
  shows "updateLocked (snd (WriteExact buf cl)) = updateLocked cl" "updateLocked (snd (write_or_close buf cl)) = updateLocked cl"
    "updateLocked (rfbCloseClient cl) = updateLocked cl" "updateLocked (snd (rfbSendUpdateBuf cl)) = updateLocked cl"
proof -
  obtain r c where r: "WriteExact buf cl = (r, c)" by fastforce
  show "updateLocked (snd (WriteExact buf cl)) = updateLocked cl"
    using WriteExact_frame [OF r] more_locked [of c cl] by (simp add: r)
  show "updateLocked (snd (write_or_close buf cl)) = updateLocked cl" by (rule more_locked [OF write_or_close_more])
  show "updateLocked (rfbCloseClient cl) = updateLocked cl" by (simp add: rfbCloseClient_def)
  obtain r' c' where r': "WriteExact (updateBuf cl) cl = (r', c')" by fastforce
  have "updateLocked c' = updateLocked cl" using WriteExact_frame [OF r'] by (intro more_locked) simp
  then show "updateLocked (snd (rfbSendUpdateBuf cl)) = updateLocked cl" by (simp add: rfbSendUpdateBuf_def r' rfbCloseClient_def)
qed

lemma locked_frames [simp]:
  "updateLocked (put_buf bs cl) = updateLocked cl" "updateLocked (count_rect e n cl) = updateLocked cl"
  "updateLocked (rfbSecurityResultMessage r reason cl) = updateLocked cl" "updateLocked (choose_translation srv f cl) = updateLocked cl"
  by (simp_all add: put_buf_def count_rect_def rfbSecurityResultMessage_def choose_translation_def Let_def)

lemma locked_ScreenUpdate [simp]: "updateLocked (snd (rfbSendScreenUpdateEncoding srv cl)) = updateLocked cl"
proof -
  obtain ok c where m: "make_room sz_rfbFramebufferUpdateRectHeader cl = (ok, c)" by fastforce
  have "updateLocked (snd (make_room sz_rfbFramebufferUpdateRectHeader cl)) = updateLocked cl" by (simp add: make_room_def)
  then show ?thesis by (cases ok) (simp_all add: rfbSendScreenUpdateEncoding_def Let_def m)
qed

lemma locked_SetTranslate [simp]: "updateLocked (snd (rfbSetTranslateFunction pad srv cl)) = updateLocked cl"
proof -
  let ?c = "cl\<lparr>translateFn := TransNone, translateLookupTable := NoTable\<rparr>"
  have "updateLocked (snd (rfbSetClientColourMapBGR233 pad ?c)) = updateLocked cl"
    by (simp add: rfbSetClientColourMapBGR233_def)
  then show ?thesis
    by (auto simp: rfbSetTranslateFunction_def rfbSetTranslateFunctionUsingFormat_def split: prod.split bool.split)
qed

lemma locked_read:
  fixes cl :: rfbClientRec
  shows "read_or_close n cl = Inl c \<Longrightarrow> updateLocked c = updateLocked cl"
    "read_or_close n cl = Inr (bs, c) \<Longrightarrow> updateLocked c = updateLocked cl"
  using more_locked [OF read_Inl_more] more_locked [OF read_or_close_Inr(2)] by blast+

lemma locked_read_msg:
  assumes "\<And>msg srv c. updateLocked (snd (f msg (srv, c))) = updateLocked c"
  shows "updateLocked (snd (read_msg n f (srv, cl))) = updateLocked cl"
  using assms by (auto simp: read_msg_def locked_read split: sum.split prod.split)

lemma locked_handlers:
  "updateLocked (snd (processSetPixelFormat env (srv, cl))) = updateLocked cl"
  "updateLocked (snd (processFixColourMapEntries (srv, cl))) = updateLocked cl"
  "updateLocked (snd (processFramebufferUpdateRequest (srv, cl))) = updateLocked cl"
  "updateLocked (snd (processClientCutText (srv, cl))) = updateLocked cl"
  "updateLocked (snd (processSetScaleFactor env ty (srv, cl))) = updateLocked cl"
  unfolding processSetPixelFormat_def processFixColourMapEntries_def processFramebufferUpdateRequest_def
    processClientCutText_def processSetScaleFactor_def
  by (rule locked_read_msg, simp add: record_request_def set_scale_def rescale_def Let_def locked_read_msg)+

lemma locked_events:
  "updateLocked (snd (processKeyEvent (srv, cl))) = updateLocked cl"
  "updateLocked (snd (processPointerEvent (srv, cl))) = updateLocked cl"
proof -
  let ?k = "if \<not> disableRemoteEvents cl then cl\<lparr>rfbKeyEventsRcvd := rfbKeyEventsRcvd cl + 1\<rparr> else cl"
  have "updateLocked (snd (processKeyEvent (srv, cl))) = updateLocked ?k"
    unfolding processKeyEvent_def Let_def prod.case by (rule locked_read_msg) simp
  then show "updateLocked (snd (processKeyEvent (srv, cl))) = updateLocked cl" by simp
  let ?p = "if \<not> disableRemoteEvents cl then cl\<lparr>rfbPointerEventsRcvd := rfbPointerEventsRcvd cl + 1\<rparr> else cl"
  have "updateLocked (snd (processPointerEvent (srv, cl))) = updateLocked ?p"
    unfolding processPointerEvent_def Let_def prod.case by (rule locked_read_msg) simp
  then show "updateLocked (snd (processPointerEvent (srv, cl))) = updateLocked cl" by simp
qed

text \<open>A client whose next message is a SetEncodings.\<close>

definition sends_encodings :: "rfbClientRec \<Rightarrow> bool" where
  "sends_encodings cl \<longleftrightarrow> state cl = RFB_NORMAL \<and> (\<exists>rest. incoming (rdev cl) = rfbSetEncodings # rest)"

lemma encodings_loop_Inl: "encodings_loop srv n cl = Inl c \<Longrightarrow> sock c = -1"
  by (induction n arbitrary: cl) (auto split: sum.splits prod.splits dest: read_or_close_Inl)

lemma locked_SetEncodings:
  "updateLocked (snd (processSetEncodings (srv, cl))) \<Longrightarrow> updateLocked cl \<or> sock (snd (processSetEncodings (srv, cl))) = -1"
  by (auto simp: processSetEncodings_def read_msg_def set_encodings_def Let_def locked_read encodings_loop_Inl
      split: sum.splits prod.splits if_splits)

lemma locked_NormalMessage:
  assumes "clipboard_reads env" "updateLocked (snd (rfbProcessClientNormalMessage env (srv, cl)))"
  shows "updateLocked cl \<or> (\<exists>rest. incoming (rdev cl) = rfbSetEncodings # rest) \<and>
    sock (snd (rfbProcessClientNormalMessage env (srv, cl))) = -1"
proof (cases "read_or_close 1 cl")
  case (Inl c)
  then show ?thesis using assms(2) locked_read(1) [OF Inl] by (simp add: rfbProcessClientNormalMessage_def read_msg_def)
next
  case (Inr p)
  obtain t c where p: "p = (t, c)" by fastforce
  obtain ty where ty: "t = [ty]" using read_takes(2) [OF Inr [unfolded p]] by (cases t) auto
  have i: "incoming (rdev cl) = ty # incoming (rdev c)" using read_takes(1) [OF Inr [unfolded p]] ty by simp
  have e: "rfbProcessClientNormalMessage env (srv, cl) = message_handler env ty (srv, c)"
    using Inr by (simp add: rfbProcessClientNormalMessage_def read_msg_def p ty)
  have m: "updateLocked (snd (message_handler env ty (srv, c)))" using assms(2) unfolding e .
  have "updateLocked (snd (message_handler env ty (srv, c))) = updateLocked c" if "ty \<noteq> rfbSetEncodings"
    using that by (simp add: message_handler_def locked_handlers locked_events assms(1) [unfolded clipboard_reads_def])
  moreover have "updateLocked c \<or> sock (snd (message_handler env ty (srv, c))) = -1" if "ty = rfbSetEncodings"
    using m locked_SetEncodings [of srv c] unfolding that by (simp add: message_handler_def message_types)
  ultimately show ?thesis using m i locked_read(2) [OF Inr [unfolded p]] unfolding e by blast
qed

section \<open>Every message shortens the stream\<close>

definition shorter :: "rfbClientRec \<Rightarrow> rfbClientRec \<Rightarrow> bool" where
  "shorter cl c \<longleftrightarrow> gone c \<or> length (incoming (rdev c)) < length (incoming (rdev cl))"

lemma shorterI: "read_or_close n cl = Inr (bs, c) \<Longrightarrow> 0 < n \<Longrightarrow> rdev c' = rdev c \<Longrightarrow> shorter cl c'"
  using read_takes [of n cl bs c] by (simp add: shorter_def)

lemma message_size_pos: "message_size bs = Some n \<Longrightarrow> 0 < n"
  by (auto simp: message_size_def message_sizes Let_def split: if_splits)

lemma shorter_NormalMessage:
  assumes "clipboard_reads env"
  shows "shorter cl (snd (rfbProcessClientNormalMessage env (srv, cl)))"
proof (cases "gone (snd (rfbProcessClientNormalMessage env (srv, cl)))")
  case False
  obtain srv' c' where r: "rfbProcessClientNormalMessage env (srv, cl) = (srv', c')" by fastforce
  have g: "\<not> gone c'" using False r by simp
  show ?thesis
  proof (cases "incoming (rdev cl) ! 0 \<in> rich_types")
    case True
    obtain t c where t: "length t = 1" "message_handler env (t ! 0) (srv, c) = (srv', c')" "incoming (rdev cl) = t @ incoming (rdev c)"
      by (rule read_msg_takes [OF r [unfolded rfbProcessClientNormalMessage_def] g])
    obtain ty where ty: "t = [ty]" using t(1) by (cases t) auto
    have "message_handler env ty = richClipboard env ty"
      using True t(3) unfolding ty message_handler_def rich_types_def message_types by auto
    then have "c' = snd (richClipboard env ty (srv, c))" using t(2) ty by simp
    then have "length (incoming (rdev c')) \<le> length (incoming (rdev c))" using assms by (simp add: clipboard_reads_def)
    then show ?thesis using t(3) ty r by (simp add: shorter_def)
  next
    case False
    from normal_message_framed [OF r g False] obtain m where
      "message_size (incoming (rdev cl)) = Some (length m)" "incoming (rdev cl) = m @ incoming (rdev c')" by blast
    then show ?thesis using message_size_pos r by (fastforce simp: shorter_def)
  qed
qed (simp add: shorter_def)

lemma AuthNewClient_keeps [simp]: "rdev (rfbAuthNewClient junk srv cl) = rdev cl" "cid (rfbAuthNewClient junk srv cl) = cid cl"
  "updateLocked (rfbAuthNewClient junk srv cl) = updateLocked cl"
proof -
  have w: "(case WriteExact buf cl of (r, c) \<Rightarrow> rfbCloseClient c) = rfbCloseClient (snd (WriteExact buf cl))" for buf
    by (simp add: case_prod_beta)
  show "rdev (rfbAuthNewClient junk srv cl) = rdev cl" "cid (rfbAuthNewClient junk srv cl) = cid cl"
    "updateLocked (rfbAuthNewClient junk srv cl) = updateLocked cl"
    by (simp_all add: rfbAuthNewClient_def auth_new_37_def auth_new_33_def Let_def w) (simp_all add: rfbCloseClient_def)
qed

lemma version_step:
  "shorter cl (rfbProcessClientProtocolVersion env srv cl) \<and> cid (rfbProcessClientProtocolVersion env srv cl) = cid cl \<and>
    updateLocked (rfbProcessClientProtocolVersion env srv cl) = updateLocked cl"
proof (cases "read_or_close sz_rfbProtocolVersionMsg cl")
  case (Inl c)
  then show ?thesis using read_Inl_gone [OF Inl] cid_read(1) [OF Inl] locked_read(1) [OF Inl]
    by (simp add: rfbProcessClientProtocolVersion_def shorter_def)
next
  case (Inr p)
  obtain pv c where p: "p = (pv, c)" by fastforce
  have "rdev (rfbProcessClientProtocolVersion env srv cl) = rdev c \<and> cid (rfbProcessClientProtocolVersion env srv cl) = cid c \<and>
      updateLocked (rfbProcessClientProtocolVersion env srv cl) = updateLocked c"
    by (simp add: rfbProcessClientProtocolVersion_def Inr p Let_def rfbClientConnFailed_def rfbCloseClient_def
        split: prod.split option.split) 
  then show ?thesis using shorterI [OF Inr [unfolded p]] cid_read(2) [OF Inr [unfolded p]] locked_read(2) [OF Inr [unfolded p]]
    by (simp add: sz_rfbProtocolVersionMsg_def)
qed

lemma auth_version_step:
  "shorter cl (rfbProcessAuthVersion srv cl) \<and> cid (rfbProcessAuthVersion srv cl) = cid cl \<and>
    updateLocked (rfbProcessAuthVersion srv cl) = updateLocked cl"
proof (cases "read_or_close 1 cl")
  case (Inl c)
  then show ?thesis using read_Inl_gone [OF Inl] cid_read(1) [OF Inl] locked_read(1) [OF Inl]
    by (simp add: rfbProcessAuthVersion_def shorter_def)
next
  case (Inr p)
  obtain bs c where p: "p = (bs, c)" by fastforce
  obtain ok d where w: "write_or_close (vncRandomBytes (rng srv) (clock srv)) (c\<lparr>authChallenge := vncRandomBytes (rng srv) (clock srv)\<rparr>) = (ok, d)"
    by fastforce
  have d: "rdev d = rdev c" "cid d = cid c" "updateLocked d = updateLocked c" using cid_writes(3) [of "vncRandomBytes (rng srv) (clock srv)" "c\<lparr>authChallenge := vncRandomBytes (rng srv) (clock srv)\<rparr>"]
      rdev_write_or_close [of "vncRandomBytes (rng srv) (clock srv)" "c\<lparr>authChallenge := vncRandomBytes (rng srv) (clock srv)\<rparr>"]
      locked_writes(2) [of "vncRandomBytes (rng srv) (clock srv)" "c\<lparr>authChallenge := vncRandomBytes (rng srv) (clock srv)\<rparr>"] by (simp_all add: w)
  have "rdev (rfbProcessAuthVersion srv cl) = rdev c \<and> cid (rfbProcessAuthVersion srv cl) = cid c \<and>
      updateLocked (rfbProcessAuthVersion srv cl) = updateLocked c"
    unfolding rfbProcessAuthVersion_def Inr p sum.case prod.case using d by (simp add: w Let_def rfbCloseClient_def)
  then show ?thesis using shorterI [OF Inr [unfolded p]] cid_read(2) [OF Inr [unfolded p]] locked_read(2) [OF Inr [unfolded p]] by simp
qed

lemma auth_step:
  "shorter cl (snd (rfbAuthProcessClientMessage (srv, cl))) \<and> cid (snd (rfbAuthProcessClientMessage (srv, cl))) = cid cl \<and>
    updateLocked (snd (rfbAuthProcessClientMessage (srv, cl))) = updateLocked cl"
proof (cases "read_or_close CHALLENGESIZE cl")
  case (Inl c)
  then show ?thesis using read_Inl_gone [OF Inl] cid_read(1) [OF Inl] locked_read(1) [OF Inl]
    by (simp add: rfbAuthProcessClientMessage_def shorter_def)
next
  case (Inr p)
  obtain bs c where p: "p = (bs, c)" by fastforce
  have "rdev (snd (rfbAuthProcessClientMessage (srv, cl))) = rdev c \<and> cid (snd (rfbAuthProcessClientMessage (srv, cl))) = cid c \<and>
      updateLocked (snd (rfbAuthProcessClientMessage (srv, cl))) = updateLocked c"
    by (simp add: rfbAuthProcessClientMessage_def Inr p Let_def rfbCloseClient_def split: option.split)
  then show ?thesis using shorterI [OF Inr [unfolded p]] cid_read(2) [OF Inr [unfolded p]] locked_read(2) [OF Inr [unfolded p]]
    by (simp add: CHALLENGESIZE_def)
qed

section \<open>The list of clients\<close>

lemma client_cid: "client i sys = Some cl \<Longrightarrow> cid cl = i"
  by (auto simp: client_def find_Some_iff)

lemma client_set: "client i sys = Some cl \<Longrightarrow> cid c = i \<Longrightarrow> client i (set_client c sys) = Some c"
proof -
  have "find (\<lambda>c. cid c = i) cs = Some cl \<Longrightarrow> cid c = i \<Longrightarrow>
    find (\<lambda>c. cid c = i) (map (\<lambda>d. if cid d = i then c else d) cs) = Some c" for cs
    by (induction cs) auto
  then show "client i sys = Some cl \<Longrightarrow> cid c = i \<Longrightarrow> client i (set_client c sys) = Some c"
    by (simp add: client_def set_client_def)
qed

lemma client_globals [simp]: "client i (sys\<lparr>globals := srv\<rparr>) = client i sys"
  by (simp add: client_def)

lemma client_others:
  "client i sys = Some cl \<Longrightarrow>
    client i (sys\<lparr>rfbClientHead := map (\<lambda>c. if other_normal i c then rfbCloseClient c else c) (rfbClientHead sys)\<rparr>) = Some cl"
proof -
  have "find (\<lambda>c. cid c = i) cs = Some cl \<Longrightarrow>
    find (\<lambda>c. cid c = i) (map (\<lambda>c. if other_normal i c then rfbCloseClient c else c) cs) = Some cl" for cs
    by (induction cs) (auto simp: other_normal_def split: if_splits)
  then show "client i sys = Some cl \<Longrightarrow>
    client i (sys\<lparr>rfbClientHead := map (\<lambda>c. if other_normal i c then rfbCloseClient c else c) (rfbClientHead sys)\<rparr>) = Some cl"
    by (simp add: client_def)
qed

lemma share_client:
  assumes "client (cid cl) sys = Some cl"
  shows "\<exists>c. client (cid cl) (share_desktop shared cl sys) = Some c \<and> (c = cl \<or> c = rfbCloseClient cl)"
  using client_set [OF assms, of "rfbCloseClient cl"] client_others [OF assms] assms
  by (simp add: share_desktop_def Let_def)

lemma init_step:
  assumes "client i sys = Some cl"
  shows "\<exists>c. client i (rfbProcessClientInitMessage cl sys) = Some c \<and> shorter cl c \<and> updateLocked c = updateLocked cl"
proof (cases "read_or_close sz_rfbClientInitMsg cl")
  case (Inl c)
  then show ?thesis using client_set [OF assms, of c] cid_read(1) [OF Inl] client_cid [OF assms] read_Inl_gone [OF Inl] locked_read(1) [OF Inl]
    by (simp add: rfbProcessClientInitMessage_def shorter_def)
next
  case (Inr p)
  obtain ci c where p: "p = (ci, c)" by fastforce
  let ?srv = "(globals sys)\<lparr>desktopName := cut_name (desktopName (globals sys))\<rparr>"
  obtain ok d where w: "write_or_close (server_init ?srv) c = (ok, d)" by fastforce
  have d: "rdev d = rdev c" "cid d = i" "updateLocked d = updateLocked cl"
    using rdev_write_or_close [of "server_init ?srv" c] cid_writes(3) [of "server_init ?srv" c]
      locked_writes(2) [of "server_init ?srv" c] locked_read(2) [OF Inr [unfolded p]]
      cid_read(2) [OF Inr [unfolded p]] client_cid [OF assms] by (simp_all add: w)
  have s: "shorter cl d" "shorter cl (d\<lparr>state := RFB_NORMAL\<rparr>)"
    using shorterI [OF Inr [unfolded p]] d by (simp_all add: sz_rfbClientInitMsg_def)
  show ?thesis
  proof (cases ok)
    case False
    then show ?thesis using client_set [of i "sys\<lparr>globals := ?srv\<rparr>" cl d] assms s(1) d
      by (simp add: rfbProcessClientInitMessage_def Inr p Let_def w)
  next
    case True
    let ?d = "d\<lparr>state := RFB_NORMAL\<rparr>" and ?sys = "sys\<lparr>globals := ?srv\<rparr>"
    have "client (cid ?d) (set_client ?d ?sys) = Some ?d" using client_set [of i ?sys cl ?d] assms d by simp
    from share_client [OF this, of "ci ! 0 \<noteq> 0"] obtain e where
      e: "client i (share_desktop (ci ! 0 \<noteq> 0) ?d (set_client ?d ?sys)) = Some e" "e = ?d \<or> e = rfbCloseClient ?d"
      using d by auto
    then have "shorter cl e \<and> updateLocked e = updateLocked cl" using s(2) d(3) by (auto simp: shorter_def)
    then show ?thesis using e(1) True by (simp add: rfbProcessClientInitMessage_def Inr p Let_def w)
  qed
qed

lemma in_globals_step:
  assumes "client i sys = Some cl"
    "\<And>srv. shorter cl (snd (h (srv, cl))) \<and> cid (snd (h (srv, cl))) = cid cl \<and> P (snd (h (srv, cl)))"
  shows "\<exists>c. client i (in_globals h cl sys) = Some c \<and> shorter cl c \<and> P c"
proof -
  obtain srv c where h: "h (globals sys, cl) = (srv, c)" by fastforce
  then show ?thesis using client_set [of i "sys\<lparr>globals := srv\<rparr>" cl c] assms client_cid [OF assms(1)] assms(2) [of "globals sys"]
    by (simp add: in_globals_def)
qed

lemma message_step:
  assumes "clipboard_reads env" "client i sys = Some cl"
  shows "\<exists>c. client i (rfbProcessClientMessage env i sys) = Some c \<and> shorter cl c \<and>
    (updateLocked c \<longrightarrow> updateLocked cl \<or> sends_encodings cl \<and> sock c = -1)"
proof (cases "state cl")
  case RFB_PROTOCOL_VERSION
  then show ?thesis using client_set [OF assms(2)] version_step [of cl env "globals sys"] client_cid [OF assms(2)]
    by (simp add: rfbProcessClientMessage_def assms(2))
next
  case RFB_AUTH_VERSION
  then show ?thesis using client_set [OF assms(2)] auth_version_step [of cl "globals sys"] client_cid [OF assms(2)]
    by (simp add: rfbProcessClientMessage_def assms(2))
next
  case RFB_AUTHENTICATION
  then show ?thesis using in_globals_step [OF assms(2), where h = rfbAuthProcessClientMessage and P = "\<lambda>c. updateLocked c = updateLocked cl"] auth_step
    by (auto simp: rfbProcessClientMessage_def assms(2))
next
  case RFB_INITIALISATION
  then show ?thesis using init_step [OF assms(2)] by (auto simp: rfbProcessClientMessage_def assms(2))
next
  case RFB_NORMAL
  let ?P = "\<lambda>c. updateLocked c \<longrightarrow> updateLocked cl \<or> (\<exists>rest. incoming (rdev cl) = rfbSetEncodings # rest) \<and> sock c = -1"
  have "\<And>srv. shorter cl (snd (rfbProcessClientNormalMessage env (srv, cl))) \<and>
      cid (snd (rfbProcessClientNormalMessage env (srv, cl))) = cid cl \<and>
      ?P (snd (rfbProcessClientNormalMessage env (srv, cl)))"
    using shorter_NormalMessage [OF assms(1)] cid_NormalMessage [OF assms(1)] locked_NormalMessage [OF assms(1)] by blast
  from in_globals_step [OF assms(2), where h = "rfbProcessClientNormalMessage env" and P = ?P, OF this] show ?thesis
    using RFB_NORMAL by (simp add: rfbProcessClientMessage_def assms(2) sends_encodings_def)
qed

text \<open>A client that is gone is closed by its next message.\<close>

lemma read_gone: "gone cl \<Longrightarrow> 0 < n \<Longrightarrow> read_or_close n cl = Inl (rfbCloseClient (cl\<lparr>errno := EBADF\<rparr>))"
proof -
  assume "gone cl" "0 < n"
  then have "ReadExact n cl = (-1, [], cl\<lparr>errno := EBADF\<rparr>)" by (auto simp: ReadExact_def gone_def)
  then show ?thesis by (simp add: read_or_close_def)
qed

lemma gone_step:
  assumes "client i sys = Some cl" "gone cl"
  shows "\<exists>c. client i (rfbProcessClientMessage env i sys) = Some c \<and> sock c = -1 \<and> updateLocked c = updateLocked cl"
proof -
  let ?c = "rfbCloseClient (cl\<lparr>errno := EBADF\<rparr>)"
  have c: "cid ?c = i" using client_cid [OF assms(1)] by simp
  have "rfbProcessClientMessage env i sys = set_client ?c sys \<or> rfbProcessClientMessage env i sys = set_client ?c (sys\<lparr>globals := globals sys\<rparr>)"
    using read_gone [OF assms(2), of 1] read_gone [OF assms(2), of CHALLENGESIZE] read_gone [OF assms(2), of sz_rfbProtocolVersionMsg]
      read_gone [OF assms(2), of sz_rfbClientInitMsg]
    by (cases "state cl") (simp_all add: rfbProcessClientMessage_def assms(1) rfbProcessClientProtocolVersion_def rfbProcessAuthVersion_def
        in_globals_def rfbAuthProcessClientMessage_def rfbProcessClientInitMessage_def rfbProcessClientNormalMessage_def
        read_msg_def CHALLENGESIZE_def sz_rfbProtocolVersionMsg_def sz_rfbClientInitMsg_def)
  then show ?thesis using client_set [OF assms(1) c] by (auto simp: rfbCloseClient_def)
qed

section \<open>The thread ends\<close>

text \<open>
  How the thread ends after the messages that lead to the system \<open>sys\<close> and its client \<open>c\<close>: with the process, or
  when the output thread has ended; it does not return if that has missed the signal, or waits for the lock.
\<close>

definition input_end :: "bool \<Rightarrow> nat \<Rightarrow> system \<Rightarrow> rfbClientRec \<Rightarrow> system option" where
  "input_end late i sys c =
    (if exited c then Some sys else if late \<or> updateLocked c then None else Some (rfbClientConnectionGone i sys))"

lemma gone_set: "cid c = i \<Longrightarrow> rfbClientConnectionGone i (set_client c sys) = rfbClientConnectionGone i sys"
proof -
  assume "cid c = i"
  then have "filter (\<lambda>c. cid c \<noteq> i) (map (\<lambda>d. if cid d = cid c then c else d) cs) = filter (\<lambda>c. cid c \<noteq> i) cs" for cs
    by (induction cs) auto
  then show ?thesis by (simp add: rfbClientConnectionGone_def set_client_def Let_def)
qed

lemma gone_freed:
  "client i (rfbClientConnectionGone i sys) = None" "pointerClient (globals (rfbClientConnectionGone i sys)) \<noteq> Some i"
  by (simp_all add: rfbClientConnectionGone_def client_def find_None_iff Let_def)

lemma join_output_closed:
  assumes "sock c = -1"
  shows "join_output defer cur late c = (if late \<or> updateLocked c then None else Some (pthread_cond_signal c))"
  using assms by (simp add: join_output_def output_test_def Let_def)

lemma input_over:
  assumes "client i (rfbProcessClientMessage env i sys) = Some c" "sock c = -1 \<or> exited c"
  shows "clientInput env defer cur late i sys = input_end late i (rfbProcessClientMessage env i sys) c"
  using assms gone_set [of "pthread_cond_signal c" i] client_cid [OF assms(1)]
  by (subst clientInput.simps) (auto simp: Let_def input_end_def join_output_closed)

lemma input_more:
  assumes "client i (rfbProcessClientMessage env i sys) = Some c" "\<not> (sock c = -1 \<or> exited c)"
  shows "clientInput env defer cur late i sys = clientInput env defer cur late i (rfbProcessClientMessage env i sys)"
  using assms by (subst clientInput.simps) (simp add: Let_def)

text \<open>The clients before and after the last message, number \<open>Suc n\<close>.\<close>

definition input_over_after :: "env \<Rightarrow> int \<Rightarrow> cursor \<Rightarrow> bool \<Rightarrow> nat \<Rightarrow> system \<Rightarrow> nat \<Rightarrow> bool" where
  "input_over_after env defer cur late i sys n \<longleftrightarrow>
    (\<exists>b c. client i ((rfbProcessClientMessage env i ^^ n) sys) = Some b \<and>
       client i ((rfbProcessClientMessage env i ^^ Suc n) sys) = Some c \<and> (sock c = -1 \<or> exited c) \<and>
       (updateLocked c \<longrightarrow> sends_encodings b) \<and>
       clientInput env defer cur late i sys = input_end late i ((rfbProcessClientMessage env i ^^ Suc n) sys) c)"

lemma input_over_later:
  assumes "client i (rfbProcessClientMessage env i sys) = Some c" "\<not> (sock c = -1 \<or> exited c)"
    "input_over_after env defer cur late i (rfbProcessClientMessage env i sys) n"
  shows "input_over_after env defer cur late i sys (Suc n)"
  using assms(3) unfolding input_over_after_def input_more [OF assms(1,2), symmetric] by (simp add: funpow_swap1)

lemma input_ends:
  assumes "clipboard_reads env" "client i sys = Some cl" "\<not> updateLocked cl"
  shows "\<exists>n. input_over_after env defer cur late i sys n"
  using assms(2,3)
proof (induction "length (incoming (rdev cl))" arbitrary: cl sys rule: less_induct)
  case less
  obtain c where c: "client i (rfbProcessClientMessage env i sys) = Some c" "shorter cl c"
    "updateLocked c \<longrightarrow> sends_encodings cl \<and> sock c = -1"
    using message_step [OF assms(1) less.prems(1)] less.prems(2) by blast
  show ?case
  proof (cases "sock c = -1 \<or> exited c")
    case True
    then have "input_over_after env defer cur late i sys 0"
      using input_over [OF c(1) True] c(1,3) less.prems(1) by (simp add: input_over_after_def)
    then show ?thesis by blast
  next
    case False
    then have l: "\<not> updateLocked c" using c(3) by blast
    have "\<exists>n. input_over_after env defer cur late i (rfbProcessClientMessage env i sys) n"
    proof (cases "gone c")
      case True
      obtain d where d: "client i (rfbProcessClientMessage env i (rfbProcessClientMessage env i sys)) = Some d" "sock d = -1"
        "updateLocked d = updateLocked c" using gone_step [OF c(1) True] by blast
      then have "input_over_after env defer cur late i (rfbProcessClientMessage env i sys) 0"
        using input_over [OF d(1)] c(1) l by (simp add: input_over_after_def)
      then show ?thesis by blast
    next
      case False
      then have "length (incoming (rdev c)) < length (incoming (rdev cl))" using c(2) by (simp add: shorter_def)
      from less.hyps [OF this c(1) l] show ?thesis .
    qed
    then show ?thesis using input_over_later [OF c(1) False] by blast
  qed
qed

section \<open>The version and the desktop\<close>

lemma version_read:
  assumes "0 \<le> n" "n < 1000" "0 \<le> m" "m < 1000" "0 \<le> sock cl" "\<not> exited cl" "incoming (rdev cl) = version_string n m @ rest"
  shows "\<exists>r e. incoming r = rest \<and> rfbProcessClientProtocolVersion env srv cl =
    (let c = cl\<lparr>rdev := r, errno := e, major := n, minor := m\<rparr> in
     if n = rfbProtocolMajorVersion srv then rfbAuthNewClient (map (stackByte env) [0, 1, 2]) srv c
     else rfbClientConnFailed (mismatch_reason srv c) c)"
proof -
  note v = sscanf_version_string [OF assms(1-4)]
  obtain r bs c where rd: "ReadExact sz_rfbProtocolVersionMsg cl = (r, bs, c)" by (metis prod_cases3)
  have x: "r = 1" "bs = version_string n m" "incoming (rdev c) = rest"
    using ReadExact_cases [OF rd assms(6,5)] by (simp_all add: assms(7) v(2))
  then have i: "read_or_close sz_rfbProtocolVersionMsg cl = Inr (version_string n m, c)"
    using rd by (simp add: read_or_close_def)
  obtain r e where c: "c = cl\<lparr>rdev := r, errno := e\<rparr>" using read_Inr_eq [OF i] by blast
  have "incoming r = rest" using x(3) by (simp add: c)
  moreover have "rfbProcessClientProtocolVersion env srv cl =
    (let c = cl\<lparr>rdev := r, errno := e, major := n, minor := m\<rparr> in
     if n = rfbProtocolMajorVersion srv then rfbAuthNewClient (map (stackByte env) [0, 1, 2]) srv c
     else rfbClientConnFailed (mismatch_reason srv c) c)"
    by (simp add: rfbProcessClientProtocolVersion_def i v(1) c Let_def)
  ultimately show ?thesis by blast
qed

lemma write_failed: "write_or_close buf cl = (False, c) \<Longrightarrow> gone c"
  by (auto simp: write_or_close_def gone_def rfbCloseClient_def split: prod.splits if_splits)

lemma set_client_list: "client i sys = Some cl \<Longrightarrow> cid c = i \<Longrightarrow>
    d \<in> set (rfbClientHead (set_client c sys)) \<Longrightarrow> cid d \<noteq> i \<Longrightarrow> d \<in> set (rfbClientHead sys)"
  by (auto simp: set_client_def split: if_splits)

lemma exclusive:
  assumes "client (cid cl) sys = Some cl" "\<not> reverseConnection cl"
    and "rfbNeverShared (globals sys) \<or> (\<not> rfbAlwaysShared (globals sys) \<and> \<not> shared)"
    and "client (cid cl) (share_desktop shared cl sys) = Some c" "\<not> gone c"
  shows "c = cl \<and> (\<forall>d \<in> set (rfbClientHead (share_desktop shared cl sys)). other_normal (cid cl) d \<longrightarrow> sock d = -1)"
proof (cases "rfbDontDisconnect (globals sys)")
  case True
  show ?thesis
  proof (cases "\<exists>d \<in> set (rfbClientHead sys). other_normal (cid cl) d")
    case ex: True
    then have "share_desktop shared cl sys = set_client (rfbCloseClient cl) sys"
      using True assms(2,3) by (simp add: share_desktop_def Let_def)
    then have "c = rfbCloseClient cl" using client_set [OF assms(1), of "rfbCloseClient cl"] assms(4) by simp
    then show ?thesis using assms(5) close_gone by blast
  next
    case False
    then have "share_desktop shared cl sys = sys" using True by (simp add: share_desktop_def Let_def)
    then show ?thesis using False assms(1,4) by auto
  qed
next
  case False
  let ?close = "\<lambda>d. if other_normal (cid cl) d then rfbCloseClient d else d"
  have e: "share_desktop shared cl sys = sys\<lparr>rfbClientHead := map ?close (rfbClientHead sys)\<rparr>"
    using False assms(2,3) by (simp add: share_desktop_def Let_def)
  have "c = cl" using client_others [OF assms(1)] assms(4) by (simp add: e)
  then show ?thesis by (auto simp: e other_normal_def)
qed

lemma exclusive_init:
  assumes "client i sys = Some cl" "\<not> reverseConnection cl"
    and "rfbNeverShared (globals sys) \<or> (\<not> rfbAlwaysShared (globals sys) \<and> incoming (rdev cl) ! 0 = 0)"
    and "client i (rfbProcessClientInitMessage cl sys) = Some c" "\<not> gone c"
  shows "state c = RFB_NORMAL \<and>
    (\<forall>d \<in> set (rfbClientHead (rfbProcessClientInitMessage cl sys)). cid d \<noteq> i \<and> state d = RFB_NORMAL \<longrightarrow> sock d = -1)"
proof (cases "read_or_close sz_rfbClientInitMsg cl")
  case (Inl d)
  then show ?thesis using client_set [OF assms(1), of d] cid_read(1) [OF Inl] client_cid [OF assms(1)] read_Inl_gone [OF Inl] assms(4,5)
    by (simp add: rfbProcessClientInitMessage_def)
next
  case (Inr p)
  obtain ci a where p: "p = (ci, a)" by fastforce
  note r = read_takes [OF Inr [unfolded p]] read_or_close_Inr(2) [OF Inr [unfolded p]]
  have ci: "incoming (rdev cl) ! 0 = ci ! 0" using r(1,2) by (simp add: nth_append sz_rfbClientInitMsg_def)
  let ?srv = "(globals sys)\<lparr>desktopName := cut_name (desktopName (globals sys))\<rparr>"
  obtain ok d where w: "write_or_close (server_init ?srv) a = (ok, d)" by fastforce
  have d: "cid d = i" "reverseConnection d = reverseConnection cl"
    using cid_writes(3) [of "server_init ?srv" a] cid_read(2) [OF Inr [unfolded p]] client_cid [OF assms(1)]
      write_or_close_fields(6) [of "server_init ?srv" a] read_Inr_fields(6) [OF Inr [unfolded p]] by (simp_all add: w)
  show ?thesis
  proof (cases ok)
    case False
    then have "c = d" using client_set [of i "sys\<lparr>globals := ?srv\<rparr>" cl d] assms(1,4) d
      by (simp add: rfbProcessClientInitMessage_def Inr p Let_def w)
    moreover have "gone d" by (rule write_failed) (use w False in simp)
    ultimately show ?thesis using assms(5) by simp
  next
    case True
    let ?d = "d\<lparr>state := RFB_NORMAL\<rparr>" and ?sys = "sys\<lparr>globals := ?srv\<rparr>"
    let ?s = "set_client ?d ?sys"
    have e: "rfbProcessClientInitMessage cl sys = share_desktop (ci ! 0 \<noteq> 0) ?d ?s"
      using True by (simp add: rfbProcessClientInitMessage_def Inr p Let_def w)
    have c: "client (cid ?d) ?s = Some ?d" using client_set [of i ?sys cl ?d] assms(1) d by simp
    have "rfbNeverShared (globals ?s) \<or> (\<not> rfbAlwaysShared (globals ?s) \<and> \<not> ci ! 0 \<noteq> 0)"
      using assms(3) ci by (simp add: set_client_def)
    from exclusive [OF c _ this] assms(2,4,5) d show ?thesis by (simp add: e other_normal_def)
  qed
qed

text \<open>With \<^verbatim>\<open>-dontdisconnect\<close> only the new client is touched.\<close>

lemma others_set_client:
  assumes "cid c = i"
  shows "filter (\<lambda>d. cid d \<noteq> i) (rfbClientHead (set_client c sys)) = filter (\<lambda>d. cid d \<noteq> i) (rfbClientHead sys)"
proof -
  have "filter (\<lambda>d. cid d \<noteq> i) (map (\<lambda>d. if cid d = cid c then c else d) cs) = filter (\<lambda>d. cid d \<noteq> i) cs" for cs
    using assms by (induction cs) auto
  then show ?thesis by (simp add: set_client_def)
qed

lemma other_filter: "(\<exists>d \<in> set cs. other_normal i d) = (\<exists>d \<in> set (filter (\<lambda>d. cid d \<noteq> i) cs). state d = RFB_NORMAL)"
  by (auto simp: other_normal_def)

lemma refused_init:
  assumes "client i sys = Some cl" "\<not> reverseConnection cl"
    and "rfbNeverShared (globals sys) \<or> (\<not> rfbAlwaysShared (globals sys) \<and> incoming (rdev cl) ! 0 = 0)"
    and "client i (rfbProcessClientInitMessage cl sys) = Some c" "rfbDontDisconnect (globals sys)"
  shows "filter (\<lambda>d. cid d \<noteq> i) (rfbClientHead (rfbProcessClientInitMessage cl sys)) = filter (\<lambda>d. cid d \<noteq> i) (rfbClientHead sys) \<and>
    ((\<exists>d \<in> set (rfbClientHead sys). cid d \<noteq> i \<and> state d = RFB_NORMAL) \<longrightarrow> gone c)"
proof (cases "read_or_close sz_rfbClientInitMsg cl")
  case (Inl d)
  then show ?thesis using client_set [OF assms(1), of d] cid_read(1) [OF Inl] client_cid [OF assms(1)] read_Inl_gone [OF Inl] assms(4)
      others_set_client [of d i sys] by (simp add: rfbProcessClientInitMessage_def)
next
  case (Inr p)
  obtain ci a where p: "p = (ci, a)" by fastforce
  note r = read_takes [OF Inr [unfolded p]]
  have ci: "incoming (rdev cl) ! 0 = ci ! 0" using r(1,2) by (simp add: nth_append sz_rfbClientInitMsg_def)
  let ?srv = "(globals sys)\<lparr>desktopName := cut_name (desktopName (globals sys))\<rparr>"
  obtain ok d where w: "write_or_close (server_init ?srv) a = (ok, d)" by fastforce
  have d: "cid d = i" "reverseConnection d = reverseConnection cl"
    using cid_writes(3) [of "server_init ?srv" a] cid_read(2) [OF Inr [unfolded p]] client_cid [OF assms(1)]
      write_or_close_fields(6) [of "server_init ?srv" a] read_Inr_fields(6) [OF Inr [unfolded p]] by (simp_all add: w)
  show ?thesis
  proof (cases ok)
    case False
    then have e: "rfbProcessClientInitMessage cl sys = set_client d (sys\<lparr>globals := ?srv\<rparr>)"
      by (simp add: rfbProcessClientInitMessage_def Inr p Let_def w)
    then have "c = d" using client_set [of i "sys\<lparr>globals := ?srv\<rparr>" cl d] assms(1,4) d by simp
    moreover have "gone d" by (rule write_failed) (use w False in simp)
    ultimately show ?thesis using others_set_client [OF d(1), of "sys\<lparr>globals := ?srv\<rparr>"] by (simp add: e)
  next
    case True
    let ?d = "d\<lparr>state := RFB_NORMAL\<rparr>" and ?sys = "sys\<lparr>globals := ?srv\<rparr>"
    let ?s = "set_client ?d ?sys"
    have same: "filter (\<lambda>d. cid d \<noteq> i) (rfbClientHead ?s) = filter (\<lambda>d. cid d \<noteq> i) (rfbClientHead sys)"
      using others_set_client [of ?d i ?sys] d(1) by simp
    let ?other = "\<exists>c \<in> set (rfbClientHead ?s). other_normal (cid ?d) c"
    have "rfbProcessClientInitMessage cl sys = share_desktop (ci ! 0 \<noteq> 0) ?d ?s"
      using True by (simp add: rfbProcessClientInitMessage_def Inr p Let_def w)
    also have "\<dots> = (if ?other then set_client (rfbCloseClient ?d) ?s else ?s)"
      using assms(2,3,5) d(2) ci by (simp add: share_desktop_def Let_def set_client_def)
    finally have e: "rfbProcessClientInitMessage cl sys = (if ?other then set_client (rfbCloseClient ?d) ?s else ?s)" .
    have o: "?other = (\<exists>d \<in> set (rfbClientHead sys). cid d \<noteq> i \<and> state d = RFB_NORMAL)"
      using d(1) unfolding other_filter by (simp add: same) blast
    have c: "client i ?s = Some ?d" using client_set [of i ?sys cl ?d] assms(1) d by simp
    show ?thesis
    proof (cases ?other)
      case True
      then have x: "rfbProcessClientInitMessage cl sys = set_client (rfbCloseClient ?d) ?s" unfolding e by (rule if_P)
      have "c = rfbCloseClient ?d" using client_set [OF c, of "rfbCloseClient ?d"] assms(4) d(1) by (simp add: x)
      then show ?thesis using others_set_client [of "rfbCloseClient ?d" i ?s] same d(1) by (simp add: x)
    next
      case False
      then have x: "rfbProcessClientInitMessage cl sys = ?s" unfolding e by (rule if_not_P)
      show ?thesis using False same unfolding o x by blast
    qed
  qed
qed

section \<open>Properties\<close>


text \<open>A peer that answers with its version and goes away.\<close>

definition demo_one :: system where
  "demo_one = \<lparr>globals = demo_server, rfbClientHead = [demo_sends (version_string 3 8)]\<rparr>"


text \<open>
  C9: The versions are agreed on. A client that answers with a version string as the server itself prints
  them, for numbers of at most three digits, is understood: with the server's major version
  the handshake goes on for just this version, with another it is told both and closed.
\<close>

theorem version_agreed:
  assumes "0 \<le> n" "n < 1000" "0 \<le> m" "m < 1000" "0 \<le> sock cl" "\<not> exited cl" "incoming (rdev cl) = version_string n m @ rest"
  shows "\<exists>r e. incoming r = rest \<and> rfbProcessClientProtocolVersion env srv cl =
    (let c = cl\<lparr>rdev := r, errno := e, major := n, minor := m\<rparr> in
     if n = rfbProtocolMajorVersion srv then rfbAuthNewClient (map (stackByte env) [0, 1, 2]) srv c
     else rfbClientConnFailed (mismatch_reason srv c) c)"
  by (rule version_read [OF assms])

theorem version_agreed_witness:
  "\<exists>r e. incoming r = [1] \<and> rfbProcessClientProtocolVersion demo_env demo_server (demo_sends (version_string 3 7 @ [1])) =
    rfbAuthNewClient [0, 0, 0] demo_server ((demo_sends (version_string 3 7 @ [1]))\<lparr>rdev := r, errno := e, major := 3, minor := 7\<rparr>)"
proof -
  let ?c = "demo_sends (version_string 3 7 @ [1])"
  have "0 \<le> sock ?c" "\<not> exited ?c" "incoming (rdev ?c) = version_string 3 7 @ [1]"
    by (simp_all add: incoming_demo) (simp_all add: demo_sends_def demo_client_def)
  from version_agreed [OF _ _ _ _ this, of demo_env demo_server] show ?thesis by (simp add: Let_def demo_server_def demo_env_def)
qed

text \<open>
  C8: A desktop that is not shared has one client. When a client that has connected by itself sends its
  initialisation message and the options and its flag forbid sharing, then either it is lost or closed, or it is in
  the normal state and the connection of every other client in the normal state is closed. With
  \<^verbatim>\<open>-dontdisconnect\<close> no other client is touched, and if another one is in the normal state, the new one is
  closed.
\<close>

theorem desktop_exclusive:
  assumes "client i sys = Some cl" "state cl = RFB_INITIALISATION" "\<not> reverseConnection cl"
    and "rfbNeverShared (globals sys) \<or> (\<not> rfbAlwaysShared (globals sys) \<and> incoming (rdev cl) ! 0 = 0)"
    and "client i (rfbProcessClientMessage env i sys) = Some c"
  shows "(gone c \<or> state c = RFB_NORMAL \<and>
      (\<forall>d \<in> set (rfbClientHead (rfbProcessClientMessage env i sys)). cid d \<noteq> i \<and> state d = RFB_NORMAL \<longrightarrow> sock d = -1)) \<and>
    (rfbDontDisconnect (globals sys) \<longrightarrow>
      filter (\<lambda>d. cid d \<noteq> i) (rfbClientHead (rfbProcessClientMessage env i sys)) = filter (\<lambda>d. cid d \<noteq> i) (rfbClientHead sys) \<and>
      ((\<exists>d \<in> set (rfbClientHead sys). cid d \<noteq> i \<and> state d = RFB_NORMAL) \<longrightarrow> gone c))"
proof -
  have e: "rfbProcessClientMessage env i sys = rfbProcessClientInitMessage cl sys"
    by (simp add: rfbProcessClientMessage_def assms(1,2))
  show ?thesis using exclusive_init [OF assms(1,3,4) assms(5) [unfolded e]] refused_init [OF assms(1,3,4) assms(5) [unfolded e]]
    unfolding e by blast
qed

definition demo_two :: system where
  "demo_two = \<lparr>globals = demo_server, rfbClientHead = [(demo_sends [0])\<lparr>state := RFB_INITIALISATION\<rparr>,
     demo_client\<lparr>cid := 2, sock := 8, state := RFB_NORMAL\<rparr>]\<rparr>"

theorem desktop_exclusive_witness:
  "map sock (rfbClientHead (rfbProcessClientMessage demo_env 1 demo_two)) = [7, -1]"
proof -
  let ?c = "(demo_sends [0])\<lparr>state := RFB_INITIALISATION\<rparr>"
  have c: "client 1 demo_two = Some ?c" by (simp add: client_def demo_two_def demo_sends_def demo_client_def)
  have e: "rfbProcessClientMessage demo_env 1 demo_two = rfbProcessClientInitMessage ?c demo_two"
    unfolding rfbProcessClientMessage_def c by simp
  obtain e s where run: "rfbClientHead (rfbProcessClientMessage demo_env 1 demo_two) =
      [?c\<lparr>rdev := [], sent := s, state := RFB_NORMAL\<rparr>, e]" "cid e = 2" "state e = RFB_NORMAL"
    unfolding e
    by (simp add: rfbProcessClientInitMessage_def read_or_close_def ReadExact_def demo_sends_def demo_client_def demo_two_def
        sz_rfbClientInitMsg_def write_or_close_def WriteExact_def server_init_def be16_def set_client_def share_desktop_def
        demo_server_def other_normal_def Let_def)
  have "client 1 (rfbProcessClientMessage demo_env 1 demo_two) = Some (?c\<lparr>rdev := [], sent := s, state := RFB_NORMAL\<rparr>)"
    unfolding client_def run(1) by (simp add: demo_sends_def demo_client_def)
  note x = desktop_exclusive [OF c _ _ _ this]
  have "\<not> gone (?c\<lparr>rdev := [], sent := s, state := RFB_NORMAL\<rparr>)" by (simp add: gone_def) (simp add: demo_sends_def demo_client_def)
  then show ?thesis using x run
    by (simp add: demo_two_def demo_server_def) (simp add: demo_sends_def demo_client_def)
qed

end
