(* ===== verification/Zrle.thy ===== *)
theory Zrle
  imports Update
begin

text \<open>
  The ZRLE encoding, \<^verbatim>\<open>OSXvnc-server/zrleEncode.h\<close> and \<^verbatim>\<open>zrle.cc\<close>: a rectangle is cut into tiles of 64 by 64
  pixels, each sent in the cheapest of five forms, and the whole is compressed. The template is
  included five times, for the three pixel sizes and for two ways to send only three bytes of four.
\<close>

section \<open>The palette\<close>

text \<open>The class PaletteHelper: a palette, and a hash table with linear probing that finds a pixel in it.\<close>

record PaletteHelper =
  palette_size :: nat
  palette :: "u32 list"
  index :: "nat \<Rightarrow> nat"
  key :: "nat \<Rightarrow> u32"

definition MAX_SIZE :: nat where "MAX_SIZE = 127"

definition new_palette :: PaletteHelper where
  "new_palette = \<lparr>palette_size = 0, palette = [], index = (\<lambda>_. 255), key = (\<lambda>_. 0)\<rparr>"

definition hash :: "u32 \<Rightarrow> nat" where
  "hash pix = unat ((pix XOR drop_bit 17 pix) AND 4095)"

text \<open>The loop of the probe; it stops at the end of the arrays, which it never reaches.\<close>

function probe :: "PaletteHelper \<Rightarrow> u32 \<Rightarrow> nat \<Rightarrow> nat" where
  "probe ph pix i =
    (if i < 4096 + MAX_SIZE \<and> index ph i \<noteq> 255 \<and> key ph i \<noteq> pix then probe ph pix (i + 1) else i)"
  by pat_completeness auto
termination by (relation "measure (\<lambda>(_, _, i). 4096 + MAX_SIZE - i)") auto

declare probe.simps [simp del]

definition insert_pixel :: "u32 \<Rightarrow> PaletteHelper \<Rightarrow> PaletteHelper" where
  "insert_pixel pix ph =
    (if palette_size ph < MAX_SIZE then
       let i = probe ph pix (hash pix) in
       if index ph i \<noteq> 255 then ph
       else ph\<lparr>index := (index ph)(i := palette_size ph), key := (key ph)(i := pix), palette := palette ph @ [pix],
               palette_size := palette_size ph + 1\<rparr>
     else ph\<lparr>palette_size := palette_size ph + 1\<rparr>)"

text \<open>The index of a pixel, or -1.\<close>

definition lookup :: "PaletteHelper \<Rightarrow> u32 \<Rightarrow> int" where
  "lookup ph pix =
    (let i = probe ph pix (hash pix) in if index ph i \<noteq> 255 then int (index ph i) else -1)"

section \<open>A tile\<close>

text \<open>The instances of the template; \<open>BPP\<close>, \<open>BPPOUT\<close> and what \<open>WRITE_PIXEL\<close> writes.\<close>

datatype cpixel = Pixel8 | Pixel16 | Pixel32 | Pixel24A | Pixel24B

definition BPP :: "cpixel \<Rightarrow> nat" where
  "BPP c = (case c of Pixel8 \<Rightarrow> 8 | Pixel16 \<Rightarrow> 16 | _ \<Rightarrow> 32)"

definition BPPOUT :: "cpixel \<Rightarrow> nat" where
  "BPPOUT c = (case c of Pixel8 \<Rightarrow> 8 | Pixel16 \<Rightarrow> 16 | Pixel32 \<Rightarrow> 32 | _ \<Rightarrow> 24)"

definition WRITE_PIXEL :: "cpixel \<Rightarrow> bool \<Rightarrow> u32 \<Rightarrow> u8 list" where
  "WRITE_PIXEL c le u =
    (case c of Pixel24A \<Rightarrow> take 3 (host_bytes le 32 u) | Pixel24B \<Rightarrow> drop 1 (host_bytes le 32 u) | _ \<Rightarrow> host_bytes le (BPP c) u)"

text \<open>
  The first loop, over the pixels and the one written past their end, which differs from the last:
  the number of runs, of single pixels, and the palette.
\<close>

function scan_runs :: "u32 list \<Rightarrow> nat \<Rightarrow> nat \<Rightarrow> PaletteHelper \<Rightarrow> nat \<times> nat \<times> PaletteHelper" where
  "scan_runs (pix # q # ps) runs singlePixels ph =
    (if q \<noteq> pix then scan_runs (q # ps) runs (singlePixels + 1) (insert_pixel pix ph)
     else scan_runs (dropWhile (\<lambda>d. d = pix) ps) (runs + 1) singlePixels (insert_pixel pix ph))"
| "scan_runs [e] runs singlePixels ph = (runs, singlePixels, ph)"
| "scan_runs [] runs singlePixels ph = (runs, singlePixels, ph)"
  by pat_completeness auto
termination
  by (relation "measure (\<lambda>(ps, _, _, _). length ps)") (auto simp: le_imp_less_Suc le_SucI length_dropWhile_le)

definition past_end :: "cpixel \<Rightarrow> u32 list \<Rightarrow> u32" where
  "past_end c data = take_bit (BPP c) (NOT (last data))"

definition bitsPerPackedPixel :: "nat list" where
  "bitsPerPackedPixel = [0, 1, 2, 2, 4, 4, 4, 4, 4, 4, 4, 4, 4, 4, 4, 4]"

text \<open>The choice between the forms: by the estimated sizes.\<close>

definition choose_form :: "nat \<Rightarrow> nat \<Rightarrow> nat \<Rightarrow> nat \<Rightarrow> nat \<Rightarrow> bool \<times> bool" where
  "choose_form bppout n runs singlePixels colours =
    (let (useRle, usePalette, estimatedBytes) = (False, False, n * (bppout div 8));
         plainRleBytes = (bppout div 8 + 1) * (runs + singlePixels);
         (useRle, estimatedBytes) = (if plainRleBytes < estimatedBytes then (True, plainRleBytes) else (useRle, estimatedBytes))
     in if colours < 128 then
          let paletteRleBytes = bppout div 8 * colours + 2 * runs + singlePixels;
              (useRle, usePalette, estimatedBytes) = (if paletteRleBytes < estimatedBytes then (True, True, paletteRleBytes)
                else (useRle, usePalette, estimatedBytes))
          in if colours < 17 then
               let packedBytes = bppout div 8 * colours + n * (bitsPerPackedPixel ! (colours - 1)) div 8
               in if packedBytes < estimatedBytes then (False, True) else (useRle, usePalette)
             else (useRle, usePalette)
        else (useRle, usePalette))"

text \<open>
  What is written is a list of items, which the stream makes room for one by one: a pixel is one item,
  a single byte another, and a block that may be split anywhere is as many single bytes.
\<close>

definition singly :: "u8 list \<Rightarrow> u8 list list" where
  "singly bs = map (\<lambda>b. [b]) bs"

lemma concat_singly [simp]: "concat (singly bs) = bs"
  by (induction bs) (simp_all add: singly_def)

text \<open>The length of a run, less one.\<close>

function run_length :: "nat \<Rightarrow> u8 list" where
  "run_length n = (if n \<ge> 255 then 255 # run_length (n - 255) else [of_nat n])"
  by pat_completeness auto
termination by (relation "measure id") auto

declare run_length.simps [simp del]

function rle_runs :: "(u32 \<Rightarrow> u8 list) \<Rightarrow> bool \<Rightarrow> PaletteHelper \<Rightarrow> u32 list \<Rightarrow> u8 list list" where
  "rle_runs wr usePalette ph [] = []"
| "rle_runs wr usePalette ph (pix # ps) =
    (let len = Suc (length (takeWhile (\<lambda>d. d = pix) ps));
         rest = dropWhile (\<lambda>d. d = pix) ps
     in (if len \<le> 2 \<and> usePalette then
           let i = word_of_int (lookup ph pix) in (if len = 2 then [[i]] else []) @ [[i]]
         else (if usePalette then [word_of_int (lookup ph pix) OR 128] else wr pix) # singly (run_length (len - 1))) @
        rle_runs wr usePalette ph rest)"
  by pat_completeness auto
termination
  by (relation "measure (\<lambda>(_, _, _, ps). length ps)") (auto simp: le_imp_less_Suc length_dropWhile_le)

text \<open>A row of packed pixels: the bits not yet written are in \<open>byte\<close>.\<close>

fun pack_row :: "nat \<Rightarrow> PaletteHelper \<Rightarrow> u32 list \<Rightarrow> nat \<Rightarrow> u8 \<Rightarrow> u8 list" where
  "pack_row bppp ph [] nbits byte = (if nbits > 0 then [push_bit (8 - nbits) byte] else [])"
| "pack_row bppp ph (pix # ps) nbits byte =
    (let byte = push_bit bppp byte OR word_of_int (lookup ph pix);
         nbits = nbits + bppp
     in if nbits \<ge> 8 then byte # pack_row bppp ph ps 0 byte else pack_row bppp ph ps nbits byte)"

fun pack_rows :: "nat \<Rightarrow> PaletteHelper \<Rightarrow> nat \<Rightarrow> nat \<Rightarrow> u32 list \<Rightarrow> u8 list" where
  "pack_rows bppp ph 0 w ps = []"
| "pack_rows bppp ph (Suc h) w ps = pack_row bppp ph (take w ps) 0 0 @ pack_rows bppp ph h w (drop w ps)"

definition ZRLE_ENCODE_TILE :: "cpixel \<Rightarrow> bool \<Rightarrow> u32 list \<Rightarrow> nat \<Rightarrow> nat \<Rightarrow> u8 list list" where
  "ZRLE_ENCODE_TILE c le data w h =
    (let (runs, singlePixels, ph) = scan_runs (data @ [past_end c data]) 0 0 new_palette in
     if palette_size ph = 1 then [[1], WRITE_PIXEL c le (palette ph ! 0)]
     else
       let (useRle, usePalette) = choose_form (BPPOUT c) (w * h) runs singlePixels (palette_size ph);
           ph = (if \<not> usePalette then ph\<lparr>palette_size := 0\<rparr> else ph)
       in [(if useRle then 128 else 0) OR of_nat (palette_size ph)] #
          map (WRITE_PIXEL c le) (take (palette_size ph) (palette ph)) @
          (if useRle then rle_runs (WRITE_PIXEL c le) usePalette ph data
           else if usePalette then singly (pack_rows (bitsPerPackedPixel ! (palette_size ph - 1)) ph h w data)
           else if c = Pixel24A \<or> c = Pixel24B then map (WRITE_PIXEL c le) data
           else singly (concat (map (WRITE_PIXEL c le) data))))"

section \<open>The hash table is a palette\<close>

text \<open>
  What a table stands for: a list of different pixels; every pixel is found at its index, each used
  cell holds a pixel of the list, and there are as many used cells as pixels.
\<close>

definition holds :: "PaletteHelper \<Rightarrow> bool" where
  "holds ph \<longleftrightarrow> distinct (palette ph) \<and> length (palette ph) \<le> MAX_SIZE \<and>
     (palette_size ph \<le> MAX_SIZE \<longrightarrow> palette_size ph = length (palette ph)) \<and>
     (\<forall>i. index ph i \<noteq> 255 \<longrightarrow> index ph i < length (palette ph) \<and> key ph i = palette ph ! index ph i) \<and>
     (\<forall>j < length (palette ph). \<exists>i. hash (palette ph ! j) \<le> i \<and> i < hash (palette ph ! j) + MAX_SIZE \<and> index ph i = j \<and>
        (\<forall>k. hash (palette ph ! j) \<le> k \<and> k < i \<longrightarrow> index ph k \<noteq> 255)) \<and>
     (\<exists>f. \<forall>i. index ph i \<noteq> 255 \<longrightarrow> f (index ph i) = i)"

lemma hash_bound: "hash pix < 4096"
proof -
  have "(pix XOR drop_bit 17 pix) AND 4095 \<le> 4095" by (rule word_and_le1)
  then show ?thesis by (simp add: hash_def word_le_nat_alt)
qed

text \<open>Where a probe stops: the first cell that is free or has the pixel, if that is not too far away.\<close>

lemma probe_stop:
  assumes "h \<le> i" "i < 4096 + MAX_SIZE" "index ph i = 255 \<or> key ph i = pix"
    and "\<And>k. h \<le> k \<Longrightarrow> k < i \<Longrightarrow> index ph k \<noteq> 255 \<and> key ph k \<noteq> pix"
  shows "probe ph pix h = i"
  using assms
proof (induction "i - h" arbitrary: h)
  case 0
  then show ?case by (subst probe.simps) auto
next
  case (Suc n)
  then have "index ph h \<noteq> 255 \<and> key ph h \<noteq> pix" "h < i" by auto
  moreover have "probe ph pix (h + 1) = i" using Suc.hyps(1) [of "h + 1"] Suc.hyps(2) Suc.prems by simp
  ultimately show ?case using Suc.prems by (subst probe.simps) simp
qed

text \<open>Fewer than \<open>MAX_SIZE\<close> used cells leave one of as many consecutive cells free.\<close>

lemma free_cell:
  assumes "holds ph" "length (palette ph) < MAX_SIZE"
  shows "\<exists>i. h \<le> i \<and> i < h + MAX_SIZE \<and> index ph i = 255"
proof (rule ccontr)
  assume "\<nexists>i. h \<le> i \<and> i < h + MAX_SIZE \<and> index ph i = 255"
  then have used: "\<forall>i \<in> {h..<h + MAX_SIZE}. index ph i \<noteq> 255" by auto
  then have inj: "inj_on (index ph) {h..<h + MAX_SIZE}"
    using assms(1) unfolding holds_def inj_on_def by metis
  have "index ph ` {h..<h + MAX_SIZE} \<subseteq> {..<length (palette ph)}" using used assms(1) by (auto simp: holds_def)
  then have "card (index ph ` {h..<h + MAX_SIZE}) \<le> card {..<length (palette ph)}" by (intro card_mono) auto
  then show False using assms(2) by (simp add: card_image [OF inj])
qed

lemma probe_known:
  assumes "holds ph" "j < length (palette ph)"
  shows "index ph (probe ph (palette ph ! j) (hash (palette ph ! j))) = j"
proof -
  let ?p = "palette ph ! j"
  obtain i where i: "hash ?p \<le> i" "i < hash ?p + MAX_SIZE" "index ph i = j"
    "\<forall>k. hash ?p \<le> k \<and> k < i \<longrightarrow> index ph k \<noteq> 255"
    using assms by (auto simp: holds_def)
  have j: "j \<noteq> 255" using assms by (auto simp: holds_def MAX_SIZE_def)
  have cell: "index ph k \<noteq> 255 \<Longrightarrow> index ph k < length (palette ph) \<and> key ph k = palette ph ! index ph k" for k
    using assms(1) by (simp add: holds_def)
  have other: "key ph k \<noteq> ?p" if "k < i" "index ph k \<noteq> 255" for k
  proof
    assume "key ph k = ?p"
    then have "index ph k = j" using cell [OF that(2)] assms by (simp add: holds_def nth_eq_iff_index_eq)
    moreover obtain f where "\<forall>i. index ph i \<noteq> 255 \<longrightarrow> f (index ph i) = i" using assms(1) by (auto simp: holds_def)
    ultimately have "k = i" using i(3) j by metis
    then show False using that by simp
  qed
  have "probe ph ?p (hash ?p) = i"
  proof (rule probe_stop)
    show "i < 4096 + MAX_SIZE" using i(2) hash_bound [of ?p] by simp
    show "index ph i = 255 \<or> key ph i = ?p" using cell [of i] i(3) j by simp
  qed (use i other in auto)
  then show ?thesis using i(3) by simp
qed

lemma probe_new:
  assumes "holds ph" "pix \<notin> set (palette ph)" "length (palette ph) < MAX_SIZE"
  shows "index ph (probe ph pix (hash pix)) = 255" "hash pix \<le> probe ph pix (hash pix)"
    "probe ph pix (hash pix) < hash pix + MAX_SIZE" "\<forall>k. hash pix \<le> k \<and> k < probe ph pix (hash pix) \<longrightarrow> index ph k \<noteq> 255"
proof -
  define i where "i = (LEAST i. hash pix \<le> i \<and> index ph i = 255)"
  obtain i0 where i0: "hash pix \<le> i0" "i0 < hash pix + MAX_SIZE" "index ph i0 = 255" using free_cell [OF assms(1,3)] by blast
  have i: "hash pix \<le> i \<and> index ph i = 255" unfolding i_def by (rule LeastI [of _ i0]) (use i0 in simp)
  have less: "index ph k \<noteq> 255" if "hash pix \<le> k" "k < i" for k
    using not_less_Least [of k "\<lambda>i. hash pix \<le> i \<and> index ph i = 255"] that by (auto simp: i_def)
  have "i \<le> i0" unfolding i_def by (rule Least_le) (use i0 in simp)
  then have b: "i < hash pix + MAX_SIZE" using i0 by simp
  have "probe ph pix (hash pix) = i"
  proof (rule probe_stop)
    show "i < 4096 + MAX_SIZE" using b hash_bound [of pix] by simp
    show "index ph k \<noteq> 255 \<and> key ph k \<noteq> pix" if "hash pix \<le> k" "k < i" for k
      using less [OF that] assms(1,2) by (auto simp: holds_def)
  qed (use i in auto)
  then show "index ph (probe ph pix (hash pix)) = 255" "hash pix \<le> probe ph pix (hash pix)"
    "probe ph pix (hash pix) < hash pix + MAX_SIZE" "\<forall>k. hash pix \<le> k \<and> k < probe ph pix (hash pix) \<longrightarrow> index ph k \<noteq> 255"
    using i b less by simp_all
qed

lemma insert_holds:
  assumes "holds ph"
  shows "holds (insert_pixel pix ph)" "palette_size ph \<le> palette_size (insert_pixel pix ph)"
    "set (palette ph) \<subseteq> set (palette (insert_pixel pix ph))"
    "palette_size (insert_pixel pix ph) \<le> MAX_SIZE \<Longrightarrow> pix \<in> set (palette (insert_pixel pix ph))"
proof -
  consider (full) "\<not> palette_size ph < MAX_SIZE" | (known) "palette_size ph < MAX_SIZE" "pix \<in> set (palette ph)"
    | (new) "palette_size ph < MAX_SIZE" "pix \<notin> set (palette ph)" by blast
  then have "holds (insert_pixel pix ph) \<and> palette_size ph \<le> palette_size (insert_pixel pix ph) \<and>
    set (palette ph) \<subseteq> set (palette (insert_pixel pix ph)) \<and>
    (palette_size (insert_pixel pix ph) \<le> MAX_SIZE \<longrightarrow> pix \<in> set (palette (insert_pixel pix ph)))"
  proof cases
    case full
    then show ?thesis using assms by (simp add: insert_pixel_def holds_def)
  next
    case known
    obtain j where j: "j < length (palette ph)" "palette ph ! j = pix" using known(2) by (auto simp: in_set_conv_nth)
    have "index ph (probe ph pix (hash pix)) = j" using probe_known [OF assms j(1)] j(2) by simp
    moreover have "j \<noteq> 255" using j(1) assms by (auto simp: holds_def MAX_SIZE_def)
    ultimately show ?thesis using known assms by (simp add: insert_pixel_def Let_def)
  next
    case new
    let ?i = "probe ph pix (hash pix)" and ?n = "length (palette ph)"
    have n: "palette_size ph = ?n" using assms new(1) by (simp add: holds_def)
    note p = probe_new [OF assms new(2) new(1) [unfolded n]]
    have e: "insert_pixel pix ph = ph\<lparr>index := (index ph)(?i := ?n), key := (key ph)(?i := pix), palette := palette ph @ [pix],
               palette_size := ?n + 1\<rparr>"
      using new(1) p(1) by (simp add: insert_pixel_def Let_def n)
    have h: "distinct (palette ph)" "?n < MAX_SIZE"
      "\<And>i. index ph i \<noteq> 255 \<Longrightarrow> index ph i < ?n \<and> key ph i = palette ph ! index ph i"
      "\<And>j. j < ?n \<Longrightarrow> \<exists>i. hash (palette ph ! j) \<le> i \<and> i < hash (palette ph ! j) + MAX_SIZE \<and> index ph i = j \<and>
        (\<forall>k. hash (palette ph ! j) \<le> k \<and> k < i \<longrightarrow> index ph k \<noteq> 255)"
      using assms new(1) n by (auto simp: holds_def)
    obtain f where f: "\<forall>i. index ph i \<noteq> 255 \<longrightarrow> f (index ph i) = i" using assms by (auto simp: holds_def)
    have n255: "?n \<noteq> 255" using h(2) by (simp add: MAX_SIZE_def)
    let ?ph = "insert_pixel pix ph"
    have cells: "index ?ph i = (if i = ?i then ?n else index ph i)" "key ?ph i = (if i = ?i then pix else key ph i)"
      "palette ?ph = palette ph @ [pix]" "palette_size ?ph = ?n + 1" for i by (simp_all add: e)
    have found: "\<exists>i. hash (palette ?ph ! j) \<le> i \<and> i < hash (palette ?ph ! j) + MAX_SIZE \<and> index ?ph i = j \<and>
        (\<forall>k. hash (palette ?ph ! j) \<le> k \<and> k < i \<longrightarrow> index ?ph k \<noteq> 255)" if "j < Suc ?n" for j
    proof (cases "j = ?n")
      case True
      then show ?thesis using p n255 by (intro exI [of _ ?i]) (simp add: cells)
    next
      case False
      then have j: "j < ?n" using that by simp
      from h(4) [OF j] obtain i where i: "hash (palette ph ! j) \<le> i" "i < hash (palette ph ! j) + MAX_SIZE" "index ph i = j"
        "\<forall>k. hash (palette ph ! j) \<le> k \<and> k < i \<longrightarrow> index ph k \<noteq> 255" by blast
      have "i \<noteq> ?i" using p(1) i(3) j h(2) by (auto simp: MAX_SIZE_def)
      then show ?thesis using i j n255 by (intro exI [of _ i]) (simp add: cells nth_append)
    qed
    have "index ?ph i \<noteq> 255 \<longrightarrow> (f(?n := ?i)) (index ?ph i) = i" for i
    proof (cases "i = ?i")
      case False
      then show ?thesis using f h(3) [of i] by (cases "index ph i = 255") (auto simp: cells)
    qed (simp add: cells)
    then have "\<exists>f. \<forall>i. index ?ph i \<noteq> 255 \<longrightarrow> f (index ?ph i) = i" by blast
    moreover have "index ?ph i \<noteq> 255 \<longrightarrow> index ?ph i < Suc ?n \<and> key ?ph i = palette ?ph ! index ?ph i" for i
      using h(3) [of i] by (auto simp: cells nth_append)
    ultimately have "holds ?ph" using found h(1,2) new(2) unfolding holds_def by (simp add: cells)
    then show ?thesis by (auto simp: cells n)
  qed
  then show "holds (insert_pixel pix ph)" "palette_size ph \<le> palette_size (insert_pixel pix ph)"
    "set (palette ph) \<subseteq> set (palette (insert_pixel pix ph))"
    "palette_size (insert_pixel pix ph) \<le> MAX_SIZE \<Longrightarrow> pix \<in> set (palette (insert_pixel pix ph))" by auto
qed

lemma new_holds: "holds new_palette"
  by (simp add: holds_def new_palette_def)

lemma lookup_known:
  assumes "holds ph" "pix \<in> set (palette ph)"
  shows "\<exists>j < length (palette ph). palette ph ! j = pix \<and> lookup ph pix = int j"
proof -
  obtain j where j: "j < length (palette ph)" "palette ph ! j = pix" using assms(2) by (auto simp: in_set_conv_nth)
  have "index ph (probe ph pix (hash pix)) = j" using probe_known [OF assms(1) j(1)] j(2) by simp
  moreover have "j \<noteq> 255" using j(1) assms(1) by (auto simp: holds_def MAX_SIZE_def)
  ultimately show ?thesis using j by (intro exI [of _ j]) (simp add: lookup_def Let_def)
qed

section \<open>The first loop\<close>

lemma butlast_drop: "set (butlast xs) \<subseteq> insert p (set (butlast (dropWhile (\<lambda>d. d = p) xs)))"
  by (induction xs) auto

lemma scan_holds:
  "scan_runs ps r s ph = (r', s', ph') \<Longrightarrow> holds ph \<Longrightarrow>
    holds ph' \<and> palette_size ph \<le> palette_size ph' \<and>
    (palette_size ph' \<le> MAX_SIZE \<longrightarrow> set (palette ph) \<union> set (butlast ps) \<subseteq> set (palette ph'))"
proof (induction ps r s ph arbitrary: r' s' ph' rule: scan_runs.induct)
  case (1 pix q ps r s ph)
  note i = insert_holds [OF 1(4), of pix]
  show ?case
  proof (cases "q \<noteq> pix")
    case True
    from 1(1) [OF True _ i(1)] 1(3) True have h: "holds ph' \<and> palette_size (insert_pixel pix ph) \<le> palette_size ph' \<and>
      (palette_size ph' \<le> MAX_SIZE \<longrightarrow> set (palette (insert_pixel pix ph)) \<union> set (butlast (q # ps)) \<subseteq> set (palette ph'))" by simp
    then show ?thesis using i by auto
  next
    case False
    from 1(2) [OF False _ i(1)] 1(3) False have h: "holds ph' \<and> palette_size (insert_pixel pix ph) \<le> palette_size ph' \<and>
      (palette_size ph' \<le> MAX_SIZE \<longrightarrow> set (palette (insert_pixel pix ph)) \<union>
        set (butlast (dropWhile (\<lambda>d. d = pix) ps)) \<subseteq> set (palette ph'))" by simp
    have b: "set (butlast (pix # q # ps)) \<subseteq> insert pix (set (butlast (dropWhile (\<lambda>d. d = pix) ps)))"
      using False butlast_drop [of ps pix] by auto
    show ?thesis
    proof (intro conjI impI)
      assume m: "palette_size ph' \<le> MAX_SIZE"
      then have "pix \<in> set (palette (insert_pixel pix ph))" using h i(4) by linarith
      then have "insert pix (set (butlast (dropWhile (\<lambda>d. d = pix) ps))) \<subseteq> set (palette ph')" using h m by blast
      then show "set (palette ph) \<union> set (butlast (pix # q # ps)) \<subseteq> set (palette ph')" using b h m i(3) by blast
    qed (use h i(2) in auto)
  qed
qed auto

section \<open>The viewer\<close>

fun read_run :: "u8 list \<Rightarrow> nat \<times> u8 list" where
  "read_run [] = (0, [])"
| "read_run (b # bs) = (if b = 255 then (let (l, r) = read_run bs in (255 + l, r)) else (unat b, bs))"

function plain_rle :: "nat \<Rightarrow> nat \<Rightarrow> u8 list \<Rightarrow> u8 list list \<times> u8 list" where
  "plain_rle k n bs =
    (if n = 0 then ([], bs)
     else let (l, r) = read_run (drop k bs); (ps, r) = plain_rle k (n - Suc l) r
          in (replicate (Suc l) (take k bs) @ ps, r))"
  by pat_completeness auto
termination by (relation "measure (\<lambda>(_, n, _). n)") auto

function palette_rle :: "u8 list list \<Rightarrow> nat \<Rightarrow> u8 list \<Rightarrow> u8 list list \<times> u8 list" where
  "palette_rle pal n bs =
    (if n = 0 then ([], bs)
     else let i = unat (bs ! 0) in
       if i < 128 then (let (ps, r) = palette_rle pal (n - 1) (drop 1 bs) in (pal ! i # ps, r))
       else let (l, r) = read_run (drop 1 bs); (ps, r) = palette_rle pal (n - Suc l) r
            in (replicate (Suc l) (pal ! (i - 128)) @ ps, r))"
  by pat_completeness auto
termination by (relation "measure (\<lambda>(_, n, _). n)") auto

declare plain_rle.simps [simp del] palette_rle.simps [simp del]

definition packed_index :: "nat \<Rightarrow> u8 list \<Rightarrow> nat \<Rightarrow> nat" where
  "packed_index b bs i = unat (take_bit b (drop_bit (8 - b - i * b mod 8) (bs ! (i * b div 8))))"

fun packed_rows :: "nat \<Rightarrow> u8 list list \<Rightarrow> nat \<Rightarrow> nat \<Rightarrow> u8 list \<Rightarrow> u8 list list \<times> u8 list" where
  "packed_rows b pal 0 w bs = ([], bs)"
| "packed_rows b pal (Suc h) w bs =
    (let (ps, r) = packed_rows b pal h w (drop ((w * b + 7) div 8) bs)
     in (map (\<lambda>i. pal ! packed_index b bs i) [0..<w] @ ps, r))"

fun read_pixels :: "nat \<Rightarrow> nat \<Rightarrow> u8 list \<Rightarrow> u8 list list \<times> u8 list" where
  "read_pixels k 0 bs = ([], bs)"
| "read_pixels k (Suc n) bs = (let (ps, r) = read_pixels k n (drop k bs) in (take k bs # ps, r))"

definition packed_bits :: "nat \<Rightarrow> nat" where
  "packed_bits colours = (if colours \<le> 2 then 1 else if colours \<le> 4 then 2 else 4)"

definition decode_zrle_tile :: "nat \<Rightarrow> nat \<Rightarrow> nat \<Rightarrow> u8 list \<Rightarrow> u8 list list \<times> u8 list" where
  "decode_zrle_tile k w h bs =
    (let s = unat (bs ! 0); bs = drop 1 bs in
     if s = 0 then read_pixels k (w * h) bs
     else if s = 1 then (replicate (w * h) (take k bs), drop k bs)
     else if s < 128 then (let (pal, bs) = read_pixels k s bs in packed_rows (packed_bits s) pal h w bs)
     else if s = 128 then plain_rle k (w * h) bs
     else let (pal, bs) = read_pixels k (s - 128) bs in palette_rle pal (w * h) bs)"

section \<open>The forms are read back\<close>

lemma read_run_length: "read_run (run_length n @ r) = (n, r)"
proof (induction n rule: run_length.induct)
  case (1 n)
  show ?case
  proof (cases "255 \<le> n")
    case True
    then show ?thesis using 1 by (subst run_length.simps) simp
  next
    case False
    then have "unat (of_nat n :: u8) = n" by (simp add: unat_of_nat)
    moreover have "(of_nat n :: u8) \<noteq> 255"
    proof
      assume "(of_nat n :: u8) = 255"
      then have "unat (of_nat n :: u8) = unat (255 :: u8)" by (rule arg_cong)
      then show False using calculation False by simp
    qed
    ultimately show ?thesis using False by (subst run_length.simps) simp
  qed
qed

lemma read_pixels_concat:
  "(\<And>p. p \<in> set ps \<Longrightarrow> length (f p) = k) \<Longrightarrow> read_pixels k (length ps) (concat (map f ps) @ r) = (map f ps, r)"
  by (induction ps) simp_all

lemma map_run: "map f (pix # ps) = replicate (Suc (length (takeWhile (\<lambda>d. d = pix) ps))) (f pix) @ map f (dropWhile (\<lambda>d. d = pix) ps)"
proof -
  have "map f (takeWhile (\<lambda>d. d = pix) ps) = replicate (length (takeWhile (\<lambda>d. d = pix) ps)) (f pix)"
    by (induction ps) auto
  then show ?thesis by (metis append_Cons list.simps(9) map_append replicate_Suc takeWhile_dropWhile_id)
qed


lemma length_run: "length ps = length (takeWhile P ps) + length (dropWhile P ps)"
  by (metis length_append takeWhile_dropWhile_id)

lemma plain_rle_read:
  "(\<And>p. length (wr p) = k) \<Longrightarrow> plain_rle k (length ps) (concat (rle_runs wr False ph ps) @ r) = (map wr ps, r)"
proof (induction wr "False" ph ps rule: rle_runs.induct)
  case (1 wr ph)
  then show ?case by (subst plain_rle.simps) simp
next
  case (2 wr ph pix ps)
  define l where "l = length (takeWhile (\<lambda>d. d = pix) ps)"
  define qs where "qs = dropWhile (\<lambda>d. d = pix) ps"
  have e: "concat (rle_runs wr False ph (pix # ps)) = wr pix @ run_length l @ concat (rle_runs wr False ph qs)"
    by (simp add: Let_def l_def qs_def)
  have n: "length (pix # ps) = Suc l + length qs" using length_run [of ps "\<lambda>d. d = pix"] by (simp add: l_def qs_def)
  have IH: "plain_rle k (length qs) (concat (rle_runs wr False ph qs) @ r) = (map wr qs, r)"
    unfolding qs_def by (rule 2(1)) (use 2(2) in simp_all)
  have "plain_rle k (length (pix # ps)) (concat (rle_runs wr False ph (pix # ps)) @ r) =
    (replicate (Suc l) (wr pix) @ map wr qs, r)"
    unfolding e n by (subst plain_rle.simps) (simp add: 2(2) read_run_length IH)
  then show ?case unfolding map_run l_def qs_def .
qed

lemma index_byte: "j < 128 \<Longrightarrow> unat (word_of_int (int j) :: u8) = j"
  by (simp add: unat_of_nat)

lemma index_byte_128: 
  assumes "j < 128" shows "unat (word_of_int (int j) OR 128 :: u8) = j + 128"
proof -
  have "list_all (\<lambda>j. unat (word_of_int (int j) OR 128 :: u8) = j + 128) [0..<128]" by code_simp
  then show ?thesis using assms by (simp add: list_all_iff)
qed

text \<open>The pixels of a tile are looked up: each has an index, under which the palette sent has its bytes.\<close>

definition indexed :: "(u32 \<Rightarrow> u8 list) \<Rightarrow> PaletteHelper \<Rightarrow> u8 list list \<Rightarrow> u32 list \<Rightarrow> bool" where
  "indexed wr ph pal ps \<longleftrightarrow> (\<forall>p \<in> set ps. \<exists>j < length pal. lookup ph p = int j \<and> pal ! j = wr p)"

lemma palette_rle_single:
  assumes "j < 128"
  shows "palette_rle pal (Suc n) (word_of_int (int j) # bs) = (case palette_rle pal n bs of (ps, r) \<Rightarrow> (pal ! j # ps, r))"
  using assms by (subst palette_rle.simps) (simp only: nth_Cons_0 index_byte Let_def, simp)

lemma palette_rle_run:
  assumes "j < 128"
  shows "palette_rle pal (Suc l + n) ((word_of_int (int j) OR 128) # run_length l @ bs) =
    (case palette_rle pal n bs of (ps, r) \<Rightarrow> (replicate (Suc l) (pal ! j) @ ps, r))"
  using assms by (subst palette_rle.simps) (simp only: nth_Cons_0 index_byte_128 Let_def, simp add: read_run_length)

lemma palette_rle_read:
  "indexed wr ph pal ps \<Longrightarrow> length pal < 128 \<Longrightarrow> palette_rle pal (length ps) (concat (rle_runs wr True ph ps) @ r) = (map wr ps, r)"
proof (induction wr "True" ph ps rule: rle_runs.induct)
  case (1 wr ph)
  then show ?case by (subst palette_rle.simps) simp
next
  case (2 wr ph pix ps)
  define l where "l = length (takeWhile (\<lambda>d. d = pix) ps)"
  define qs where "qs = dropWhile (\<lambda>d. d = pix) ps"
  obtain j where j: "j < length pal" "lookup ph pix = int j" "pal ! j = wr pix" using 2(2) by (auto simp: indexed_def)
  have j128: "j < 128" using j(1) 2(3) by simp
  have n: "length (pix # ps) = Suc l + length qs" using length_run [of ps "\<lambda>d. d = pix"] by (simp add: l_def qs_def)
  have "indexed wr ph pal qs" using 2(2) unfolding indexed_def qs_def by (auto dest: set_dropWhileD)
  then have IH: "palette_rle pal (length qs) (concat (rle_runs wr True ph qs) @ r) = (map wr qs, r)"
    unfolding qs_def by (rule 2(1)[rotated -2]) (use 2(3) in simp_all)
  have e: "concat (rle_runs wr True ph (pix # ps)) =
    (if l = 0 then [word_of_int (int j)] else if l = 1 then [word_of_int (int j), word_of_int (int j)]
     else (word_of_int (int j) OR 128) # run_length l) @ concat (rle_runs wr True ph qs)"
    by (simp add: Let_def l_def [symmetric] qs_def [symmetric] j(2))
  have "palette_rle pal (Suc l + length qs) (concat (rle_runs wr True ph (pix # ps)) @ r) = (replicate (Suc l) (wr pix) @ map wr qs, r)"
  proof -
    consider "l = 0" | "l = 1" | "l > 1" by linarith
    then show ?thesis
    proof cases
      case 3
      have "palette_rle pal (Suc l + length qs) ((word_of_int (int j) OR 128) # run_length l @ concat (rle_runs wr True ph qs) @ r) =
        (replicate (Suc l) (wr pix) @ map wr qs, r)"
        by (subst palette_rle_run [OF j128]) (simp add: IH j(3))
      then show ?thesis unfolding e using 3 by simp
    qed (simp_all only: e, simp_all add: palette_rle_single [OF j128] IH j(3) del: of_int_of_nat_eq)
  qed
  then show ?case unfolding n map_run l_def [symmetric] qs_def [symmetric] .
qed


text \<open>Packed rows: \<open>b\<close> bits per index, \<open>q\<close> indices per byte.\<close>

lemma pushed_field:
  assumes "m * b \<le> 8" "i < m"
  shows "take_bit b (drop_bit (8 - b - i * b) (push_bit (8 - m * b) x)) = take_bit b (drop_bit ((m - 1 - i) * b) (x :: u8))"
proof -
  define c where "c = (m - 1 - i) * b"
  have "m = (m - 1 - i) + 1 + i" using assms(2) by simp
  then have "m * b = c + b + i * b" unfolding c_def by (metis add_mult_distrib mult_1)
  then have s: "8 - b - i * b = (8 - m * b) + c" "c + b \<le> m * b" using assms(1) by simp_all
  show ?thesis unfolding s(1) c_def [symmetric]
    by (rule bit_word_eqI) (use s(2) assms(1) in \<open>auto simp: bit_take_bit_iff bit_drop_bit_eq bit_push_bit_iff\<close>)
qed

lemma older_field:
  assumes "(m + 1) * b \<le> 8" "i < m" "take_bit b y = y"
  shows "take_bit b (drop_bit ((m - i) * b) (push_bit b x OR y)) = take_bit b (drop_bit ((m - 1 - i) * b) (x :: u8))"
proof -
  define c where "c = (m - 1 - i) * b"
  have "m - i = (m - 1 - i) + 1" using assms(2) by simp
  then have c: "(m - i) * b = c + b" unfolding c_def by (metis add_mult_distrib mult_1)
  have "(m - i) * b \<le> m * b" by (rule mult_le_mono1) simp
  then have c8: "c + b + b \<le> 8" using assms(1) c by simp
  have y: "bit y n \<Longrightarrow> n < b" for n using assms(3) by (metis bit_take_bit_iff)
  show ?thesis unfolding c c_def [symmetric]
    by (rule bit_word_eqI) (use c8 y in \<open>auto simp: bit_take_bit_iff bit_drop_bit_eq bit_push_bit_iff bit_or_iff add.commute dest: y\<close>)
qed

lemma newest_field: "take_bit b y = y \<Longrightarrow> take_bit b (push_bit b x OR y) = (y :: u8)"
  by (simp add: take_bit_or take_bit_push_bit)

lemma field_0: "take_bit b (drop_bit (0 * b) (x :: u8)) = take_bit b x" by simp

text \<open>The fields of the bytes written are those pending in \<open>byte\<close>, then the indices of the pixels.\<close>

lemma pack_row_fields:
  assumes "q * b = 8" "0 < b"
  shows "m < q \<Longrightarrow> \<forall>p \<in> set ps. take_bit b (word_of_int (lookup ph p) :: u8) = word_of_int (lookup ph p) \<Longrightarrow> i < m + length ps \<Longrightarrow>
    packed_index b (pack_row b ph ps (m * b) byte @ r) i =
      unat (if i < m then take_bit b (drop_bit ((m - 1 - i) * b) byte) else word_of_int (lookup ph (ps ! (i - m))))"
proof (induction ps arbitrary: m byte i)
  case Nil
  then have i: "i < m" by simp
  have mb: "m * b < 8" using Nil(1) assms by (metis mult_less_mono1)
  have ib: "i * b < 8" by (rule less_trans [OF mult_less_mono1 [OF i assms(2)] mb])
  have "packed_index b (pack_row b ph [] (m * b) byte @ r) i =
    unat (take_bit b (drop_bit (8 - b - i * b) (push_bit (8 - m * b) byte)))"
    using i ib assms(2) by (simp add: packed_index_def)
  then show ?case using pushed_field [of m b i byte] mb i by simp
next
  case (Cons pix ps)
  define y :: u8 where "y = word_of_int (lookup ph pix)"
  define byte' where "byte' = push_bit b byte OR y"
  have y: "take_bit b y = y" using Cons.prems(2) by (simp add: y_def)
  have Suc_m: "m * b + b = (m + 1) * b" by simp
  have mb: "(m + 1) * b \<le> 8" using Cons.prems(1) assms(1) by (metis Suc_eq_plus1 Suc_leI mult_le_mono1)
  have field: "take_bit b (drop_bit ((m - i) * b) byte') = (if i < m then take_bit b (drop_bit ((m - 1 - i) * b) byte) else y)"
    if "i < m + 1" for i
  proof (cases "i < m")
    case True
    then show ?thesis unfolding byte'_def by (simp only: older_field [OF mb True y] if_True)
  next
    case False
    then have "m - i = 0" by simp
    then show ?thesis unfolding byte'_def using False by (simp only: field_0 newest_field [OF y] if_False)
  qed
  show ?case
  proof (cases "(m + 1) * b \<ge> 8")
    case True
    then have q: "q = m + 1" using mb assms by (metis le_antisym mult_right_cancel not_gr_zero)
    have e: "pack_row b ph (pix # ps) (m * b) byte = byte' # pack_row b ph ps (0 * b) byte'"
      using True by (simp add: Let_def byte'_def y_def)
    show ?thesis
    proof (cases "i < q")
      case i: True
      have ib: "i * b < 8" using mult_less_mono1 [OF i assms(2)] assms(1) by simp
      have "m - i = q - 1 - i" "q * b = 8" using q assms(1) by simp_all
      have "8 - b - i * b = (m - i) * b" using assms(1) q i by (metis Suc_eq_plus1 add_diff_cancel_right' diff_mult_distrib mult_1)
      then have "packed_index b (pack_row b ph (pix # ps) (m * b) byte @ r) i = unat (take_bit b (drop_bit ((m - i) * b) byte'))"
        unfolding e packed_index_def using ib by simp
      then show ?thesis using field [of i] i q by (auto simp: y_def)
    next
      case i: False
      define i' where "i' = i - q"
      have ii: "i = i' + q" using i by (simp add: i'_def)
      have ib: "i * b = i' * b + 8" unfolding ii by (simp add: add_mult_distrib assms(1))
      have "i * b div 8 = Suc (i' * b div 8)" "i * b mod 8 = i' * b mod 8" unfolding ib by simp_all
      then have "packed_index b (pack_row b ph (pix # ps) (m * b) byte @ r) i =
        packed_index b (pack_row b ph ps (0 * b) byte' @ r) i'"
        unfolding e packed_index_def by simp
      also have "\<dots> = unat (word_of_int (lookup ph (ps ! i')) :: u8)"
        using Cons.IH [of 0 i' byte'] Cons.prems ii q by auto
      also have "ps ! i' = (pix # ps) ! (i - m)" using ii q by (simp add: nth_Cons')
      finally show ?thesis using ii q by simp
    qed
  next
    case False
    then have lt: "m + 1 < q" using assms by (metis mult_le_mono1 not_le)
    have e: "pack_row b ph (pix # ps) (m * b) byte = pack_row b ph ps ((m + 1) * b) byte'"
      using False unfolding Suc_m [symmetric] by (simp add: Let_def byte'_def y_def)
    have "packed_index b (pack_row b ph (pix # ps) (m * b) byte @ r) i =
      unat (if i < m + 1 then take_bit b (drop_bit ((m - i) * b) byte') else word_of_int (lookup ph (ps ! (i - (m + 1)))))"
      unfolding e using Cons.IH [OF lt, of i byte'] Cons.prems by simp
    also have "\<dots> = unat (if i < m then take_bit b (drop_bit ((m - 1 - i) * b) byte) else word_of_int (lookup ph ((pix # ps) ! (i - m))))"
      using field [of i] by (auto simp: y_def nth_Cons')
    finally show ?thesis .
  qed
qed

lemma length_pack_row:
  assumes "q * b = 8" "0 < b"
  shows "m < q \<Longrightarrow> length (pack_row b ph ps (m * b) byte) = ((m + length ps) * b + 7) div 8"
proof (induction ps arbitrary: m byte)
  case Nil
  have "m * b < 8" using Nil assms by (metis mult_less_mono1)
  then show ?case using assms(2) by (auto simp: div_eq_dividend_iff intro!: div_nat_eqI [symmetric])
next
  case (Cons pix ps)
  have Suc_m: "m * b + b = (m + 1) * b" by simp
  have mb: "(m + 1) * b \<le> 8" using Cons.prems(1) assms(1) by (metis Suc_eq_plus1 Suc_leI mult_le_mono1)
  show ?case
  proof (cases "(m + 1) * b \<ge> 8")
    case True
    then have q: "q = m + 1" using mb assms by (metis le_antisym mult_right_cancel not_gr_zero)
    have "length (pack_row b ph (pix # ps) (m * b) byte) = Suc ((length ps * b + 7) div 8)"
      using True Cons.IH [of 0] q by (simp add: Let_def)
    moreover have "(m + length (pix # ps)) * b = length ps * b + 8" using q assms(1) by (simp add: add_mult_distrib)
    ultimately show ?thesis by simp
  next
    case False
    then have lt: "m + 1 < q" using assms by (metis mult_le_mono1 not_le)
    have "length (pack_row b ph (pix # ps) (m * b) byte) = ((m + 1 + length ps) * b + 7) div 8"
      using False Cons.IH [OF lt] unfolding Suc_m [symmetric] by (simp add: Let_def)
    then show ?thesis by simp
  qed
qed


lemma take_bit_index: "j < 2 ^ b \<Longrightarrow> take_bit b (word_of_int (int j) :: u8) = word_of_int (int j)"
proof -
  assume "j < 2 ^ b"
  then have "take_bit b (take_bit 8 j) = take_bit 8 j" by (metis min.commute take_bit_nat_eq_self take_bit_take_bit)
  then have "unat (take_bit b (of_nat j :: u8)) = unat (of_nat j :: u8)" by (simp add: unsigned_take_bit_eq unsigned_of_nat)
  then show ?thesis by (simp only: of_int_of_nat_eq word_unat_eq_iff)
qed

lemma pack_rows_read:
  assumes "q * b = 8" "0 < b" "indexed wr ph pal ps" "length pal \<le> 2 ^ b" "length pal < 128" "length ps = w * h"
  shows "packed_rows b pal h w (pack_rows b ph h w ps @ r) = (map wr ps, r)"
  using assms(3,6)
proof (induction h arbitrary: ps)
  case 0
  then show ?case by simp
next
  case (Suc h)
  have q: "0 < q" using assms(1) by (cases q) auto
  define row where "row = take w ps"
  have row: "length row = w" "row @ drop w ps = ps" using Suc.prems(2) by (simp_all add: row_def)
  have ix: "indexed wr ph pal row" "indexed wr ph pal (drop w ps)" using Suc.prems(1)
    by (auto simp: indexed_def row_def dest: in_set_takeD in_set_dropD)
  have bits: "\<forall>p \<in> set row. take_bit b (word_of_int (lookup ph p) :: u8) = word_of_int (lookup ph p)"
  proof
    fix p assume "p \<in> set row"
    then obtain j where "j < length pal" "lookup ph p = int j" using ix(1) by (auto simp: indexed_def)
    then show "take_bit b (word_of_int (lookup ph p) :: u8) = word_of_int (lookup ph p)"
      using assms(4) take_bit_index [of j b] by simp
  qed
  have "pal ! packed_index b (pack_row b ph row 0 0 @ t) i = wr (row ! i)" if i: "i < w" for i t
  proof -
    obtain j where j: "j < length pal" "lookup ph (row ! i) = int j" "pal ! j = wr (row ! i)"
      using ix(1) i row(1) by (force simp: indexed_def)
    have "packed_index b (pack_row b ph row (0 * b) 0 @ t) i = unat (word_of_int (lookup ph (row ! i)) :: u8)"
      using pack_row_fields [OF assms(1,2) q bits, of i 0 t] i row(1) by simp
    then show ?thesis using j assms(5) index_byte [of j] by simp
  qed
  then have "map (\<lambda>i. pal ! packed_index b (pack_row b ph row 0 0 @ t) i) [0..<w] = map wr row" for t
    using row(1) by (intro nth_equalityI) simp_all
  moreover have "length (pack_row b ph row 0 0) = (w * b + 7) div 8"
    using length_pack_row [OF assms(1,2) q, of ph row 0] row(1) by simp
  moreover have "packed_rows b pal h w (pack_rows b ph h w (drop w ps) @ r) = (map wr (drop w ps), r)"
    by (rule Suc.IH) (use ix(2) Suc.prems(2) in simp_all)
  ultimately have "packed_rows b pal (Suc h) w (pack_rows b ph (Suc h) w ps @ r) = (map wr row @ map wr (drop w ps), r)"
    by (simp add: row_def [symmetric])
  then show ?case unfolding map_append [symmetric] row(2) .
qed

section \<open>The choice\<close>

lemma choose_form_limits:
  assumes "choose_form bppout n runs singlePixels colours = (useRle, usePalette)"
  shows "usePalette \<Longrightarrow> colours < 128" "usePalette \<Longrightarrow> \<not> useRle \<Longrightarrow> colours < 17"
  using assms by (auto simp: choose_form_def Let_def split: if_splits)

lemma packed_bits_table:
  assumes "1 < n" "n < 17" shows "bitsPerPackedPixel ! (n - 1) = packed_bits n \<and> n \<le> 2 ^ packed_bits n"
proof -
  have "list_all (\<lambda>n. bitsPerPackedPixel ! (n - 1) = packed_bits n \<and> n \<le> 2 ^ packed_bits n) [2..<17]" by code_simp
  then have "\<forall>n \<in> {2..<17}. bitsPerPackedPixel ! (n - 1) = packed_bits n \<and> n \<le> 2 ^ packed_bits n"
    unfolding list_all_iff set_upt .
  then show ?thesis using assms by auto
qed

lemma packed_bits_divides: "(8 div packed_bits n) * packed_bits n = 8" "0 < packed_bits n"
  by (simp_all add: packed_bits_def)

lemma length_WRITE_PIXEL: "length (WRITE_PIXEL c le p) = BPPOUT c div 8"
  by (simp add: WRITE_PIXEL_def BPPOUT_def BPP_def split: cpixel.split)


lemma lookup_size [simp]: "lookup (ph\<lparr>palette_size := n\<rparr>) p = lookup ph p"
proof -
  have "probe (ph\<lparr>palette_size := n\<rparr>) p i = probe ph p i" for i
    by (induction ph p i rule: probe.induct) (subst (1 2) probe.simps, simp)
  then show ?thesis by (simp add: lookup_def Let_def)
qed

text \<open>What the first loop leaves: if the palette is kept, it indexes the pixels of the tile.\<close>

lemma scanned:
  assumes "scan_runs (data @ [e]) 0 0 new_palette = (runs, singlePixels, ph)" "palette_size ph < 128" "data \<noteq> []"
  shows "palette_size ph = length (palette ph)" "0 < palette_size ph" "set data \<subseteq> set (palette ph)"
    "indexed wr ph (map wr (palette ph)) data"
proof -
  have h: "holds ph \<and> (palette_size ph \<le> MAX_SIZE \<longrightarrow> set (palette new_palette) \<union> set (butlast (data @ [e])) \<subseteq> set (palette ph))"
    using scan_holds [OF assms(1) new_holds] by blast
  then show n: "palette_size ph = length (palette ph)" and s: "set data \<subseteq> set (palette ph)"
    using assms(2) by (auto simp: holds_def MAX_SIZE_def)
  have "set data \<noteq> {}" using assms(3) by simp
  then have "palette ph \<noteq> []" using s by auto
  then show "0 < palette_size ph" using n by simp
  show "indexed wr ph (map wr (palette ph)) data"
    unfolding indexed_def
  proof
    fix p assume "p \<in> set data"
    then have "p \<in> set (palette ph)" using s by blast
    then obtain j where "j < length (palette ph)" "palette ph ! j = p" "lookup ph p = int j" using lookup_known h by blast
    then show "\<exists>j < length (map wr (palette ph)). lookup ph p = int j \<and> map wr (palette ph) ! j = wr p"
      by (intro exI [of _ j]) simp
  qed
qed

lemma subencoding_byte:
  assumes "n < 128"
  shows "unat ((if rle then 128 else 0) OR of_nat n :: u8) = (if rle then n + 128 else n)"
proof -
  have "list_all (\<lambda>n. unat ((if rle then 128 else 0) OR of_nat n :: u8) = (if rle then n + 128 else n)) [0..<128]"
    by (cases rle) (simp_all only: if_True if_False, code_simp+)
  then have "\<forall>n \<in> {0..<128}. unat ((if rle then 128 else 0) OR of_nat n :: u8) = (if rle then n + 128 else n)"
    unfolding list_all_iff set_upt .
  then show ?thesis using assms by auto
qed

definition zrle_round_trip :: "cpixel \<Rightarrow> bool \<Rightarrow> u32 list \<Rightarrow> nat \<Rightarrow> nat \<Rightarrow> u8 list \<Rightarrow> bool" where
  "zrle_round_trip c le data w h rest \<longleftrightarrow>
     decode_zrle_tile (BPPOUT c div 8) w h (concat (ZRLE_ENCODE_TILE c le data w h) @ rest) = (map (WRITE_PIXEL c le) data, rest)"

text \<open>The bytes of a tile with more than one colour, and how the viewer takes them apart.\<close>

lemma tile_bytes:
  assumes "scan_runs (data @ [past_end c data]) 0 0 new_palette = (runs, singlePixels, ph)" "palette_size ph \<noteq> 1"
    and "choose_form (BPPOUT c) (w * h) runs singlePixels (palette_size ph) = (useRle, usePalette)"
  shows "concat (ZRLE_ENCODE_TILE c le data w h) =
    ((if useRle then 128 else 0) OR of_nat (if usePalette then palette_size ph else 0)) #
    (if usePalette then concat (map (WRITE_PIXEL c le) (take (palette_size ph) (palette ph))) else []) @
    (if useRle then concat (rle_runs (WRITE_PIXEL c le) usePalette (if usePalette then ph else ph\<lparr>palette_size := 0\<rparr>) data)
     else if usePalette then pack_rows (bitsPerPackedPixel ! (palette_size ph - 1)) ph h w data
     else concat (map (WRITE_PIXEL c le) data))"
  using assms(2) by (cases usePalette; cases useRle) (simp_all add: ZRLE_ENCODE_TILE_def assms(1,3) Let_def)

lemma decode_tile:
  assumes "n < 128" "n \<noteq> 1"
  shows "decode_zrle_tile k w h (((if useRle then 128 else 0) OR of_nat n) # bs) =
    (if useRle then if n = 0 then plain_rle k (w * h) bs else (case read_pixels k n bs of (pal, bs) \<Rightarrow> palette_rle pal (w * h) bs)
     else if n = 0 then read_pixels k (w * h) bs
     else (case read_pixels k n bs of (pal, bs) \<Rightarrow> packed_rows (packed_bits n) pal h w bs))"
proof -
  define b :: u8 where "b = (if useRle then 128 else 0) OR of_nat n"
  have "unat b = (if useRle then n + 128 else n)" unfolding b_def by (rule subencoding_byte [OF assms(1)])
  then show ?thesis unfolding b_def [symmetric] using assms
    by (cases useRle) (simp_all add: decode_zrle_tile_def Let_def)
qed

lemma zrle_tile:
  assumes "data \<noteq> []" "length data = w * h"
  shows "zrle_round_trip c le data w h rest"
proof -
  let ?wr = "WRITE_PIXEL c le" and ?k = "BPPOUT c div 8"
  obtain runs singlePixels ph where sc: "scan_runs (data @ [past_end c data]) 0 0 new_palette = (runs, singlePixels, ph)"
    by (metis prod_cases3)
  have pix: "read_pixels ?k (length ps) (concat (map ?wr ps) @ r) = (map ?wr ps, r)" for ps r
    by (rule read_pixels_concat) (rule length_WRITE_PIXEL)
  show ?thesis
  proof (cases "palette_size ph = 1")
    case True
    then have "length (palette ph) = 1" "set data \<subseteq> set (palette ph)" using scanned [OF sc _ assms(1)] by simp_all
    then obtain p where p: "palette ph = [p]" "set data \<subseteq> {p}" by (metis One_nat_def length_0_conv length_Suc_conv list.simps(15) set_empty)
    have "data = replicate (w * h) p" by (rule replicate_eqI) (use p(2) assms(2) in auto)
    then have "map ?wr data = replicate (w * h) (?wr p)" by simp
    then show ?thesis using True p(1)
      by (simp add: zrle_round_trip_def ZRLE_ENCODE_TILE_def sc decode_zrle_tile_def length_WRITE_PIXEL)
  next
    case False
    obtain useRle usePalette where ch: "choose_form (BPPOUT c) (w * h) runs singlePixels (palette_size ph) = (useRle, usePalette)"
      by fastforce
    note bytes = tile_bytes [OF sc False ch]
    show ?thesis
    proof (cases usePalette)
      case up: True
      define n where "n = palette_size ph"
      have small: "n < 128" "\<not> useRle \<Longrightarrow> n < 17" using choose_form_limits [OF ch] up by (simp_all add: n_def)
      note sp = scanned [OF sc small(1) [unfolded n_def] assms(1), folded n_def]
      have n: "1 < n" using False sp(2) by (simp add: n_def)
      have pal: "read_pixels ?k n (concat (map ?wr (take n (palette ph))) @ r) = (map ?wr (palette ph), r)" for r
        using pix [of "palette ph" r] sp(1) by simp
      have dec: "decode_zrle_tile ?k w h (concat (ZRLE_ENCODE_TILE c le data w h) @ rest) =
        (if useRle then palette_rle (map ?wr (palette ph)) (w * h) (concat (rle_runs ?wr True ph data) @ rest)
         else packed_rows (packed_bits n) (map ?wr (palette ph)) h w (pack_rows (bitsPerPackedPixel ! (n - 1)) ph h w data @ rest))"
        unfolding bytes n_def [symmetric] using up n small(1) by (simp add: decode_tile pal)
      show ?thesis
      proof (cases useRle)
        case True
        have "palette_rle (map ?wr (palette ph)) (w * h) (concat (rle_runs ?wr True ph data) @ rest) = (map ?wr data, rest)"
          unfolding assms(2) [symmetric] by (rule palette_rle_read [OF sp(4)]) (use sp(1) small in simp)
        then show ?thesis unfolding zrle_round_trip_def dec using True by simp
      next
        case nr: False
        note b = packed_bits_table [OF n small(2) [OF nr]]
        have "packed_rows (packed_bits n) (map ?wr (palette ph)) h w (pack_rows (packed_bits n) ph h w data @ rest) = (map ?wr data, rest)"
          by (rule pack_rows_read [OF packed_bits_divides sp(4)]) (use b sp(1) small(1) assms(2) in auto)
        then show ?thesis unfolding zrle_round_trip_def dec using nr b by simp
      qed
    next
      case np: False
      have "plain_rle ?k (w * h) (concat (rle_runs ?wr False (ph\<lparr>palette_size := 0\<rparr>) data) @ rest) = (map ?wr data, rest)"
        unfolding assms(2) [symmetric] by (rule plain_rle_read) (rule length_WRITE_PIXEL)
      moreover have "read_pixels ?k (w * h) (concat (map ?wr data) @ rest) = (map ?wr data, rest)"
        unfolding assms(2) [symmetric] by (rule pix)
      moreover have "decode_zrle_tile ?k w h (concat (ZRLE_ENCODE_TILE c le data w h) @ rest) =
        (if useRle then plain_rle ?k (w * h) (concat (rle_runs ?wr False (ph\<lparr>palette_size := 0\<rparr>) data) @ rest)
         else read_pixels ?k (w * h) (concat (map ?wr data) @ rest))"
        unfolding bytes using np decode_tile [of 0 ?k w h useRle] by simp
      ultimately show ?thesis unfolding zrle_round_trip_def by simp
    qed
  qed
qed

section \<open>The property\<close>

text \<open>
  C14: A tile is sent in one of five forms, and the viewer reads it back. Whatever its pixels and its
  size, the bytes that ZRLE_ENCODE_TILE writes, followed by any others, are taken apart by the subencoding
  byte into exactly the pixels of the tile, in the bytes that the instance of the template sends of each,
  and the others are left. The hash table finds every pixel of a palette, and stays within its arrays.
\<close>

theorem zrle_tile_round_trip:
  assumes "data \<noteq> []" "length data = w * h"
  shows "decode_zrle_tile (BPPOUT c div 8) w h (concat (ZRLE_ENCODE_TILE c le data w h) @ rest) =
    (map (WRITE_PIXEL c le) data, rest)"
  using zrle_tile [OF assms] unfolding zrle_round_trip_def .

theorem zrle_tile_round_trip_witness:
  "decode_zrle_tile 3 3 2 (concat (ZRLE_ENCODE_TILE Pixel24A True [1, 1, 2, 1, 3, 3] 3 2) @ [9]) =
    (map (WRITE_PIXEL Pixel24A True) [1, 1, 2, 1, 3, 3], [9])"
  using zrle_tile_round_trip [of "[1, 1, 2, 1, 3, 3]" 3 2 Pixel24A True "[9]"] by (simp add: BPPOUT_def)

end
