(* ===== verification/Zrlesend.thy ===== *)
theory Zrlesend
  imports Zrle Updatespec
begin

text \<open>
  Sending a rectangle in ZRLE: rfbSendRectEncodingZRLE of \<^verbatim>\<open>OSXvnc-server/zrle.cc\<close>, the tiles of
  \<^verbatim>\<open>zrleEncode.h\<close>, and the stream they are written to, ZlibOutStream over a MemOutStream that grows
  (\<^verbatim>\<open>rdr/ZlibOutStream.cxx\<close>, \<^verbatim>\<open>rdr/OutStream.h\<close>). The compressor is zlib's: the parameter \<open>zdeflate\<close> gives
  all that \<open>deflate\<close> puts out for a block, with a sync flush or without one, after the calls before it,
  or nothing if it reports an error.
\<close>

section \<open>The stream\<close>

type_synonym zdeflater = "(bool \<times> u8 list) list \<Rightarrow> bool \<Rightarrow> u8 list \<Rightarrow> u8 list option"

type_synonym zos = "ZlibOutStream \<times> u8 list"

definition DEFAULT_BUF_SIZE :: nat where "DEFAULT_BUF_SIZE = 16384"

definition new_ZlibOutStream :: ZlibOutStream where
  "new_ZlibOutStream = \<lparr>buffered = [], deflated = []\<rparr>"

text \<open>One round of \<open>overrun\<close> or \<open>flush\<close>: what is in the buffer goes through \<open>deflate\<close>; an error is thrown.\<close>

definition zos_deflate :: "zdeflater \<Rightarrow> bool \<Rightarrow> zos \<Rightarrow> zos option" where
  "zos_deflate zdeflate sync = (\<lambda>(z, mos).
    case zdeflate (deflated z) sync (buffered z) of
      None \<Rightarrow> None
    | Some out \<Rightarrow> Some (\<lparr>buffered = [], deflated = deflated z @ [(sync, buffered z)]\<rparr>, mos @ out))"

text \<open>\<open>check\<close> makes room for an item, which is then put into the buffer.\<close>

definition zos_write :: "zdeflater \<Rightarrow> u8 list \<Rightarrow> zos \<Rightarrow> zos option" where
  "zos_write zdeflate item = (\<lambda>(z, mos).
    case (if length (buffered z) + length item > DEFAULT_BUF_SIZE then zos_deflate zdeflate False (z, mos) else Some (z, mos)) of
      None \<Rightarrow> None
    | Some (z, mos) \<Rightarrow> Some (z\<lparr>buffered := buffered z @ item\<rparr>, mos))"

fun zos_write_all :: "zdeflater \<Rightarrow> u8 list list \<Rightarrow> zos \<Rightarrow> zos option" where
  "zos_write_all zdeflate [] zs = Some zs"
| "zos_write_all zdeflate (i # is) zs =
    (case zos_write zdeflate i zs of None \<Rightarrow> None | Some zs \<Rightarrow> zos_write_all zdeflate is zs)"

definition zos_flush :: "zdeflater \<Rightarrow> zos \<Rightarrow> zos option" where
  "zos_flush zdeflate zs = (if buffered (fst zs) \<noteq> [] then zos_deflate zdeflate True zs else Some zs)"

section \<open>The tiles\<close>

definition rfbZRLETileWidth :: nat where "rfbZRLETileWidth = 64"
definition rfbZRLETileHeight :: nat where "rfbZRLETileHeight = 64"

text \<open>The two loops: the tiles from \<open>tx\<close> on in a row of \<open>w\<close> remaining pixels, and the rows.\<close>

function tile_row :: "nat \<Rightarrow> nat \<Rightarrow> nat \<Rightarrow> nat \<Rightarrow> rect list" where
  "tile_row tx ty w th =
    (if w = 0 then []
     else let tw = (if rfbZRLETileWidth > w then w else rfbZRLETileWidth)
          in (tx, ty, tw, th) # tile_row (tx + rfbZRLETileWidth) ty (w - rfbZRLETileWidth) th)"
  by pat_completeness auto
termination by (relation "measure (\<lambda>(_, _, w, _). w)") (auto simp: rfbZRLETileWidth_def)

function tile_rows :: "nat \<Rightarrow> nat \<Rightarrow> nat \<Rightarrow> nat \<Rightarrow> rect list" where
  "tile_rows x ty w h =
    (if h = 0 then []
     else let th = (if rfbZRLETileHeight > h then h else rfbZRLETileHeight)
          in tile_row x ty w th @ tile_rows x (ty + rfbZRLETileHeight) w (h - rfbZRLETileHeight))"
  by pat_completeness auto
termination by (relation "measure (\<lambda>(_, _, _, h). h)") (auto simp: rfbZRLETileHeight_def)

declare tile_row.simps [simp del] tile_rows.simps [simp del]

text \<open>The pixels that GET_IMAGE_INTO_BUF leaves in the buffer, as the pointer to \<open>PIXEL_T\<close> reads them.\<close>

definition zrle_pixels :: "cpixel \<Rightarrow> server \<Rightarrow> rfbClientRec \<Rightarrow> rect \<Rightarrow> u32 list" where
  "zrle_pixels c srv cl = (\<lambda>(tx, ty, tw, th).
    let buf = pixels_at srv cl (fbptr srv cl tx ty) tw th
    in map (\<lambda>i. load_pixel (littleEndian srv) (BPP c) (\<lambda>a. buf ! a) (i * (BPP c div 8))) [0..<tw * th])"

definition zrle_items :: "cpixel \<Rightarrow> server \<Rightarrow> rfbClientRec \<Rightarrow> rect list \<Rightarrow> u8 list list" where
  "zrle_items c srv cl rs =
    concat (map (\<lambda>r. case r of (tx, ty, tw, th) \<Rightarrow> ZRLE_ENCODE_TILE c (littleEndian srv) (zrle_pixels c srv cl r) tw th) rs)"

definition ZRLE_ENCODE :: "zdeflater \<Rightarrow> cpixel \<Rightarrow> server \<Rightarrow> rfbClientRec \<Rightarrow> nat \<Rightarrow> nat \<Rightarrow> nat \<Rightarrow> nat \<Rightarrow> zos \<Rightarrow> zos option" where
  "ZRLE_ENCODE zdeflate c srv cl x y w h zs =
    (case zos_write_all zdeflate (zrle_items c srv cl (tile_rows x y w h)) zs of
       None \<Rightarrow> None | Some zs \<Rightarrow> zos_flush zdeflate zs)"

section \<open>The rectangle\<close>

text \<open>
  \<open>max << shift\<close> in an int of 32 bits, which drops what does not fit; for a shift that is not less than
  the width \<open>shl\<close> stands for what the machine makes of it.
\<close>

definition int_shl :: "(nat \<Rightarrow> nat \<Rightarrow> int) \<Rightarrow> nat \<Rightarrow> nat \<Rightarrow> int" where
  "int_shl shl mx sh = (if sh < 32 then sint (push_bit sh (of_nat mx :: 32 word)) else shl mx sh)"

text \<open>Which instance of the template a format takes; none for other sizes of pixels.\<close>

definition zrle_cpixel :: "(nat \<Rightarrow> nat \<Rightarrow> int) \<Rightarrow> rfbPixelFormat \<Rightarrow> cpixel option" where
  "zrle_cpixel shl f =
    (if bitsPerPixel f = 8 then Some Pixel8
     else if bitsPerPixel f = 16 then Some Pixel16
     else if bitsPerPixel f = 32 then
       let fitsInLS3Bytes = (int_shl shl (redMax f) (redShift f) < 2 ^ 24 \<and> int_shl shl (greenMax f) (greenShift f) < 2 ^ 24 \<and>
             int_shl shl (blueMax f) (blueShift f) < 2 ^ 24);
           fitsInMS3Bytes = (redShift f > 7 \<and> greenShift f > 7 \<and> blueShift f > 7)
       in if fitsInLS3Bytes \<and> \<not> bigEndian f \<or> fitsInMS3Bytes \<and> bigEndian f then Some Pixel24A
          else if fitsInLS3Bytes \<and> bigEndian f \<or> fitsInMS3Bytes \<and> \<not> bigEndian f then Some Pixel24B
          else Some Pixel32
     else None)"

definition sz_rfbZRLEHeader :: nat where "sz_rfbZRLEHeader = 4"

text \<open>An exception leaves the C++ function for a thread of C code that does not catch it: the process ends.\<close>

definition rfbSendRectEncodingZRLE ::
    "zdeflater \<Rightarrow> (nat \<Rightarrow> nat \<Rightarrow> int) \<Rightarrow> server \<Rightarrow> nat \<Rightarrow> nat \<Rightarrow> nat \<Rightarrow> nat \<Rightarrow> rfbClientRec \<Rightarrow> bool \<times> rfbClientRec" where
  "rfbSendRectEncodingZRLE zdeflate shl srv x y w h cl =
    (let zos = (case zrleData cl of None \<Rightarrow> new_ZlibOutStream | Some zos \<Rightarrow> zos) in
     case (case zrle_cpixel shl (format cl) of
             None \<Rightarrow> Some (zos, [])
           | Some c \<Rightarrow> ZRLE_ENCODE zdeflate c srv cl x y w h (zos, [])) of
       None \<Rightarrow> (False, cl\<lparr>exited := True\<rparr>)
     | Some (zos, mos) \<Rightarrow>
         let cl = cl\<lparr>zrleData := Some zos\<rparr>;
             cl = count_rect rfbEncodingZRLE (sz_rfbFramebufferUpdateRectHeader + sz_rfbZRLEHeader + length mos) cl
         in case make_room (sz_rfbFramebufferUpdateRectHeader + sz_rfbZRLEHeader) cl of
              (False, cl) \<Rightarrow> (False, cl)
            | (True, cl) \<Rightarrow>
                let cl = put_buf (rect_header (int x) (int y) (int w) (int h) rfbEncodingZRLE) cl;
                    cl = put_buf (be32 (int (length mos))) cl
                in copy_loop mos cl)"

definition FreeZrleData :: "rfbClientRec \<Rightarrow> rfbClientRec" where
  "FreeZrleData cl = cl\<lparr>zrleData := None\<rparr>"

section \<open>The tiles partition the rectangle\<close>

lemma tile_row_pieces:
  assumes "0 < w" "0 < th" "th \<le> 64"
  shows "tile_row tx ty w th = corre_pieces 64 64 tx ty w th"
  using assms(1)
proof (induction w arbitrary: tx rule: less_induct)
  case (less w)
  show ?case
  proof (cases "64 < w")
    case True
    then have "tile_row (tx + 64) ty (w - 64) th = corre_pieces 64 64 (tx + 64) ty (w - 64) th" using less.IH [of "w - 64"] by simp
    then show ?thesis using True assms
      by (subst tile_row.simps) (simp add: corre_pieces_cols corre_pieces_small rfbZRLETileWidth_def)
  next
    case False
    then have "tile_row (tx + 64) ty (w - 64) th = []" by (subst tile_row.simps) simp
    then show ?thesis using False less.prems assms
      by (subst tile_row.simps) (simp add: corre_pieces_small rfbZRLETileWidth_def)
  qed
qed

lemma tile_rows_pieces:
  assumes "0 < w" "0 < h"
  shows "tile_rows x ty w h = corre_pieces 64 64 x ty w h"
  using assms(2)
proof (induction h arbitrary: ty rule: less_induct)
  case (less h)
  show ?case
  proof (cases "64 < h")
    case True
    then have "tile_rows x (ty + 64) w (h - 64) = corre_pieces 64 64 x (ty + 64) w (h - 64)" using less.IH [of "h - 64"] by simp
    then show ?thesis using True assms
      by (subst tile_rows.simps) (simp add: corre_pieces_rows tile_row_pieces rfbZRLETileHeight_def)
  next
    case False
    then have "tile_rows x (ty + 64) w (h - 64) = []" by (subst tile_rows.simps) simp
    then show ?thesis using False less.prems assms
      by (subst tile_rows.simps) (simp add: tile_row_pieces rfbZRLETileHeight_def)
  qed
qed

section \<open>The stream carries its bytes\<close>

text \<open>All that a sequence of calls of \<open>deflate\<close> puts out, after those of \<open>past\<close>.\<close>

fun outputs :: "zdeflater \<Rightarrow> (bool \<times> u8 list) list \<Rightarrow> (bool \<times> u8 list) list \<Rightarrow> u8 list option" where
  "outputs zdeflate past [] = Some []"
| "outputs zdeflate past ((sync, bs) # cs) =
    (case zdeflate past sync bs of None \<Rightarrow> None
     | Some out \<Rightarrow> map_option (\<lambda>outs. out @ outs) (outputs zdeflate (past @ [(sync, bs)]) cs))"

lemma outputs_append:
  "outputs zdeflate past cs = Some a \<Longrightarrow> outputs zdeflate (past @ cs) ds = Some b \<Longrightarrow> outputs zdeflate past (cs @ ds) = Some (a @ b)"
  by (induction zdeflate past cs arbitrary: a rule: outputs.induct) (auto split: option.splits)

text \<open>
  What zlib promises: bytes that end with a sync flush can be inflated to all that went in.
\<close>

definition flushed :: "(bool \<times> u8 list) list \<Rightarrow> bool" where
  "flushed calls \<longleftrightarrow> calls = [] \<or> fst (last calls)"

definition zlib_pair :: "zdeflater \<Rightarrow> (u8 list \<Rightarrow> u8 list) \<Rightarrow> bool" where
  "zlib_pair zdeflate inflate \<longleftrightarrow>
     (\<forall>calls out. outputs zdeflate [] calls = Some out \<and> flushed calls \<longrightarrow> inflate out = concat (map snd calls))"

text \<open>From one state of the stream to another, with \<open>bs\<close> written.\<close>

definition fed :: "zdeflater \<Rightarrow> zos \<Rightarrow> u8 list \<Rightarrow> zos \<Rightarrow> bool" where
  "fed zdeflate zs bs zs' \<longleftrightarrow>
     (\<exists>calls out. deflated (fst zs') = deflated (fst zs) @ calls \<and> outputs zdeflate (deflated (fst zs)) calls = Some out \<and>
        snd zs' = snd zs @ out \<and> concat (map snd calls) @ buffered (fst zs') = buffered (fst zs) @ bs)"

lemma fed_refl: "fed zdeflate zs [] zs"
  unfolding fed_def by (intro exI [of _ "[]"]) simp

lemma fed_trans:
  assumes "fed zdeflate a bs b" "fed zdeflate b cs c"
  shows "fed zdeflate a (bs @ cs) c"
proof -
  obtain k o1 where 1: "deflated (fst b) = deflated (fst a) @ k" "outputs zdeflate (deflated (fst a)) k = Some o1"
    "snd b = snd a @ o1" "concat (map snd k) @ buffered (fst b) = buffered (fst a) @ bs"
    using assms(1) by (auto simp: fed_def)
  obtain l o2 where 2: "deflated (fst c) = deflated (fst b) @ l" "outputs zdeflate (deflated (fst b)) l = Some o2"
    "snd c = snd b @ o2" "concat (map snd l) @ buffered (fst c) = buffered (fst b) @ cs"
    using assms(2) by (auto simp: fed_def)
  have "concat (map snd (k @ l)) @ buffered (fst c) = buffered (fst a) @ bs @ cs"
    using 1(4) 2(4) by (metis append.assoc concat_append map_append)
  moreover have "outputs zdeflate (deflated (fst a)) (k @ l) = Some (o1 @ o2)"
    using outputs_append 1(1,2) 2(2) by metis
  ultimately show ?thesis unfolding fed_def using 1(1,3) 2(1,3) by (intro exI [of _ "k @ l"] exI [of _ "o1 @ o2"]) simp
qed

lemma zos_deflate_fed:
  assumes "zos_deflate zdeflate sync zs = Some zs'"
  shows "fed zdeflate zs [] zs'" "buffered (fst zs') = []" "deflated (fst zs') = deflated (fst zs) @ [(sync, buffered (fst zs))]"
  using assms by (auto simp: zos_deflate_def fed_def split: prod.splits option.splits)

lemma zos_write_fed:
  assumes "zos_write zdeflate item zs = Some zs'"
  shows "fed zdeflate zs item zs'"
proof -
  obtain z mos where zs: "zs = (z, mos)" by fastforce
  let ?r = "if length (buffered z) + length item > DEFAULT_BUF_SIZE then zos_deflate zdeflate False (z, mos) else Some (z, mos)"
  obtain z1 m1 where r: "?r = Some (z1, m1)" using assms by (auto simp: zs zos_write_def split: option.splits)
  then have "fed zdeflate (z, mos) [] (z1, m1)" by (auto dest: zos_deflate_fed(1) intro: fed_refl split: if_splits)
  moreover have e: "zs' = (z1\<lparr>buffered := buffered z1 @ item\<rparr>, m1)"
    using assms unfolding zs zos_write_def prod.case r by simp
  have "fed zdeflate (z1, m1) item zs'"
    unfolding fed_def e by (intro exI [of _ "[]"]) simp
  ultimately have "fed zdeflate (z, mos) ([] @ item) zs'" by (rule fed_trans)
  then show ?thesis by (simp add: zs)
qed

lemma zos_write_all_buffered:
  "zos_write_all zdeflate is zs = Some zs' \<Longrightarrow> [] \<notin> set is \<Longrightarrow> buffered (fst zs') = [] \<Longrightarrow> zs' = zs"
proof (induction "is" arbitrary: zs)
  case (Cons i "is")
  then obtain z1 where z1: "zos_write zdeflate i zs = Some z1" "zos_write_all zdeflate is z1 = Some zs'" by (auto split: option.splits)
  have "buffered (fst z1) \<noteq> []" using z1(1) Cons.prems(2) by (auto simp: zos_write_def split: prod.splits option.splits)
  moreover have "zs' = z1" by (rule Cons.IH [OF z1(2)]) (use Cons.prems in auto)
  ultimately show ?case using Cons.prems(3) by simp
qed simp

text \<open>No item is empty.\<close>

lemma singly_items [simp]: "[] \<notin> set (singly bs)"
  by (auto simp: singly_def)

lemma WRITE_PIXEL_item [simp]: "[] \<noteq> WRITE_PIXEL c le p"
proof -
  have "length (WRITE_PIXEL c le p) \<noteq> 0" unfolding length_WRITE_PIXEL by (simp add: BPPOUT_def split: cpixel.split)
  then show ?thesis by auto
qed

lemma WRITE_PIXEL_items [simp]: "[] \<notin> WRITE_PIXEL c le ` A"
  by (auto simp del: WRITE_PIXEL_item dest: WRITE_PIXEL_item [THEN notE])

lemma rle_runs_items: "(\<And>p. [] \<noteq> wr p) \<Longrightarrow> [] \<notin> set (rle_runs wr up ph ps)"
proof (induction wr up ph ps rule: rle_runs.induct)
  case (2 wr up ph pix ps)
  have "[] \<notin> set (rle_runs wr up ph (dropWhile (\<lambda>d. d = pix) ps))" by (rule 2(1)) (use 2(2) in simp_all)
  then show ?case using 2(2) by (simp add: Let_def)
qed simp

lemma tile_items: "[] \<notin> set (ZRLE_ENCODE_TILE c le data w h)"
proof -
  obtain runs singlePixels ph where sc: "scan_runs (data @ [past_end c data]) 0 0 new_palette = (runs, singlePixels, ph)"
    by (metis prod_cases3)
  obtain rle up where ch: "choose_form (BPPOUT c) (w * h) runs singlePixels (palette_size ph) = (rle, up)" by fastforce
  note r = rle_runs_items [of "WRITE_PIXEL c le", OF WRITE_PIXEL_item]
  show ?thesis
    unfolding ZRLE_ENCODE_TILE_def sc ch Let_def prod.case by (simp add: r)
qed

lemma zrle_items_items: "[] \<notin> set (zrle_items c srv cl rs)"
proof (induction rs)
  case (Cons r rs)
  obtain tx ty tw th where "r = (tx, ty, tw, th)" by (metis prod_cases4)
  then show ?case using Cons by (simp add: zrle_items_def tile_items)
qed (simp add: zrle_items_def)

lemma zos_write_all_fed: "zos_write_all zdeflate is zs = Some zs' \<Longrightarrow> fed zdeflate zs (concat is) zs'"
proof (induction "is" arbitrary: zs)
  case (Cons i "is")
  then obtain z1 where z1: "zos_write zdeflate i zs = Some z1" "zos_write_all zdeflate is z1 = Some zs'" by (auto split: option.splits)
  show ?case unfolding concat.simps by (rule fed_trans [OF zos_write_fed [OF z1(1)] Cons.IH [OF z1(2)]])
qed (simp add: fed_refl)

text \<open>A rectangle: the payload, inflated after all that came before, adds exactly the bytes of the tiles.\<close>

lemma ZRLE_ENCODE_fed:
  assumes "ZRLE_ENCODE zdeflate c srv cl x y w h (z, []) = Some (z', mos)" "buffered z = []" "flushed (deflated z)"
    and "outputs zdeflate [] (deflated z) = Some old" "zlib_pair zdeflate inflate"
  shows "buffered z' = []" "flushed (deflated z')" "outputs zdeflate [] (deflated z') = Some (old @ mos)"
    "inflate (old @ mos) = inflate old @ concat (zrle_items c srv cl (tile_rows x y w h))"
proof -
  let ?data = "concat (zrle_items c srv cl (tile_rows x y w h))"
  obtain z1 m1 where w: "zos_write_all zdeflate (zrle_items c srv cl (tile_rows x y w h)) (z, []) = Some (z1, m1)"
    and f: "zos_flush zdeflate (z1, m1) = Some (z', mos)"
    using assms(1) by (auto simp: ZRLE_ENCODE_def split: option.splits)
  have fl: "fed zdeflate (z1, m1) [] (z', mos)" and b: "buffered z' = []"
    using f zos_deflate_fed [of zdeflate True "(z1, m1)" "(z', mos)"] by (auto simp: zos_flush_def fed_refl split: if_splits)
  have "fed zdeflate (z, []) (?data @ []) (z', mos)" by (rule fed_trans [OF zos_write_all_fed [OF w] fl])
  then obtain calls where c: "deflated z' = deflated z @ calls" "outputs zdeflate (deflated z) calls = Some mos"
    "concat (map snd calls) = ?data"
    using b assms(2) by (auto simp: fed_def)
  have "flushed (deflated z')"
  proof (cases "buffered z1 = []")
    case False
    then show ?thesis using f zos_deflate_fed(3) [of zdeflate True "(z1, m1)" "(z', mos)"] by (simp add: zos_flush_def flushed_def)
  next
    case True
    then have e: "z' = z1" using f by (simp add: zos_flush_def)
    have "(z1, m1) = (z, [])" by (rule zos_write_all_buffered [OF w zrle_items_items]) (simp add: True)
    then show ?thesis using e assms(3) by simp
  qed
  then show "flushed (deflated z')" .
  have o: "outputs zdeflate [] (deflated z') = Some (old @ mos)"
    unfolding c(1) using outputs_append [OF assms(4), of calls mos] c(2) by simp
  show "buffered z' = []" by (rule b)
  show "outputs zdeflate [] (deflated z') = Some (old @ mos)" by (rule o)
  have i: "inflate out = concat (map snd cs)" if "outputs zdeflate [] cs = Some out" "flushed cs" for cs out
    using assms(5) that by (simp add: zlib_pair_def)
  show "inflate (old @ mos) = inflate old @ ?data"
    using i [OF o \<open>flushed (deflated z')\<close>] i [OF assms(4,3)] c(1,3) by simp
qed

section \<open>Pixels as bytes\<close>

definition pixel_value :: "bool \<Rightarrow> u8 list \<Rightarrow> u32" where
  "pixel_value le bs = foldr (\<lambda>b v. push_bit 8 v OR ucast b) (if le then bs else rev bs) 0"

lemma le_bytes_Suc: "le_bytes (Suc n) v = ucast v # le_bytes n (drop_bit 8 v)"
proof -
  have "[0..<Suc n] = 0 # map Suc [0..<n]" by (simp add: map_Suc_upt upt_conv_Cons del: upt_Suc)
  then show ?thesis by (simp add: le_bytes_def comp_def drop_bit_drop_bit add.commute)
qed

lemma le_bytes_foldr:
  "length bs \<le> 4 \<Longrightarrow> le_bytes (length bs) (foldr (\<lambda>b v. push_bit 8 v OR ucast b) bs (0 :: u32)) = (bs :: u8 list)"
proof (induction bs)
  case (Cons b bs)
  define v where "v = foldr (\<lambda>b v. push_bit 8 v OR ucast b) bs (0 :: u32)"
  have v: "bit v n \<Longrightarrow> n < 24" for n using bit_load_bytes [of bs n] Cons.prems by (simp add: v_def)
  have "ucast (push_bit 8 v OR ucast b :: u32) = b"
    by (rule bit_word_eqI) (auto simp: bit_simps)
  moreover have "drop_bit 8 (push_bit 8 v OR ucast b :: u32) = v"
    by (rule bit_word_eqI) (auto simp: bit_simps dest: v bit_imp_le_length)
  ultimately show ?case using Cons by (simp add: le_bytes_Suc v_def [symmetric])
qed (simp add: le_bytes_def)

lemma host_bytes_pixel_value: "length bs \<le> 4 \<Longrightarrow> host_bytes le (8 * length bs) (pixel_value le bs) = bs"
  using le_bytes_foldr [of bs] le_bytes_foldr [of "rev bs"] by (simp add: host_bytes_def pixel_value_def)

text \<open>What an instance of the template sends of a pixel, and the pixel that the pointer reads.\<close>

definition cpixel_bytes :: "cpixel \<Rightarrow> u8 list \<Rightarrow> u8 list" where
  "cpixel_bytes c bs = (case c of Pixel24A \<Rightarrow> take 3 bs | Pixel24B \<Rightarrow> drop 1 bs | _ \<Rightarrow> bs)"

lemma WRITE_PIXEL_value: 
  assumes "length bs = BPP c div 8" shows "WRITE_PIXEL c le (pixel_value le bs) = cpixel_bytes c bs"
  using assms host_bytes_pixel_value [of bs le] by (cases c) (simp_all add: WRITE_PIXEL_def cpixel_bytes_def BPP_def)

lemma BPP_pos: "0 < BPP c div 8" "8 * (BPP c div 8) = BPP c" "BPP c \<le> 32"
  by (simp_all add: BPP_def split: cpixel.split)

lemma load_pixels_split:
  assumes "length buf = n * (BPP c div 8)"
  shows "map (\<lambda>i. load_pixel le (BPP c) (\<lambda>a. buf ! a) (i * (BPP c div 8))) [0..<n] = map (pixel_value le) (split_pixels (BPP c div 8) buf)"
proof -
  let ?k = "BPP c div 8"
  have "load_pixel le (BPP c) (\<lambda>a. buf ! a) (i * ?k) = pixel_value le (take ?k (drop (i * ?k) buf))" if "i < n" for i
  proof -
    have "Suc i * ?k \<le> n * ?k" using that by (intro mult_le_mono1) simp
    then have "i * ?k \<le> length buf" "?k \<le> length buf - i * ?k" unfolding assms mult_Suc by linarith+
    then have "map (\<lambda>j. buf ! (i * ?k + j)) [0..<?k] = take ?k (drop (i * ?k) buf)"
      by (intro nth_equalityI) simp_all
    then show ?thesis by (simp add: load_pixel_def pixel_value_def Let_def)
  qed
  moreover have "length buf div ?k = n" using BPP_pos(1) [of c] assms by simp
  ultimately show ?thesis by (simp add: split_pixels_def comp_def)
qed

lemma zrle_pixels_source:
  assumes "drawable srv cl" "BPP c = bitsPerPixel (format cl)"
  shows "zrle_pixels c srv cl (tx, ty, tw, th) = map (pixel_value (littleEndian srv)) (source_pixels srv cl tx ty tw th)"
proof -
  have b: "bytesPerPixel cl = BPP c div 8" using assms(2) by (simp add: bytesPerPixel_def)
  have "length (pixels_at srv cl (fbptr srv cl tx ty) tw th) = (tw * th) * (BPP c div 8)"
    using assms(1) b by (simp add: translate_rect_pixels length_source_rect ac_simps)
  then show ?thesis
    using load_pixels_split [of _ "tw * th" c] source_pixels_split [OF assms(1), of tx ty tw th] b
    by (simp add: zrle_pixels_def Let_def)
qed

section \<open>The viewer reads the rectangle\<close>

fun decode_zrle :: "nat \<Rightarrow> rect list \<Rightarrow> u8 list \<Rightarrow> (rect \<times> u8 list list) list \<times> u8 list" where
  "decode_zrle k [] bs = ([], bs)"
| "decode_zrle k ((tx, ty, tw, th) # rs) bs =
    (let (ps, bs) = decode_zrle_tile k tw th bs; (ts, bs) = decode_zrle k rs bs in (((tx, ty, tw, th), ps) # ts, bs))"

lemma decode_zrle_items:
  assumes "drawable srv cl" "BPP c = bitsPerPixel (format cl)" "\<forall>r \<in> set rs. solid_rect r"
  shows "decode_zrle (BPPOUT c div 8) rs (concat (zrle_items c srv cl rs) @ rest) =
    (map (\<lambda>r. case r of (tx, ty, tw, th) \<Rightarrow> (r, map (cpixel_bytes c) (source_pixels srv cl tx ty tw th))) rs, rest)"
  using assms(3)
proof (induction rs)
  case (Cons r rs)
  obtain tx ty tw th where r: "r = (tx, ty, tw, th)" by (metis prod_cases4)
  let ?t = "zrle_pixels c srv cl r" and ?le = "littleEndian srv"
  have t: "?t = map (pixel_value ?le) (source_pixels srv cl tx ty tw th)" unfolding r by (rule zrle_pixels_source [OF assms(1,2)])
  have len: "length ?t = tw * th" unfolding t by (simp add: length_source_pixels)
  moreover have "0 < tw * th" using Cons.prems r by (simp add: solid_rect_def)
  ultimately have "?t \<noteq> []" by auto
  then have "zrle_round_trip c ?le ?t tw th (concat (zrle_items c srv cl rs) @ rest)" using len by (rule zrle_tile)
  moreover have "map (WRITE_PIXEL c ?le) ?t = map (cpixel_bytes c) (source_pixels srv cl tx ty tw th)"
    unfolding t map_map using source_pixels_length [OF assms(1)] assms(2)
    by (intro map_cong refl) (simp add: WRITE_PIXEL_value bytesPerPixel_def)
  ultimately have "decode_zrle_tile (BPPOUT c div 8) tw th (concat (ZRLE_ENCODE_TILE c ?le ?t tw th) @ concat (zrle_items c srv cl rs) @ rest) =
    (map (cpixel_bytes c) (source_pixels srv cl tx ty tw th), concat (zrle_items c srv cl rs) @ rest)"
    by (simp add: zrle_round_trip_def)
  moreover have "concat (zrle_items c srv cl (r # rs)) @ rest =
    concat (ZRLE_ENCODE_TILE c ?le ?t tw th) @ concat (zrle_items c srv cl rs) @ rest"
    by (simp add: zrle_items_def r)
  moreover have "decode_zrle (BPPOUT c div 8) rs (concat (zrle_items c srv cl rs) @ rest) =
    (map (\<lambda>r. case r of (tx, ty, tw, th) \<Rightarrow> (r, map (cpixel_bytes c) (source_pixels srv cl tx ty tw th))) rs, rest)"
    by (rule Cons.IH) (use Cons.prems in simp)
  ultimately show ?case by (simp add: r)
qed (simp add: zrle_items_def)

section \<open>The rectangle is sent and read\<close>

text \<open>What the stream of a client has put out so far, when the last rectangle has been flushed.\<close>

definition zrle_sent :: "zdeflater \<Rightarrow> rfbClientRec \<Rightarrow> u8 list \<Rightarrow> bool" where
  "zrle_sent zdeflate cl old \<longleftrightarrow>
     (case zrleData cl of None \<Rightarrow> old = []
      | Some z \<Rightarrow> buffered z = [] \<and> flushed (deflated z) \<and> outputs zdeflate [] (deflated z) = Some old)"

lemma settings_zrleData [simp]: "settings (cl\<lparr>zrleData := z\<rparr>) = settings cl" "stream (cl\<lparr>zrleData := z\<rparr>) = stream cl"
  "ublen (cl\<lparr>zrleData := z\<rparr>) = ublen cl"
  by (simp_all add: settings_def stream_def ublen_def)

lemma sends_zrle:
  assumes "ublen cl \<le> UPDATE_BUF_SIZE" and z: "settings (f cl) = settings cl" "stream (f cl) = stream cl" "ublen (f cl) = ublen cl" "sock (f cl) = sock cl"
  shows "sends cl (rect_header x y w h enc @ be32 k @ mos)
    (case make_room (sz_rfbFramebufferUpdateRectHeader + sz_rfbZRLEHeader) (count_rect e n (f cl)) of (False, cl) \<Rightarrow> (False, cl)
     | (True, cl) \<Rightarrow> let cl = put_buf (rect_header x y w h enc) cl; cl = put_buf (be32 k) cl in copy_loop mos cl)"
proof -
  have "sz_rfbZRLEHeader = sz_rfbRREHeader" by (simp add: sz_rfbZRLEHeader_def sz_rfbRREHeader_def)
  then have "sends (count_rect e n (f cl)) (rect_header x y w h enc @ be32 k @ mos)
    (case make_room (sz_rfbFramebufferUpdateRectHeader + sz_rfbZRLEHeader) (count_rect e n (f cl)) of (False, cl) \<Rightarrow> (False, cl)
     | (True, cl) \<Rightarrow> let cl = put_buf (rect_header x y w h enc) cl; cl = put_buf (be32 k) cl in copy_loop mos cl)"
    using sends_encoded [of "count_rect e n (f cl)" x y w h enc k mos] assms(1) z(3) by simp
  then have "sends (f cl) (rect_header x y w h enc @ be32 k @ mos)
    (case make_room (sz_rfbFramebufferUpdateRectHeader + sz_rfbZRLEHeader) (count_rect e n (f cl)) of (False, cl) \<Rightarrow> (False, cl)
     | (True, cl) \<Rightarrow> let cl = put_buf (rect_header x y w h enc) cl; cl = put_buf (be32 k) cl in copy_loop mos cl)"
    by (rule sends_counted)
  from sends_more [OF this z(1), of "[]"] show ?thesis using z by simp
qed

text \<open>
  The outcome of a rectangle for a viewer that inflates the stream: \<open>old\<close> is what it has got of the stream before.
  Either a call of \<open>deflate\<close> reports an error and the process ends, or header, length and payload are
  sent, the tiles of the inflated payload partition the rectangle and give what is sent of its pixels, and the stream is
  as it should be for the next rectangle.
\<close>

definition zrle_outcome ::
    "zdeflater \<Rightarrow> (u8 list \<Rightarrow> u8 list) \<Rightarrow> cpixel \<Rightarrow> server \<Rightarrow> rfbClientRec \<Rightarrow> rect \<Rightarrow> u8 list \<Rightarrow> bool \<times> rfbClientRec \<Rightarrow> bool" where
  "zrle_outcome zdeflate inflate c srv cl = (\<lambda>(x, y, w, h) old res.
     (\<exists>calls sync bs. zdeflate calls sync bs = None) \<and> res = (False, cl\<lparr>exited := True\<rparr>) \<or>
     (\<exists>payload tiles data.
        sends cl (rect_header (int x) (int y) (int w) (int h) rfbEncodingZRLE @ be32 (int (length payload)) @ payload) res \<and>
        zrle_sent zdeflate (snd res) (old @ payload) \<and>
        inflate (old @ payload) = inflate old @ data \<and>
        (\<forall>px py. length (filter (in_rect px py) tiles) = of_bool (in_rect px py (x, y, w, h))) \<and>
        decode_zrle (BPPOUT c div 8) tiles data =
          (map (\<lambda>r. case r of (tx, ty, tw, th) \<Rightarrow> (r, map (cpixel_bytes c) (source_pixels srv cl tx ty tw th))) tiles, [])))"

lemma fails_only_by_deflate: "zos_write_all zdeflate is zs = None \<Longrightarrow> \<exists>calls sync bs. zdeflate calls sync bs = None"
proof (induction "is" arbitrary: zs)
  case (Cons i "is")
  show ?case
  proof (cases "zos_write zdeflate i zs")
    case None
    then show ?thesis by (auto simp: zos_write_def zos_deflate_def split: prod.splits option.splits if_splits)
  next
    case (Some z1)
    then show ?thesis using Cons by simp
  qed
qed simp

lemma ZRLE_ENCODE_fails: "ZRLE_ENCODE zdeflate c srv cl x y w h zs = None \<Longrightarrow> \<exists>calls sync bs. zdeflate calls sync bs = None"
proof (cases "zos_write_all zdeflate (zrle_items c srv cl (tile_rows x y w h)) zs")
  case None
  then show ?thesis by (rule fails_only_by_deflate)
next
  case (Some z1)
  moreover assume "ZRLE_ENCODE zdeflate c srv cl x y w h zs = None"
  ultimately show ?thesis
    by (auto simp: ZRLE_ENCODE_def zos_flush_def zos_deflate_def split: option.splits if_splits prod.splits)
qed

lemma zrle_cpixel_bpp: "zrle_cpixel shl f = Some c \<Longrightarrow> BPP c = bitsPerPixel f"
  by (auto simp: zrle_cpixel_def BPP_def Let_def split: if_splits)

lemma zrle_sends:
  assumes "drawable srv cl" "0 < w" "0 < h" "ublen cl \<le> UPDATE_BUF_SIZE" "zrle_cpixel shl (format cl) = Some c"
    and "zlib_pair zdeflate inflate" "zrle_sent zdeflate cl old"
  shows "zrle_outcome zdeflate inflate c srv cl (x, y, w, h) old (rfbSendRectEncodingZRLE zdeflate shl srv x y w h cl)"
proof -
  define z where "z = (case zrleData cl of None \<Rightarrow> new_ZlibOutStream | Some z \<Rightarrow> z)"
  let ?tiles = "tile_rows x y w h"
  have zs: "buffered z = []" "flushed (deflated z)" "outputs zdeflate [] (deflated z) = Some old"
    using assms(7) by (auto simp: zrle_sent_def z_def new_ZlibOutStream_def flushed_def split: option.splits)
  show ?thesis
  proof (cases "ZRLE_ENCODE zdeflate c srv cl x y w h (z, [])")
    case None
    then have "rfbSendRectEncodingZRLE zdeflate shl srv x y w h cl = (False, cl\<lparr>exited := True\<rparr>)"
      by (simp add: rfbSendRectEncodingZRLE_def z_def [symmetric] assms(5))
    then show ?thesis using ZRLE_ENCODE_fails [OF None] unfolding zrle_outcome_def by simp
  next
    case (Some zm)
    obtain z' mos where zm: "zm = (z', mos)" by fastforce
    note enc = ZRLE_ENCODE_fed [OF Some [unfolded zm] zs assms(6)]
    let ?f = "\<lambda>cl. cl\<lparr>zrleData := Some z'\<rparr>"
    let ?n = "sz_rfbFramebufferUpdateRectHeader + sz_rfbZRLEHeader"
    let ?hdr = "rect_header (int x) (int y) (int w) (int h) rfbEncodingZRLE"
    define res where "res = (case make_room ?n (count_rect rfbEncodingZRLE (?n + length mos) (?f cl)) of (False, cl) \<Rightarrow> (False, cl)
       | (True, cl) \<Rightarrow> let cl = put_buf ?hdr cl; cl = put_buf (be32 (int (length mos))) cl in copy_loop mos cl)"
    have e: "rfbSendRectEncodingZRLE zdeflate shl srv x y w h cl = res"
      unfolding rfbSendRectEncodingZRLE_def z_def [symmetric] assms(5) option.case Some zm Let_def res_def by simp
    have s: "sends cl (?hdr @ be32 (int (length mos)) @ mos) res"
      unfolding res_def by (rule sends_zrle [OF assms(4)]) simp_all
    obtain ok c1 where m: "make_room ?n (count_rect rfbEncodingZRLE (?n + length mos) (?f cl)) = (ok, c1)" by fastforce
    have "quiet c1 = quiet (count_rect rfbEncodingZRLE (?n + length mos) (?f cl))" using quiet_make_room [of ?n] m by (metis snd_conv)
    from quiet_fields(1) [OF this] have z1: "zrleData c1 = Some z'" by (simp add: count_rect_def)
    have "quiet (snd res) = quiet c1" unfolding res_def m Let_def by (cases ok) simp_all
    from quiet_fields(1) [OF this] have "zrleData (snd res) = Some z'" using z1 by simp
    then have "zrle_sent zdeflate (snd res) (old @ mos)" using enc(1-3) by (simp add: zrle_sent_def)
    moreover have "\<forall>px py. length (filter (in_rect px py) ?tiles) = of_bool (in_rect px py (x, y, w, h))"
      unfolding tile_rows_pieces [OF assms(2,3)] by (simp add: corre_pieces_partition)
    moreover have "\<forall>r \<in> set ?tiles. solid_rect r"
      unfolding tile_rows_pieces [OF assms(2,3)] using corre_pieces_solid [OF assms(2,3)] by blast
    then have "decode_zrle (BPPOUT c div 8) ?tiles (concat (zrle_items c srv cl ?tiles) @ []) =
      (map (\<lambda>r. case r of (tx, ty, tw, th) \<Rightarrow> (r, map (cpixel_bytes c) (source_pixels srv cl tx ty tw th))) ?tiles, [])"
      by (rule decode_zrle_items [OF assms(1) zrle_cpixel_bpp [OF assms(5)]])
    ultimately show ?thesis unfolding e zrle_outcome_def prod.case
      using s enc(4) by (intro disjI2 exI [of _ mos] exI [of _ ?tiles] exI [of _ "concat (zrle_items c srv cl ?tiles)"] conjI) simp_all
  qed
qed

section \<open>The colours survive\<close>

text \<open>The viewer puts a zero in the place of a byte that was not sent.\<close>

definition cpixel_restore :: "cpixel \<Rightarrow> u8 list \<Rightarrow> u8 list" where
  "cpixel_restore c bs = (case c of Pixel24A \<Rightarrow> bs @ [0] | Pixel24B \<Rightarrow> 0 # bs | _ \<Rightarrow> bs)"

text \<open>The components of a pixel as the client numbers its bits; whether their maxima in their places fit an int.\<close>

definition pixel_colours :: "rfbPixelFormat \<Rightarrow> u8 list \<Rightarrow> nat list" where
  "pixel_colours f bs = (let p = pixel_value (\<not> bigEndian f) bs in
     [component p (redShift f) (redMax f), component p (greenShift f) (greenMax f), component p (blueShift f) (blueMax f)])"

definition colours_in_int :: "rfbPixelFormat \<Rightarrow> bool" where
  "colours_in_int f \<longleftrightarrow> redMax f * 2 ^ redShift f < 2 ^ 31 \<and> greenMax f * 2 ^ greenShift f < 2 ^ 31 \<and> blueMax f * 2 ^ blueShift f < 2 ^ 31"

lemma sint_small: "k < 2 ^ 31 \<Longrightarrow> sint (of_nat k :: 32 word) = int k"
  by (simp add: signed_of_nat signed_take_bit_int_eq_self)

lemma int_shl_exact:
  assumes "m * 2 ^ s < 2 ^ 31" "int_shl shl m s < 2 ^ 24"
  shows "m * 2 ^ s < 2 ^ 24"
proof (cases "m = 0 \<or> 32 \<le> s")
  case True
  have "m = 0" if "32 \<le> s"
  proof (rule ccontr)
    assume "m \<noteq> 0"
    then have "(2 :: nat) ^ 32 \<le> m * 2 ^ s" using power_increasing [OF that, of "2 :: nat"] by (metis One_nat_def Suc_leI le_trans less_le mult_le_mono1 nat_mult_1 neq0_conv one_le_numeral)
    then show False using assms(1) by simp
  qed
  then show ?thesis using True by auto
next
  case False
  have "push_bit s (of_nat m :: 32 word) = of_nat (m * 2 ^ s)" by (simp add: push_bit_eq_mult)
  moreover have "sint (of_nat (m * 2 ^ s) :: 32 word) = int (m * 2 ^ s)"
    by (rule sint_small [OF assms(1)])
  ultimately have "int (m * 2 ^ s) < 2 ^ 24" using assms(2) False by (simp only: int_shl_def) simp
  then show ?thesis by (metis of_nat_less_iff of_nat_numeral of_nat_power)
qed

lemma bit_of_max: "bit (of_nat m :: u32) n \<Longrightarrow> 2 ^ n \<le> m"
proof -
  assume "bit (of_nat m :: u32) n"
  then have "bit (word_of_int (int m) :: u32) n" by simp
  then have "bit (int m) n" unfolding bit_word_of_int_iff ..
  then have "bit m n" by (simp add: bit_of_nat_iff_bit)
  then have "odd (m div 2 ^ n)" by (simp add: bit_iff_odd)
  then have "m div 2 ^ n \<noteq> 0" by (metis even_zero)
  then show "2 ^ n \<le> m" by (metis div_less leI)
qed

text \<open>A component depends on its bits only.\<close>

lemma component_cong:
  assumes "\<And>n. 2 ^ n \<le> m \<Longrightarrow> bit p (s mod 32 + n) = bit q (s mod 32 + n)"
  shows "component p s m = component q s m"
proof -
  have "drop_bit (s mod 32) p AND of_nat m = drop_bit (s mod 32) q AND (of_nat m :: u32)"
    by (rule bit_word_eqI) (use assms bit_of_max in \<open>auto simp: bit_simps\<close>)
  then show ?thesis by (simp add: component_def)
qed

lemma kept_shift:
  fixes m s n k :: nat
  assumes "m * 2 ^ s < 2 ^ k" "2 ^ n \<le> m" "k \<le> 32"
  shows "s + n < k" "s mod 32 = s"
proof -
  have "(2 :: nat) ^ (s + n) \<le> m * 2 ^ s" using assms(2) by (simp add: power_add mult.commute)
  then have "(2 :: nat) ^ (s + n) < 2 ^ k" using assms(1) by linarith
  then show "s + n < k" by simp
  then show "s mod 32 = s" using assms(3) by simp
qed

lemma zeroed_bits: "bit (pixel_value True [a, b, c, 0]) n \<longleftrightarrow> n < 24 \<and> bit (pixel_value True [a, b, c, d]) n"
  "bit (pixel_value True [0, b, c, d]) n \<longleftrightarrow> 8 \<le> n \<and> bit (pixel_value True [a, b, c, d]) n"
  by (auto simp: pixel_value_def bit_simps dest: bit_imp_le_length)

lemma component_low:
  assumes "\<And>n. bit q n = (n < 24 \<and> bit p n)" "m * 2 ^ s < 2 ^ 24"
  shows "component q s m = component p s m"
  by (rule component_cong) (use kept_shift [OF assms(2)] in \<open>simp add: assms(1)\<close>)

lemma component_high:
  assumes "\<And>n. bit q n = (8 \<le> n \<and> bit p n)" "7 < s" "m * 2 ^ s < 2 ^ 31"
  shows "component q s m = component p s m"
  by (rule component_cong) (use kept_shift [OF assms(3)] assms(2) in \<open>simp add: assms(1)\<close>)

lemma colours_low:
  assumes "\<And>n. bit (pixel_value (\<not> bigEndian f) bs') n = (n < 24 \<and> bit (pixel_value (\<not> bigEndian f) bs) n)"
    and "redMax f * 2 ^ redShift f < 2 ^ 24" "greenMax f * 2 ^ greenShift f < 2 ^ 24" "blueMax f * 2 ^ blueShift f < 2 ^ 24"
  shows "pixel_colours f bs' = pixel_colours f bs"
  using component_low [OF assms(1)] assms(2-4) by (simp add: pixel_colours_def Let_def)

lemma colours_high:
  assumes "\<And>n. bit (pixel_value (\<not> bigEndian f) bs') n = (8 \<le> n \<and> bit (pixel_value (\<not> bigEndian f) bs) n)"
    and "7 < redShift f" "7 < greenShift f" "7 < blueShift f" "colours_in_int f"
  shows "pixel_colours f bs' = pixel_colours f bs"
  using component_high [OF assms(1)] assms(2-5) by (simp add: pixel_colours_def colours_in_int_def Let_def)

lemma reversed_value: "pixel_value False bs = pixel_value True (rev bs)"
  by (simp add: pixel_value_def)

text \<open>If no shift of a maximum overflows an int, the choice of the instance keeps every component.\<close>

lemma colours_restored:
  assumes c: "zrle_cpixel shl f = Some c" and len: "length bs = bitsPerPixel f div 8" and fits: "colours_in_int f"
  shows "pixel_colours f (cpixel_restore c (cpixel_bytes c bs)) = pixel_colours f bs"
proof -
  have ls: "redMax f * 2 ^ redShift f < 2 ^ 24 \<and> greenMax f * 2 ^ greenShift f < 2 ^ 24 \<and> blueMax f * 2 ^ blueShift f < 2 ^ 24"
    if "int_shl shl (redMax f) (redShift f) < 2 ^ 24 \<and> int_shl shl (greenMax f) (greenShift f) < 2 ^ 24 \<and>
      int_shl shl (blueMax f) (blueShift f) < 2 ^ 24"
    using that fits int_shl_exact unfolding colours_in_int_def by blast
  have four: "\<exists>p q r s. bs = [p, q, r, s]" if "bitsPerPixel f = 32"
  proof -
    have "length bs = Suc (Suc (Suc (Suc 0)))" using len that by simp
    then show ?thesis by (auto simp: length_Suc_conv)
  qed
  show ?thesis
  proof (cases c)
    case Pixel24A
    then have b: "bitsPerPixel f = 32" using c by (auto simp: zrle_cpixel_def Let_def split: if_splits)
    obtain p q r s where bs: "bs = [p, q, r, s]" using four [OF b] by blast
    have e: "cpixel_restore c (cpixel_bytes c bs) = [p, q, r, 0]"
      by (simp add: Pixel24A bs cpixel_restore_def cpixel_bytes_def)
    show ?thesis
    proof (cases "bigEndian f")
      case True
      then have "7 < redShift f" "7 < greenShift f" "7 < blueShift f"
        using c b Pixel24A by (auto simp: zrle_cpixel_def Let_def split: if_splits)
      then show ?thesis unfolding e unfolding bs
        by (intro colours_high [OF _ _ _ _ fits]) (simp_all add: True reversed_value zeroed_bits(2) [of _ _ _ _ s])
    next
      case False
      then have "redMax f * 2 ^ redShift f < 2 ^ 24 \<and> greenMax f * 2 ^ greenShift f < 2 ^ 24 \<and> blueMax f * 2 ^ blueShift f < 2 ^ 24"
        using c b Pixel24A by (intro ls) (auto simp: zrle_cpixel_def Let_def split: if_splits)
      then show ?thesis unfolding e unfolding bs
        by (intro colours_low) (simp_all add: False zeroed_bits(1) [of _ _ _ _ s])
    qed
  next
    case Pixel24B
    then have b: "bitsPerPixel f = 32" using c by (auto simp: zrle_cpixel_def Let_def split: if_splits)
    obtain p q r s where bs: "bs = [p, q, r, s]" using four [OF b] by blast
    have e: "cpixel_restore c (cpixel_bytes c bs) = [0, q, r, s]"
      by (simp add: Pixel24B bs cpixel_restore_def cpixel_bytes_def)
    show ?thesis
    proof (cases "bigEndian f")
      case False
      then have "7 < redShift f" "7 < greenShift f" "7 < blueShift f"
        using c b Pixel24B by (auto simp: zrle_cpixel_def Let_def split: if_splits)
      then show ?thesis unfolding e unfolding bs
        by (intro colours_high [OF _ _ _ _ fits]) (simp_all add: False zeroed_bits(2) [of _ _ _ _ p])
    next
      case True
      then have "redMax f * 2 ^ redShift f < 2 ^ 24 \<and> greenMax f * 2 ^ greenShift f < 2 ^ 24 \<and> blueMax f * 2 ^ blueShift f < 2 ^ 24"
        using c b Pixel24B by (intro ls) (auto simp: zrle_cpixel_def Let_def split: if_splits)
      then show ?thesis unfolding e unfolding bs
        by (intro colours_low) (simp_all add: True reversed_value zeroed_bits(1) [of _ _ _ _ p])
    qed
  qed (simp_all add: cpixel_restore_def cpixel_bytes_def)
qed

section \<open>The properties\<close>

text \<open>
  C13: rfbSendRectEncodingZRLE sends a rectangle that the viewer reads, over any number of rectangles
  before it: if zlib keeps its promise, the payload is inflated, after all that was sent of the stream
  before, to tiles that partition the rectangle and give of each of its pixels the bytes that the chosen instance
  of the template sends, and the stream is left flushed. The
  length in the header is that of the payload, over any number of flushes of the buffer, and only an
  error of deflate keeps the rectangle from being sent, by ending the process. If the maximum of each
  component of the client's format, shifted to its place, fits an int, then these bytes, with a zero for
  the byte that is not sent, have the components of the pixel; in a format that overflows they need not (C40).
\<close>

theorem zrle_rectangle_decodes:
  assumes "drawable srv cl" "0 < w" "0 < h" "ublen cl \<le> UPDATE_BUF_SIZE" "zrle_cpixel shl (format cl) = Some c"
    and "zlib_pair zdeflate inflate" "zrle_sent zdeflate cl old"
  shows "zrle_outcome zdeflate inflate c srv cl (x, y, w, h) old (rfbSendRectEncodingZRLE zdeflate shl srv x y w h cl) \<and>
    (colours_in_int (format cl) \<longrightarrow> (\<forall>bs. length bs = bytesPerPixel cl \<longrightarrow>
      pixel_colours (format cl) (cpixel_restore c (cpixel_bytes c bs)) = pixel_colours (format cl) bs))"
  using zrle_sends [OF assms] colours_restored [OF assms(5)] by (simp add: bytesPerPixel_def)

lemma stored_outputs: "outputs (\<lambda>_ _ bs. Some bs) past cs = Some (concat (map snd cs))"
  by (induction "\<lambda>(_ :: (bool \<times> u8 list) list) (_ :: bool) (bs :: u8 list). Some bs" past cs rule: outputs.induct) simp_all

lemma stored_pair: "zlib_pair (\<lambda>_ _ bs. Some bs) (\<lambda>bs. bs)"
  by (simp add: zlib_pair_def stored_outputs)

theorem zrle_rectangle_decodes_witness:
  "zrle_outcome (\<lambda>_ _ bs. Some bs) (\<lambda>bs. bs) Pixel24A demo_server demo_client (0, 0, 4, 3) []
    (rfbSendRectEncodingZRLE (\<lambda>_ _ bs. Some bs) (\<lambda>_ _. 0) demo_server 0 0 4 3 demo_client) \<and>
    pixel_colours demo_format (cpixel_restore Pixel24A (cpixel_bytes Pixel24A [1, 2, 3, 4])) = pixel_colours demo_format [1, 2, 3, 4]"
proof -
  have "zrle_cpixel (\<lambda>_ _. 0) (format demo_client) = Some Pixel24A" by code_simp
  moreover have "zlib_pair (\<lambda>_ _ bs. Some bs) (\<lambda>bs. bs)" by (rule stored_pair)
  moreover have "zrle_sent (\<lambda>_ _ bs. Some bs) demo_client []" by (simp add: zrle_sent_def demo_client_def)
  moreover have "format demo_client = demo_format" "colours_in_int demo_format" "bytesPerPixel demo_client = 4"
    by (simp_all add: demo_client_def demo_format_def colours_in_int_def bytesPerPixel_def)
  ultimately show ?thesis
    using zrle_rectangle_decodes [OF demo_drawable _ _ demo_ublen, of 4 3 "\<lambda>_ _. 0" Pixel24A] by simp
qed

text \<open>
  C40: A viewer whose pixels hold red, green and blue in the upper three bytes of a little-endian word
  gets no red. The shift of the maximum of red to bit 24 overflows the int and gives a negative
  number, which counts as fitting the lower three bytes; so the lower three bytes are sent, and two
  pixels that differ only in red become the same.
\<close>

theorem zrle_drops_red:
  assumes "bitsPerPixel f = 32" "\<not> bigEndian f" "redMax f = 255" "greenMax f = 255" "blueMax f = 255"
    and "redShift f = 24" "greenShift f = 16" "blueShift f = 8"
    and "take_bit 24 p = take_bit 24 q"
  shows "zrle_cpixel shl f = Some Pixel24A \<and> WRITE_PIXEL Pixel24A True p = WRITE_PIXEL Pixel24A True q"
proof
  have "int_shl shl 255 24 < 2 ^ 24" "int_shl shl 255 16 < 2 ^ 24" "int_shl shl 255 8 < 2 ^ 24" by (simp_all add: int_shl_def)
  then show "zrle_cpixel shl f = Some Pixel24A" using assms by (simp add: zrle_cpixel_def)
  have "take 3 (le_bytes 4 p) = take 3 (le_bytes 4 q)"
  proof (rule nth_equalityI)
    fix i assume "i < length (take 3 (le_bytes 4 p))"
    then have i: "i < 3" by simp
    have "ucast (drop_bit (8 * i) p) = (ucast (drop_bit (8 * i) q) :: u8)"
    proof (rule bit_word_eqI)
      fix n assume n: "n < LENGTH(8)"
      have "bit (take_bit 24 p) (8 * i + n) = bit (take_bit 24 q) (8 * i + n)" using assms(9) by simp
      then show "bit (ucast (drop_bit (8 * i) p) :: u8) n = bit (ucast (drop_bit (8 * i) q) :: u8) n"
        using i n by (simp add: bit_take_bit_iff bit_ucast_iff bit_drop_bit_eq)
    qed
    then show "take 3 (le_bytes 4 p) ! i = take 3 (le_bytes 4 q) ! i" using i by (simp add: le_bytes_def)
  qed simp
  then show "WRITE_PIXEL Pixel24A True p = WRITE_PIXEL Pixel24A True q" by (simp add: WRITE_PIXEL_def host_bytes_def)
qed

definition upper_format :: rfbPixelFormat where
  "upper_format = demo_format\<lparr>redShift := 24, greenShift := 16, blueShift := 8\<rparr>"

theorem zrle_drops_red_witness:
  "zrle_cpixel (\<lambda>_ _. 0) upper_format = Some Pixel24A \<and> (0xFF008000 :: u32) \<noteq> 0x00008000 \<and>
    WRITE_PIXEL Pixel24A True 0xFF008000 = WRITE_PIXEL Pixel24A True 0x00008000"
  using zrle_drops_red [of upper_format "0xFF008000" "0x00008000" "\<lambda>_ _. 0"]
  by (simp add: upper_format_def demo_format_def)

end
