(* ===== verification/Tight.thy ===== *)
theory Tight
  imports Updatespec
begin

text \<open>
  The Tight encoding, \<^verbatim>\<open>OSXvnc-server/tight.c\<close>. A rectangle is searched for large areas of one colour, which
  are sent as such; the rest is cut into pieces, and each piece is sent as one colour, with a palette,
  through a filter, in full colour or as JPEG. zlib and the JPEG library are parameters.
\<close>

section \<open>Parameters\<close>

record TIGHT_CONF =
  maxRectSize :: nat
  maxRectWidth :: nat
  monoMinRectSize :: nat
  gradientMinRectSize :: nat
  idxZlibLevel :: nat
  monoZlibLevel :: nat
  rawZlibLevel :: nat
  gradientZlibLevel :: nat
  gradientThreshold :: nat
  gradientThreshold24 :: nat
  idxMaxColorsDivisor :: nat
  jpegQuality :: nat
  jpegThreshold :: nat
  jpegThreshold24 :: nat

text \<open>The compression levels; the last three columns are those of the JPEG quality levels.\<close>

definition tight_conf_row :: "nat list \<Rightarrow> TIGHT_CONF" where
  "tight_conf_row c = \<lparr>maxRectSize = c ! 0, maxRectWidth = c ! 1, monoMinRectSize = c ! 2, gradientMinRectSize = c ! 3,
     idxZlibLevel = c ! 4, monoZlibLevel = c ! 5, rawZlibLevel = c ! 6, gradientZlibLevel = c ! 7,
     gradientThreshold = c ! 8, gradientThreshold24 = c ! 9, idxMaxColorsDivisor = c ! 10,
     jpegQuality = c ! 11, jpegThreshold = c ! 12, jpegThreshold24 = c ! 13\<rparr>"

definition tightConf :: "TIGHT_CONF list" where
  "tightConf = map tight_conf_row
    [[512, 32, 6, 65536, 0, 0, 0, 0, 0, 0, 4, 20, 10000, 23000],
     [2048, 128, 6, 65536, 1, 1, 1, 0, 0, 0, 8, 30, 8000, 18000],
     [6144, 256, 8, 65536, 3, 3, 2, 0, 0, 0, 24, 40, 6500, 15000],
     [10240, 1024, 12, 65536, 5, 5, 3, 0, 0, 0, 32, 50, 5000, 12000],
     [16384, 2048, 12, 65536, 6, 6, 4, 0, 0, 0, 32, 55, 4000, 10000],
     [32768, 2048, 12, 4096, 7, 7, 5, 4, 150, 380, 32, 60, 3000, 8000],
     [65536, 2048, 16, 4096, 7, 7, 6, 4, 170, 420, 48, 65, 2000, 5000],
     [65536, 2048, 16, 4096, 8, 8, 7, 5, 180, 450, 64, 70, 1000, 2500],
     [65536, 2048, 32, 8192, 9, 9, 8, 6, 190, 475, 64, 75, 500, 1200],
     [65536, 2048, 32, 8192, 9, 9, 9, 6, 200, 500, 96, 80, 200, 500]]"

definition compress_conf :: "rfbClientRec \<Rightarrow> TIGHT_CONF" where
  "compress_conf cl = tightConf ! tightCompressLevel cl"

definition TIGHT_MIN_TO_COMPRESS :: nat where "TIGHT_MIN_TO_COMPRESS = 12"
definition MIN_SOLID_SUBRECT_SIZE :: nat where "MIN_SOLID_SUBRECT_SIZE = 2048"
definition MAX_SPLIT_TILE_SIZE :: nat where "MAX_SPLIT_TILE_SIZE = 16"

section \<open>Areas of one colour\<close>

text \<open>The colour of a rectangle of the buffer, if it has one, and if it is the colour asked for, if any.\<close>

definition CheckSolidTile :: "server \<Rightarrow> rfbClientRec \<Rightarrow> nat \<Rightarrow> nat \<Rightarrow> nat \<Rightarrow> nat \<Rightarrow> u32 option \<Rightarrow> u32 option" where
  "CheckSolidTile srv cl x y w h needSameColor =
    (let b = bitsPerPixel (rfbServerFormat srv);
         bpp = (if b = 32 then 32 else if b = 16 then 16 else 8);
         fbptr = y * scalingPaddedWidthInBytes cl + x * (bpp div 8);
         load = load_pixel (littleEndian srv) bpp (scalingFrameBuffer cl);
         colorValue = load fbptr
     in if needSameColor \<noteq> None \<and> needSameColor \<noteq> Some colorValue then None
        else if list_all (\<lambda>dy. list_all (\<lambda>dx. colorValue = load (fbptr + dy * scalingPaddedWidthInBytes cl + dx * (bpp div 8)))
                  [0..<w]) [0..<h]
        then Some colorValue else None)"

text \<open>The inner loop of FindBestSolidArea: where the tiles of the colour end, from \<open>dx\<close> on and before \<open>limit\<close>.\<close>

function solid_until :: "(nat \<Rightarrow> nat \<Rightarrow> bool) \<Rightarrow> nat \<Rightarrow> nat \<Rightarrow> nat" where
  "solid_until check dx limit =
    (if dx < limit then
       let dw = (if dx + MAX_SPLIT_TILE_SIZE \<le> limit then MAX_SPLIT_TILE_SIZE else limit - dx)
       in if \<not> check dx dw then dx else solid_until check (dx + dw) limit
     else dx)"
  by pat_completeness auto
termination by (relation "measure (\<lambda>(_, dx, limit). limit - dx)") (auto simp: MAX_SPLIT_TILE_SIZE_def)

declare solid_until.simps [simp del]

text \<open>FindBestSolidArea: its loop over the rows of tiles, \<open>check\<close> with the rectangle and the colour.\<close>

function best_rows :: "(nat \<Rightarrow> nat \<Rightarrow> nat \<Rightarrow> nat \<Rightarrow> bool) \<Rightarrow> nat \<Rightarrow> nat \<Rightarrow> nat \<Rightarrow> nat \<Rightarrow> nat \<Rightarrow> nat \<Rightarrow> nat \<Rightarrow> nat \<times> nat" where
  "best_rows check x y h dy w_prev w_best h_best =
    (if dy < y + h then
       let dh = (if dy + MAX_SPLIT_TILE_SIZE \<le> y + h then MAX_SPLIT_TILE_SIZE else y + h - dy);
           dw = (if w_prev > MAX_SPLIT_TILE_SIZE then MAX_SPLIT_TILE_SIZE else w_prev)
       in if \<not> check x dy dw dh then (w_best, h_best)
          else
            let w_prev = solid_until (\<lambda>dx dw. check dx dy dw dh) (x + dw) (x + w_prev) - x;
                (w_best, h_best) = (if w_prev * (dy + dh - y) > w_best * h_best then (w_prev, dy + dh - y) else (w_best, h_best))
            in best_rows check x y h (dy + MAX_SPLIT_TILE_SIZE) w_prev w_best h_best
     else (w_best, h_best))"
  by pat_completeness auto
termination by (relation "measure (\<lambda>(_, _, y, h, dy, _). y + h - dy)") (auto simp: MAX_SPLIT_TILE_SIZE_def)

declare best_rows.simps [simp del]

definition solid_check :: "server \<Rightarrow> rfbClientRec \<Rightarrow> u32 \<Rightarrow> nat \<Rightarrow> nat \<Rightarrow> nat \<Rightarrow> nat \<Rightarrow> bool" where
  "solid_check srv cl colorValue x y w h \<longleftrightarrow> CheckSolidTile srv cl x y w h (Some colorValue) \<noteq> None"

definition FindBestSolidArea :: "server \<Rightarrow> rfbClientRec \<Rightarrow> nat \<Rightarrow> nat \<Rightarrow> nat \<Rightarrow> nat \<Rightarrow> u32 \<Rightarrow> nat \<times> nat" where
  "FindBestSolidArea srv cl x y w h colorValue = best_rows (solid_check srv cl colorValue) x y h y w 0 0"

text \<open>The four loops of ExtendSolidArea: two go down to a limit, two go up to one.\<close>

fun extend_down :: "(nat \<Rightarrow> bool) \<Rightarrow> nat \<Rightarrow> nat \<Rightarrow> nat" where
  "extend_down check limit 0 = 0"
| "extend_down check limit (Suc c) = (if c \<ge> limit \<and> check c then extend_down check limit c else Suc c)"

function extend_up :: "(nat \<Rightarrow> bool) \<Rightarrow> nat \<Rightarrow> nat \<Rightarrow> nat" where
  "extend_up check limit c = (if c < limit \<and> check c then extend_up check limit (c + 1) else c)"
  by pat_completeness auto
termination by (relation "measure (\<lambda>(_, limit, c). limit - c)") auto

declare extend_up.simps [simp del]

definition ExtendSolidArea :: "server \<Rightarrow> rfbClientRec \<Rightarrow> nat \<Rightarrow> nat \<Rightarrow> nat \<Rightarrow> nat \<Rightarrow> u32 \<Rightarrow> rect \<Rightarrow> rect" where
  "ExtendSolidArea srv cl x y w h colorValue = (\<lambda>(x_ptr, y_ptr, w_ptr, h_ptr).
    let check = solid_check srv cl colorValue;
        cy = extend_down (\<lambda>cy. check x_ptr cy w_ptr 1) y y_ptr;
        h_ptr = h_ptr + (y_ptr - cy); y_ptr = cy;
        cy = extend_up (\<lambda>cy. check x_ptr cy w_ptr 1) (y + h) (y_ptr + h_ptr);
        h_ptr = cy - y_ptr;
        cx = extend_down (\<lambda>cx. check cx y_ptr 1 h_ptr) x x_ptr;
        w_ptr = w_ptr + (x_ptr - cx); x_ptr = cx;
        cx = extend_up (\<lambda>cx. check cx y_ptr 1 h_ptr) (x + w) (x_ptr + w_ptr);
        w_ptr = cx - x_ptr
    in (x_ptr, y_ptr, w_ptr, h_ptr))"

section \<open>The pieces of a rectangle\<close>

text \<open>
  What is sent depends on the screen only, not on the client's stream, so the pieces of a rectangle are
  found first. A \<open>Simple\<close> piece goes to SendRectSimple, a \<open>Solid\<close> one is of one colour.
\<close>

datatype piece = Simple rect | Solid rect

text \<open>The loop over the tiles of a row: the first large enough area of one colour, extended.\<close>

function search_row :: "server \<Rightarrow> rfbClientRec \<Rightarrow> nat \<Rightarrow> nat \<Rightarrow> nat \<Rightarrow> nat \<Rightarrow> nat \<Rightarrow> nat \<Rightarrow> nat \<Rightarrow> rect option" where
  "search_row srv cl x y w h dy dh dx =
    (if dx < x + w then
       let dw = (if dx + MAX_SPLIT_TILE_SIZE \<le> x + w then MAX_SPLIT_TILE_SIZE else x + w - dx) in
       case CheckSolidTile srv cl dx dy dw dh None of
         None \<Rightarrow> search_row srv cl x y w h dy dh (dx + MAX_SPLIT_TILE_SIZE)
       | Some colorValue \<Rightarrow>
           let (w_best, h_best) = FindBestSolidArea srv cl dx dy (w - (dx - x)) (h - (dy - y)) colorValue
           in if w_best * h_best \<noteq> w * h \<and> w_best * h_best < MIN_SOLID_SUBRECT_SIZE
              then search_row srv cl x y w h dy dh (dx + MAX_SPLIT_TILE_SIZE)
              else Some (ExtendSolidArea srv cl x y w h colorValue (dx, dy, w_best, h_best))
     else None)"
  by pat_completeness auto
termination
  by (relation "measure (\<lambda>(_, _, x, _, w, _, _, _, dx). x + w - dx)") (auto simp: MAX_SPLIT_TILE_SIZE_def)

declare search_row.simps [simp del]

text \<open>
  The loop over the rows of tiles. If the rectangle becomes too large, its upper part is sent; the result
  is how many times that happened, with the row where the remaining part begins, and the area.
\<close>

function search_rows :: "server \<Rightarrow> rfbClientRec \<Rightarrow> nat \<Rightarrow> nat \<Rightarrow> nat \<Rightarrow> nat \<Rightarrow> nat \<Rightarrow> nat \<Rightarrow> rect list \<times> nat \<times> nat \<times> rect option" where
  "search_rows srv cl nMaxRows x w dy y h =
    (if dy < y + h then
       let (upper, y, h) = (if dy - y \<ge> nMaxRows then ([(x, y, w, nMaxRows)], y + nMaxRows, h - nMaxRows) else ([], y, h));
           dh = (if dy + MAX_SPLIT_TILE_SIZE \<le> y + h then MAX_SPLIT_TILE_SIZE else y + h - dy)
       in case search_row srv cl x y w h dy dh x of
            Some best \<Rightarrow> (upper, y, h, Some best)
          | None \<Rightarrow>
              let (uppers, y, h, best) = search_rows srv cl nMaxRows x w (dy + MAX_SPLIT_TILE_SIZE) y h
              in (upper @ uppers, y, h, best)
     else ([], y, h, None))"
  by pat_completeness auto
termination
  by (relation "measure (\<lambda>(_, _, _, _, _, dy, y, h). y + h - dy)") (auto simp: MAX_SPLIT_TILE_SIZE_def split: if_splits)

declare search_rows.simps [simp del]

section \<open>What the search finds\<close>

definition uniform :: "(nat \<Rightarrow> nat \<Rightarrow> u32) \<Rightarrow> u32 \<Rightarrow> rect \<Rightarrow> bool" where
  "uniform f c r \<longleftrightarrow> (\<forall>px py. in_rect px py r \<longrightarrow> f px py = c)"

definition server_pixel :: "server \<Rightarrow> rfbClientRec \<Rightarrow> nat \<Rightarrow> nat \<Rightarrow> u32" where
  "server_pixel srv cl px py =
    (let b = bitsPerPixel (rfbServerFormat srv); bpp = (if b = 32 then 32 else if b = 16 then 16 else 8)
     in load_pixel (littleEndian srv) bpp (scalingFrameBuffer cl) (py * scalingPaddedWidthInBytes cl + px * (bpp div 8)))"

lemma uniformD: "uniform f c (x, y, w, h) \<Longrightarrow> x \<le> px \<Longrightarrow> px < x + w \<Longrightarrow> y \<le> py \<Longrightarrow> py < y + h \<Longrightarrow> f px py = c"
  by (simp add: uniform_def in_rect_def)

lemma uniformI: "(\<And>px py. x \<le> px \<Longrightarrow> px < x + w \<Longrightarrow> y \<le> py \<Longrightarrow> py < y + h \<Longrightarrow> f px py = c) \<Longrightarrow> uniform f c (x, y, w, h)"
  by (simp add: uniform_def in_rect_def)

lemma CheckSolidTile_uniform:
  assumes "0 < w" "0 < h"
  shows "CheckSolidTile srv cl x y w h same = Some c \<longleftrightarrow>
    (same = None \<or> same = Some c) \<and> uniform (server_pixel srv cl) c (x, y, w, h)"
proof -
  define bpp :: nat where "bpp = (let b = bitsPerPixel (rfbServerFormat srv) in if b = 32 then 32 else if b = 16 then 16 else 8)"
  let ?f = "server_pixel srv cl"
  have f: "?f px py = load_pixel (littleEndian srv) bpp (scalingFrameBuffer cl) (py * scalingPaddedWidthInBytes cl + px * (bpp div 8))" for px py
    by (simp add: server_pixel_def bpp_def Let_def)
  have o: "y * scalingPaddedWidthInBytes cl + x * (bpp div 8) + dy * scalingPaddedWidthInBytes cl + dx * (bpp div 8) =
      (y + dy) * scalingPaddedWidthInBytes cl + (x + dx) * (bpp div 8)" for dx dy
    by (simp add: algebra_simps)
  have e: "CheckSolidTile srv cl x y w h same =
    (if same \<noteq> None \<and> same \<noteq> Some (?f x y) then None
     else if \<forall>dy < h. \<forall>dx < w. ?f x y = ?f (x + dx) (y + dy) then Some (?f x y) else None)"
    unfolding CheckSolidTile_def Let_def bpp_def [unfolded Let_def, symmetric] list_all_iff f o by (simp add: Ball_def)
  have u: "uniform ?f c (x, y, w, h) \<longleftrightarrow> ?f x y = c \<and> (\<forall>dy < h. \<forall>dx < w. ?f x y = ?f (x + dx) (y + dy))"
  proof
    assume "uniform ?f c (x, y, w, h)"
    then show "?f x y = c \<and> (\<forall>dy < h. \<forall>dx < w. ?f x y = ?f (x + dx) (y + dy))"
      using uniformD [where f = ?f and c = c and x = x and y = y and w = w and h = h] assms by simp
  next
    assume a: "?f x y = c \<and> (\<forall>dy < h. \<forall>dx < w. ?f x y = ?f (x + dx) (y + dy))"
    show "uniform ?f c (x, y, w, h)"
    proof (rule uniformI)
      fix px py assume p: "x \<le> px" "px < x + w" "y \<le> py" "py < y + h"
      have "?f x y = ?f (x + (px - x)) (y + (py - y))" using a p by (intro a [THEN conjunct2, rule_format]) auto
      then show "?f px py = c" using a p by simp
    qed
  qed
  show ?thesis unfolding e u by auto
qed

lemma solid_check_uniform: "0 < w \<Longrightarrow> 0 < h \<Longrightarrow> solid_check srv cl c x y w h \<longleftrightarrow> uniform (server_pixel srv cl) c (x, y, w, h)"
  using CheckSolidTile_uniform [of w h srv cl x y "Some c"] by (auto simp: solid_check_def)

lemma uniform_beside: "uniform f c (x, y, w1, h) \<Longrightarrow> uniform f c (x + w1, y, w2, h) \<Longrightarrow> uniform f c (x, y, w1 + w2, h)"
  unfolding uniform_def in_rect_def prod.case by (metis add.assoc not_le)

lemma uniform_below: "uniform f c (x, y, w, h1) \<Longrightarrow> uniform f c (x, y + h1, w, h2) \<Longrightarrow> uniform f c (x, y, w, h1 + h2)"
  unfolding uniform_def in_rect_def prod.case by (metis add.assoc not_le)

lemma uniform_narrow: "uniform f c (x, y, w, h) \<Longrightarrow> w' \<le> w \<Longrightarrow> uniform f c (x, y, w', h)"
  by (rule uniformI) (auto dest: uniformD)

text \<open>A check that decides whether a rectangle that is not empty is uniform.\<close>

definition decides :: "(nat \<Rightarrow> nat \<Rightarrow> nat \<Rightarrow> nat \<Rightarrow> bool) \<Rightarrow> (nat \<Rightarrow> nat \<Rightarrow> u32) \<Rightarrow> u32 \<Rightarrow> bool" where
  "decides check f c \<longleftrightarrow> (\<forall>x y w h. 0 < w \<longrightarrow> 0 < h \<longrightarrow> check x y w h = uniform f c (x, y, w, h))"

lemma solid_until_uniform:
  assumes "decides check f c" "0 < dh"
  shows "dx \<le> limit \<Longrightarrow> uniform f c (x, dy, dx - x, dh) \<Longrightarrow> x \<le> dx \<Longrightarrow>
    dx \<le> solid_until (\<lambda>dx dw. check dx dy dw dh) dx limit \<and> solid_until (\<lambda>dx dw. check dx dy dw dh) dx limit \<le> limit \<and>
    uniform f c (x, dy, solid_until (\<lambda>dx dw. check dx dy dw dh) dx limit - x, dh)"
proof (induction "limit - dx" arbitrary: dx rule: less_induct)
  case less
  define dw where "dw = (if dx + MAX_SPLIT_TILE_SIZE \<le> limit then MAX_SPLIT_TILE_SIZE else limit - dx)"
  show ?case
  proof (cases "dx < limit \<and> check dx dy dw dh")
    case False
    then have "solid_until (\<lambda>dx dw. check dx dy dw dh) dx limit = dx"
      by (subst solid_until.simps) (auto simp: dw_def [symmetric] Let_def)
    then show ?thesis using less.prems by simp
  next
    case True
    have dw: "0 < dw" "dx + dw \<le> limit" using True by (auto simp: dw_def MAX_SPLIT_TILE_SIZE_def)
    have e: "solid_until (\<lambda>dx dw. check dx dy dw dh) dx limit = solid_until (\<lambda>dx dw. check dx dy dw dh) (dx + dw) limit"
      using True by (subst solid_until.simps) (simp add: dw_def [symmetric] Let_def)
    have "uniform f c (dx, dy, dw, dh)" using True assms dw(1) by (simp add: decides_def)
    then have "uniform f c (x, dy, (dx - x) + dw, dh)" using less.prems by (intro uniform_beside) simp_all
    then have "uniform f c (x, dy, dx + dw - x, dh)" using less.prems(3) by simp
    then have "dx + dw \<le> solid_until (\<lambda>dx dw. check dx dy dw dh) (dx + dw) limit \<and>
        solid_until (\<lambda>dx dw. check dx dy dw dh) (dx + dw) limit \<le> limit \<and>
        uniform f c (x, dy, solid_until (\<lambda>dx dw. check dx dy dw dh) (dx + dw) limit - x, dh)"
      using less.hyps [of "dx + dw"] dw less.prems by simp
    then show ?thesis unfolding e by linarith
  qed
qed

text \<open>The rows: what has been passed is uniform, and so is the best area; it only grows.\<close>

lemma best_rows_uniform:
  assumes "decides check f c" "best_rows check x y h dy w_prev w_best h_best = (wb, hb)"
    and "y \<le> dy" "w_prev \<le> w" "0 < w_prev" "uniform f c (x, y, w_prev, dy - y)"
    and "w_best \<le> w" "h_best \<le> h" "uniform f c (x, y, w_best, h_best)"
  shows "wb \<le> w \<and> hb \<le> h \<and> uniform f c (x, y, wb, hb) \<and> w_best * h_best \<le> wb * hb \<and>
    (dy < y + h \<and> check x dy (min w_prev MAX_SPLIT_TILE_SIZE) (min MAX_SPLIT_TILE_SIZE (y + h - dy)) \<longrightarrow> 0 < wb * hb)"
  using assms(2-)
proof (induction "y + h - dy" arbitrary: dy w_prev w_best h_best rule: less_induct)
  case less
  define dh where "dh = (if dy + MAX_SPLIT_TILE_SIZE \<le> y + h then MAX_SPLIT_TILE_SIZE else y + h - dy)"
  define dw where "dw = (if w_prev > MAX_SPLIT_TILE_SIZE then MAX_SPLIT_TILE_SIZE else w_prev)"
  have m: "min w_prev MAX_SPLIT_TILE_SIZE = dw" "min MAX_SPLIT_TILE_SIZE (y + h - dy) = dh" if "dy < y + h"
    using that by (auto simp: dw_def dh_def)
  show ?case
  proof (cases "dy < y + h \<and> check x dy dw dh")
    case False
    then have "(wb, hb) = (w_best, h_best)"
      using less.prems(1) by (subst (asm) best_rows.simps) (auto simp: Let_def dw_def [symmetric] dh_def [symmetric] split: if_splits)
    then show ?thesis using less.prems False m by auto
  next
    case True
    define s where "s = solid_until (\<lambda>dx dw. check dx dy dw dh) (x + dw) (x + w_prev)"
    define w2 where "w2 = s - x"
    define b where "b = (if w2 * (dy + dh - y) > w_best * h_best then (w2, dy + dh - y) else (w_best, h_best))"
    have dh: "0 < dh" "dy + dh \<le> y + h" using True by (auto simp: dh_def MAX_SPLIT_TILE_SIZE_def)
    have dw: "0 < dw" "dw \<le> w_prev" using less.prems(4) by (auto simp: dw_def MAX_SPLIT_TILE_SIZE_def)
    have "uniform f c (x, dy, dw, dh)" using True assms(1) dw(1) dh(1) by (simp add: decides_def)
    then have s: "x + dw \<le> s" "s \<le> x + w_prev" "uniform f c (x, dy, s - x, dh)"
      using solid_until_uniform [OF assms(1) dh(1), of "x + dw" "x + w_prev" x dy] dw by (simp_all add: s_def)
    then have w2: "0 < w2" "w2 \<le> w_prev" using dw by (simp_all add: w2_def)
    have "uniform f c (x, y, w2, dy - y)" by (rule uniform_narrow [OF less.prems(5) w2(2)])
    moreover have "uniform f c (x, y + (dy - y), w2, dh)" using s(3) less.prems(2) by (simp add: w2_def)
    ultimately have u: "uniform f c (x, y, w2, dy + dh - y)" using uniform_below [of f c x y w2 "dy - y" dh] less.prems(2) by simp
    have h2: "0 < dy + dh - y" "dy + dh - y \<le> h" using dh less.prems(2) by simp_all
    obtain b1 b2 where b12: "b = (b1, b2)" by fastforce
    have bb: "b1 \<le> w \<and> b2 \<le> h \<and> uniform f c (x, y, b1, b2) \<and> w_best * h_best \<le> b1 * b2 \<and> 0 < b1 * b2"
    proof (cases "w2 * (dy + dh - y) > w_best * h_best")
      case True
      then have "b1 = w2" "b2 = dy + dh - y" using b12 by (simp_all add: b_def)
      then show ?thesis using u w2 h2 less.prems(3) True by simp
    next
      case False
      have "0 < w2 * (dy + dh - y)" using w2 h2 by simp
      then have "0 < w_best * h_best" using False by linarith
      then show ?thesis using less.prems(6-8) False b12 by (simp add: b_def)
    qed
    have rec: "best_rows check x y h (dy + MAX_SPLIT_TILE_SIZE) w2 (b1) (b2) = (wb, hb)"
      using less.prems(1) True
      by (subst (asm) best_rows.simps)
        (simp add: Let_def dw_def [symmetric] dh_def [symmetric] s_def [symmetric] w2_def [symmetric] b_def [symmetric] b12)
    show ?thesis
    proof (cases "dy + MAX_SPLIT_TILE_SIZE \<le> y + h")
      case full: True
      have smaller: "y + h - (dy + MAX_SPLIT_TILE_SIZE) < y + h - dy" using True by (auto simp: MAX_SPLIT_TILE_SIZE_def)
      have "uniform f c (x, y, w2, dy + MAX_SPLIT_TILE_SIZE - y)" using u full by (simp add: dh_def)
      then have "wb \<le> w \<and> hb \<le> h \<and> uniform f c (x, y, wb, hb) \<and> b1 * b2 \<le> wb * hb"
        using less.hyps [OF smaller rec] bb w2 less.prems(2,3) by simp
      then show ?thesis using bb by (meson le_less_trans less_le_trans not_less)
    next
      case False
      then have "(wb, hb) = (b1, b2)" using rec by (subst (asm) best_rows.simps) simp
      then show ?thesis using bb by auto
    qed
  qed
qed

lemma FindBestSolidArea_uniform:
  assumes "FindBestSolidArea srv cl x y w h c = (wb, hb)" "0 < w" "0 < h"
    and "uniform (server_pixel srv cl) c (x, y, min w MAX_SPLIT_TILE_SIZE, min MAX_SPLIT_TILE_SIZE h)"
  shows "0 < wb \<and> wb \<le> w \<and> 0 < hb \<and> hb \<le> h \<and> uniform (server_pixel srv cl) c (x, y, wb, hb)"
proof -
  have d: "decides (solid_check srv cl c) (server_pixel srv cl) c" by (simp add: decides_def solid_check_uniform)
  have "solid_check srv cl c x y (min w MAX_SPLIT_TILE_SIZE) (min MAX_SPLIT_TILE_SIZE h)"
    using assms by (simp add: solid_check_uniform MAX_SPLIT_TILE_SIZE_def)
  moreover have "uniform (server_pixel srv cl) c (x, y, w, y - y)" "uniform (server_pixel srv cl) c (x, y, 0, 0)"
    by (auto simp: uniform_def in_rect_def)
  ultimately show ?thesis
    using best_rows_uniform [OF d assms(1) [unfolded FindBestSolidArea_def] order_refl order_refl assms(2)] assms(3) by simp
qed

text \<open>The extension: each step adds a line that has been checked.\<close>

lemma extend_down_bounds: "extend_down check limit c \<le> c \<and> (limit \<le> c \<longrightarrow> limit \<le> extend_down check limit c) \<and>
    (\<forall>k. extend_down check limit c \<le> k \<and> k < c \<longrightarrow> check k)"
  by (induction c) (auto simp: less_Suc_eq le_Suc_eq)

lemma extend_up_bounds: "c \<le> extend_up check limit c \<and> (c \<le> limit \<longrightarrow> extend_up check limit c \<le> limit) \<and>
    (\<forall>k. c \<le> k \<and> k < extend_up check limit c \<longrightarrow> check k)"
proof (induction check limit c rule: extend_up.induct)
  case (1 check limit c)
  show ?case
  proof (cases "c < limit \<and> check c")
    case True
    then have e: "extend_up check limit c = extend_up check limit (c + 1)" by (subst extend_up.simps) simp
    have IH: "c + 1 \<le> extend_up check limit (c + 1) \<and> (c + 1 \<le> limit \<longrightarrow> extend_up check limit (c + 1) \<le> limit) \<and>
      (\<forall>k. c + 1 \<le> k \<and> k < extend_up check limit (c + 1) \<longrightarrow> check k)" using 1 True by blast
    have "check k" if "c \<le> k" "k < extend_up check limit (c + 1)" for k
      using that IH True by (cases "k = c") auto
    then show ?thesis unfolding e using IH True by auto
  next
    case False
    then have "extend_up check limit c = c" by (subst extend_up.simps) auto
    then show ?thesis by auto
  qed
qed

lemma ExtendSolidArea_uniform:
  assumes "ExtendSolidArea srv cl x y w h c (x0, y0, w0, h0) = (xb, yb, wb, hb)"
    and "uniform (server_pixel srv cl) c (x0, y0, w0, h0)" "0 < w0" "0 < h0"
    and "x \<le> x0" "x0 + w0 \<le> x + w" "y \<le> y0" "y0 + h0 \<le> y + h"
  shows "uniform (server_pixel srv cl) c (xb, yb, wb, hb)" "0 < wb" "0 < hb" "x \<le> xb" "xb + wb \<le> x + w" "y \<le> yb" "yb + hb \<le> y + h"
proof -
  let ?f = "server_pixel srv cl" and ?ck = "solid_check srv cl c"
  define y1 where "y1 = extend_down (\<lambda>cy. ?ck x0 cy w0 1) y y0"
  define h1 where "h1 = h0 + (y0 - y1)"
  define y2 where "y2 = extend_up (\<lambda>cy. ?ck x0 cy w0 1) (y + h) (y1 + h1)"
  define h2 where "h2 = y2 - y1"
  define x1 where "x1 = extend_down (\<lambda>cx. ?ck cx y1 1 h2) x x0"
  define w1 where "w1 = w0 + (x0 - x1)"
  define x2 where "x2 = extend_up (\<lambda>cx. ?ck cx y1 1 h2) (x + w) (x1 + w1)"
  have b: "xb = x1" "yb = y1" "wb = x2 - x1" "hb = h2"
    using assms(1)
    unfolding ExtendSolidArea_def prod.case Let_def y1_def [symmetric] h1_def [symmetric] y2_def [symmetric] h2_def [symmetric]
      x1_def [symmetric] w1_def [symmetric] x2_def [symmetric]
    by auto
  have d1: "y1 \<le> y0" "y \<le> y1" "\<And>k. y1 \<le> k \<Longrightarrow> k < y0 \<Longrightarrow> ?ck x0 k w0 1"
    using extend_down_bounds [of "\<lambda>cy. ?ck x0 cy w0 1" y y0] assms(7) by (simp_all add: y1_def)
  have d2: "y1 + h1 \<le> y2" "y2 \<le> y + h" "\<And>k. y1 + h1 \<le> k \<Longrightarrow> k < y2 \<Longrightarrow> ?ck x0 k w0 1"
    using extend_up_bounds [of "y1 + h1" "\<lambda>cy. ?ck x0 cy w0 1" "y + h"] d1 assms(8) by (simp_all add: y2_def h1_def)
  have h2: "0 < h2" "y1 + h2 = y2" using d1 d2 assms(4) by (simp_all add: h2_def h1_def)
  have u1: "uniform ?f c (x0, y1, w0, h2)"
  proof (rule uniformI)
    fix px py assume p: "x0 \<le> px" "px < x0 + w0" "y1 \<le> py" "py < y1 + h2"
    show "?f px py = c"
    proof (cases "y0 \<le> py \<and> py < y0 + h0")
      case True
      then show ?thesis using assms(2) p by (auto intro: uniformD)
    next
      case False
      then have "?ck x0 py w0 1" using d1 d2 p h2 by (cases "py < y0") (auto simp: h1_def)
      then have "uniform ?f c (x0, py, w0, 1)" using assms(3) by (simp add: solid_check_uniform)
      then show ?thesis using p by (auto intro: uniformD)
    qed
  qed
  have d3: "x1 \<le> x0" "x \<le> x1" "\<And>k. x1 \<le> k \<Longrightarrow> k < x0 \<Longrightarrow> ?ck k y1 1 h2"
    using extend_down_bounds [of "\<lambda>cx. ?ck cx y1 1 h2" x x0] assms(5) by (simp_all add: x1_def)
  have d4: "x1 + w1 \<le> x2" "x2 \<le> x + w" "\<And>k. x1 + w1 \<le> k \<Longrightarrow> k < x2 \<Longrightarrow> ?ck k y1 1 h2"
    using extend_up_bounds [of "x1 + w1" "\<lambda>cx. ?ck cx y1 1 h2" "x + w"] d3 assms(6) by (simp_all add: x2_def w1_def)
  have w2: "x1 + (x2 - x1) = x2" "0 < x2 - x1" using d3 d4 assms(3) by (simp_all add: w1_def)
  have "uniform ?f c (x1, y1, x2 - x1, h2)"
  proof (rule uniformI)
    fix px py assume p: "x1 \<le> px" "px < x1 + (x2 - x1)" "y1 \<le> py" "py < y1 + h2"
    show "?f px py = c"
    proof (cases "x0 \<le> px \<and> px < x0 + w0")
      case True
      then show ?thesis using u1 p by (auto intro: uniformD)
    next
      case False
      then have "?ck px y1 1 h2" using d3 d4 p by (cases "px < x0") (auto simp: w1_def)
      then have "uniform ?f c (px, y1, 1, h2)" using h2(1) by (simp add: solid_check_uniform)
      then show ?thesis using p by (auto intro: uniformD)
    qed
  qed
  then show "uniform ?f c (xb, yb, wb, hb)" by (simp add: b)
  show "0 < wb" "0 < hb" "x \<le> xb" "xb + wb \<le> x + w" "y \<le> yb" "yb + hb \<le> y + h"
    using w2 h2 d1 d2 d3 d4 by (simp_all add: b)
qed

text \<open>The rows of tiles.\<close>

lemma search_row_uniform:
  assumes "search_row srv cl x y w h dy dh dx = Some (xb, yb, wb, hb)"
    and "x \<le> dx" "y \<le> dy" "dy < y + h" "dh = min MAX_SPLIT_TILE_SIZE (y + h - dy)"
  shows "\<exists>c. uniform (server_pixel srv cl) c (xb, yb, wb, hb) \<and> 0 < wb \<and> 0 < hb \<and> x \<le> xb \<and> xb + wb \<le> x + w \<and> y \<le> yb \<and> yb + hb \<le> y + h"
  using assms(1,2)
proof (induction "x + w - dx" arbitrary: dx rule: less_induct)
  case less
  have dx: "dx < x + w" using less.prems(1) by (subst (asm) search_row.simps) (auto split: if_splits)
  define dw where "dw = (if dx + MAX_SPLIT_TILE_SIZE \<le> x + w then MAX_SPLIT_TILE_SIZE else x + w - dx)"
  have dw: "0 < dw" "dw = min (w - (dx - x)) MAX_SPLIT_TILE_SIZE" using dx less.prems(2) by (auto simp: dw_def MAX_SPLIT_TILE_SIZE_def)
  have dh: "0 < dh" using assms(4,5) by (simp add: MAX_SPLIT_TILE_SIZE_def)
  note next' = less.hyps [of "dx + MAX_SPLIT_TILE_SIZE"]
  have m: "x + w - (dx + MAX_SPLIT_TILE_SIZE) < x + w - dx" "x \<le> dx + MAX_SPLIT_TILE_SIZE"
    using dx less.prems(2) by (simp_all add: MAX_SPLIT_TILE_SIZE_def)
  show ?case
  proof (cases "CheckSolidTile srv cl dx dy dw dh None")
    case None
    then have "search_row srv cl x y w h dy dh (dx + MAX_SPLIT_TILE_SIZE) = Some (xb, yb, wb, hb)"
      using less.prems(1) dx by (subst (asm) search_row.simps) (simp add: dw_def [symmetric] Let_def)
    then show ?thesis using next' m by blast
  next
    case (Some c)
    then have u: "uniform (server_pixel srv cl) c (dx, dy, dw, dh)" using CheckSolidTile_uniform [OF dw(1) dh] by simp
    obtain w1 h1 where f: "FindBestSolidArea srv cl dx dy (w - (dx - x)) (h - (dy - y)) c = (w1, h1)" by fastforce
    have pos: "0 < w - (dx - x)" "0 < h - (dy - y)" using dx less.prems(2) assms(3,4) by simp_all
    have "uniform (server_pixel srv cl) c (dx, dy, min (w - (dx - x)) MAX_SPLIT_TILE_SIZE, min MAX_SPLIT_TILE_SIZE (h - (dy - y)))"
      using u dw(2) assms(3,5) by (simp add: diff_diff_right add.commute)
    note best = FindBestSolidArea_uniform [OF f pos this]
    show ?thesis
    proof (cases "w1 * h1 \<noteq> w * h \<and> w1 * h1 < MIN_SOLID_SUBRECT_SIZE")
      case True
      then have "search_row srv cl x y w h dy dh (dx + MAX_SPLIT_TILE_SIZE) = Some (xb, yb, wb, hb)"
        using less.prems(1) dx by (subst (asm) search_row.simps) (simp add: dw_def [symmetric] Let_def Some f)
      then show ?thesis using next' m by blast
    next
      case False
      then have "ExtendSolidArea srv cl x y w h c (dx, dy, w1, h1) = (xb, yb, wb, hb)"
        using less.prems(1) dx by (subst (asm) search_row.simps) (auto simp: dw_def [symmetric] Let_def Some f)
      moreover have "dx + w1 \<le> x + w" "dy + h1 \<le> y + h" using best less.prems(2) assms(3) dx assms(4) by linarith+
      ultimately show ?thesis
        using ExtendSolidArea_uniform [of srv cl x y w h c dx dy w1 h1 xb yb wb hb] best less.prems(2) assms(3)
        by (intro exI [of _ c]) simp
    qed
  qed
qed

text \<open>The stack of parts that have been sent: of the full width, one below the other.\<close>

fun stacked :: "nat \<Rightarrow> nat \<Rightarrow> nat \<Rightarrow> nat \<Rightarrow> nat \<Rightarrow> rect list \<Rightarrow> bool" where
  "stacked x w rows y y' [] \<longleftrightarrow> y' = y"
| "stacked x w rows y y' (r # rs) \<longleftrightarrow> r = (x, y, w, rows) \<and> stacked x w rows (y + rows) y' rs"

lemma search_rows_found:
  assumes "search_rows srv cl nMaxRows x w dy y h = (uppers, y', h', best)" "y \<le> dy"
  shows "stacked x w nMaxRows y y' uppers \<and> y \<le> y' \<and> y' + h' = y + h \<and> (0 < h \<longrightarrow> 0 < h') \<and>
    (case best of None \<Rightarrow> True
     | Some (xb, yb, wb, hb) \<Rightarrow>
         (\<exists>c. uniform (server_pixel srv cl) c (xb, yb, wb, hb)) \<and> 0 < wb \<and> 0 < hb \<and> x \<le> xb \<and> xb + wb \<le> x + w \<and> y' \<le> yb \<and> yb + hb \<le> y' + h')"
  using assms
proof (induction "y + h - dy" arbitrary: dy y h uppers rule: less_induct)
  case less
  show ?case
  proof (cases "dy < y + h")
    case False
    then have "uppers = [] \<and> y' = y \<and> h' = h \<and> best = None" using less.prems(1) by (subst (asm) search_rows.simps) simp
    then show ?thesis by simp
  next
    case True
    define up where "up = (if dy - y \<ge> nMaxRows then [(x, y, w, nMaxRows)] else [])"
    define y1 where "y1 = (if dy - y \<ge> nMaxRows then y + nMaxRows else y)"
    define h1 where "h1 = (if dy - y \<ge> nMaxRows then h - nMaxRows else h)"
    define dh where "dh = (if dy + MAX_SPLIT_TILE_SIZE \<le> y1 + h1 then MAX_SPLIT_TILE_SIZE else y1 + h1 - dy)"
    have t: "(if dy - y \<ge> nMaxRows then ([(x, y, w, nMaxRows)], y + nMaxRows, h - nMaxRows) else ([], y, h)) = (up, y1, h1)"
      by (simp add: up_def y1_def h1_def)
    have b: "y \<le> y1" "y1 + h1 = y + h" "y1 \<le> dy" "0 < h1" using True less.prems(2) by (auto simp: y1_def h1_def)
    have dh: "dh = min MAX_SPLIT_TILE_SIZE (y1 + h1 - dy)" using True b by (auto simp: dh_def)
    have st: "stacked x w nMaxRows y1 z rs \<Longrightarrow> stacked x w nMaxRows y z (up @ rs)" for z rs
      by (auto simp: up_def y1_def)
    show ?thesis
    proof (cases "search_row srv cl x y1 w h1 dy dh x")
      case None
      obtain us where us: "search_rows srv cl nMaxRows x w (dy + MAX_SPLIT_TILE_SIZE) y1 h1 = (us, y', h', best)" "uppers = up @ us"
        using less.prems(1) True unfolding search_rows.simps [of srv cl nMaxRows x w dy] if_P [OF True] t Let_def prod.case dh_def [symmetric] None option.case
        by (cases "search_rows srv cl nMaxRows x w (dy + MAX_SPLIT_TILE_SIZE) y1 h1") auto
      have "y1 + h1 - (dy + MAX_SPLIT_TILE_SIZE) < y + h - dy" "y1 \<le> dy + MAX_SPLIT_TILE_SIZE"
        using True b by (simp_all add: MAX_SPLIT_TILE_SIZE_def)
      note IH = less.hyps [OF this(1) us(1) this(2)]
      show ?thesis using IH st [of y' us] b us(2) by auto
    next
      case (Some best')
      obtain xb yb wb hb where r: "best' = (xb, yb, wb, hb)" by (metis prod_cases4)
      have e: "uppers = up" "y' = y1" "h' = h1" "best = Some (xb, yb, wb, hb)"
        using less.prems(1) True unfolding search_rows.simps [of srv cl nMaxRows x w dy] if_P [OF True] t Let_def prod.case dh_def [symmetric] Some option.case r
        by auto
      have "dy < y1 + h1" using True b by simp
      from search_row_uniform [OF Some [unfolded r] order_refl b(3) this dh] show ?thesis
        using st [of y1 "[]"] b unfolding e by auto
    qed
  qed
qed

lemma search_rows_best:
  "search_rows srv cl nMaxRows x w y y h = (uppers, y', h', Some (xb, yb, wb, hb)) \<Longrightarrow>
    0 < wb \<and> 0 < hb \<and> x \<le> xb \<and> xb + wb \<le> x + w \<and> y' \<le> yb \<and> yb + hb \<le> y' + h' \<and> y \<le> y' \<and> y' + h' = y + h"
  using search_rows_found [of srv cl nMaxRows x w y y h uppers y' h' "Some (xb, yb, wb, hb)"] by simp

section \<open>The pieces\<close>

text \<open>rfbSendRectEncodingTight: which pieces it sends, in which order.\<close>

function tight_pieces :: "server \<Rightarrow> rfbClientRec \<Rightarrow> nat \<Rightarrow> nat \<Rightarrow> nat \<Rightarrow> nat \<Rightarrow> piece list" where
  "tight_pieces srv cl x y w h =
    (if \<not> enableLastRectEncoding cl \<or> w * h < MIN_SPLIT_RECT_SIZE then [Simple (x, y, w, h)]
     else
       let nMaxWidth = (if w > maxRectWidth (compress_conf cl) then maxRectWidth (compress_conf cl) else w);
           nMaxRows = maxRectSize (compress_conf cl) div nMaxWidth;
           (uppers, y, h, best) = search_rows srv cl nMaxRows x w y y h
       in map Simple uppers @
          (case best of
             None \<Rightarrow> [Simple (x, y, w, h)]
           | Some (x_best, y_best, w_best, h_best) \<Rightarrow>
               (if y_best \<noteq> y then [Simple (x, y, w, y_best - y)] else []) @
               (if x_best \<noteq> x then tight_pieces srv cl x y_best (x_best - x) h_best else []) @
               [Solid (x_best, y_best, w_best, h_best)] @
               (if x_best + w_best \<noteq> x + w then tight_pieces srv cl (x_best + w_best) y_best (w - (x_best - x) - w_best) h_best else []) @
               (if y_best + h_best \<noteq> y + h then tight_pieces srv cl x (y_best + h_best) w (h - (y_best - y) - h_best) else [])))"
  by pat_completeness auto
termination by (relation "measure (\<lambda>(_, _, _, _, w, h). w + h)") (auto dest!: search_rows_best [OF sym])

declare tight_pieces.simps [simp del]

text \<open>
  SendRectSimple cuts a piece into rectangles of at most the width and size of the compression level: the
  loop over the columns and the one over the rows. A width or height of 0 would keep them from ending.
\<close>

function simple_row :: "nat \<Rightarrow> nat \<Rightarrow> nat \<Rightarrow> nat \<Rightarrow> nat \<Rightarrow> nat \<Rightarrow> rect list" where
  "simple_row maxWidth x y w rh dx =
    (if dx < w \<and> maxWidth \<noteq> 0 then
       let rw = (if dx + maxWidth < w then maxWidth else w - dx)
       in (x + dx, y, rw, rh) # simple_row maxWidth x y w rh (dx + maxWidth)
     else [])"
  by pat_completeness auto
termination by (relation "measure (\<lambda>(_, _, _, w, _, dx). w - dx)") auto

function simple_rows :: "nat \<Rightarrow> nat \<Rightarrow> nat \<Rightarrow> nat \<Rightarrow> nat \<Rightarrow> nat \<Rightarrow> nat \<Rightarrow> rect list" where
  "simple_rows maxWidth maxHeight x y w h dy =
    (if dy < h \<and> maxHeight \<noteq> 0 then
       let rh = (if dy + maxHeight < h then maxHeight else h - dy)
       in simple_row maxWidth x (y + dy) w rh 0 @ simple_rows maxWidth maxHeight x y w h (dy + maxHeight)
     else [])"
  by pat_completeness auto
termination by (relation "measure (\<lambda>(_, _, _, _, _, h, dy). h - dy)") auto

declare simple_row.simps [simp del] simple_rows.simps [simp del]

definition simple_rects :: "TIGHT_CONF \<Rightarrow> rect \<Rightarrow> rect list" where
  "simple_rects conf = (\<lambda>(x, y, w, h).
    if w > maxRectWidth conf \<or> w * h > maxRectSize conf then
      let subrectMaxWidth = (if w > maxRectWidth conf then maxRectWidth conf else w);
          subrectMaxHeight = maxRectSize conf div subrectMaxWidth
      in simple_rows (maxRectWidth conf) subrectMaxHeight x y w h 0
    else [(x, y, w, h)])"

section \<open>The pieces partition the rectangle\<close>

fun piece_rect :: "piece \<Rightarrow> rect" where
  "piece_rect (Simple r) = r"
| "piece_rect (Solid r) = r"

definition covered :: "nat \<Rightarrow> nat \<Rightarrow> rect list \<Rightarrow> nat" where
  "covered px py rs = length (filter (in_rect px py) rs)"

lemma covered_simps [simp]:
  "covered px py [] = 0" "covered px py (r # rs) = of_bool (in_rect px py r) + covered px py rs"
  "covered px py (rs @ ss) = covered px py rs + covered px py ss"
  by (simp_all add: covered_def)

lemma covered_stacked:
  "stacked x w rows y y' rs \<Longrightarrow> y \<le> y' \<and> covered px py rs = of_bool (in_rect px py (x, y, w, y' - y))"
proof (induction rs arbitrary: y)
  case (Cons r rs)
  then have "y + rows \<le> y' \<and> covered px py rs = of_bool (in_rect px py (x, y + rows, w, y' - (y + rows)))" by simp
  then show ?case using Cons.prems by (auto simp: in_rect_def)
qed (simp add: in_rect_def)

text \<open>One step of the recursion, in its two outcomes that do not send the rectangle as it is.\<close>

lemma tight_pieces_step:
  obtains (whole) "tight_pieces srv cl x y w h = [Simple (x, y, w, h)]" "\<not> enableLastRectEncoding cl \<or> w * h < MIN_SPLIT_RECT_SIZE"
  | (plain) us y' h' where "enableLastRectEncoding cl" "MIN_SPLIT_RECT_SIZE \<le> w * h"
      "stacked x w (maxRectSize (compress_conf cl) div min w (maxRectWidth (compress_conf cl))) y y' us" "y \<le> y'" "y' + h' = y + h"
      "0 < h \<longrightarrow> 0 < h'"
      "tight_pieces srv cl x y w h = map Simple us @ [Simple (x, y', w, h')]"
  | (solid) us y' h' xb yb wb hb c where "enableLastRectEncoding cl" "MIN_SPLIT_RECT_SIZE \<le> w * h"
      "stacked x w (maxRectSize (compress_conf cl) div min w (maxRectWidth (compress_conf cl))) y y' us" "y \<le> y'" "y' + h' = y + h"
      "uniform (server_pixel srv cl) c (xb, yb, wb, hb)" "0 < wb" "0 < hb" "x \<le> xb" "xb + wb \<le> x + w" "y' \<le> yb" "yb + hb \<le> y' + h'"
      "tight_pieces srv cl x y w h = map Simple us @
         (if yb \<noteq> y' then [Simple (x, y', w, yb - y')] else []) @
         (if xb \<noteq> x then tight_pieces srv cl x yb (xb - x) hb else []) @ [Solid (xb, yb, wb, hb)] @
         (if xb + wb \<noteq> x + w then tight_pieces srv cl (xb + wb) yb (w - (xb - x) - wb) hb else []) @
         (if yb + hb \<noteq> y' + h' then tight_pieces srv cl x (yb + hb) w (h' - (yb - y') - hb) else [])"
proof (cases "\<not> enableLastRectEncoding cl \<or> w * h < MIN_SPLIT_RECT_SIZE")
  case True
  then show ?thesis by (intro whole) (subst tight_pieces.simps, simp)
next
  case False
  define nMaxRows where "nMaxRows = maxRectSize (compress_conf cl) div min w (maxRectWidth (compress_conf cl))"
  have n: "(if w > maxRectWidth (compress_conf cl) then maxRectWidth (compress_conf cl) else w) = min w (maxRectWidth (compress_conf cl))"
    by simp
  obtain us y' h' best where s: "search_rows srv cl nMaxRows x w y y h = (us, y', h', best)" by (metis prod_cases4)
  note f = search_rows_found [OF s order_refl]
  note e = tight_pieces.simps [of srv cl x y w h, unfolded if_not_P [OF False] Let_def n nMaxRows_def [symmetric] s prod.case]
  show ?thesis
  proof (cases best)
    case None
    then show ?thesis using f e False by (intro plain [of y' us h']) (auto simp: nMaxRows_def)
  next
    case (Some r)
    obtain xb yb wb hb where r: "r = (xb, yb, wb, hb)" by (metis prod_cases4)
    have b: "\<exists>c. uniform (server_pixel srv cl) c (xb, yb, wb, hb)" "0 < wb" "0 < hb" "x \<le> xb" "xb + wb \<le> x + w" "y' \<le> yb" "yb + hb \<le> y' + h'"
      "y \<le> y'" "y' + h' = y + h" "stacked x w nMaxRows y y' us"
      using f Some r by auto
    obtain c where c: "uniform (server_pixel srv cl) c (xb, yb, wb, hb)" using b(1) by blast
    show ?thesis
      by (rule solid [of y' us h' c xb yb wb hb]) (use b c e False Some r in \<open>simp_all add: nMaxRows_def\<close>)
  qed
qed

lemma tight_pieces_covered:
  "covered px py (map piece_rect (tight_pieces srv cl x y w h)) = of_bool (in_rect px py (x, y, w, h))"
proof (induction "w + h" arbitrary: x y w h rule: less_induct)
  case less
  show ?case
  proof (cases rule: tight_pieces_step [of srv cl x y w h])
    case whole
    then show ?thesis by simp
  next
    case (plain us y' h')
    then show ?thesis using covered_stacked [OF plain(3), of px py] by (auto simp: in_rect_def comp_def)
  next
    case (solid us y' h' xb yb wb hb c)
    have up: "covered px py us = of_bool (in_rect px py (x, y, w, y' - y))" using covered_stacked [OF solid(3)] by blast
    have left: "covered px py (map piece_rect (if xb \<noteq> x then tight_pieces srv cl x yb (xb - x) hb else [])) = of_bool (in_rect px py (x, yb, xb - x, hb))"
      using less [of "xb - x" hb x yb] solid by (auto simp: in_rect_def)
    have right: "covered px py (map piece_rect (if xb + wb \<noteq> x + w then tight_pieces srv cl (xb + wb) yb (w - (xb - x) - wb) hb else [])) =
        of_bool (in_rect px py (xb + wb, yb, w - (xb - x) - wb, hb))"
      using less [of "w - (xb - x) - wb" hb "xb + wb" yb] solid by (auto simp: in_rect_def)
    have below: "covered px py (map piece_rect (if yb + hb \<noteq> y' + h' then tight_pieces srv cl x (yb + hb) w (h' - (yb - y') - hb) else [])) =
        of_bool (in_rect px py (x, yb + hb, w, h' - (yb - y') - hb))"
      using less [of w "h' - (yb - y') - hb" x "yb + hb"] solid by (auto simp: in_rect_def)
    have above: "covered px py (map piece_rect (if yb \<noteq> y' then [Simple (x, y', w, yb - y')] else [])) = of_bool (in_rect px py (x, y', w, yb - y'))"
      using solid by (auto simp: in_rect_def)
    have "covered px py (map piece_rect (tight_pieces srv cl x y w h)) =
      of_bool (in_rect px py (x, y, w, y' - y)) + (of_bool (in_rect px py (x, y', w, yb - y')) + (of_bool (in_rect px py (x, yb, xb - x, hb)) +
       (of_bool (in_rect px py (xb, yb, wb, hb)) + (of_bool (in_rect px py (xb + wb, yb, w - (xb - x) - wb, hb)) +
        of_bool (in_rect px py (x, yb + hb, w, h' - (yb - y') - hb))))))"
      unfolding solid(13) map_append covered_simps(3) left right below above by (simp add: up comp_def)
    also have "\<dots> = of_bool (in_rect px py (x, y, w, h))"
      using solid(4-5,7-12) unfolding in_rect_def prod.case by (auto simp: of_bool_def)
    finally show ?thesis .
  qed
qed

text \<open>The solid pieces are of one colour, and all pieces have pixels.\<close>

definition good_conf :: "TIGHT_CONF \<Rightarrow> bool" where
  "good_conf c \<longleftrightarrow> 0 < maxRectWidth c \<and> maxRectWidth c \<le> 2048 \<and> maxRectWidth c \<le> maxRectSize c \<and> maxRectSize c \<le> 65536 \<and>
     0 < idxMaxColorsDivisor c"

lemma tightConf_good: "l < 10 \<Longrightarrow> good_conf (tightConf ! l)"
proof -
  have "list_all good_conf tightConf" by (simp add: tightConf_def tight_conf_row_def good_conf_def)
  moreover assume "l < 10"
  moreover have "length tightConf = 10" by (simp add: tightConf_def)
  ultimately show ?thesis by (simp add: list_all_length)
qed

lemma good_rows: "good_conf c \<Longrightarrow> 0 < w \<Longrightarrow> 0 < maxRectSize c div min w (maxRectWidth c)"
  by (auto simp: good_conf_def div_greater_zero_iff)

lemma stacked_solid: "stacked x w rows y y' us \<Longrightarrow> 0 < w \<Longrightarrow> 0 < rows \<Longrightarrow> \<forall>r \<in> set us. solid_rect r"
  by (induction us arbitrary: y) (auto simp: solid_rect_def)

lemma tight_pieces_good:
  assumes "tightCompressLevel cl < 10"
  shows "0 < w \<Longrightarrow> 0 < h \<Longrightarrow> p \<in> set (tight_pieces srv cl x y w h) \<Longrightarrow>
    solid_rect (piece_rect p) \<and> (\<forall>r. p = Solid r \<longrightarrow> (\<exists>c. uniform (server_pixel srv cl) c r))"
proof (induction "w + h" arbitrary: x y w h rule: less_induct)
  case less
  have rows: "0 < maxRectSize (compress_conf cl) div min w (maxRectWidth (compress_conf cl))"
    using good_rows [OF tightConf_good [OF assms] less.prems(1)] by (simp add: compress_conf_def)
  show ?case
  proof (cases rule: tight_pieces_step [of srv cl x y w h])
    case whole
    then show ?thesis using less.prems by (simp add: solid_rect_def)
  next
    case (plain us y' h')
    then show ?thesis using stacked_solid [OF plain(3) less.prems(1) rows] less.prems by (auto simp: solid_rect_def)
  next
    case (solid us y' h' xb yb wb hb c)
    have l: "xb \<noteq> x \<Longrightarrow> p \<in> set (tight_pieces srv cl x yb (xb - x) hb) \<Longrightarrow> ?thesis"
      using less.hyps [of "xb - x" hb x yb] solid by simp
    have r: "xb + wb \<noteq> x + w \<Longrightarrow> p \<in> set (tight_pieces srv cl (xb + wb) yb (w - (xb - x) - wb) hb) \<Longrightarrow> ?thesis"
      using less.hyps [of "w - (xb - x) - wb" hb "xb + wb" yb] solid by simp
    have b: "yb + hb \<noteq> y' + h' \<Longrightarrow> p \<in> set (tight_pieces srv cl x (yb + hb) w (h' - (yb - y') - hb)) \<Longrightarrow> ?thesis"
      using less.hyps [of w "h' - (yb - y') - hb" x "yb + hb"] solid less.prems(1) by simp
    have u: "p \<in> Simple ` set us \<Longrightarrow> ?thesis" using stacked_solid [OF solid(3) less.prems(1) rows] by auto
    have a: "yb \<noteq> y' \<Longrightarrow> p = Simple (x, y', w, yb - y') \<Longrightarrow> ?thesis" using solid less.prems by (simp add: solid_rect_def)
    have s: "p = Solid (xb, yb, wb, hb) \<Longrightarrow> ?thesis" using solid(6-8) by (auto simp: solid_rect_def)
    have "p \<in> Simple ` set us \<or> (yb \<noteq> y' \<and> p = Simple (x, y', w, yb - y')) \<or>
      (xb \<noteq> x \<and> p \<in> set (tight_pieces srv cl x yb (xb - x) hb)) \<or> p = Solid (xb, yb, wb, hb) \<or>
      (xb + wb \<noteq> x + w \<and> p \<in> set (tight_pieces srv cl (xb + wb) yb (w - (xb - x) - wb) hb)) \<or>
      (yb + hb \<noteq> y' + h' \<and> p \<in> set (tight_pieces srv cl x (yb + hb) w (h' - (yb - y') - hb)))"
      using less.prems(3) unfolding solid(13) by (auto split: if_splits)
    then show ?thesis using l r b u a s by blast
  qed
qed

section \<open>The rectangles of a piece\<close>

lemma simple_row_pieces:
  assumes "0 < maxW" "0 < rh" "rh \<le> maxH"
  shows "dx < w \<Longrightarrow> simple_row maxW x y w rh dx = corre_pieces maxW maxH (x + dx) y (w - dx) rh"
proof (induction "w - dx" arbitrary: dx rule: less_induct)
  case less
  show ?case
  proof (cases "dx + maxW < w")
    case True
    have "simple_row maxW x y w rh (dx + maxW) = corre_pieces maxW maxH (x + (dx + maxW)) y (w - (dx + maxW)) rh"
      using less.hyps [of "dx + maxW"] True assms by simp
    then show ?thesis using True assms less.prems
      by (subst simple_row.simps) (simp add: corre_pieces_cols corre_pieces_small add.assoc)
  next
    case False
    then have "simple_row maxW x y w rh (dx + maxW) = []" by (subst simple_row.simps) simp
    then show ?thesis using False assms less.prems
      by (subst simple_row.simps) (simp add: corre_pieces_small)
  qed
qed

lemma simple_rows_pieces:
  assumes "0 < maxW" "0 < maxH" "0 < w"
  shows "dy < h \<Longrightarrow> simple_rows maxW maxH x y w h dy = corre_pieces maxW maxH x (y + dy) w (h - dy)"
proof (induction "h - dy" arbitrary: dy rule: less_induct)
  case less
  show ?case
  proof (cases "dy + maxH < h")
    case True
    have "simple_rows maxW maxH x y w h (dy + maxH) = corre_pieces maxW maxH x (y + (dy + maxH)) w (h - (dy + maxH))"
      using less.hyps [of "dy + maxH"] True assms by simp
    then show ?thesis using True assms less.prems
      by (subst simple_rows.simps) (simp add: corre_pieces_rows simple_row_pieces [where maxH = maxH] add.assoc)
  next
    case False
    then have "simple_rows maxW maxH x y w h (dy + maxH) = []" by (subst simple_rows.simps) simp
    then show ?thesis using False assms less.prems
      by (subst simple_rows.simps) (simp add: simple_row_pieces [where maxH = maxH])
  qed
qed

lemma simple_rects_pieces:
  assumes "good_conf conf" "0 < w" "0 < h"
  shows "simple_rects conf (x, y, w, h) =
    (if w > maxRectWidth conf \<or> w * h > maxRectSize conf
     then corre_pieces (maxRectWidth conf) (maxRectSize conf div min w (maxRectWidth conf)) x y w h else [(x, y, w, h)])"
proof -
  let ?mh = "maxRectSize conf div min w (maxRectWidth conf)"
  have mh: "0 < ?mh" by (rule good_rows [OF assms(1,2)])
  have mw: "0 < maxRectWidth conf" using assms(1) by (simp add: good_conf_def)
  have m: "(if w > maxRectWidth conf then maxRectWidth conf else w) = min w (maxRectWidth conf)" by simp
  have rows: "simple_rows (maxRectWidth conf) ?mh x y w h 0 = corre_pieces (maxRectWidth conf) ?mh x y w h"
    using simple_rows_pieces [OF mw mh assms(2), of 0 h x y] assms(3) by simp
  show ?thesis unfolding simple_rects_def prod.case Let_def m rows ..
qed

lemma corre_pieces_bound:
  "0 < maxW \<Longrightarrow> 0 < maxH \<Longrightarrow> (a, b, c, d) \<in> set (corre_pieces maxW maxH x y w h) \<Longrightarrow> c \<le> maxW \<and> c \<le> w \<and> d \<le> maxH"
proof (induction "w + h" arbitrary: x y w h rule: less_induct)
  case less
  consider "maxH < h" | "h \<le> maxH" "maxW < w" | "h \<le> maxH" "w \<le> maxW" by linarith
  then show ?case
  proof cases
    case 1
    then have "(a, b, c, d) \<in> set (corre_pieces maxW maxH x y w maxH) \<or> (a, b, c, d) \<in> set (corre_pieces maxW maxH x (y + maxH) w (h - maxH))"
      using less.prems by (simp add: corre_pieces_rows)
    then show ?thesis using less.hyps [of w maxH] less.hyps [of w "h - maxH"] less.prems 1 by (elim disjE) simp_all
  next
    case 2
    then have "(a, b, c, d) \<in> set (corre_pieces maxW maxH x y maxW h) \<or> (a, b, c, d) \<in> set (corre_pieces maxW maxH (x + maxW) y (w - maxW) h)"
      using less.prems by (simp add: corre_pieces_cols)
    then show ?thesis
    proof
      assume "(a, b, c, d) \<in> set (corre_pieces maxW maxH x y maxW h)"
      then have "c \<le> maxW \<and> d \<le> maxH" using less.hyps [of maxW h x y] less.prems(1,2) 2 by simp
      then show ?thesis using 2 by simp
    next
      assume "(a, b, c, d) \<in> set (corre_pieces maxW maxH (x + maxW) y (w - maxW) h)"
      then have "c \<le> maxW \<and> c \<le> w - maxW \<and> d \<le> maxH" using less.hyps [of "w - maxW" h "x + maxW" y] less.prems(1,2) 2 by simp
      then show ?thesis by linarith
    qed
  next
    case 3
    then show ?thesis using less.prems by (simp add: corre_pieces_small)
  qed
qed

text \<open>They partition the piece, and each is small enough for the buffers of the encoder.\<close>

definition small_enough :: "TIGHT_CONF \<Rightarrow> rect \<Rightarrow> bool" where
  "small_enough conf = (\<lambda>(x, y, w, h). 0 < w \<and> 0 < h \<and> w \<le> maxRectWidth conf \<and> w * h \<le> maxRectSize conf)"

lemma simple_rects_good:
  assumes "good_conf conf" "solid_rect r"
  shows "covered px py (simple_rects conf r) = of_bool (in_rect px py r)" "r' \<in> set (simple_rects conf r) \<Longrightarrow> small_enough conf r'"
proof -
  obtain x y w h where r: "r = (x, y, w, h)" by (metis prod_cases4)
  have wh: "0 < w" "0 < h" using assms(2) by (simp_all add: r solid_rect_def)
  note e = simple_rects_pieces [OF assms(1) wh]
  have mw: "0 < maxRectWidth conf" and mh: "0 < maxRectSize conf div min w (maxRectWidth conf)"
    using assms(1) good_rows [OF assms(1) wh(1)] by (simp_all add: good_conf_def)
  show "covered px py (simple_rects conf r) = of_bool (in_rect px py r)"
    using corre_pieces_partition [OF mw mh] by (simp add: r e covered_def)
  assume r': "r' \<in> set (simple_rects conf r)"
  show "small_enough conf r'"
  proof (cases "w > maxRectWidth conf \<or> w * h > maxRectSize conf")
    case True
    obtain a b c d where abcd: "r' = (a, b, c, d)" by (metis prod_cases4)
    have m: "(a, b, c, d) \<in> set (corre_pieces (maxRectWidth conf) (maxRectSize conf div min w (maxRectWidth conf)) x y w h)"
      using r' True by (simp add: r e abcd)
    have "c \<le> maxRectWidth conf \<and> c \<le> w \<and> d \<le> maxRectSize conf div min w (maxRectWidth conf)" by (rule corre_pieces_bound [OF mw mh m])
    moreover have "c * d \<le> min w (maxRectWidth conf) * (maxRectSize conf div min w (maxRectWidth conf))"
      using calculation by (intro mult_mono) auto
    then have "c * d \<le> maxRectSize conf" by (rule order_trans) (rule times_div_less_eq_dividend)
    moreover have "0 < c \<and> 0 < d" using corre_pieces_solid [OF wh m] by (simp add: solid_rect_def)
    ultimately show ?thesis by (simp add: abcd small_enough_def)
  next
    case False
    then show ?thesis using r' wh by (simp add: r e small_enough_def)
  qed
qed

text \<open>As many as announced.\<close>

lemma conf_columns: "map maxRectSize tightConf = tight_max_size" "map maxRectWidth tightConf = tight_max_width"
  by (simp_all add: tightConf_def tight_conf_row_def tight_max_size_def tight_max_width_def)

lemma simple_rects_count:
  assumes "tightCompressLevel cl < 10" "0 < w" "0 < h" "\<not> (enableLastRectEncoding cl \<and> MIN_SPLIT_RECT_SIZE \<le> w * h)"
  shows "length (simple_rects (compress_conf cl) (x, y, w, h)) = rfbNumCodedRectsTight cl w h"
proof -
  let ?c = "compress_conf cl"
  have len: "length tightConf = 10" by (simp add: tightConf_def)
  have c: "tight_max_size ! tightCompressLevel cl = maxRectSize ?c" "tight_max_width ! tightCompressLevel cl = maxRectWidth ?c"
    unfolding conf_columns [symmetric] using assms(1) len by (simp_all add: compress_conf_def)
  have g: "good_conf ?c" using tightConf_good [OF assms(1)] by (simp add: compress_conf_def)
  have mw: "0 < maxRectWidth ?c" and mh: "0 < maxRectSize ?c div min w (maxRectWidth ?c)"
    using g good_rows [OF g assms(2)] by (simp_all add: good_conf_def)
  have m: "(if w > maxRectWidth ?c then maxRectWidth ?c else w) = min w (maxRectWidth ?c)" by simp
  show ?thesis
    unfolding simple_rects_pieces [OF g assms(2,3)] rfbNumCodedRectsTight_def c Let_def m
    using assms(4) corre_pieces_count [OF mw mh assms(2,3)] by auto
qed

end
