(* ===== verification/Tightcode.thy ===== *)
theory Tightcode
  imports Tight
begin

text \<open>
  How the Tight encoding sends a rectangle, \<^verbatim>\<open>OSXvnc-server/tight.c\<close>: the palette, the conversion to indices or
  bits, the gradient filter, the test for a smooth image, and the subencodings with their compression.
  The pixels of a rectangle are those of tightBeforeBuf, of 8, 16 or 32 bits.
\<close>

section \<open>The palette\<close>

text \<open>
  The nodes of \<open>list\<close> are numbered in the order of their use, and each has a colour and its place in \<open>entry\<close>;
  an entry has a node and a number of pixels; \<open>hash\<close> has the chains of nodes.
\<close>

record PALETTE =
  paletteNumColors :: nat
  entry_node :: "nat \<Rightarrow> nat"
  entry_pixels :: "nat \<Rightarrow> nat"
  node_rgb :: "nat \<Rightarrow> u32"
  node_idx :: "nat \<Rightarrow> nat"
  chains :: "nat \<Rightarrow> nat list"

definition PaletteReset :: PALETTE where
  "PaletteReset = \<lparr>paletteNumColors = 0, entry_node = (\<lambda>_. 0), entry_pixels = (\<lambda>_. 0), node_rgb = (\<lambda>_. 0), node_idx = (\<lambda>_. 0),
     chains = (\<lambda>_. [])\<rparr>"

definition HASH_FUNC16 :: "u32 \<Rightarrow> nat" where
  "HASH_FUNC16 rgb = unat ((drop_bit 8 rgb + rgb) AND 0xFF)"

definition HASH_FUNC32 :: "u32 \<Rightarrow> nat" where
  "HASH_FUNC32 rgb = unat ((drop_bit 16 rgb + drop_bit 8 rgb) AND 0xFF)"

definition hash_key :: "nat \<Rightarrow> u32 \<Rightarrow> nat" where
  "hash_key bpp rgb = (if bpp = 16 then HASH_FUNC16 rgb else HASH_FUNC32 rgb)"

definition find_node :: "PALETTE \<Rightarrow> nat \<Rightarrow> u32 \<Rightarrow> nat option" where
  "find_node pal key rgb = find (\<lambda>n. node_rgb pal n = rgb) (chains pal key)"

text \<open>Moving entries with fewer than \<open>count\<close> pixels down by one place, from the one above \<open>i\<close> on.\<close>

fun shift_entries :: "nat \<Rightarrow> nat \<Rightarrow> PALETTE \<Rightarrow> nat \<times> PALETTE" where
  "shift_entries 0 count pal = (0, pal)"
| "shift_entries (Suc i) count pal =
    (if entry_pixels pal i < count then
       shift_entries i count (pal\<lparr>entry_node := (entry_node pal)(Suc i := entry_node pal i),
         entry_pixels := (entry_pixels pal)(Suc i := entry_pixels pal i),
         node_idx := (node_idx pal)(entry_node pal i := Suc i)\<rparr>)
     else (Suc i, pal))"

definition put_entry :: "nat \<Rightarrow> nat \<Rightarrow> nat \<Rightarrow> PALETTE \<Rightarrow> PALETTE" where
  "put_entry i node count pal =
    pal\<lparr>entry_node := (entry_node pal)(i := node), entry_pixels := (entry_pixels pal)(i := count), node_idx := (node_idx pal)(node := i)\<rparr>"

text \<open>
  The number of colours after an insertion, 0 if the palette is full. A colour that is there moves up
  with its pixels, a new one enters in front of those with fewer.
\<close>

definition PaletteInsert :: "nat \<Rightarrow> nat \<Rightarrow> u32 \<Rightarrow> nat \<Rightarrow> PALETTE \<Rightarrow> nat \<times> PALETTE" where
  "PaletteInsert bpp paletteMaxColors rgb numPixels pal =
    (let key = hash_key bpp rgb in
     case find_node pal key rgb of
       Some pnode \<Rightarrow>
         let idx = node_idx pal pnode;
             count = entry_pixels pal idx + numPixels;
             (new_idx, pal) = shift_entries idx count pal
         in (paletteNumColors pal, put_entry new_idx pnode count pal)
     | None \<Rightarrow>
         if paletteNumColors pal = 256 \<or> paletteNumColors pal = paletteMaxColors then (0, pal\<lparr>paletteNumColors := 0\<rparr>)
         else
           let pnode = paletteNumColors pal;
               (idx, pal) = shift_entries (paletteNumColors pal) numPixels pal;
               pal = put_entry idx pnode numPixels pal;
               pal = pal\<lparr>chains := (chains pal)(key := chains pal key @ [pnode]), node_rgb := (node_rgb pal)(pnode := rgb),
                       paletteNumColors := paletteNumColors pal + 1\<rparr>
           in (paletteNumColors pal, pal))"

text \<open>The count of pixels of the first two colours; the rest starts with the third colour.\<close>

fun count_two :: "u32 \<Rightarrow> u32 \<Rightarrow> u32 list \<Rightarrow> nat \<Rightarrow> nat \<Rightarrow> nat \<times> nat \<times> u32 list" where
  "count_two c0 c1 [] n0 n1 = (n0, n1, [])"
| "count_two c0 c1 (p # ps) n0 n1 =
    (if p = c0 then count_two c0 c1 ps (n0 + 1) n1
     else if p = c1 then count_two c0 c1 ps n0 (n1 + 1)
     else (n0, n1, p # ps))"

text \<open>The runs of the other colours, \<open>ci\<close> with \<open>ni\<close> pixels so far.\<close>

fun insert_runs :: "nat \<Rightarrow> nat \<Rightarrow> u32 \<Rightarrow> nat \<Rightarrow> u32 list \<Rightarrow> PALETTE \<Rightarrow> PALETTE" where
  "insert_runs bpp mx ci ni [] pal = snd (PaletteInsert bpp mx ci ni pal)"
| "insert_runs bpp mx ci ni (p # ps) pal =
    (if p = ci then insert_runs bpp mx ci (ni + 1) ps pal
     else (case PaletteInsert bpp mx ci ni pal of (n, pal) \<Rightarrow> if n = 0 then pal else insert_runs bpp mx p 1 ps pal))"

text \<open>FillPalette8, 16 and 32: full colour, one colour, two colours or more.\<close>

datatype colours = FullColour | OneColour | TwoColours u32 u32 | Palette PALETTE

definition FillPalette :: "nat \<Rightarrow> nat \<Rightarrow> u32 list \<Rightarrow> colours" where
  "FillPalette bpp paletteMaxColors data =
    (let c0 = data ! 0;
         i = Suc (length (takeWhile (\<lambda>p. p = c0) (drop 1 data)))
     in if i \<ge> length data then OneColour
        else if paletteMaxColors < 2 then FullColour
        else
          let c1 = data ! i;
              (n0, n1, rest) = count_two c0 c1 (drop (i + 1) data) i 0
          in case rest of
               [] \<Rightarrow> (if n0 > n1 then TwoColours c0 c1 else TwoColours c1 c0)
             | ci # ps \<Rightarrow>
                 if bpp = 8 then FullColour
                 else
                   let pal = PaletteReset;
                       pal = snd (PaletteInsert bpp paletteMaxColors c0 n0 pal);
                       pal = snd (PaletteInsert bpp paletteMaxColors c1 n1 pal);
                       pal = insert_runs bpp paletteMaxColors ci 1 ps pal
                   in if paletteNumColors pal = 0 then FullColour else Palette pal)"

section \<open>Conversions of the pixels\<close>

text \<open>
  Pack24: the three bytes of each pixel. A shift that is not below the width of the pixel is taken modulo it.
  For pixels of 16 bits the pointer to 32 bit values runs past the pixels of the rectangle, to bytes that an
  earlier one has left in the buffer; they are \<open>stale\<close>.
\<close>

definition pack_shifts :: "server \<Rightarrow> rfbPixelFormat \<Rightarrow> nat list" where
  "pack_shifts srv fmt =
    (let sh = [redShift fmt, greenShift fmt, blueShift fmt] in
     if bigEndian (rfbServerFormat srv) = bigEndian fmt then map (\<lambda>s. s mod 32) sh
     else map (\<lambda>s. nat ((24 - int s) mod 32)) sh)"

definition Pack24 :: "server \<Rightarrow> rfbPixelFormat \<Rightarrow> (nat \<Rightarrow> u8) \<Rightarrow> u8 list \<Rightarrow> nat \<Rightarrow> u8 list" where
  "Pack24 srv fmt stale buf count =
    concat (map (\<lambda>i. let pix = load_pixel (littleEndian srv) 32 (\<lambda>a. if a < length buf then buf ! a else stale a) (i * 4)
      in map (\<lambda>s. ucast (drop_bit s pix)) (pack_shifts srv fmt)) [0..<count])"

text \<open>EncodeIndexedRect: a run has one byte for each pixel; what is not found is repeated with the next run.\<close>

function EncodeIndexedRect :: "nat \<Rightarrow> PALETTE \<Rightarrow> nat \<Rightarrow> u32 list \<Rightarrow> u8 list" where
  "EncodeIndexedRect bpp pal rep [] = []"
| "EncodeIndexedRect bpp pal rep (rgb # ps) =
    (let rep = rep + length (takeWhile (\<lambda>p. p = rgb) ps);
         ps = dropWhile (\<lambda>p. p = rgb) ps
     in case find_node pal (hash_key bpp rgb) rgb of
          Some n \<Rightarrow> replicate (rep + 1) (of_nat (node_idx pal n)) @ EncodeIndexedRect bpp pal 0 ps
        | None \<Rightarrow> EncodeIndexedRect bpp pal rep ps)"
  by pat_completeness auto
termination
  by (relation "measure (\<lambda>(_, _, _, ps). length ps)") (auto simp: le_imp_less_Suc length_dropWhile_le)

fun mono_bits :: "u32 \<Rightarrow> u8 \<Rightarrow> u8 \<Rightarrow> u32 list \<Rightarrow> u8" where
  "mono_bits bg m value [] = value"
| "mono_bits bg m value (p # ps) = mono_bits bg (drop_bit 1 m) (if p \<noteq> bg then value OR m else value) ps"

text \<open>Eight pixels that start with \<open>n\<close> of the background.\<close>

definition mono_byte :: "u32 \<Rightarrow> u32 list \<Rightarrow> u8" where
  "mono_byte bg ps =
    (let n = length (takeWhile (\<lambda>p. p = bg) ps)
     in if n = 8 then 0 else mono_bits bg (drop_bit (n + 1) 0x80) (drop_bit n 0x80) (drop (n + 1) ps))"

function mono_row :: "u32 \<Rightarrow> u32 list \<Rightarrow> u8 list" where
  "mono_row bg ps =
    (if length ps \<ge> 8 then mono_byte bg (take 8 ps) # mono_row bg (drop 8 ps)
     else if ps = [] then [] else [mono_bits bg 0x80 0 ps])"
  by pat_completeness auto
termination by (relation "measure (\<lambda>(_, ps). length ps)") auto

declare mono_row.simps [simp del]

fun EncodeMonoRect :: "u32 \<Rightarrow> u32 list \<Rightarrow> nat \<Rightarrow> nat \<Rightarrow> u8 list" where
  "EncodeMonoRect bg data w 0 = []"
| "EncodeMonoRect bg data w (Suc h) = mono_row bg (take w data) @ EncodeMonoRect bg (drop w data) w h"

section \<open>The gradient filter\<close>

text \<open>
  Each of the three components is predicted from its neighbours at the left and above, between 0 and its
  maximum; the result are the differences from the prediction. \<open>prevRow\<close> has the components of the row above.
\<close>

definition predict :: "int \<Rightarrow> int \<Rightarrow> int \<Rightarrow> int \<Rightarrow> int" where
  "predict mx left upper upperLeft =
    (let prediction = left + upper - upperLeft
     in if prediction < 0 then 0 else if prediction > mx then mx else prediction)"

fun gradient_row :: "int list \<Rightarrow> int list list \<Rightarrow> int list \<Rightarrow> int list \<Rightarrow> int list list \<Rightarrow> int list list" where
  "gradient_row maxColor (up # prevRow) pixUpper pixHere (pix # ps) =
    map (\<lambda>c. pix ! c - predict (maxColor ! c) (pixHere ! c) (up ! c) (pixUpper ! c)) [0, 1, 2] #
    gradient_row maxColor prevRow up pix ps"
| "gradient_row maxColor prevRow pixUpper pixHere ps = []"

fun gradient_rows :: "int list \<Rightarrow> int list list \<Rightarrow> nat \<Rightarrow> int list list \<Rightarrow> nat \<Rightarrow> int list list" where
  "gradient_rows maxColor prevRow w ps 0 = []"
| "gradient_rows maxColor prevRow w ps (Suc h) =
    gradient_row maxColor prevRow [0, 0, 0] [0, 0, 0] (take w ps) @ gradient_rows maxColor (take w ps) w (drop w ps) h"

definition zero_row :: "nat \<Rightarrow> int list list" where
  "zero_row w = replicate w [0, 0, 0]"

text \<open>FilterGradient24: the differences as bytes.\<close>

definition FilterGradient24 :: "server \<Rightarrow> rfbPixelFormat \<Rightarrow> u32 list \<Rightarrow> nat \<Rightarrow> nat \<Rightarrow> u8 list" where
  "FilterGradient24 srv fmt data w h =
    concat (map (map word_of_int)
      (gradient_rows [255, 255, 255] (zero_row w) w
        (map (\<lambda>pix. map (\<lambda>s. uint (drop_bit s pix AND 0xFF)) (pack_shifts srv fmt)) data) h))"

definition format_maxs :: "rfbPixelFormat \<Rightarrow> nat list" where
  "format_maxs fmt = [redMax fmt, greenMax fmt, blueMax fmt]"

definition format_shifts :: "rfbPixelFormat \<Rightarrow> nat list" where
  "format_shifts fmt = [redShift fmt, greenShift fmt, blueShift fmt]"

definition components :: "server \<Rightarrow> rfbPixelFormat \<Rightarrow> nat \<Rightarrow> u32 \<Rightarrow> int list" where
  "components srv fmt bpp pix =
    (let pix = (if bigEndian (rfbServerFormat srv) \<noteq> bigEndian fmt then SwapOUT bpp pix else pix)
     in map2 (\<lambda>s m. int (component pix s m)) (format_shifts fmt) (format_maxs fmt))"

text \<open>FilterGradient16 and 32: the differences in the places of the components.\<close>

definition gradient_pixel :: "server \<Rightarrow> rfbPixelFormat \<Rightarrow> nat \<Rightarrow> int list \<Rightarrow> u32" where
  "gradient_pixel srv fmt bpp ds =
    (let diff = fold (\<lambda>c diff. take_bit bpp (diff OR shl32 (unat (word_of_int (ds ! c) AND of_nat (format_maxs fmt ! c) :: u32)) (format_shifts fmt ! c)))
           [0, 1, 2] 0
     in if bigEndian (rfbServerFormat srv) \<noteq> bigEndian fmt then SwapOUT bpp diff else diff)"

definition FilterGradient :: "server \<Rightarrow> rfbPixelFormat \<Rightarrow> nat \<Rightarrow> u32 list \<Rightarrow> nat \<Rightarrow> nat \<Rightarrow> u32 list" where
  "FilterGradient srv fmt bpp data w h =
    map (gradient_pixel srv fmt bpp)
      (gradient_rows (map int (format_maxs fmt)) (zero_row w) w (map (components srv fmt bpp) data) h)"

section \<open>Smooth images\<close>

definition JPEG_MIN_RECT_SIZE :: nat where "JPEG_MIN_RECT_SIZE = 4096"
definition DETECT_SUBROW_WIDTH :: nat where "DETECT_SUBROW_WIDTH = 7"
definition DETECT_MIN_WIDTH :: nat where "DETECT_MIN_WIDTH = 8"
definition DETECT_MIN_HEIGHT :: nat where "DETECT_MIN_HEIGHT = 8"

text \<open>Where the diagonals of sub-rows start, and the sub-rows. The program ends only for an image with pixels.\<close>

function diagonals :: "nat \<Rightarrow> nat \<Rightarrow> nat \<Rightarrow> nat \<Rightarrow> (nat \<times> nat) list" where
  "diagonals w h x y =
    (if y < h \<and> x < w then (x, y) # (if w > h then diagonals w h (x + h) 0 else diagonals w h 0 (y + w)) else [])"
  by pat_completeness auto
termination by (relation "measure (\<lambda>(w, h, x, y). if w > h then w - x else h - y)") auto

declare diagonals.simps [simp del]

definition subrows :: "nat \<Rightarrow> nat \<Rightarrow> (nat \<times> nat) list" where
  "subrows w h = concat (map (\<lambda>(x, y). map (\<lambda>d. (x + d, y + d)) [0..<min (h - y) (w - x - DETECT_SUBROW_WIDTH)]) (diagonals w h 0 0))"

text \<open>The differences of neighbours along the sub-rows; \<open>sample\<close> reads the components of a pixel.\<close>

definition neighbour_diffs :: "(nat \<Rightarrow> nat \<Rightarrow> int list) \<Rightarrow> nat \<Rightarrow> nat \<Rightarrow> int list list" where
  "neighbour_diffs sample w h =
    concat (map (\<lambda>(x, y). map (\<lambda>dx. map2 (\<lambda>p l. abs (p - l)) (sample (x + dx + 1) y) (sample (x + dx) y)) [0..<DETECT_SUBROW_WIDTH])
      (subrows w h))"

text \<open>
  The end of the three functions: the error from the statistics, 0 if a difference below 8 is missing or
  far more frequent than the one before it.
\<close>

definition average_error :: "(nat \<Rightarrow> nat) \<Rightarrow> nat \<Rightarrow> nat" where
  "average_error diffStat count =
    (if list_ex (\<lambda>c. diffStat c = 0 \<or> diffStat c > diffStat (c - 1) * 2) [1..<8] then 0
     else (\<Sum>c \<leftarrow> [1..<256]. diffStat c * (c * c)) div (count - diffStat 0))"

definition DetectSmoothImage24 :: "rfbPixelFormat \<Rightarrow> u8 list \<Rightarrow> nat \<Rightarrow> nat \<Rightarrow> nat" where
  "DetectSmoothImage24 fmt buf w h =
    (let off = (if bigEndian fmt then 1 else 0);
         diffs = concat (neighbour_diffs (\<lambda>x y. map (\<lambda>c. uint (buf ! ((y * w + x) * 4 + off + c))) [0, 1, 2]) w h);
         diffStat = (\<lambda>c. count_list diffs (int c));
         pixelCount = length diffs div 3
     in if pixelCount = 0 \<or> diffStat 0 * 33 div pixelCount \<ge> 95 then 0
        else average_error diffStat (pixelCount * 3))"

definition DetectSmoothImage1632 :: "server \<Rightarrow> rfbPixelFormat \<Rightarrow> nat \<Rightarrow> u32 list \<Rightarrow> nat \<Rightarrow> nat \<Rightarrow> nat" where
  "DetectSmoothImage1632 srv fmt bpp data w h =
    (let sums = map (\<lambda>ds. min 255 (sum_list ds)) (neighbour_diffs (\<lambda>x y. components srv fmt bpp (data ! (y * w + x))) w h);
         diffStat = (\<lambda>c. count_list sums (int c));
         pixelCount = length sums
     in if pixelCount = 0 then 0
        else if (diffStat 0 + diffStat 1) * 100 div pixelCount \<ge> 90 then 0
        else average_error diffStat pixelCount)"

definition rfbTightDisableGradient :: bool where "rfbTightDisableGradient = False"

definition usePixelFormat24 :: "rfbPixelFormat \<Rightarrow> bool" where
  "usePixelFormat24 f \<longleftrightarrow> depth f = 24 \<and> redMax f = 0xFF \<and> greenMax f = 0xFF \<and> blueMax f = 0xFF"

definition quality_conf :: "rfbClientRec \<Rightarrow> TIGHT_CONF" where
  "quality_conf cl = tightConf ! nat (tightQualityLevel cl)"

text \<open>The pixels of the rectangle as the program's pointers see them in tightBeforeBuf.\<close>

definition before_pixels :: "server \<Rightarrow> nat \<Rightarrow> u8 list \<Rightarrow> u32 list" where
  "before_pixels srv bpp buf =
    map (\<lambda>i. load_pixel (littleEndian srv) bpp (\<lambda>a. buf ! a) (i * (bpp div 8))) [0..<length buf div (bpp div 8)]"

definition DetectSmoothImage :: "server \<Rightarrow> u8 list \<Rightarrow> nat \<Rightarrow> nat \<Rightarrow> rfbClientRec \<Rightarrow> bool" where
  "DetectSmoothImage srv buf w h cl =
    (let fmt = format cl; jpeg = (tightQualityLevel cl \<noteq> -1) in
     if bitsPerPixel (rfbServerFormat srv) = 8 \<or> bitsPerPixel fmt = 8 \<or> w < DETECT_MIN_WIDTH \<or> h < DETECT_MIN_HEIGHT then False
     else if jpeg \<and> w * h < JPEG_MIN_RECT_SIZE then False
     else if \<not> jpeg \<and> (rfbTightDisableGradient \<or> w * h < gradientMinRectSize (compress_conf cl)) then False
     else if bitsPerPixel fmt = 32 \<and> usePixelFormat24 fmt then
       DetectSmoothImage24 fmt buf w h < (if jpeg then jpegThreshold24 (quality_conf cl) else gradientThreshold24 (compress_conf cl))
     else
       DetectSmoothImage1632 srv fmt (bitsPerPixel fmt) (before_pixels srv (bitsPerPixel fmt) buf) w h <
         (if jpeg then jpegThreshold (quality_conf cl) else gradientThreshold (compress_conf cl)))"

section \<open>Compression\<close>

text \<open>
  What Tight takes from outside: whether deflateInit2 with a level and deflateParams succeed, what deflate puts out, or nothing if it
  reports an error, for a stream with the blocks it has had, each with its level; the bytes of a JPEG image
  of a quality, a width and rows; and what earlier rectangles have left in the buffer.
\<close>

record tight_env =
  deflateInit2 :: "nat \<Rightarrow> bool"
  deflateParams :: "nat \<Rightarrow> (nat \<times> u8 list) list \<Rightarrow> nat \<Rightarrow> bool"
  deflateTight :: "nat \<Rightarrow> (nat \<times> u8 list) list \<Rightarrow> nat \<Rightarrow> u8 list \<Rightarrow> u8 list option"
  jpeg :: "nat \<Rightarrow> nat \<Rightarrow> u8 list list \<Rightarrow> u8 list"
  staleBytes :: "nat \<Rightarrow> u8"

definition put_tight :: "u8 list \<Rightarrow> rfbClientRec \<Rightarrow> rfbClientRec" where
  "put_tight bs cl =
    (put_buf bs cl)\<lparr>rfbBytesSent := (rfbBytesSent cl)(rfbEncodingTight := rfbBytesSent cl rfbEncodingTight + length bs)\<rparr>"

definition compact_length :: "nat \<Rightarrow> u8 list" where
  "compact_length n =
    (let b0 = of_nat n AND 0x7F; b1 = of_nat (n div 2 ^ 7) AND 0x7F; b2 = of_nat (n div 2 ^ 14) AND 0xFF
     in if n \<le> 0x7F then [b0] else if n \<le> 0x3FFF then [b0 OR 0x80, b1] else [b0 OR 0x80, b1 OR 0x80, b2])"

function send_portions :: "u8 list \<Rightarrow> rfbClientRec \<Rightarrow> bool \<times> rfbClientRec" where
  "send_portions bs cl =
    (if bs = [] then (True, cl)
     else
       let portionLen = min UPDATE_BUF_SIZE (length bs) in
       case (if ublen cl + portionLen > UPDATE_BUF_SIZE then rfbSendUpdateBuf cl else (True, cl)) of
         (False, cl) \<Rightarrow> (False, cl)
       | (True, cl) \<Rightarrow> send_portions (drop portionLen bs) (put_buf (take portionLen bs) cl))"
  by pat_completeness auto
termination by (relation "measure (\<lambda>(bs, _). length bs)") (auto simp: UPDATE_BUF_SIZE_def)

declare send_portions.simps [simp del]

definition SendCompressedData :: "u8 list \<Rightarrow> rfbClientRec \<Rightarrow> bool \<times> rfbClientRec" where
  "SendCompressedData tightAfterBuf cl =
    (case send_portions tightAfterBuf (put_tight (compact_length (length tightAfterBuf)) cl) of
       (False, cl) \<Rightarrow> (False, cl)
     | (True, cl) \<Rightarrow> (True, cl\<lparr>rfbBytesSent := (rfbBytesSent cl)(rfbEncodingTight := rfbBytesSent cl rfbEncodingTight + length tightAfterBuf)\<rparr>))"

text \<open>
  CompressData: short data goes out as it is. A stream is set up by its first block; a changed level is
  set before the block. Less room than deflate needs is an error.
\<close>

definition CompressData :: "tight_env \<Rightarrow> nat \<Rightarrow> u8 list \<Rightarrow> nat \<Rightarrow> rfbClientRec \<Rightarrow> bool \<times> rfbClientRec" where
  "CompressData env streamId tightBeforeBuf zlibLevel cl =
    (if length tightBeforeBuf < TIGHT_MIN_TO_COMPRESS then (True, put_tight tightBeforeBuf cl)
     else if zsStruct cl streamId = None \<and> \<not> deflateInit2 env zlibLevel then (False, cl)
     else
       let (zsLevel, blocks) = (case zsStruct cl streamId of None \<Rightarrow> (zlibLevel, []) | Some z \<Rightarrow> z);
           cl = cl\<lparr>zsStruct := (zsStruct cl)(streamId \<mapsto> (zsLevel, blocks))\<rparr>
       in if zlibLevel \<noteq> zsLevel \<and> \<not> deflateParams env streamId blocks zlibLevel then (False, cl)
          else
            let cl = cl\<lparr>zsStruct := (zsStruct cl)(streamId \<mapsto> (zlibLevel, blocks @ [(zlibLevel, tightBeforeBuf)]))\<rparr> in
            case deflateTight env streamId blocks zlibLevel tightBeforeBuf of
              None \<Rightarrow> (False, cl)
            | Some out \<Rightarrow> if length out \<ge> tightAfterBufSize cl then (False, cl) else SendCompressedData out cl)"

section \<open>Subencodings\<close>

definition rfbTightExplicitFilter :: nat where "rfbTightExplicitFilter = 4"
definition rfbTightFill :: nat where "rfbTightFill = 8"
definition rfbTightJpeg :: nat where "rfbTightJpeg = 9"
definition rfbTightFilterPalette :: u8 where "rfbTightFilterPalette = 1"
definition rfbTightFilterGradient :: u8 where "rfbTightFilterGradient = 2"

definition control :: "nat \<Rightarrow> u8" where
  "control c = of_nat (c * 16)"

definition SendTightHeader :: "nat \<Rightarrow> nat \<Rightarrow> nat \<Rightarrow> nat \<Rightarrow> rfbClientRec \<Rightarrow> bool \<times> rfbClientRec" where
  "SendTightHeader x y w h cl =
    (case make_room sz_rfbFramebufferUpdateRectHeader cl of
       (False, cl) \<Rightarrow> (False, cl)
     | (True, cl) \<Rightarrow>
         (True, count_rect rfbEncodingTight sz_rfbFramebufferUpdateRectHeader
           (put_buf (rect_header (int x) (int y) (int w) (int h) rfbEncodingTight) cl)))"

text \<open>A value of 1, 2 or 4 bytes as it lies in tightAfterBuf, in three bytes for Pack24.\<close>

definition sent_pixels :: "tight_env \<Rightarrow> server \<Rightarrow> rfbPixelFormat \<Rightarrow> u32 list \<Rightarrow> u8 list" where
  "sent_pixels env srv fmt ps =
    (let buf = concat (map (host_bytes (littleEndian srv) (bitsPerPixel fmt)) ps)
     in if bitsPerPixel fmt = 32 \<and> usePixelFormat24 fmt then Pack24 srv fmt (staleBytes env) buf (length ps) else buf)"

definition SendSolidRect :: "tight_env \<Rightarrow> server \<Rightarrow> u8 list \<Rightarrow> rfbClientRec \<Rightarrow> bool \<times> rfbClientRec" where
  "SendSolidRect env srv buf cl =
    (let bs = (if usePixelFormat24 (format cl) then Pack24 srv (format cl) (staleBytes env) buf 1
               else take (bitsPerPixel (format cl) div 8) buf) in
     case make_room (1 + length bs) cl of
       (False, cl) \<Rightarrow> (False, cl)
     | (True, cl) \<Rightarrow> (True, put_tight (control rfbTightFill # bs) cl))"

definition SendMonoRect :: "tight_env \<Rightarrow> server \<Rightarrow> u32 \<Rightarrow> u32 \<Rightarrow> u8 list \<Rightarrow> nat \<Rightarrow> nat \<Rightarrow> rfbClientRec \<Rightarrow> bool \<times> rfbClientRec" where
  "SendMonoRect env srv monoBackground monoForeground buf w h cl =
    (let streamId = 1; bpp = bitsPerPixel (format cl) in
     case make_room (TIGHT_MIN_TO_COMPRESS + 6 + 2 * bpp div 8) cl of
       (False, cl) \<Rightarrow> (False, cl)
     | (True, cl) \<Rightarrow>
         CompressData env streamId (EncodeMonoRect monoBackground (before_pixels srv bpp buf) w h) (monoZlibLevel (compress_conf cl))
           (put_tight ([control (streamId + rfbTightExplicitFilter), rfbTightFilterPalette, 1] @
              sent_pixels env srv (format cl) [monoBackground, monoForeground]) cl))"

definition SendIndexedRect :: "tight_env \<Rightarrow> server \<Rightarrow> PALETTE \<Rightarrow> u8 list \<Rightarrow> rfbClientRec \<Rightarrow> bool \<times> rfbClientRec" where
  "SendIndexedRect env srv pal buf cl =
    (let streamId = 2; bpp = bitsPerPixel (format cl); n = paletteNumColors pal in
     case make_room (TIGHT_MIN_TO_COMPRESS + 6 + n * bpp div 8) cl of
       (False, cl) \<Rightarrow> (False, cl)
     | (True, cl) \<Rightarrow>
         if bpp \<noteq> 32 \<and> bpp \<noteq> 16 then (False, put_buf [control (streamId + rfbTightExplicitFilter), rfbTightFilterPalette, of_nat (n - 1)] cl)
         else
           CompressData env streamId (EncodeIndexedRect bpp pal 0 (before_pixels srv bpp buf)) (idxZlibLevel (compress_conf cl))
             (put_tight ([control (streamId + rfbTightExplicitFilter), rfbTightFilterPalette, of_nat (n - 1)] @
                sent_pixels env srv (format cl) (map (\<lambda>i. node_rgb pal (entry_node pal i)) [0..<n])) cl))"

definition SendFullColorRect :: "tight_env \<Rightarrow> server \<Rightarrow> u8 list \<Rightarrow> nat \<Rightarrow> nat \<Rightarrow> rfbClientRec \<Rightarrow> bool \<times> rfbClientRec" where
  "SendFullColorRect env srv buf w h cl =
    (let streamId = 0 in
     case make_room (TIGHT_MIN_TO_COMPRESS + 1) cl of
       (False, cl) \<Rightarrow> (False, cl)
     | (True, cl) \<Rightarrow>
         CompressData env streamId
           (if usePixelFormat24 (format cl) then Pack24 srv (format cl) (staleBytes env) buf (w * h)
            else take (w * h * (bitsPerPixel (format cl) div 8)) buf)
           (rawZlibLevel (compress_conf cl)) (put_tight [0] cl))"

definition SendGradientRect :: "tight_env \<Rightarrow> server \<Rightarrow> u8 list \<Rightarrow> nat \<Rightarrow> nat \<Rightarrow> rfbClientRec \<Rightarrow> bool \<times> rfbClientRec" where
  "SendGradientRect env srv buf w h cl =
    (let streamId = 3; fmt = format cl; bpp = bitsPerPixel fmt in
     if bpp = 8 then SendFullColorRect env srv buf w h cl
     else
       case make_room (TIGHT_MIN_TO_COMPRESS + 2) cl of
         (False, cl) \<Rightarrow> (False, cl)
       | (True, cl) \<Rightarrow>
           CompressData env streamId
             (if usePixelFormat24 fmt then
                FilterGradient24 srv fmt (map (\<lambda>i. load_pixel (littleEndian srv) 32 (\<lambda>a. if a < length buf then buf ! a else staleBytes env a) (i * 4)) [0..<w * h]) w h
              else concat (map (host_bytes (littleEndian srv) bpp) (FilterGradient srv fmt bpp (before_pixels srv bpp buf) w h)))
             (gradientZlibLevel (compress_conf cl))
             (put_tight [control (streamId + rfbTightExplicitFilter), rfbTightFilterGradient] cl))"

text \<open>PrepareRowForJpeg24, 16 and 32: the colours of a row of the screen in three bytes each.\<close>

definition PrepareRowForJpeg :: "server \<Rightarrow> rfbClientRec \<Rightarrow> nat \<Rightarrow> nat \<Rightarrow> nat \<Rightarrow> u8 list" where
  "PrepareRowForJpeg srv cl x y count =
    (let f = rfbServerFormat srv; bpp = (if bitsPerPixel f = 32 then 32 else 16);
         fbptr = y * scalingPaddedWidthInBytes cl + x * (bpp div 8)
     in concat (map (\<lambda>i. let pix = load_pixel (littleEndian srv) bpp (scalingFrameBuffer cl) (fbptr + i * (bpp div 8))
          in if bpp = 32 \<and> redMax f = 0xFF \<and> greenMax f = 0xFF \<and> blueMax f = 0xFF
             then map (\<lambda>s. ucast (drop_bit (s mod 32) pix)) (format_shifts f)
             else map2 (\<lambda>s m. of_nat ((component pix s m * 255 + m div 2) div m)) (format_shifts f) (format_maxs f))
        [0..<count]))"

text \<open>An image that fills the buffer is an error, and the rectangle goes out in full colour.\<close>

definition SendJpegRect :: "tight_env \<Rightarrow> server \<Rightarrow> u8 list \<Rightarrow> nat \<Rightarrow> nat \<Rightarrow> nat \<Rightarrow> nat \<Rightarrow> nat \<Rightarrow> rfbClientRec \<Rightarrow> bool \<times> rfbClientRec" where
  "SendJpegRect env srv buf x y w h quality cl =
    (if bitsPerPixel (rfbServerFormat srv) = 8 then SendFullColorRect env srv buf w h cl
     else
       let tightAfterBuf = jpeg env quality w (map (\<lambda>dy. PrepareRowForJpeg srv cl x (y + dy) w) [0..<h]) in
       if length tightAfterBuf \<ge> tightAfterBufSize cl then SendFullColorRect env srv buf w h cl
       else
         case make_room (TIGHT_MIN_TO_COMPRESS + 1) cl of
           (False, cl) \<Rightarrow> (False, cl)
         | (True, cl) \<Rightarrow> SendCompressedData tightAfterBuf (put_tight [control rfbTightJpeg] cl))"

section \<open>A rectangle\<close>

definition paletteMaxColors :: "nat \<Rightarrow> nat \<Rightarrow> rfbClientRec \<Rightarrow> nat" where
  "paletteMaxColors w h cl =
    (let n = w * h div idxMaxColorsDivisor (compress_conf cl)
     in if n < 2 \<and> w * h \<ge> monoMinRectSize (compress_conf cl) then 2 else n)"

text \<open>The switch of SendSubrect over the number of colours.\<close>

definition send_colours :: "tight_env \<Rightarrow> server \<Rightarrow> u8 list \<Rightarrow> colours \<Rightarrow> nat \<Rightarrow> nat \<Rightarrow> nat \<Rightarrow> nat \<Rightarrow> rfbClientRec \<Rightarrow> bool \<times> rfbClientRec" where
  "send_colours env srv buf col x y w h cl =
    (case col of
       FullColour \<Rightarrow>
         if DetectSmoothImage srv buf w h cl then
           if tightQualityLevel cl \<noteq> -1 then SendJpegRect env srv buf x y w h (jpegQuality (quality_conf cl)) cl
           else SendGradientRect env srv buf w h cl
         else SendFullColorRect env srv buf w h cl
     | OneColour \<Rightarrow> SendSolidRect env srv buf cl
     | TwoColours bg fg \<Rightarrow> SendMonoRect env srv bg fg buf w h cl
     | Palette pal \<Rightarrow>
         if paletteNumColors pal > 96 \<and> tightQualityLevel cl \<noteq> -1 \<and> tightQualityLevel cl \<le> 3 \<and> DetectSmoothImage srv buf w h cl
         then SendJpegRect env srv buf x y w h (jpegQuality (quality_conf cl)) cl
         else SendIndexedRect env srv pal buf cl)"

definition SendSubrect :: "tight_env \<Rightarrow> server \<Rightarrow> nat \<Rightarrow> nat \<Rightarrow> nat \<Rightarrow> nat \<Rightarrow> rfbClientRec \<Rightarrow> bool \<times> rfbClientRec" where
  "SendSubrect env srv x y w h cl =
    (case (if ublen cl > 128 then rfbSendUpdateBuf cl else (True, cl)) of
       (False, cl) \<Rightarrow> (False, cl)
     | (True, cl) \<Rightarrow>
         case SendTightHeader x y w h cl of
           (False, cl) \<Rightarrow> (False, cl)
         | (True, cl) \<Rightarrow>
             let buf = pixels_at srv cl (fbptr srv cl x y) w h;
                 bpp = bitsPerPixel (format cl); bpp = (if bpp = 8 then 8 else if bpp = 16 then 16 else 32)
             in send_colours env srv buf (FillPalette bpp (paletteMaxColors w h cl) (before_pixels srv bpp buf)) x y w h cl)"

fun send_subrects :: "tight_env \<Rightarrow> server \<Rightarrow> rect list \<Rightarrow> rfbClientRec \<Rightarrow> bool \<times> rfbClientRec" where
  "send_subrects env srv [] cl = (True, cl)"
| "send_subrects env srv ((x, y, w, h) # rs) cl =
    (case SendSubrect env srv x y w h cl of (False, cl) \<Rightarrow> (False, cl) | (True, cl) \<Rightarrow> send_subrects env srv rs cl)"

definition SendRectSimple :: "tight_env \<Rightarrow> server \<Rightarrow> rect \<Rightarrow> rfbClientRec \<Rightarrow> bool \<times> rfbClientRec" where
  "SendRectSimple env srv r cl =
    (let maxBeforeSize = maxRectSize (compress_conf cl) * (bitsPerPixel (format cl) div 8);
         maxAfterSize = maxBeforeSize + (maxBeforeSize + 99) div 100 + 12;
         cl = (if tightAfterBufSize cl < maxAfterSize then cl\<lparr>tightAfterBufSize := maxAfterSize\<rparr> else cl)
     in send_subrects env srv (simple_rects (compress_conf cl) r) cl)"

text \<open>A piece of one colour: the header, and the pixel at its corner.\<close>

fun send_piece :: "tight_env \<Rightarrow> server \<Rightarrow> piece \<Rightarrow> rfbClientRec \<Rightarrow> bool \<times> rfbClientRec" where
  "send_piece env srv (Simple r) cl = SendRectSimple env srv r cl"
| "send_piece env srv (Solid (x, y, w, h)) cl =
    (case SendTightHeader x y w h cl of
       (False, cl) \<Rightarrow> (False, cl)
     | (True, cl) \<Rightarrow> SendSolidRect env srv (pixels_at srv cl (fbptr srv cl x y) 1 1) cl)"

fun send_pieces :: "tight_env \<Rightarrow> server \<Rightarrow> piece list \<Rightarrow> rfbClientRec \<Rightarrow> bool \<times> rfbClientRec" where
  "send_pieces env srv [] cl = (True, cl)"
| "send_pieces env srv (p # ps) cl =
    (case send_piece env srv p cl of (False, cl) \<Rightarrow> (False, cl) | (True, cl) \<Rightarrow> send_pieces env srv ps cl)"

definition rfbSendRectEncodingTight :: "tight_env \<Rightarrow> server \<Rightarrow> nat \<Rightarrow> nat \<Rightarrow> nat \<Rightarrow> nat \<Rightarrow> rfbClientRec \<Rightarrow> bool \<times> rfbClientRec" where
  "rfbSendRectEncodingTight env srv x y w h cl = send_pieces env srv (tight_pieces srv cl x y w h) cl"

end
