(* ===== verification/Tightspec.thy ===== *)
theory Tightspec
  imports Tightcode Zrlesend
begin

text \<open>
  What a viewer makes of a rectangle in the Tight encoding: the palette finds every colour, each conversion
  and the gradient filter can be undone, and the compressed blocks of the four streams inflate in order.
\<close>

section \<open>The palette\<close>

text \<open>Places in \<open>entry\<close> and nodes that point to each other.\<close>

definition linked :: "PALETTE \<Rightarrow> nat set \<Rightarrow> nat set \<Rightarrow> bool" where
  "linked pal P K \<longleftrightarrow> (\<forall>m \<in> P. entry_node pal m \<in> K \<and> node_idx pal (entry_node pal m) = m) \<and>
     (\<forall>k \<in> K. node_idx pal k \<in> P \<and> entry_node pal (node_idx pal k) = k)"

text \<open>The colours are different, and each chain has the nodes of its hash value.\<close>

definition palette_ok :: "nat \<Rightarrow> PALETTE \<Rightarrow> bool" where
  "palette_ok bpp pal \<longleftrightarrow> paletteNumColors pal \<le> 256 \<and> linked pal {..<paletteNumColors pal} {..<paletteNumColors pal} \<and>
     inj_on (node_rgb pal) {..<paletteNumColors pal} \<and>
     (\<forall>key. set (chains pal key) = {k. k < paletteNumColors pal \<and> hash_key bpp (node_rgb pal k) = key})"

definition palette_colours :: "PALETTE \<Rightarrow> u32 set" where
  "palette_colours pal = node_rgb pal ` {..<paletteNumColors pal}"

lemma shift_entries_moves:
  "shift_entries i count pal = (j, pal') \<Longrightarrow> inj_on (entry_node pal) {..<i} \<Longrightarrow>
    j \<le> i \<and> entry_node pal' = (\<lambda>m. if j < m \<and> m \<le> i then entry_node pal (m - 1) else entry_node pal m) \<and>
    (\<forall>m. j \<le> m \<and> m < i \<longrightarrow> node_idx pal' (entry_node pal m) = Suc m) \<and>
    (\<forall>k. k \<notin> entry_node pal ` {j..<i} \<longrightarrow> node_idx pal' k = node_idx pal k) \<and>
    chains pal' = chains pal \<and> node_rgb pal' = node_rgb pal \<and> paletteNumColors pal' = paletteNumColors pal"
proof (induction i count pal rule: shift_entries.induct)
  case (1 count pal)
  then show ?case by auto
next
  case (2 i count pal)
  let ?p = "pal\<lparr>entry_node := (entry_node pal)(Suc i := entry_node pal i),
         entry_pixels := (entry_pixels pal)(Suc i := entry_pixels pal i),
         node_idx := (node_idx pal)(entry_node pal i := Suc i)\<rparr>"
  show ?case
  proof (cases "entry_pixels pal i < count")
    case False
    then show ?thesis using 2(2) by auto
  next
    case True
    have r: "shift_entries i count ?p = (j, pal')" using 2(2) True by simp
    have inj: "inj_on (entry_node pal) {..<i}" by (rule inj_on_subset [OF 2(3)]) auto
    then have inj': "inj_on (entry_node ?p) {..<i}" by (auto simp: inj_on_def)
    note IH = 2(1) [OF True r inj']
    have j: "j \<le> i" using IH by blast
    have e: "entry_node pal' = (\<lambda>m. if j < m \<and> m \<le> Suc i then entry_node pal (m - 1) else entry_node pal m)"
    proof
      fix m
      have "entry_node pal' m = (if j < m \<and> m \<le> i then entry_node ?p (m - 1) else entry_node ?p m)" using IH by simp
      then show "entry_node pal' m = (if j < m \<and> m \<le> Suc i then entry_node pal (m - 1) else entry_node pal m)"
        using j by (cases "m = Suc i") auto
    qed
    have n1: "node_idx pal' (entry_node pal m) = Suc m" if "j \<le> m" "m < Suc i" for m
    proof (cases "m = i")
      case True
      have "entry_node pal i \<notin> entry_node pal ` {j..<i}" by (auto dest: inj_onD [OF 2(3)])
      then have "entry_node pal i \<notin> entry_node ?p ` {j..<i}" by auto
      then have "node_idx pal' (entry_node pal i) = node_idx ?p (entry_node pal i)" using IH by blast
      then show ?thesis using True by simp
    next
      case False
      then have "m < i" using that by simp
      then have "node_idx pal' (entry_node ?p m) = Suc m" using IH that(1) by blast
      then show ?thesis using \<open>m < i\<close> by simp
    qed
    have n2: "node_idx pal' k = node_idx pal k" if "k \<notin> entry_node pal ` {j..<Suc i}" for k
    proof -
      have "k \<notin> entry_node ?p ` {j..<i}" using that by auto
      then have "node_idx pal' k = node_idx ?p k" using IH by blast
      moreover have "k \<noteq> entry_node pal i" using that j by auto
      ultimately show ?thesis by simp
    qed
    show ?thesis using j e n1 n2 IH by auto
  qed
qed

lemma linked_put:
  assumes "shift_entries i count pal = (j, pal')" "linked pal ({..<N} - {i}) (K - {p})" "i < N" "p \<in> K"
  shows "linked (put_entry j p c pal') {..<N} K"
proof -
  have L: "entry_node pal m \<in> K - {p}" "node_idx pal (entry_node pal m) = m" if "m < N" "m \<noteq> i" for m
    using assms(2) that by (auto simp: linked_def)
  have same: "m = q" if "m < N" "m \<noteq> i" "q < N" "q \<noteq> i" "entry_node pal m = entry_node pal q" for m q
    using L(2) [OF that(1,2)] L(2) [OF that(3,4)] that(5) by metis
  have K: "node_idx pal k < N" "node_idx pal k \<noteq> i" "entry_node pal (node_idx pal k) = k" if "k \<in> K" "k \<noteq> p" for k
    using assms(2) that by (auto simp: linked_def)
  have "inj_on (entry_node pal) {..<i}" using L(2) assms(3) by (intro inj_on_inverseI [where g = "node_idx pal"]) auto
  from shift_entries_moves [OF assms(1) this] have j: "j \<le> i"
    and e: "\<And>m. entry_node pal' m = (if j < m \<and> m \<le> i then entry_node pal (m - 1) else entry_node pal m)"
    and n1: "\<And>m. j \<le> m \<Longrightarrow> m < i \<Longrightarrow> node_idx pal' (entry_node pal m) = Suc m"
    and n2: "\<And>k. k \<notin> entry_node pal ` {j..<i} \<Longrightarrow> node_idx pal' k = node_idx pal k" by auto
  have put: "entry_node (put_entry j p c pal') m = (if m = j then p else entry_node pal' m)"
    "node_idx (put_entry j p c pal') k = (if k = p then j else node_idx pal' k)" for m k by (simp_all add: put_entry_def)
  have fwd: "entry_node (put_entry j p c pal') m \<in> K \<and> node_idx (put_entry j p c pal') (entry_node (put_entry j p c pal') m) = m"
    if m: "m < N" for m
  proof -
    consider "m = j" | "j < m" "m \<le> i" | "m < j" | "i < m" by linarith
    then show ?thesis
    proof cases
      case 1
      then show ?thesis using assms(4) by (simp add: put)
    next
      case 2
      define q where "q = m - 1"
      have q: "m = Suc q" "q < N" "q \<noteq> i" "j \<le> q" "q < i" using 2 m by (auto simp: q_def)
      have "entry_node (put_entry j p c pal') m = entry_node pal q" using q 2 by (simp add: put e)
      then show ?thesis using L [OF q(2,3)] n1 [OF q(4,5)] q(1) by (simp add: put)
    next
      case 3
      then have mi: "m \<noteq> i" using j by simp
      have "entry_node pal m \<notin> entry_node pal ` {j..<i}"
      proof
        assume "entry_node pal m \<in> entry_node pal ` {j..<i}"
        then obtain q where "j \<le> q" "q < i" "entry_node pal m = entry_node pal q" by auto
        then have "m = q" using same [OF m mi] assms(3) by simp
        then show False using 3 \<open>j \<le> q\<close> by simp
      qed
      then show ?thesis using 3 L [OF m mi] n2 by (simp add: put e)
    next
      case 4
      then have mi: "m \<noteq> i" by simp
      have "entry_node pal m \<notin> entry_node pal ` {j..<i}"
      proof
        assume "entry_node pal m \<in> entry_node pal ` {j..<i}"
        then obtain q where "j \<le> q" "q < i" "entry_node pal m = entry_node pal q" by auto
        then have "m = q" using same [OF m mi] assms(3) by simp
        then show False using 4 \<open>q < i\<close> by simp
      qed
      then show ?thesis using 4 j L [OF m mi] n2 by (simp add: put e)
    qed
  qed
  have bwd: "node_idx (put_entry j p c pal') k < N \<and> entry_node (put_entry j p c pal') (node_idx (put_entry j p c pal') k) = k"
    if k: "k \<in> K" for k
  proof (cases "k = p")
    case True
    then show ?thesis using j assms(3) by (simp add: put)
  next
    case False
    define m where "m = node_idx pal k"
    have m: "m < N" "m \<noteq> i" "entry_node pal m = k" using K [OF k False] by (simp_all add: m_def)
    show ?thesis
    proof (cases "j \<le> m \<and> m < i")
      case True
      then have "node_idx pal' k = Suc m" using n1 m by blast
      then show ?thesis using True False m assms(3) by (simp add: put e)
    next
      case out: False
      have "k \<notin> entry_node pal ` {j..<i}"
      proof
        assume "k \<in> entry_node pal ` {j..<i}"
        then obtain q where "j \<le> q" "q < i" "k = entry_node pal q" by auto
        then show False using L(2) [of q] out assms(3) by (simp add: m_def)
      qed
      then have "node_idx pal' k = m" using n2 by (simp add: m_def)
      then show ?thesis using out False m j by (auto simp: put e)
    qed
  qed
  show ?thesis using fwd bwd by (auto simp: linked_def)
qed

text \<open>An insertion keeps the palette right and puts the colour in, unless the palette is full.\<close>

lemma find_node_Some: "find_node pal hk rgb = Some n \<Longrightarrow> n \<in> set (chains pal hk) \<and> node_rgb pal n = rgb"
  by (auto simp: find_node_def find_Some_iff)

lemma find_node_None: "find_node pal hk rgb = None \<Longrightarrow> n \<in> set (chains pal hk) \<Longrightarrow> node_rgb pal n \<noteq> rgb"
  by (auto simp: find_node_def find_None_iff)

lemma put_entry_simps [simp]: "node_rgb (put_entry i p c pal) = node_rgb pal" "chains (put_entry i p c pal) = chains pal"
  "paletteNumColors (put_entry i p c pal) = paletteNumColors pal"
  by (simp_all add: put_entry_def)

lemma linked_known: "linked pal {..<n} {..<n} \<Longrightarrow> k < n \<Longrightarrow> linked pal ({..<n} - {node_idx pal k}) ({..<n} - {k})"
proof -
  assume l: "linked pal {..<n} {..<n}" and k: "k < n"
  then have a: "m < n \<Longrightarrow> entry_node pal m < n" "m < n \<Longrightarrow> node_idx pal (entry_node pal m) = m"
    "m < n \<Longrightarrow> node_idx pal m < n" "m < n \<Longrightarrow> entry_node pal (node_idx pal m) = m" for m
    by (simp_all add: linked_def)
  have b: "entry_node pal m \<noteq> k" if "m < n" "m \<noteq> node_idx pal k" for m using a(2) [OF that(1)] that(2) by auto
  have c: "node_idx pal m \<noteq> node_idx pal k" if "m < n" "m \<noteq> k" for m using a(4) [OF that(1)] a(4) [OF k] that(2) by auto
  show ?thesis unfolding linked_def
  proof (intro conjI ballI)
    fix m assume "m \<in> {..<n} - {node_idx pal k}"
    then have m: "m < n" "m \<noteq> node_idx pal k" by auto
    show "entry_node pal m \<in> {..<n} - {k}" using a(1) [OF m(1)] b [OF m] by simp
    show "node_idx pal (entry_node pal m) = m" by (rule a(2) [OF m(1)])
  next
    fix m assume "m \<in> {..<n} - {k}"
    then have m: "m < n" "m \<noteq> k" by auto
    show "node_idx pal m \<in> {..<n} - {node_idx pal k}" using a(3) [OF m(1)] c [OF m] by simp
    show "entry_node pal (node_idx pal m) = m" by (rule a(4) [OF m(1)])
  qed
qed

lemma PaletteInsert_ok:
  assumes "palette_ok bpp pal" "PaletteInsert bpp mx rgb numPixels pal = (n, pal')"
  shows "n = paletteNumColors pal' \<and> (n \<noteq> 0 \<longrightarrow> palette_ok bpp pal' \<and> palette_colours pal' = insert rgb (palette_colours pal)) \<and>
    (paletteNumColors pal < mx \<and> paletteNumColors pal < 256 \<longrightarrow> n \<noteq> 0)"
proof -
  let ?n = "paletteNumColors pal" and ?key = "hash_key bpp rgb"
  have ok: "?n \<le> 256" "linked pal {..<?n} {..<?n}" "inj_on (node_rgb pal) {..<?n}"
    "\<And>key. set (chains pal key) = {k. k < ?n \<and> hash_key bpp (node_rgb pal k) = key}"
    using assms(1) by (simp_all add: palette_ok_def)
  have inj: "inj_on (entry_node pal) {..<m}" if "m \<le> ?n" for m
    using ok(2) that by (intro inj_on_inverseI [where g = "node_idx pal"]) (auto simp: linked_def)
  show ?thesis
  proof (cases "find_node pal ?key rgb")
    case (Some k)
    have k: "k < ?n" "node_rgb pal k = rgb" using find_node_Some [OF Some] ok(4) by auto
    have idx: "node_idx pal k < ?n" using ok(2) k(1) by (auto simp: linked_def)
    let ?count = "entry_pixels pal (node_idx pal k) + numPixels"
    obtain j p1 where s: "shift_entries (node_idx pal k) ?count pal = (j, p1)" by fastforce
    have f: "chains p1 = chains pal" "node_rgb p1 = node_rgb pal" "paletteNumColors p1 = ?n"
      using shift_entries_moves [OF s inj] idx by simp_all
    have r: "n = ?n" "pal' = put_entry j k ?count p1"
      using assms(2) by (simp_all add: PaletteInsert_def Some s f)
    have "linked pal' {..<?n} {..<?n}" unfolding r(2) by (rule linked_put [OF s linked_known [OF ok(2) k(1)] idx]) (use k in simp)
    then have "palette_ok bpp pal'" using ok by (simp add: palette_ok_def r(2) f)
    moreover have "palette_colours pal' = insert rgb (palette_colours pal)" using k by (auto simp: palette_colours_def r(2) f)
    ultimately show ?thesis using r k f by simp
  next
    case None
    show ?thesis
    proof (cases "?n = 256 \<or> ?n = mx")
      case True
      then show ?thesis using assms(2) by (auto simp: PaletteInsert_def None)
    next
      case False
      obtain j p1 where s: "shift_entries ?n numPixels pal = (j, p1)" by fastforce
      have f: "chains p1 = chains pal" "node_rgb p1 = node_rgb pal" "paletteNumColors p1 = ?n"
        using shift_entries_moves [OF s inj] by simp_all
      let ?p2 = "put_entry j ?n numPixels p1"
      have r: "n = Suc ?n" "pal' = ?p2\<lparr>chains := (chains pal)(?key := chains pal ?key @ [?n]), node_rgb := (node_rgb pal)(?n := rgb), paletteNumColors := Suc ?n\<rparr>"
        using assms(2) False by (auto simp: PaletteInsert_def None s f Let_def)
      have d: "{..<Suc ?n} - {?n} = {..<?n}" by auto
      have "linked ?p2 {..<Suc ?n} {..<Suc ?n}" by (rule linked_put [OF s]) (simp_all add: d ok(2))
      then have l: "linked pal' {..<Suc ?n} {..<Suc ?n}" by (simp add: r(2) linked_def)
      have "rgb \<notin> node_rgb pal ` {..<?n}"
      proof
        assume "rgb \<in> node_rgb pal ` {..<?n}"
        then obtain k where k: "k < ?n" "rgb = node_rgb pal k" by auto
        then have "k \<in> set (chains pal ?key)" using ok(4) by simp
        from find_node_None [OF None this] show False using k(2) by simp
      qed
      then have "inj_on ((node_rgb pal)(?n := rgb)) {..<Suc ?n}" using ok(3) by (auto simp: inj_on_def lessThan_Suc)
      moreover have "set (chains pal' key) = {k. k < Suc ?n \<and> hash_key bpp (node_rgb pal' k) = key}" for key
        using ok(4) [of key] by (auto simp: r(2) less_Suc_eq)
      moreover have "Suc ?n \<le> 256" using ok(1) False by simp
      ultimately have "palette_ok bpp pal'" using l by (simp add: palette_ok_def r(2))
      moreover have "palette_colours pal' = insert rgb (palette_colours pal)" by (auto simp: palette_colours_def r(2) lessThan_Suc)
      ultimately show ?thesis using r by simp
    qed
  qed
qed

lemma PaletteReset_ok: "palette_ok bpp PaletteReset" "palette_colours PaletteReset = {}" "paletteNumColors PaletteReset = 0"
  by (simp_all add: palette_ok_def palette_colours_def PaletteReset_def linked_def)

lemma insert_runs_ok:
  "palette_ok bpp pal \<Longrightarrow> insert_runs bpp mx ci ni ps pal = pal' \<Longrightarrow> paletteNumColors pal' \<noteq> 0 \<Longrightarrow>
    palette_ok bpp pal' \<and> insert ci (palette_colours pal \<union> set ps) \<subseteq> palette_colours pal'"
proof (induction bpp mx ci ni ps pal rule: insert_runs.induct)
  case (1 bpp mx ci ni pal)
  obtain n p where "PaletteInsert bpp mx ci ni pal = (n, p)" by fastforce
  then show ?case using PaletteInsert_ok [OF 1(1)] 1 by fastforce
next
  case (2 bpp mx ci ni p ps pal)
  show ?case
  proof (cases "p = ci")
    case True
    then show ?thesis using 2 by auto
  next
    case False
    obtain n p1 where i: "PaletteInsert bpp mx ci ni pal = (n, p1)" by fastforce
    note ok = PaletteInsert_ok [OF 2(3) i]
    have n: "n \<noteq> 0" using 2(4,5) False i ok by (auto split: if_splits)
    have "insert_runs bpp mx p 1 ps p1 = pal'" using 2(4) False i n by simp
    then have "palette_ok bpp pal' \<and> insert p (palette_colours p1 \<union> set ps) \<subseteq> palette_colours pal'"
      using 2(2) [OF False i [symmetric] n] ok n 2(5) by blast
    then show ?thesis using ok n by auto
  qed
qed

lemma count_two_set: "count_two c0 c1 ps n0 n1 = (m0, m1, rest) \<Longrightarrow> set ps \<subseteq> {c0, c1} \<union> set rest"
  by (induction c0 c1 ps n0 n1 rule: count_two.induct) (auto split: if_splits)

lemma count_two_head: "count_two c0 c1 ps n0 n1 = (m0, m1, ci # qs) \<Longrightarrow> ci \<noteq> c0 \<and> ci \<noteq> c1"
  by (induction c0 c1 ps n0 n1 rule: count_two.induct) (auto split: if_splits)

text \<open>What the colours found say of the pixels.\<close>

lemma FillPalette_colours:
  assumes "data \<noteq> []"
  shows "case FillPalette bpp mx data of FullColour \<Rightarrow> True | OneColour \<Rightarrow> set data = {data ! 0}
    | TwoColours bg fg \<Rightarrow> set data \<subseteq> {bg, fg} \<and> bg \<noteq> fg
    | Palette pal \<Rightarrow> bpp \<noteq> 8 \<and> palette_ok bpp pal \<and> set data \<subseteq> palette_colours pal \<and> 2 < paletteNumColors pal"
proof -
  define c0 where "c0 = data ! 0"
  define i where "i = Suc (length (takeWhile (\<lambda>p. p = c0) (drop 1 data)))"
  have d: "data = c0 # drop 1 data" using assms by (cases data) (simp_all add: c0_def)
  show ?thesis
  proof (cases "i \<ge> length data")
    case True
    then have "length (takeWhile (\<lambda>p. p = c0) (drop 1 data)) = length (drop 1 data)"
      using length_takeWhile_le [of "\<lambda>p. p = c0" "drop 1 data"] by (simp add: i_def)
    then have "takeWhile (\<lambda>p. p = c0) (drop 1 data) = drop 1 data" by (metis takeWhile_eq_take take_all order_refl)
    then have "\<forall>p \<in> set (drop 1 data). p = c0" by (metis set_takeWhileD)
    then have "set (c0 # drop 1 data) = {c0}" by auto
    then have "set data = {c0}" using d by argo
    moreover have "FillPalette bpp mx data = OneColour"
      unfolding FillPalette_def Let_def c0_def [symmetric] i_def [symmetric] using True by simp
    ultimately show ?thesis by (simp add: c0_def)
  next
    case False
    show ?thesis
    proof (cases "mx < 2")
      case True
      then have "FillPalette bpp mx data = FullColour"
        unfolding FillPalette_def Let_def c0_def [symmetric] i_def [symmetric] using False by simp
      then show ?thesis by simp
    next
      case mx: False
      define c1 where "c1 = data ! i"
      obtain n0 n1 rest where ct: "count_two c0 c1 (drop (i + 1) data) i 0 = (n0, n1, rest)" by (metis prod_cases3)
      have e: "FillPalette bpp mx data = (case rest of [] \<Rightarrow> if n0 > n1 then TwoColours c0 c1 else TwoColours c1 c0
        | ci # ps \<Rightarrow> if bpp = 8 then FullColour else
            let pal = PaletteReset; pal = snd (PaletteInsert bpp mx c0 n0 pal); pal = snd (PaletteInsert bpp mx c1 n1 pal);
                pal = insert_runs bpp mx ci 1 ps pal in if paletteNumColors pal = 0 then FullColour else Palette pal)"
        using False mx unfolding FillPalette_def Let_def c0_def [symmetric] i_def [symmetric] c1_def [symmetric] ct by simp
      have c01: "c1 \<noteq> c0"
      proof -
        have "drop 1 data ! (i - 1) \<noteq> c0"
          using nth_length_takeWhile [of "\<lambda>p. p = c0" "drop 1 data"] False by (simp add: i_def)
        then show ?thesis using False by (simp add: c1_def i_def)
      qed
      have "take i data = c0 # takeWhile (\<lambda>p. p = c0) (drop 1 data)"
        using d by (metis i_def take_Suc_Cons takeWhile_eq_take)
      then have "set (take i data) \<subseteq> {c0}" by (auto dest: set_takeWhileD)
      moreover have "data = take i data @ c1 # drop (i + 1) data" using False by (simp add: c1_def id_take_nth_drop)
      ultimately have "set data \<subseteq> {c0} \<union> ({c1} \<union> set (drop (i + 1) data))"
        using set_append [of "take i data" "c1 # drop (i + 1) data"] by auto
      then have sd: "set data \<subseteq> {c0, c1} \<union> set rest" using count_two_set [OF ct] by blast
      show ?thesis
      proof (cases rest)
        case Nil
        then show ?thesis using sd c01 by (auto simp: e)
      next
        case (Cons ci ps)
        obtain m0 p0 where p0: "PaletteInsert bpp mx c0 n0 PaletteReset = (m0, p0)" by fastforce
        obtain m1 p1 where p1: "PaletteInsert bpp mx c1 n1 p0 = (m1, p1)" by fastforce
        note k0 = PaletteInsert_ok [OF PaletteReset_ok(1) p0]
        have n0: "m0 \<noteq> 0" using k0 mx by (simp add: PaletteReset_ok)
        have pc0: "palette_ok bpp p0" "palette_colours p0 = {c0}" using k0 n0 by (simp_all add: PaletteReset_ok)
        note k1 = PaletteInsert_ok [OF pc0(1) p1]
        have "inj_on (node_rgb p0) {..<paletteNumColors p0}" using pc0(1) by (simp add: palette_ok_def)
        then have "paletteNumColors p0 = 1" using pc0(2) card_image [of "node_rgb p0" "{..<paletteNumColors p0}"] by (simp add: palette_colours_def)
        then have n1: "m1 \<noteq> 0" using k1 mx by simp
        have pc1: "palette_ok bpp p1" "palette_colours p1 = {c0, c1}" using k1 n1 pc0(2) by auto
        define pal where "pal = insert_runs bpp mx ci 1 ps p1"
        have e': "FillPalette bpp mx data = (if bpp = 8 then FullColour else if paletteNumColors pal = 0 then FullColour else Palette pal)"
          by (simp add: e Cons p0 p1 pal_def)
        show ?thesis
        proof (cases "bpp = 8 \<or> paletteNumColors pal = 0")
          case True
          then show ?thesis by (auto simp: e')
        next
          case np: False
          then have "palette_ok bpp pal \<and> insert ci (palette_colours p1 \<union> set ps) \<subseteq> palette_colours pal"
            using insert_runs_ok [OF pc1(1) pal_def [symmetric]] by simp
          then have pal: "palette_ok bpp pal" "{c0, c1, ci} \<union> set ps \<subseteq> palette_colours pal" using pc1(2) by auto
          have "card {c0, c1, ci} = 3" using count_two_head [OF ct [unfolded Cons]] c01 by auto
          then have "3 \<le> card (palette_colours pal)" using pal(2) card_mono [of "palette_colours pal" "{c0, c1, ci}"]
            by (simp add: palette_colours_def)
          also have "\<dots> \<le> paletteNumColors pal" unfolding palette_colours_def using card_image_le [of "{..<paletteNumColors pal}"] by simp
          finally have "2 < paletteNumColors pal" by simp
          moreover have "set data \<subseteq> palette_colours pal" using sd pal(2) by (auto simp: Cons)
          ultimately show ?thesis using pal(1) np by (simp add: e')
        qed
      qed
    qed
  qed
qed

end
