(* ===== verification/Tightview.thy ===== *)
theory Tightview
  imports Tightspec
begin

text \<open>
  What a viewer makes of the data of a Tight rectangle: the two-colour and the indexed conversion
  and the gradient filter are undone, and the length of a compressed block is read back.
\<close>

section \<open>Two colours\<close>

lemma bit_top: "bit (0x80 :: u8) k \<longleftrightarrow> k = 7"
proof -
  have "(0x80 :: u8) = push_bit 7 1" by simp
  then show ?thesis by (simp only: bit_simps) auto
qed

lemma bit_top_drop: "bit (drop_bit n (0x80 :: u8)) j \<longleftrightarrow> n + j = 7"
  by (simp only: bit_drop_bit_eq comp_def bit_top)

lemma bit_mono_bits:
  "n + length ps \<le> 8 \<Longrightarrow> bit (mono_bits bg (drop_bit n 0x80) v ps) j \<longleftrightarrow> bit v j \<or> (\<exists>i < length ps. ps ! i \<noteq> bg \<and> j = 7 - n - i)"
proof (induction ps arbitrary: n v)
  case (Cons p ps)
  have m: "bit (drop_bit n (0x80 :: u8)) j \<longleftrightarrow> j = 7 - n"
    unfolding bit_top_drop using Cons.prems by auto
  have "drop_bit 1 (drop_bit n (0x80 :: u8)) = drop_bit (Suc n) 0x80" by (simp add: drop_bit_drop_bit)
  then have "bit (mono_bits bg (drop_bit n 0x80) v (p # ps)) j \<longleftrightarrow>
      (bit (if p \<noteq> bg then v OR drop_bit n 0x80 else v) j) \<or> (\<exists>i < length ps. ps ! i \<noteq> bg \<and> j = 7 - Suc n - i)"
    using Cons.IH [of "Suc n" "if p \<noteq> bg then v OR drop_bit n 0x80 else v"] Cons.prems by simp
  also have "\<dots> \<longleftrightarrow> bit v j \<or> (p \<noteq> bg \<and> j = 7 - n) \<or> (\<exists>i < length ps. ps ! i \<noteq> bg \<and> j = 7 - Suc n - i)"
    using m by (auto simp: bit_or_iff)
  also have "\<dots> \<longleftrightarrow> bit v j \<or> (\<exists>i < length (p # ps). (p # ps) ! i \<noteq> bg \<and> j = 7 - n - i)"
    unfolding length_Cons Ex_less_Suc2 by simp
  finally show ?case .
qed simp

lemma bit_mono_byte:
  assumes "length ps = 8" "i < 8"
  shows "bit (mono_byte bg ps) (7 - i) \<longleftrightarrow> ps ! i \<noteq> bg"
proof -
  define n where "n = length (takeWhile (\<lambda>p. p = bg) ps)"
  have n: "n \<le> 8" using length_takeWhile_le [of "\<lambda>p. p = bg" ps] assms(1) by (simp add: n_def)
  have before: "ps ! k = bg" if "k < n" for k
    using that nth_mem [of k "takeWhile (\<lambda>p. p = bg) ps"] set_takeWhileD [of _ "\<lambda>p. p = bg" ps] takeWhile_nth [of k "\<lambda>p. p = bg" ps]
    by (auto simp: n_def)
  show ?thesis
  proof (cases "n = 8")
    case True
    then show ?thesis using before assms(2) by (simp add: mono_byte_def n_def)
  next
    case False
    then have n8: "n < 8" using n by simp
    have at: "ps ! n \<noteq> bg" using nth_length_takeWhile [of "\<lambda>p. p = bg" ps] n8 assms(1) by (simp add: n_def)
    have "mono_byte bg ps = mono_bits bg (drop_bit (n + 1) 0x80) (drop_bit n 0x80) (drop (n + 1) ps)"
      unfolding mono_byte_def Let_def n_def [symmetric] using False by (simp only: if_False)
    then have "bit (mono_byte bg ps) (7 - i) \<longleftrightarrow>
        bit (drop_bit n (0x80 :: u8)) (7 - i) \<or> (\<exists>k < length (drop (n + 1) ps). drop (n + 1) ps ! k \<noteq> bg \<and> 7 - i = 7 - (n + 1) - k)"
      using bit_mono_bits [of "n + 1" "drop (n + 1) ps"] n8 assms(1) by simp
    also have "bit (drop_bit n (0x80 :: u8)) (7 - i) \<longleftrightarrow> i = n"
      unfolding bit_top_drop using n8 assms(2) by auto
    also have "(\<exists>k < length (drop (n + 1) ps). drop (n + 1) ps ! k \<noteq> bg \<and> 7 - i = 7 - (n + 1) - k) \<longleftrightarrow> n < i \<and> ps ! i \<noteq> bg"
    proof
      assume "\<exists>k < length (drop (n + 1) ps). drop (n + 1) ps ! k \<noteq> bg \<and> 7 - i = 7 - (n + 1) - k"
      then obtain k where k: "k < length (drop (n + 1) ps)" "drop (n + 1) ps ! k \<noteq> bg" "7 - i = 7 - (n + 1) - k" by blast
      have "n + 1 + k < 8" using k(1) assms(1) by simp
      with k have k: "n + 1 + k < 8" "drop (n + 1) ps ! k \<noteq> bg" "7 - i = 7 - (n + 1) - k" by blast+
      then have "i = n + 1 + k" using assms(2) by linarith
      then show "n < i \<and> ps ! i \<noteq> bg" using k assms(1) by simp
    next
      assume "n < i \<and> ps ! i \<noteq> bg"
      then show "\<exists>k < length (drop (n + 1) ps). drop (n + 1) ps ! k \<noteq> bg \<and> 7 - i = 7 - (n + 1) - k"
        using assms by (intro exI [of _ "i - (n + 1)"]) auto
    qed
    also have "i = n \<or> n < i \<and> ps ! i \<noteq> bg \<longleftrightarrow> ps ! i \<noteq> bg"
      using at before [of i] by (metis linorder_neqE_nat)
    finally show ?thesis .
  qed
qed

lemma packed_index_1: "packed_index 1 bs i = of_bool (bit (bs ! (i div 8)) (7 - i mod 8))"
proof -
  have "unat (take_bit 1 x) = of_bool (bit x 0)" for x :: u8
  proof -
    have "take_bit 1 x = of_bool (bit x 0)"
    proof (rule bit_word_eqI)
      fix n show "bit (take_bit 1 x) n = bit (of_bool (bit x 0) :: u8) n" by (cases n) (auto simp: bit_take_bit_iff bit_0 bit_Suc)
    qed
    then show ?thesis by (cases "bit x 0") (simp_all only: of_bool_eq unsigned_1 unsigned_0)
  qed
  moreover have "bit (drop_bit m x) 0 = bit x m" for m and x :: u8 unfolding bit_drop_bit_eq comp_def by simp
  ultimately show ?thesis by (simp only: packed_index_def mult_1_right) simp
qed

lemma length_mono_row: "length (mono_row bg ps) = (length ps + 7) div 8"
proof (induction bg ps rule: mono_row.induct)
  case (1 bg ps)
  show ?case
  proof (cases "length ps \<ge> 8")
    case True
    then have "length (mono_row bg ps) = Suc ((length ps - 8 + 7) div 8)" using 1 by (subst mono_row.simps) simp
    also have "\<dots> = (length ps - 8 + 7 + 8) div 8" by simp
    also have "length ps - 8 + 7 + 8 = length ps + 7" using True by simp
    finally show ?thesis .
  next
    case False
    then have "(length ps + 7) div 8 = (if ps = [] then 0 else 1)"
      by (cases ps) (auto simp: div_if)
    then show ?thesis using False by (subst mono_row.simps) simp
  qed
qed

lemma mono_row_read: "i < length ps \<Longrightarrow> packed_index 1 (mono_row bg ps @ r) i = of_bool (ps ! i \<noteq> bg)"
proof (induction bg ps arbitrary: i rule: mono_row.induct)
  case (1 bg ps)
  show ?case
  proof (cases "length ps \<ge> 8")
    case True
    have e: "mono_row bg ps = mono_byte bg (take 8 ps) # mono_row bg (drop 8 ps)" using True by (subst mono_row.simps) simp
    show ?thesis
    proof (cases "i < 8")
      case i: True
      then show ?thesis using bit_mono_byte [of "take 8 ps" i bg] True unfolding e packed_index_1 by simp
    next
      case False
      then obtain k where k: "i = k + 8" by (metis add.commute le_add_diff_inverse not_less)
      have d: "(k + 8) div 8 = Suc (k div 8)" "(k + 8) mod 8 = k mod 8" by simp_all
      have "packed_index 1 (mono_row bg ps @ r) i = packed_index 1 (mono_row bg (drop 8 ps) @ r) k"
        using d unfolding e packed_index_1 k by simp
      also have "\<dots> = of_bool (drop 8 ps ! k \<noteq> bg)" using 1(1) [OF True, of k] 1(2) k by simp
      finally show ?thesis using True by (simp add: k add.commute)
    qed
  next
    case False
    then have e: "mono_row bg ps = [mono_bits bg (drop_bit 0 0x80) 0 ps]" using 1(2) by (subst mono_row.simps) auto
    have "(\<exists>k < length ps. ps ! k \<noteq> bg \<and> 7 - i = 7 - 0 - k) \<longleftrightarrow> ps ! i \<noteq> bg"
    proof
      assume "\<exists>k < length ps. ps ! k \<noteq> bg \<and> 7 - i = 7 - 0 - k"
      then obtain k where "k < length ps" "ps ! k \<noteq> bg" "7 - i = 7 - k" by auto
      moreover have "k = i" using calculation 1(2) False by linarith
      ultimately show "ps ! i \<noteq> bg" by simp
    next
      assume "ps ! i \<noteq> bg"
      then show "\<exists>k < length ps. ps ! k \<noteq> bg \<and> 7 - i = 7 - 0 - k" using 1(2) by (intro exI [of _ i]) simp
    qed
    then have "bit (mono_bits bg (drop_bit 0 0x80) 0 ps) (7 - i) \<longleftrightarrow> ps ! i \<noteq> bg"
      using bit_mono_bits [of 0 ps bg 0 "7 - i"] False by simp
    then show ?thesis using False 1(2) unfolding e packed_index_1 by simp
  qed
qed

text \<open>The rectangle is that of a packed palette of ZRLE with one bit for each pixel.\<close>

lemma EncodeMonoRect_read:
  assumes "bg \<noteq> fg"
  shows "set data \<subseteq> {bg, fg} \<Longrightarrow> length data = w * h \<Longrightarrow>
    packed_rows 1 [f bg, f fg] h w (EncodeMonoRect bg data w h @ r) = (map f data, r) \<and>
    length (EncodeMonoRect bg data w h) = (w + 7) div 8 * h"
proof (induction h arbitrary: data)
  case (Suc h)
  have len: "length (take w data) = w" using Suc.prems(2) by simp
  have "[f bg, f fg] ! packed_index 1 (mono_row bg (take w data) @ t) i = f (data ! i)" if "i < w" for i t
  proof -
    have "data ! i \<in> {bg, fg}" using Suc.prems that by (intro subsetD [OF Suc.prems(1)]) simp
    then show ?thesis using mono_row_read [of i "take w data" bg t] that len assms by auto
  qed
  then have "map (\<lambda>i. [f bg, f fg] ! packed_index 1 (mono_row bg (take w data) @ t) i) [0..<w] = map f (take w data)" for t
    using len by (intro nth_equalityI) simp_all
  moreover have "packed_rows 1 [f bg, f fg] h w (EncodeMonoRect bg (drop w data) w h @ r) = (map f (drop w data), r) \<and>
    length (EncodeMonoRect bg (drop w data) w h) = (w + 7) div 8 * h"
    by (rule Suc.IH) (use Suc.prems in \<open>auto dest: in_set_dropD\<close>)
  moreover have "drop ((w + 7) div 8) (mono_row bg (take w data) @ t) = t" for t
    using length_mono_row [of bg "take w data", unfolded len] by (metis append_eq_conv_conj)
  moreover have "map f data = map f (take w data) @ map f (drop w data)" by (metis append_take_drop_id map_append)
  ultimately show ?case
    using length_mono_row [of bg "take w data", unfolded len] by simp
qed simp

section \<open>Indices\<close>

lemma palette_index:
  assumes "palette_ok bpp pal" "p \<in> palette_colours pal"
  obtains k where "find_node pal (hash_key bpp p) p = Some k" "node_idx pal k < paletteNumColors pal" "node_rgb pal (entry_node pal (node_idx pal k)) = p"
proof -
  obtain m where m: "m < paletteNumColors pal" "node_rgb pal m = p" using assms(2) by (auto simp: palette_colours_def)
  have "m \<in> set (chains pal (hash_key bpp p))" using assms(1) m by (simp add: palette_ok_def)
  then have "find_node pal (hash_key bpp p) p \<noteq> None" using find_node_None [of pal "hash_key bpp p" p m] m(2) by blast
  then obtain k where k: "find_node pal (hash_key bpp p) p = Some k" by blast
  have kn: "k < paletteNumColors pal" "node_rgb pal k = p" using find_node_Some [OF k] assms(1) by (auto simp: palette_ok_def)
  then have "node_idx pal k < paletteNumColors pal" "entry_node pal (node_idx pal k) = k" using assms(1) by (auto simp: palette_ok_def linked_def)
  then show thesis using that [OF k] kn by simp
qed

lemma EncodeIndexedRect_read:
  assumes "palette_ok bpp pal"
  shows "set ps \<subseteq> palette_colours pal \<Longrightarrow>
    map (\<lambda>b. map (\<lambda>i. f (node_rgb pal (entry_node pal i))) [0..<paletteNumColors pal] ! unat b) (EncodeIndexedRect bpp pal 0 ps) = map f ps"
proof (induction "length ps" arbitrary: ps rule: less_induct)
  case less
  show ?case
  proof (cases ps)
    case (Cons p qs)
    define l where "l = length (takeWhile (\<lambda>q. q = p) qs)"
    define rs where "rs = dropWhile (\<lambda>q. q = p) qs"
    have "p \<in> palette_colours pal" using less.prems Cons by simp
    then obtain k where k: "find_node pal (hash_key bpp p) p = Some k" "node_idx pal k < paletteNumColors pal"
      "node_rgb pal (entry_node pal (node_idx pal k)) = p"
      using palette_index [OF assms] by blast
    have e: "EncodeIndexedRect bpp pal 0 ps = replicate (Suc l) (of_nat (node_idx pal k)) @ EncodeIndexedRect bpp pal 0 rs"
      by (simp add: Cons k(1) Let_def l_def rs_def)
    have "paletteNumColors pal \<le> 256" using assms by (simp add: palette_ok_def)
    then have "unat (of_nat (node_idx pal k) :: u8) = node_idx pal k" using k(2) by (simp add: unsigned_of_nat take_bit_nat_eq_self_iff)
    then have b: "map (\<lambda>i. f (node_rgb pal (entry_node pal i))) [0..<paletteNumColors pal] ! unat (of_nat (node_idx pal k) :: u8) = f p"
      using k by simp
    have "length rs < length ps" by (simp add: Cons rs_def le_imp_less_Suc length_dropWhile_le)
    moreover have "set rs \<subseteq> palette_colours pal" using less.prems by (auto simp: Cons rs_def dest: set_dropWhileD)
    ultimately have "map (\<lambda>b. map (\<lambda>i. f (node_rgb pal (entry_node pal i))) [0..<paletteNumColors pal] ! unat b) (EncodeIndexedRect bpp pal 0 rs) = map f rs"
      by (rule less.hyps)
    then show ?thesis unfolding e map_append map_replicate b by (simp add: Cons map_run l_def rs_def del: list.map)
  qed simp
qed

lemma length_EncodeIndexedRect:
  assumes "palette_ok bpp pal" "set ps \<subseteq> palette_colours pal"
  shows "length (EncodeIndexedRect bpp pal 0 ps) = length ps"
  using EncodeIndexedRect_read [OF assms, where f = "\<lambda>p. p"] by (metis length_map)

section \<open>The gradient filter\<close>

text \<open>The viewer adds each difference to its own prediction, modulo the number of values of the component.\<close>

fun restore_row :: "int list \<Rightarrow> int list list \<Rightarrow> int list \<Rightarrow> int list \<Rightarrow> int list list \<Rightarrow> int list list" where
  "restore_row maxColor (up # prevRow) pixUpper pixHere (d # ds) =
    (let pix = map (\<lambda>c. (d ! c + predict (maxColor ! c) (pixHere ! c) (up ! c) (pixUpper ! c)) mod (maxColor ! c + 1)) [0, 1, 2]
     in pix # restore_row maxColor prevRow up pix ds)"
| "restore_row maxColor prevRow pixUpper pixHere ds = []"

fun restore_rows :: "int list \<Rightarrow> int list list \<Rightarrow> nat \<Rightarrow> int list list \<Rightarrow> nat \<Rightarrow> int list list" where
  "restore_rows maxColor prevRow w ds 0 = []"
| "restore_rows maxColor prevRow w ds (Suc h) =
    (let row = restore_row maxColor prevRow [0, 0, 0] [0, 0, 0] (take w ds)
     in row @ restore_rows maxColor row w (drop w ds) h)"

text \<open>What arrives of a difference has to be right modulo that number only.\<close>

definition congruent :: "int list \<Rightarrow> int list \<Rightarrow> int list \<Rightarrow> bool" where
  "congruent maxColor g d \<longleftrightarrow> (\<forall>c \<in> {0, 1, 2}. d ! c mod (maxColor ! c + 1) = g ! c mod (maxColor ! c + 1))"

definition component_range :: "int list \<Rightarrow> int list \<Rightarrow> bool" where
  "component_range maxColor p \<longleftrightarrow> (\<exists>a b c. p = [a, b, c]) \<and> (\<forall>c \<in> {0, 1, 2}. 0 \<le> p ! c \<and> p ! c \<le> maxColor ! c)"

lemma predict_range: "0 \<le> mx \<Longrightarrow> 0 \<le> predict mx a b c \<and> predict mx a b c \<le> mx"
  by (simp add: predict_def Let_def)

lemma restored:
  assumes "d mod (mx + 1) = (p - q) mod (mx + 1)" "0 \<le> p" "p \<le> mx"
  shows "(d + q) mod (mx + 1) = (p :: int)"
proof -
  have "(d + q) mod (mx + 1) = ((p - q) + q) mod (mx + 1)" using assms(1) by (rule mod_add_cong) simp
  then show ?thesis using assms(2,3) by simp
qed

lemma restore_row_gradient:
  assumes "\<And>g. g \<in> set (gradient_row maxColor prev pixUpper pixHere ps) \<Longrightarrow> congruent maxColor g (tr g)"
  shows "length prev = length ps \<Longrightarrow> \<forall>p \<in> set ps. component_range maxColor p \<Longrightarrow>
    restore_row maxColor prev pixUpper pixHere (map tr (gradient_row maxColor prev pixUpper pixHere ps)) = ps \<and>
    length (gradient_row maxColor prev pixUpper pixHere ps) = length ps"
  using assms
proof (induction maxColor prev pixUpper pixHere ps rule: gradient_row.induct)
  case (1 maxColor up prevRow pixUpper pixHere pix ps)
  let ?pred = "\<lambda>c. predict (maxColor ! c) (pixHere ! c) (up ! c) (pixUpper ! c)"
  define g where "g = map (\<lambda>c. pix ! c - ?pred c) [0, 1, 2]"
  have e: "gradient_row maxColor (up # prevRow) pixUpper pixHere (pix # ps) = g # gradient_row maxColor prevRow up pix ps"
    by (simp add: g_def)
  have tr: "congruent maxColor g (tr g)" using 1(4) [of g] unfolding e by simp
  have p: "\<exists>a b c. pix = [a, b, c]" "\<And>c. c \<in> {0, 1, 2} \<Longrightarrow> 0 \<le> pix ! c \<and> pix ! c \<le> maxColor ! c"
    using 1(3) by (auto simp: component_range_def)
  have c: "(tr g ! c + ?pred c) mod (maxColor ! c + 1) = pix ! c" if "c \<in> {0, 1, 2}" for c
  proof (rule restored)
    have "g ! c = pix ! c - ?pred c" using that by (auto simp: g_def)
    then show "tr g ! c mod (maxColor ! c + 1) = (pix ! c - ?pred c) mod (maxColor ! c + 1)"
      using tr that by (auto simp: congruent_def)
  qed (use p(2) [OF that] in auto)
  have "map (\<lambda>c. (tr g ! c + ?pred c) mod (maxColor ! c + 1)) [0, 1, 2] = map (\<lambda>c. pix ! c) [0, 1, 2]"
    using c by (intro map_cong refl) auto
  also have "\<dots> = pix" using p(1) by auto
  finally have m: "map (\<lambda>c. (tr g ! c + ?pred c) mod (maxColor ! c + 1)) [0, 1, 2] = pix" .
  have "restore_row maxColor prevRow up pix (map tr (gradient_row maxColor prevRow up pix ps)) = ps \<and>
    length (gradient_row maxColor prevRow up pix ps) = length ps"
    by (rule 1(1)) (use 1(2,3,4) e in auto)
  moreover have "restore_row maxColor (up # prevRow) pixUpper pixHere (tr g # ds) = pix # restore_row maxColor prevRow up pix ds" for ds
    unfolding restore_row.simps(1) m Let_def ..
  ultimately show ?case unfolding e by simp
qed simp_all

lemma restore_rows_gradient:
  assumes "\<And>g. congruent maxColor g (tr g)"
  shows "length prev = w \<Longrightarrow> length ps = w * h \<Longrightarrow> \<forall>p \<in> set ps. component_range maxColor p \<Longrightarrow>
    restore_rows maxColor prev w (map tr (gradient_rows maxColor prev w ps h)) h = ps \<and>
    length (gradient_rows maxColor prev w ps h) = w * h"
proof (induction h arbitrary: prev ps)
  case (Suc h)
  let ?row = "gradient_row maxColor prev [0, 0, 0] [0, 0, 0] (take w ps)"
  have len: "length (take w ps) = w" "length (drop w ps) = w * h" using Suc.prems(2) by simp_all
  have row: "restore_row maxColor prev [0, 0, 0] [0, 0, 0] (map tr ?row) = take w ps" "length ?row = w"
    using restore_row_gradient [of maxColor prev "[0, 0, 0]" "[0, 0, 0]" "take w ps" tr, OF assms] Suc.prems len
    by (auto dest: in_set_takeD)
  have "restore_rows maxColor (take w ps) w (map tr (gradient_rows maxColor (take w ps) w (drop w ps) h)) h = drop w ps \<and>
    length (gradient_rows maxColor (take w ps) w (drop w ps) h) = w * h"
    by (rule Suc.IH) (use Suc.prems len in \<open>auto dest: in_set_dropD\<close>)
  then show ?case using row by (simp add: Let_def)
qed simp

lemma gradient_row_length: "g \<in> set (gradient_row maxColor prev u l ps) \<Longrightarrow> length g = 3"
  by (induction maxColor prev u l ps rule: gradient_row.induct) auto

lemma gradient_rows_length: "g \<in> set (gradient_rows maxColor prev w ps h) \<Longrightarrow> length g = 3"
  by (induction h arbitrary: prev ps) (auto dest: gradient_row_length)

text \<open>Eight bits for each component.\<close>

definition byte_triple :: "int list \<Rightarrow> int list" where
  "byte_triple g = map (\<lambda>c. uint (word_of_int (g ! c) :: u8)) [0, 1, 2]"

lemma byte_congruent: "congruent [255, 255, 255] g (byte_triple g)"
  by (auto simp: congruent_def byte_triple_def uint_word_of_int)

lemma byte_triple_map: "length g = 3 \<Longrightarrow> map (\<lambda>d. uint (word_of_int d :: u8)) g = byte_triple g"
  by (auto simp: byte_triple_def numeral_3_eq_3 length_Suc_conv)

end
