(* ===== verification/Tightsend.thy ===== *)
theory Tightsend
  imports Tightview
begin

text \<open>
  A rectangle in Tight, sent and read: the viewer takes it from its bytes, with an inflating stream for
  each of the four that the server keeps.
\<close>

section \<open>The four streams\<close>

text \<open>All that the blocks of a stream were compressed to, after those of \<open>past\<close>.\<close>

fun touts :: "tight_env \<Rightarrow> nat \<Rightarrow> (nat \<times> u8 list) list \<Rightarrow> (nat \<times> u8 list) list \<Rightarrow> u8 list option" where
  "touts env sid past [] = Some []"
| "touts env sid past ((l, bs) # blocks) =
    (case deflateTight env sid past l bs of None \<Rightarrow> None
     | Some out \<Rightarrow> map_option (\<lambda>outs. out @ outs) (touts env sid (past @ [(l, bs)]) blocks))"

lemma touts_snoc:
  "touts env sid past blocks = Some a \<Longrightarrow> deflateTight env sid (past @ blocks) l bs = Some b \<Longrightarrow>
    touts env sid past (blocks @ [(l, bs)]) = Some (a @ b)"
  by (induction env sid past blocks arbitrary: a rule: touts.induct) (auto split: option.splits)

text \<open>
  What zlib promises, since each block ends with a sync flush: what a stream has put out inflates to all that went in.
\<close>

definition tight_pair :: "tight_env \<Rightarrow> (u8 list \<Rightarrow> u8 list) \<Rightarrow> bool" where
  "tight_pair env inflate \<longleftrightarrow> (\<forall>sid blocks out. touts env sid [] blocks = Some out \<longrightarrow> inflate out = concat (map snd blocks))"

text \<open>What can keep a block from being sent: an error, or more output than the bound that the code relies on.\<close>

definition tight_fails :: "tight_env \<Rightarrow> bool" where
  "tight_fails env \<longleftrightarrow> (\<exists>l. \<not> deflateInit2 env l) \<or> (\<exists>sid blocks l. \<not> deflateParams env sid blocks l) \<or>
     (\<exists>sid blocks l data. deflateTight env sid blocks l data = None) \<or>
     (\<exists>sid blocks l data out. deflateTight env sid blocks l data = Some out \<and>
        length data + (length data + 99) div 100 + 12 \<le> length out)"

text \<open>\<open>got\<close> is what the client has been sent of each stream.\<close>

definition tight_sent :: "tight_env \<Rightarrow> rfbClientRec \<Rightarrow> (nat \<Rightarrow> u8 list) \<Rightarrow> bool" where
  "tight_sent env cl got \<longleftrightarrow>
     (\<forall>sid. case zsStruct cl sid of None \<Rightarrow> got sid = [] | Some z \<Rightarrow> touts env sid [] (snd z) = Some (got sid))"

section \<open>Steps of an encoder\<close>

text \<open>
  A step either stops, because zlib failed or the connection is gone, or it sends bytes of which \<open>P\<close> holds
  with what the client has then got of the streams.
\<close>

definition tight_out :: "tight_env \<Rightarrow> rfbClientRec \<Rightarrow> (u8 list \<Rightarrow> (nat \<Rightarrow> u8 list) \<Rightarrow> bool) \<Rightarrow> bool \<times> rfbClientRec \<Rightarrow> bool" where
  "tight_out env cl P res \<longleftrightarrow>
     (if fst res then \<exists>bs got. sends cl bs res \<and> tight_sent env (snd res) got \<and>
        tightAfterBufSize cl \<le> tightAfterBufSize (snd res) \<and>
        (tightAfterBufSize cl \<le> 2 ^ 22 \<longrightarrow> tightAfterBufSize (snd res) \<le> 2 ^ 22) \<and> P bs got
      else tight_fails env \<or> gone (snd res))"

lemma tight_out_seq:
  assumes "tight_out env cl P r"
    and "\<And>c bs got. settings c = settings cl \<Longrightarrow> ublen c \<le> UPDATE_BUF_SIZE \<Longrightarrow> tight_sent env c got \<Longrightarrow> P bs got \<Longrightarrow>
      r = (True, c) \<Longrightarrow> tightAfterBufSize cl \<le> tightAfterBufSize c \<Longrightarrow> (tightAfterBufSize cl \<le> 2 ^ 22 \<longrightarrow> tightAfterBufSize c \<le> 2 ^ 22) \<Longrightarrow>
      tight_out env c (\<lambda>bs'. Q (bs @ bs')) (f c)"
  shows "tight_out env cl Q (case r of (False, c) \<Rightarrow> (False, c) | (True, c) \<Rightarrow> f c)"
proof (cases r)
  case (Pair ok c)
  show ?thesis
  proof (cases ok)
    case False
    then show ?thesis using assms(1) Pair by (simp add: tight_out_def)
  next
    case True
    then obtain bs got where s: "sends cl bs (True, c)" and c: "tight_sent env c got" "tightAfterBufSize cl \<le> tightAfterBufSize c"
      "tightAfterBufSize cl \<le> 2 ^ 22 \<longrightarrow> tightAfterBufSize c \<le> 2 ^ 22" "P bs got"
      using assms(1) Pair by (auto simp: tight_out_def)
    have sc: "settings c = settings cl" "ublen c \<le> UPDATE_BUF_SIZE" "stream c = stream cl @ bs" "sock c = sock cl" using s by (auto simp: sends_def)
    have n: "tight_out env c (\<lambda>bs'. Q (bs @ bs')) (f c)"
      by (rule assms(2) [OF sc(1,2) c(1) c(4) _ c(2) c(3)]) (simp add: Pair True)
    have "tight_out env cl Q (f c)"
    proof (cases "fst (f c)")
      case False
      then show ?thesis using n by (simp add: tight_out_def)
    next
      case t: True
      then obtain bs' got' where n': "sends c bs' (f c)" "tight_sent env (snd (f c)) got'" "tightAfterBufSize c \<le> tightAfterBufSize (snd (f c))"
        "tightAfterBufSize c \<le> 2 ^ 22 \<longrightarrow> tightAfterBufSize (snd (f c)) \<le> 2 ^ 22" "Q (bs @ bs') got'"
        using n by (auto simp: tight_out_def)
      have "sends cl (bs @ bs') (f c)" by (rule sends_more [OF n'(1) sc(1,3,4)])
      then show ?thesis using t n' c(2,3) unfolding tight_out_def by (auto intro: order_trans)
    qed
    then show ?thesis using Pair True by simp
  qed
qed

lemma tight_out_put:
  assumes "tight_out env c (\<lambda>bs. Q (as @ bs)) res" "settings c = settings cl" "stream c = stream cl @ as" "sock c = sock cl"
    and "tightAfterBufSize c = tightAfterBufSize cl"
  shows "tight_out env cl Q res"
proof (cases "fst res")
  case False
  then show ?thesis using assms(1) by (simp add: tight_out_def)
next
  case True
  then obtain bs got where n: "sends c bs res" "tight_sent env (snd res) got" "tightAfterBufSize c \<le> tightAfterBufSize (snd res)"
      "tightAfterBufSize c \<le> 2 ^ 22 \<longrightarrow> tightAfterBufSize (snd res) \<le> 2 ^ 22" "Q (as @ bs) got"
    using assms(1) by (auto simp: tight_out_def)
  then show ?thesis using True sends_more [OF n(1) assms(2-4)] assms(5) unfolding tight_out_def by auto
qed

lemma tight_out_end:
  assumes "settings c = settings cl" "stream c = stream cl @ bs" "ublen c \<le> UPDATE_BUF_SIZE" "sock c = sock cl"
    and "tight_sent env c got" "tightAfterBufSize c = tightAfterBufSize cl" "P bs got"
  shows "tight_out env cl P (True, c)"
  unfolding tight_out_def using sendsI [OF assms(1-4)] assms(5-7) by auto

lemma tight_out_sends:
  assumes "sends cl bs res" "zsStruct (snd res) = zsStruct cl" "tightAfterBufSize (snd res) = tightAfterBufSize cl"
    and "tight_sent env cl got" "P bs got"
  shows "tight_out env cl P res"
proof (cases "fst res")
  case True
  moreover have "tight_sent env (snd res) got" using assms(2,4) by (simp add: tight_sent_def)
  ultimately show ?thesis using assms(1,3,5) unfolding tight_out_def by auto
next
  case False
  then show ?thesis using assms(1) by (auto simp: tight_out_def sends_def gone_def)
qed

lemma put_tight_simps [simp]:
  "settings (put_tight bs cl) = settings cl" "stream (put_tight bs cl) = stream cl @ bs" "sock (put_tight bs cl) = sock cl"
  "ublen (put_tight bs cl) = ublen cl + length bs" "zsStruct (put_tight bs cl) = zsStruct cl"
  "tightAfterBufSize (put_tight bs cl) = tightAfterBufSize cl" "format (put_tight bs cl) = format cl"
  by (simp_all add: put_tight_def settings_def stream_def ublen_def put_buf_def)

lemma put_buf_simps [simp]:
  "zsStruct (put_buf bs cl) = zsStruct cl" "tightAfterBufSize (put_buf bs cl) = tightAfterBufSize cl"
  "zsStruct (count_rect e n cl) = zsStruct cl" "tightAfterBufSize (count_rect e n cl) = tightAfterBufSize cl"
  by (simp_all add: put_buf_def count_rect_def)

lemma update_simps [simp]:
  "settings (cl\<lparr>zsStruct := z\<rparr>) = settings cl" "stream (cl\<lparr>zsStruct := z\<rparr>) = stream cl" "ublen (cl\<lparr>zsStruct := z\<rparr>) = ublen cl"
  "settings (cl\<lparr>tightAfterBufSize := n\<rparr>) = settings cl" "stream (cl\<lparr>tightAfterBufSize := n\<rparr>) = stream cl" "ublen (cl\<lparr>tightAfterBufSize := n\<rparr>) = ublen cl"
  by (simp_all add: settings_def stream_def ublen_def)

lemma room_simps [simp]:
  "zsStruct (snd (rfbSendUpdateBuf cl)) = zsStruct cl" "tightAfterBufSize (snd (rfbSendUpdateBuf cl)) = tightAfterBufSize cl"
  "zsStruct (snd (make_room n cl)) = zsStruct cl" "tightAfterBufSize (snd (make_room n cl)) = tightAfterBufSize cl"
  using quiet_fields(6,7) [OF quiet_SendUpdateBuf] quiet_fields(6,7) [OF quiet_make_room] by simp_all

text \<open>The part of an encoder that starts with \<open>make_room\<close>.\<close>

lemma tight_out_room:
  assumes "ublen cl \<le> UPDATE_BUF_SIZE" "n \<le> UPDATE_BUF_SIZE" "tight_sent env cl got"
    and "\<And>c. settings c = settings cl \<Longrightarrow> ublen c + n \<le> UPDATE_BUF_SIZE \<Longrightarrow> tight_sent env c got \<Longrightarrow>
      tightAfterBufSize c = tightAfterBufSize cl \<Longrightarrow> tight_out env c Q (f c)"
  shows "tight_out env cl Q (case make_room n cl of (False, c) \<Rightarrow> (False, c) | (True, c) \<Rightarrow> f c)"
proof (rule tight_out_seq [where P = "\<lambda>bs got'. bs = [] \<and> got' = got"])
  show "tight_out env cl (\<lambda>bs got'. bs = [] \<and> got' = got) (make_room n cl)"
    by (rule tight_out_sends [OF sends_make_room [OF assms(1)] _ _ assms(3)]) simp_all
next
  fix c and bs :: "u8 list" and got'
  assume a: "settings c = settings cl" "ublen c \<le> UPDATE_BUF_SIZE" "tight_sent env c got'" "bs = [] \<and> got' = got" "make_room n cl = (True, c)"
  have "tightAfterBufSize c = tightAfterBufSize cl" using room_simps(4) [of n cl] a(5) by simp
  then show "tight_out env c (\<lambda>bs'. Q (bs @ bs')) (f c)"
    using assms(4) [OF a(1) make_room_fits [OF a(5) assms(2)]] a(3,4) by simp
qed

section \<open>A compressed block\<close>

definition read_compact :: "u8 list \<Rightarrow> nat \<times> u8 list" where
  "read_compact bs =
    (let b0 = unat (bs ! 0); b1 = unat (bs ! 1); b2 = unat (bs ! 2) in
     if b0 < 128 then (b0, drop 1 bs)
     else if b1 < 128 then (b0 - 128 + b1 * 128, drop 2 bs)
     else (b0 - 128 + (b1 - 128) * 128 + b2 * 16384, drop 3 bs))"

lemma low_bits: "unat (of_nat n AND 0x7F :: u8) = n mod 128" "unat (of_nat n AND 0xFF :: u8) = n mod 256"
proof -
  have "unat (take_bit k (of_nat n :: u8)) = n mod 2 ^ k" if "k \<le> 8" for k
    using that by (simp add: unsigned_take_bit_eq unsigned_of_nat take_bit_take_bit min_def take_bit_eq_mod [symmetric])
  moreover have "(0x7F :: u8) = mask 7" "(0xFF :: u8) = mask 8" by (simp_all add: mask_eq_exp_minus_1)
  ultimately show "unat (of_nat n AND 0x7F :: u8) = n mod 128" "unat (of_nat n AND 0xFF :: u8) = n mod 256"
    by (simp_all only: take_bit_eq_mask [symmetric]) (simp_all)
qed

lemma high_bit: "unat x < 128 \<Longrightarrow> unat (x OR 0x80 :: u8) = unat x + 128"
proof -
  assume "unat x < 128"
  define j where "j = unat x"
  have j: "x = word_of_int (int j)" "j < 128" using \<open>unat x < 128\<close> by (simp_all add: j_def)
  show ?thesis using index_byte_128 [OF j(2)] index_byte [OF j(2)] by (simp only: j(1))
qed

lemma read_compact_2: "unat x \<ge> 128 \<Longrightarrow> unat y < 128 \<Longrightarrow> read_compact (x # y # r) = (unat x - 128 + unat y * 128, r)"
  by (simp add: read_compact_def Let_def)

lemma read_compact_3:
  "unat x \<ge> 128 \<Longrightarrow> unat y \<ge> 128 \<Longrightarrow> read_compact (x # y # z # r) = (unat x - 128 + (unat y - 128) * 128 + unat z * 16384, r)"
  by (simp add: read_compact_def Let_def)

lemma read_compact_length:
  assumes "n < 2 ^ 22" shows "read_compact (compact_length n @ r) = (n, r)"
proof -
  have o: "unat (of_nat m AND 0x7F OR 0x80 :: u8) = m mod 128 + 128" for m
    using high_bit [of "of_nat m AND 0x7F"] by (simp add: low_bits)
  consider "n \<le> 0x7F" | "0x7F < n" "n \<le> 0x3FFF" | "0x3FFF < n" by linarith
  then show ?thesis
  proof cases
    case 1
    then show ?thesis by (simp add: read_compact_def compact_length_def low_bits)
  next
    case 2
    then have d: "n div 128 < 128" and e: "n mod 128 + n div 128 * 128 = n" by simp_all
    have l: "compact_length n = [of_nat n AND 0x7F OR 0x80, of_nat (n div 128) AND 0x7F]" using 2 by (simp add: compact_length_def)
    have b1: "unat (of_nat (n div 128) AND 0x7F :: u8) = n div 128" unfolding low_bits using d by (rule mod_less)
    have "read_compact (compact_length n @ r) = (n mod 128 + 128 - 128 + n div 128 * 128, r)"
      unfolding l append_Cons append_Nil by (subst read_compact_2) (simp_all only: o b1 d le_add2)
    then show ?thesis using e by simp
  next
    case 3
    have l: "compact_length n = [of_nat n AND 0x7F OR 0x80, of_nat (n div 128) AND 0x7F OR 0x80, of_nat (n div 16384) AND 0xFF]"
      using 3 by (simp add: compact_length_def)
    have "n div 16384 < 256" using assms by (simp add: less_mult_imp_div_less)
    then have b2: "unat (of_nat (n div 16384) AND 0xFF :: u8) = n div 16384" unfolding low_bits by (rule mod_less)
    have e: "n mod 128 + n div 128 mod 128 * 128 + n div 16384 * 16384 = n"
      using div_mult2_eq [of n 128 128] mod_mult2_eq [of n 128 128] mult_div_mod_eq [of 16384 n] by simp
    have "read_compact (compact_length n @ r) = (n mod 128 + 128 - 128 + (n div 128 mod 128 + 128 - 128) * 128 + n div 16384 * 16384, r)"
      unfolding l append_Cons append_Nil by (subst read_compact_3) (simp_all only: o b2 le_add2)
    then show ?thesis using e by simp
  qed
qed

type_synonym viewer = "(nat \<Rightarrow> u8 list) \<times> u8 list"

text \<open>\<open>n\<close> bytes of a conversion: as they are, or the next of those that a stream inflates to.\<close>

definition read_block :: "(u8 list \<Rightarrow> u8 list) \<Rightarrow> nat \<Rightarrow> nat \<Rightarrow> viewer \<Rightarrow> u8 list \<times> viewer" where
  "read_block inflate sid n = (\<lambda>(got, bs).
    if n < 12 then (take n bs, (got, drop n bs))
    else let (k, bs) = read_compact bs; z = take k bs
         in (drop (length (inflate (got sid))) (inflate (got sid @ z)), (got(sid := got sid @ z), drop k bs)))"

lemma send_portions_sends:
  "ublen cl \<le> UPDATE_BUF_SIZE \<Longrightarrow> sends cl bs (send_portions bs cl) \<and> zsStruct (snd (send_portions bs cl)) = zsStruct cl \<and>
    tightAfterBufSize (snd (send_portions bs cl)) = tightAfterBufSize cl"
proof (induction bs cl rule: send_portions.induct)
  case (1 bs cl)
  show ?case
  proof (cases "bs = []")
    case True
    then show ?thesis using 1(2) by (subst (1 2 3) send_portions.simps) (simp add: sendsI)
  next
    case False
    define n where "n = min UPDATE_BUF_SIZE (length bs)"
    define r where "r = (if ublen cl + n > UPDATE_BUF_SIZE then rfbSendUpdateBuf cl else (True, cl))"
    have e: "send_portions bs cl = (case r of (False, cl) \<Rightarrow> (False, cl) | (True, cl) \<Rightarrow> send_portions (drop n bs) (put_buf (take n bs) cl))"
      unfolding r_def n_def by (subst send_portions.simps) (simp only: Let_def False if_False)
    have s: "sends cl [] r" using sends_SendUpdateBuf 1(2) by (auto simp: r_def intro: sendsI)
    have z: "zsStruct (snd r) = zsStruct cl" "tightAfterBufSize (snd r) = tightAfterBufSize cl" by (simp_all add: r_def)
    have n: "n \<le> UPDATE_BUF_SIZE" "length (take n bs) = n" by (simp_all add: n_def)
    obtain ok c where r: "r = (ok, c)" by fastforce
    show ?thesis
    proof (cases ok)
      case False
      then have "sends cl ([] @ bs) (False, c)" using s r by (intro sends_fail_more) simp
      then have "sends cl ([] @ bs) r" using False r by simp
      then show ?thesis unfolding e r using False z r by simp
    next
      case True
      have "ublen c + n \<le> UPDATE_BUF_SIZE"
        using r True n by (auto simp: r_def ublen_def dest: SendUpdateBuf_empty split: if_splits)
      then have fits: "ublen (put_buf (take n bs) c) \<le> UPDATE_BUF_SIZE" using n by simp
      have IH: "sends (put_buf (take n bs) c) (drop n bs) (send_portions (drop n bs) (put_buf (take n bs) c)) \<and>
          zsStruct (snd (send_portions (drop n bs) (put_buf (take n bs) c))) = zsStruct c \<and>
          tightAfterBufSize (snd (send_portions (drop n bs) (put_buf (take n bs) c))) = tightAfterBufSize c"
        using 1(1) [OF False n_def, folded r_def, OF r [symmetric] eqTrueI [OF True]] fits by simp
      have "sends cl (take n bs @ drop n bs) (send_portions (drop n bs) (put_buf (take n bs) c))"
        by (rule sends_more [OF IH [THEN conjunct1]]) (use s r True in \<open>auto simp: sends_def\<close>)
      then show ?thesis unfolding e r using True IH z r by simp
    qed
  qed
qed

lemma CompressData_out:
  assumes "tight_pair env inflate" "tight_sent env cl got" "ublen cl + 12 \<le> UPDATE_BUF_SIZE"
    and "length data + (length data + 99) div 100 + 12 \<le> tightAfterBufSize cl" "tightAfterBufSize cl \<le> 2 ^ 22"
  shows "tight_out env cl (\<lambda>bs got'. \<forall>rest. read_block inflate sid (length data) (got, bs @ rest) = (data, (got', rest)))
    (CompressData env sid data level cl)"
proof (cases "length data < TIGHT_MIN_TO_COMPRESS")
  case True
  then have d: "length data < 12" by (simp add: TIGHT_MIN_TO_COMPRESS_def)
  have "CompressData env sid data level cl = (True, put_tight data cl)" using True by (simp add: CompressData_def)
  moreover have "tight_sent env (put_tight data cl) got" using assms(2) by (simp add: tight_sent_def)
  ultimately show ?thesis using d assms(3) by (auto simp: read_block_def intro!: tight_out_end [where bs = data])
next
  case False
  then have d: "\<not> length data < 12" by (simp add: TIGHT_MIN_TO_COMPRESS_def)
  obtain zsLevel blocks where z: "(case zsStruct cl sid of None \<Rightarrow> (level, []) | Some z \<Rightarrow> z) = (zsLevel, blocks)" by fastforce
  define c1 where "c1 = cl\<lparr>zsStruct := (zsStruct cl)(sid \<mapsto> (zsLevel, blocks))\<rparr>"
  define c2 where "c2 = cl\<lparr>zsStruct := (zsStruct cl)(sid \<mapsto> (level, blocks @ [(level, data)]))\<rparr>"
  let ?init = "zsStruct cl sid = None \<and> \<not> deflateInit2 env level"
  have e: "CompressData env sid data level cl =
    (if ?init then (False, cl) else if level \<noteq> zsLevel \<and> \<not> deflateParams env sid blocks level then (False, c1)
     else case deflateTight env sid blocks level data of None \<Rightarrow> (False, c2)
       | Some out \<Rightarrow> if length out \<ge> tightAfterBufSize cl then (False, c2) else SendCompressedData out c2)"
  proof -
    have f: "c1\<lparr>zsStruct := (zsStruct c1)(sid \<mapsto> v)\<rparr> = cl\<lparr>zsStruct := (zsStruct cl)(sid \<mapsto> v)\<rparr>" for v by (simp add: c1_def)
    have t: "tightAfterBufSize c2 = tightAfterBufSize cl" by (simp add: c2_def)
    show ?thesis
      unfolding CompressData_def if_not_P [OF False] z Let_def prod.case c1_def [symmetric] f c2_def [symmetric] t ..
  qed
  have stop: "tight_fails env \<Longrightarrow> tight_out env cl P (False, c)" for P c by (simp add: tight_out_def)
  show ?thesis
  proof (cases "?init \<or> level \<noteq> zsLevel \<and> \<not> deflateParams env sid blocks level")
    case True
    then have "tight_fails env" by (auto simp: tight_fails_def)
    then show ?thesis unfolding e using True stop by (cases ?init) auto
  next
    case False
    then have init: "\<not> ?init" and params: "\<not> (level \<noteq> zsLevel \<and> \<not> deflateParams env sid blocks level)" by blast+
    show ?thesis
    proof (cases "deflateTight env sid blocks level data")
      case None
      then have "tight_fails env" by (auto simp: tight_fails_def)
      then show ?thesis unfolding e if_not_P [OF init] if_not_P [OF params] None option.case by (rule stop)
    next
      case (Some out)
      show ?thesis
      proof (cases "length out \<ge> tightAfterBufSize cl")
        case True
        then have "length data + (length data + 99) div 100 + 12 \<le> length out" using assms(4) by simp
        then have "tight_fails env" unfolding tight_fails_def using Some by blast
        then show ?thesis unfolding e if_not_P [OF init] if_not_P [OF params] Some option.case if_P [OF True] by (rule stop)
      next
        case len: False
        have e': "CompressData env sid data level cl = SendCompressedData out c2"
          unfolding e if_not_P [OF init] if_not_P [OF params] Some option.case if_not_P [OF len] ..
        define got' where "got' = got(sid := got sid @ out)"
        have old: "touts env sid [] blocks = Some (got sid)"
          using assms(2) [unfolded tight_sent_def, rule_format, of sid] z by (auto split: option.splits)
        have new: "touts env sid [] (blocks @ [(level, data)]) = Some (got sid @ out)" using touts_snoc [OF old] Some by simp
        have sent: "tight_sent env c got'" if "zsStruct c = zsStruct c2" for c
          unfolding tight_sent_def
        proof
          fix k
          have "case zsStruct cl k of None \<Rightarrow> got k = [] | Some z \<Rightarrow> touts env k [] (snd z) = Some (got k)"
            using assms(2) by (simp add: tight_sent_def)
          then show "case zsStruct c k of None \<Rightarrow> got' k = [] | Some z \<Rightarrow> touts env k [] (snd z) = Some (got' k)"
            using new that by (cases "k = sid") (auto simp: got'_def c2_def split: option.splits)
        qed
        have inf: "inflate (got sid @ out) = inflate (got sid) @ data" using assms(1) old new unfolding tight_pair_def by fastforce
        have k: "length out < 2 ^ 22" using len assms(5) by simp
        have rd: "read_block inflate sid (length data) (got, (compact_length (length out) @ out) @ rest) = (data, (got', rest))" for rest
          using d by (simp add: read_block_def read_compact_length [OF k] got'_def inf)
        let ?c = "put_tight (compact_length (length out)) c2"
        have u: "ublen ?c \<le> UPDATE_BUF_SIZE" using assms(3) by (simp add: c2_def compact_length_def Let_def)
        note p = send_portions_sends [OF u, of out]
        obtain ok c where r: "send_portions out ?c = (ok, c)" by fastforce
        show ?thesis
        proof (cases ok)
          case False
          then have "SendCompressedData out c2 = (False, c)" by (simp add: SendCompressedData_def r)
          moreover have "gone c" using p r False by (auto simp: sends_def gone_def)
          ultimately show ?thesis by (simp add: e' tight_out_def)
        next
          case True
          define c' where "c' = c\<lparr>rfbBytesSent := (rfbBytesSent c)(rfbEncodingTight := rfbBytesSent c rfbEncodingTight + length out)\<rparr>"
          have s: "SendCompressedData out c2 = (True, c')" using True by (simp add: SendCompressedData_def r c'_def)
          have f: "settings c' = settings c" "stream c' = stream c" "ublen c' = ublen c" "sock c' = sock c" "zsStruct c' = zsStruct c"
            "tightAfterBufSize c' = tightAfterBufSize c" by (simp_all add: c'_def settings_def stream_def ublen_def)
          have c: "settings c = settings cl" "stream c = stream cl @ compact_length (length out) @ out" "ublen c \<le> UPDATE_BUF_SIZE" "sock c = sock cl"
            "zsStruct c = zsStruct c2" "tightAfterBufSize c = tightAfterBufSize cl"
            using p unfolding r using True by (simp_all add: sends_def c2_def)
          show ?thesis unfolding e' s
            by (rule tight_out_end [where bs = "compact_length (length out) @ out" and got = got'])
              (use f c sent [of c'] rd in simp_all)
        qed
      qed
    qed
  qed
qed

end
