(* ===== verification/Tightpix.thy ===== *)
theory Tightpix
  imports Tightsend
begin

text \<open>
  The subencodings of Tight, each sent and read: solid, two colours, palette, full colour and gradient.
\<close>

section \<open>Pixels as they are sent\<close>

text \<open>
  The bytes of a pixel: three of its components for a viewer with eight bits of each of the three, else as
  in the other encodings. The first has to have 32 bits.
\<close>

definition tbytes :: "server \<Rightarrow> rfbPixelFormat \<Rightarrow> u32 \<Rightarrow> u8 list" where
  "tbytes srv fmt p =
    (if usePixelFormat24 fmt then map (\<lambda>s. ucast (drop_bit s p)) (pack_shifts srv fmt)
     else host_bytes (littleEndian srv) (bitsPerPixel fmt) p)"

definition tlen :: "rfbPixelFormat \<Rightarrow> nat" where
  "tlen fmt = (if usePixelFormat24 fmt then 3 else bitsPerPixel fmt div 8)"

definition tight_format :: "rfbPixelFormat \<Rightarrow> bool" where
  "tight_format fmt \<longleftrightarrow> valid_bpp (bitsPerPixel fmt) \<and> (usePixelFormat24 fmt \<longrightarrow> bitsPerPixel fmt = 32)"

lemma length_tbytes [simp]: "length (tbytes srv fmt p) = tlen fmt"
  by (simp add: tbytes_def tlen_def pack_shifts_def Let_def)

lemma tbytes_24: "usePixelFormat24 fmt \<Longrightarrow> tbytes srv fmt = (\<lambda>p. map (\<lambda>s. ucast (drop_bit s p)) (pack_shifts srv fmt))"
  by (intro ext) (simp add: tbytes_def)

lemma le_bytes_value: "foldr (\<lambda>b v. push_bit 8 v OR ucast b) (le_bytes 4 p) 0 = (p :: u32)"
proof -
  have "le_bytes 4 p = [ucast p, ucast (drop_bit 8 p), ucast (drop_bit 16 p), ucast (drop_bit 24 p)]"
    by (simp add: le_bytes_def upt_rec)
  then have "foldr (\<lambda>b v. push_bit 8 v OR ucast b) (le_bytes 4 p) 0 =
    push_bit 8 (push_bit 8 (push_bit 8 (ucast (ucast (drop_bit 24 p) :: u8) :: u32) OR ucast (ucast (drop_bit 16 p) :: u8)) OR
      ucast (ucast (drop_bit 8 p) :: u8)) OR ucast (ucast p :: u8)" by simp
  also have "\<dots> = p"
  proof (rule bit_word_eqI)
    fix n assume "n < LENGTH(32)"
    then have n: "n < 32" by simp
    then consider "n < 8" | "8 \<le> n" "n < 16" | "16 \<le> n" "n < 24" | "24 \<le> n" by linarith
    then show "bit (push_bit 8 (push_bit 8 (push_bit 8 (ucast (ucast (drop_bit 24 p) :: u8) :: u32) OR ucast (ucast (drop_bit 16 p) :: u8)) OR
      ucast (ucast (drop_bit 8 p) :: u8)) OR ucast (ucast p :: u8)) n = bit p n"
      using n by cases (auto simp: bit_or_iff bit_push_bit_iff bit_ucast_iff bit_drop_bit_eq)
  qed
  finally show ?thesis .
qed

lemma pixel_value_host_bytes: "pixel_value le (host_bytes le 32 p) = p"
  by (simp add: pixel_value_def host_bytes_def le_bytes_value)

text \<open>
  The three bytes are the components of the pixel as the client numbers its bits, if each component is a byte
  of it and the byte order of the server's format is that of the machine.
\<close>

definition byte_shift :: "nat \<Rightarrow> bool" where
  "byte_shift s \<longleftrightarrow> s = 0 \<or> s = 8 \<or> s = 16 \<or> s = 24"

lemma byte_of_value:
  assumes "length bs = 4" "i < 4"
  shows "ucast (drop_bit (8 * i) (pixel_value True bs)) = bs ! i"
proof -
  have "le_bytes 4 (pixel_value True bs) = bs" using le_bytes_foldr [of bs] assms(1) by (simp add: pixel_value_def)
  moreover have "le_bytes 4 (pixel_value True bs) ! i = ucast (drop_bit (8 * i) (pixel_value True bs))"
    using assms(2) by (simp add: le_bytes_def)
  ultimately show ?thesis by simp
qed

lemma byte_of_reversed:
  assumes "length bs = 4" "i < 4"
  shows "ucast (drop_bit (8 * i) (pixel_value False bs)) = bs ! (3 - i)"
proof -
  have "pixel_value False bs = pixel_value True (rev bs)" by (simp add: pixel_value_def)
  then show ?thesis using byte_of_value [of "rev bs" i] assms by (simp add: rev_nth)
qed

lemma tbytes_components:
  assumes "usePixelFormat24 fmt" "length bs = 4" "\<forall>s \<in> set (format_shifts fmt). byte_shift s" "littleEndian srv = (\<not> bigEndian (rfbServerFormat srv))"
  shows "tbytes srv fmt (pixel_value (littleEndian srv) bs) = map (\<lambda>s. ucast (drop_bit s (pixel_value (\<not> bigEndian fmt) bs))) (format_shifts fmt)"
proof -
  have b: "\<exists>i < 4. s = 8 * i" if "byte_shift s" for s
  proof -
    have "s = 8 * (s div 8)" "s div 8 < 4" using that by (auto simp: byte_shift_def)
    then show ?thesis by blast
  qed
  have v: "(ucast (drop_bit s (pixel_value le bs)) :: u8) = ucast (drop_bit (24 - s) (pixel_value (\<not> le) bs)) \<and> 24 - s = nat ((24 - int s) mod 32) \<and> s mod 32 = s"
    if s: "byte_shift s" for s le
  proof -
    obtain i where i: "i < 4" "s = 8 * i" using b [OF s] by blast
    have m: "24 - 8 * i = 8 * (3 - i)" "3 - i < 4" "3 - (3 - i) = i" using i by simp_all
    have "(ucast (drop_bit (8 * i) (pixel_value le bs)) :: u8) = bs ! (if le then i else 3 - i)"
      using byte_of_value [OF assms(2) i(1)] byte_of_reversed [OF assms(2) i(1)] by (cases le) simp_all
    moreover have "(ucast (drop_bit (8 * (3 - i)) (pixel_value (\<not> le) bs)) :: u8) = bs ! (if le then i else 3 - i)"
      using byte_of_value [OF assms(2) m(2)] byte_of_reversed [OF assms(2) m(2), unfolded m(3)] by (cases le) (simp_all only: not_True_eq_False not_False_eq_True if_True if_False)
    ultimately have "(ucast (drop_bit s (pixel_value le bs)) :: u8) = ucast (drop_bit (24 - s) (pixel_value (\<not> le) bs))"
      by (simp only: i(2) m(1))
    then show ?thesis using s by (auto simp: byte_shift_def)
  qed
  have sh: "byte_shift (redShift fmt)" "byte_shift (greenShift fmt)" "byte_shift (blueShift fmt)" using assms(3) by (simp_all add: format_shifts_def)
  show ?thesis
  proof (cases "bigEndian (rfbServerFormat srv) = bigEndian fmt")
    case True
    then show ?thesis using assms(4) sh v by (simp add: tbytes_24 [OF assms(1)] pack_shifts_def format_shifts_def)
  next
    case False
    then have "(\<not> bigEndian fmt) = (\<not> littleEndian srv)" using assms(4) by auto
    moreover have "pack_shifts srv fmt = map (\<lambda>s. 24 - s) (format_shifts fmt)"
      using False sh v by (simp add: pack_shifts_def format_shifts_def)
    ultimately show ?thesis using sh v [where le = "\<not> littleEndian srv"] by (simp add: tbytes_24 [OF assms(1)] format_shifts_def)
  qed
qed

text \<open>A buffer that holds pixels.\<close>

definition holds_pixels :: "server \<Rightarrow> rfbPixelFormat \<Rightarrow> u8 list \<Rightarrow> u32 list \<Rightarrow> bool" where
  "holds_pixels srv fmt buf ps \<longleftrightarrow> buf = concat (map (host_bytes (littleEndian srv) (bitsPerPixel fmt)) ps) \<and>
     before_pixels srv (bitsPerPixel fmt) buf = ps"

lemma holds_before: "holds_pixels srv fmt buf ps \<Longrightarrow> before_pixels srv (bitsPerPixel fmt) buf = ps"
  unfolding holds_pixels_def by blast

lemma length_pixels_buf: "length (concat (map (host_bytes le bpp) ps)) = length ps * (bpp div 8)"
  by (simp add: length_concat_map_const [where k = "bpp div 8"] mult.commute)

lemma load_packed:
  assumes "buf = concat (map (host_bytes le 32) ps)"
  shows "map (\<lambda>i. load_pixel le 32 (\<lambda>a. if a < length buf then buf ! a else stale a) (i * 4)) [0..<length ps] = ps"
proof -
  have len: "length buf = length ps * (BPP Pixel32 div 8)" by (simp add: assms length_pixels_buf BPP_def)
  have "load_pixel le 32 (\<lambda>a. if a < length buf then buf ! a else stale a) (i * 4) = load_pixel le 32 (\<lambda>a. buf ! a) (i * 4)"
    if "i < length ps" for i
  proof (rule load_pixel_cong)
    fix k :: nat assume "k < 32 div 8"
    then have "i * 4 + k < length buf" using len that by (simp add: BPP_def)
    then show "(if i * 4 + k < length buf then buf ! (i * 4 + k) else stale (i * 4 + k)) = buf ! (i * 4 + k)" by simp
  qed
  then have "map (\<lambda>i. load_pixel le 32 (\<lambda>a. if a < length buf then buf ! a else stale a) (i * 4)) [0..<length ps] =
    map (\<lambda>i. load_pixel le 32 (\<lambda>a. buf ! a) (i * 4)) [0..<length ps]" by (intro map_cong refl) simp
  also have "\<dots> = map (pixel_value le) (split_pixels 4 buf)" using load_pixels_split [OF len, of le] by (simp add: BPP_def)
  also have "split_pixels 4 buf = map (host_bytes le 32) ps" unfolding assms by (rule split_pixels_concat) auto
  finally show ?thesis by (simp add: pixel_value_host_bytes comp_def)
qed

lemma Pack24_bytes:
  assumes "buf = concat (map (host_bytes (littleEndian srv) 32) ps)" "usePixelFormat24 fmt"
  shows "Pack24 srv fmt stale buf (length ps) = concat (map (tbytes srv fmt) ps)"
proof -
  have "concat (map (tbytes srv fmt) ps) =
    concat (map (\<lambda>p. map (\<lambda>s. ucast (drop_bit s p)) (pack_shifts srv fmt))
      (map (\<lambda>i. load_pixel (littleEndian srv) 32 (\<lambda>a. if a < length buf then buf ! a else stale a) (i * 4)) [0..<length ps]))"
    unfolding load_packed [OF assms(1)] tbytes_24 [OF assms(2)] ..
  then show ?thesis by (simp add: Pack24_def Let_def comp_def)
qed

lemma Pack24_first:
  assumes "buf = concat (map (host_bytes (littleEndian srv) 32) (p # ps))" "usePixelFormat24 fmt"
  shows "Pack24 srv fmt stale buf 1 = tbytes srv fmt p"
proof -
  have l: "load_pixel (littleEndian srv) 32 (\<lambda>a. if a < length buf then buf ! a else stale a) (0 * 4) = p"
    using load_packed [OF assms(1), of stale] by (simp add: upt_conv_Cons del: upt_Suc)
  have e: "[0..<1] = [0::nat]" by simp
  show ?thesis unfolding Pack24_def e list.map concat.simps Let_def l using assms(2) by (simp add: tbytes_def)
qed

lemma sent_pixels_bytes:
  assumes "tight_format fmt"
  shows "sent_pixels env srv fmt ps = concat (map (tbytes srv fmt) ps)"
proof (cases "usePixelFormat24 fmt")
  case True
  then have "bitsPerPixel fmt = 32" using assms by (simp add: tight_format_def)
  then show ?thesis using Pack24_bytes [OF refl True] True by (simp add: sent_pixels_def)
next
  case False
  then have "tbytes srv fmt = host_bytes (littleEndian srv) (bitsPerPixel fmt)" by (intro ext) (simp add: tbytes_def)
  then show ?thesis using False by (simp add: sent_pixels_def Let_def)
qed

text \<open>The buffer that the translation fills.\<close>

lemma source_holds_pixels:
  assumes "drawable srv cl"
  shows "holds_pixels srv (format cl) (pixels_at srv cl (fbptr srv cl x y) w h)
    (map (pixel_value (littleEndian srv)) (source_pixels srv cl x y w h))"
proof -
  let ?buf = "pixels_at srv cl (fbptr srv cl x y) w h" and ?le = "littleEndian srv" and ?bpp = "bitsPerPixel (format cl)"
  let ?ps = "source_pixels srv cl x y w h"
  have bpp: "?bpp = 8 \<or> ?bpp = 16 \<or> ?bpp = 32" using assms by (simp add: drawable_def valid_bpp_def)
  have h: "host_bytes ?le ?bpp (pixel_value ?le p) = p" if "p \<in> set ?ps" for p
  proof -
    have "length p = ?bpp div 8" using source_pixels_length [OF assms that] by (simp add: bytesPerPixel_def)
    then show ?thesis using host_bytes_pixel_value [of p ?le] bpp by auto
  qed
  then have "map (host_bytes ?le ?bpp) (map (pixel_value ?le) ?ps) = ?ps" by (simp add: map_idI)
  moreover have "?buf = concat ?ps" by (simp add: translate_rect_pixels [OF assms] concat_source_pixels)
  moreover have "before_pixels srv ?bpp ?buf = map (pixel_value ?le) ?ps"
  proof -
    have len: "length ?buf = w * h * (?bpp div 8)"
      using length_source_rect [OF assms, of x y w h] by (simp add: translate_rect_pixels [OF assms] bytesPerPixel_def)
    obtain c where c: "BPP c = ?bpp" using bpp by (auto simp: BPP_def intro: that [of Pixel8] that [of Pixel16] that [of Pixel32])
    have "length ?buf div (?bpp div 8) = w * h" using len bpp by auto
    then show ?thesis using load_pixels_split [of ?buf "w * h" c ?le] len c source_pixels_split [OF assms, of x y w h]
      by (simp add: before_pixels_def bytesPerPixel_def)
  qed
  ultimately show ?thesis by (simp add: holds_pixels_def)
qed

section \<open>The viewer\<close>

text \<open>
  The first byte says what follows: a colour, pixels, a palette with indices, or the differences of the
  gradient filter. \<open>k\<close> is the number of bytes of a pixel.
\<close>

definition decode_tight :: "(u8 list \<Rightarrow> u8 list) \<Rightarrow> nat \<Rightarrow> nat \<Rightarrow> nat \<Rightarrow> viewer \<Rightarrow> u8 list list \<times> viewer" where
  "decode_tight inflate k w h = (\<lambda>(got, bs).
    let c = unat (bs ! 0) div 16; bs = drop 1 bs in
    if c = 8 then (replicate (w * h) (take k bs), (got, drop k bs))
    else if c < 4 then
      let (data, v) = read_block inflate c (w * h * k) (got, bs) in (fst (read_pixels k (w * h) data), v)
    else if unat (bs ! 0) = 1 then
      let n = unat (bs ! 1) + 1; (pal, bs) = read_pixels k n (drop 2 bs) in
      if n = 2 then let (data, v) = read_block inflate (c - 4) ((w + 7) div 8 * h) (got, bs) in (fst (packed_rows 1 pal h w data), v)
      else let (data, v) = read_block inflate (c - 4) (w * h) (got, bs) in (map (\<lambda>b. pal ! unat b) data, v)
    else
      let (data, v) = read_block inflate (c - 4) (w * h * 3) (got, drop 1 bs)
      in (map (map word_of_int) (restore_rows [255, 255, 255] (zero_row w) w (map (map uint) (fst (read_pixels 3 (w * h) data))) h), v))"

definition tight_reads :: "(u8 list \<Rightarrow> u8 list) \<Rightarrow> nat \<Rightarrow> nat \<Rightarrow> nat \<Rightarrow> u8 list list \<Rightarrow> (nat \<Rightarrow> u8 list) \<Rightarrow> u8 list \<Rightarrow> (nat \<Rightarrow> u8 list) \<Rightarrow> bool" where
  "tight_reads inflate k w h px got bs got' \<longleftrightarrow> (\<forall>rest. decode_tight inflate k w h (got, bs @ rest) = (px, (got', rest)))"

lemma unat_control: "unat (control n) div 16 = n mod 16"
proof -
  have "unat (control n) = n * 16 mod 256" unfolding control_def unsigned_of_nat take_bit_eq_mod by simp
  also have "\<dots> = n mod 16 * 16" by (simp add: mult_mod_left)
  finally show ?thesis by simp
qed

text \<open>What each form reads.\<close>

lemma reads_solid: "length p = k \<Longrightarrow> tight_reads inflate k w h (replicate (w * h) p) got (control 8 # p) got"
  unfolding tight_reads_def decode_tight_def Let_def prod.case append_Cons nth_Cons_0 unat_control by simp

lemma reads_full:
  assumes "\<forall>rest. read_block inflate sid (length data) (got, bs @ rest) = (data, (got', rest))"
    and "sid < 4" "length data = w * h * k" "read_pixels k (w * h) data = (px, r)"
  shows "tight_reads inflate k w h px got ([control sid] @ bs) got'"
  unfolding tight_reads_def
proof
  fix rest
  have "read_block inflate sid (w * h * k) (got, bs @ rest) = (data, (got', rest))" using assms(1,3) by simp
  then show "decode_tight inflate k w h (got, ([control sid] @ bs) @ rest) = (px, got', rest)"
    using assms(2,4) unfolding decode_tight_def Let_def prod.case append_Cons append_Nil nth_Cons_0 unat_control by simp
qed

lemma decode_palette:
  assumes "sid < 4" "unat y + 1 = n" "read_pixels k n bs = (cols, r)"
  shows "decode_tight inflate k w h (got, control (sid + 4) # 1 # y # bs) =
    (if n = 2 then let (data, v) = read_block inflate sid ((w + 7) div 8 * h) (got, r) in (fst (packed_rows 1 cols h w data), v)
     else let (data, v) = read_block inflate sid (w * h) (got, r) in (map (\<lambda>b. cols ! unat b) data, v))"
proof -
  have c: "unat (control (sid + 4)) div 16 = sid + 4" using assms(1) by (simp add: unat_control)
  have d: "drop 1 (control (sid + 4) # 1 # y # bs) = 1 # y # bs" "(1 # y # bs) ! 1 = y" "drop 2 (1 # y # bs) = bs" by simp_all
  have n: "sid + 4 \<noteq> 8" "\<not> sid + 4 < 4" "sid + 4 - 4 = sid" "unat (1 :: u8) = 1" using assms(1) by simp_all
  show ?thesis
    unfolding decode_tight_def prod.case nth_Cons_0 c Let_def d n assms(2,3) using n(1,2) by (simp only: if_False if_True refl)
qed

lemma reads_mono:
  assumes "\<forall>rest. read_block inflate sid (length data) (got, bs @ rest) = (data, (got', rest))"
    and "sid < 4" "length data = (w + 7) div 8 * h" "\<And>t. read_pixels k 2 (pal @ t) = (cols, t)" "packed_rows 1 cols h w data = (px, r)"
  shows "tight_reads inflate k w h px got (([control (sid + 4), 1, 1] @ pal) @ bs) got'"
  unfolding tight_reads_def
proof
  fix rest
  have b: "read_block inflate sid ((w + 7) div 8 * h) (got, bs @ rest) = (data, (got', rest))" using assms(1,3) by simp
  have "unat (1 :: u8) + 1 = 2" by simp
  from decode_palette [OF assms(2) this assms(4)] b assms(5)
  show "decode_tight inflate k w h (got, (([control (sid + 4), 1, 1] @ pal) @ bs) @ rest) = (px, got', rest)" by simp
qed

lemma reads_indexed:
  assumes "\<forall>rest. read_block inflate sid (length data) (got, bs @ rest) = (data, (got', rest))"
    and "sid < 4" "length data = w * h" "2 < n" "n \<le> 256" "\<And>t. read_pixels k n (pal @ t) = (cols, t)" "map (\<lambda>b. cols ! unat b) data = px"
  shows "tight_reads inflate k w h px got (([control (sid + 4), 1, of_nat (n - 1)] @ pal) @ bs) got'"
  unfolding tight_reads_def
proof
  fix rest
  have b: "read_block inflate sid (w * h) (got, bs @ rest) = (data, (got', rest))" using assms(1,3) by simp
  obtain m where m: "n = Suc m" "m < 256" using assms(4,5) by (cases n) auto
  have n: "unat (of_nat (n - 1) :: u8) + 1 = n" unfolding m(1) diff_Suc_1 unsigned_of_nat using m(2) by (simp add: take_bit_nat_eq_self)
  from decode_palette [OF assms(2) n assms(6)] b assms(4,7)
  show "decode_tight inflate k w h (got, (([control (sid + 4), 1, of_nat (n - 1)] @ pal) @ bs) @ rest) = (px, got', rest)" by simp
qed

lemma reads_gradient:
  assumes "\<forall>rest. read_block inflate sid (length data) (got, bs @ rest) = (data, (got', rest))"
    and "sid < 4" "length data = w * h * 3"
    "map (map word_of_int) (restore_rows [255, 255, 255] (zero_row w) w (map (map uint) (fst (read_pixels 3 (w * h) data))) h) = px"
  shows "tight_reads inflate k w h px got ([control (sid + 4), 2] @ bs) got'"
  unfolding tight_reads_def
proof
  fix rest
  have "read_block inflate sid (w * h * 3) (got, bs @ rest) = (data, (got', rest))" using assms(1,3) by simp
  then show "decode_tight inflate k w h (got, ([control (sid + 4), 2] @ bs) @ rest) = (px, got', rest)"
    using assms(2,4) unfolding decode_tight_def Let_def prod.case append_Cons append_Nil nth_Cons_0 unat_control by simp
qed

section \<open>The forms are sent\<close>

lemma tight_out_mono: "tight_out env cl P res \<Longrightarrow> (\<And>bs got. P bs got \<Longrightarrow> Q bs got) \<Longrightarrow> tight_out env cl Q res"
  by (auto simp: tight_out_def split: if_splits)

definition room_for :: "nat \<Rightarrow> rfbClientRec \<Rightarrow> bool" where
  "room_for n cl \<longleftrightarrow> n + (n + 99) div 100 + 12 \<le> tightAfterBufSize cl \<and> tightAfterBufSize cl \<le> 2 ^ 22"

lemma room_for_less: "room_for n cl \<Longrightarrow> m \<le> n \<Longrightarrow> room_for m cl"
proof -
  assume a: "room_for n cl" "m \<le> n"
  then have "(m + 99) div 100 \<le> (n + 99) div 100" by (intro div_le_mono) simp
  then show ?thesis using a by (simp add: room_for_def)
qed

lemma room_for_same: "room_for n cl \<Longrightarrow> tightAfterBufSize c = tightAfterBufSize cl \<Longrightarrow> room_for n c"
  by (simp add: room_for_def)

lemma tight_out_block:
  assumes "tight_pair env inflate" "tight_sent env c got" "ublen c + length hh + 12 \<le> UPDATE_BUF_SIZE" "room_for (length data) c"
    and "\<And>bs got'. \<forall>rest. read_block inflate sid (length data) (got, bs @ rest) = (data, (got', rest)) \<Longrightarrow> Q (hh @ bs) got'"
  shows "tight_out env c Q (CompressData env sid data level (put_tight hh c))"
proof (rule tight_out_put)
  have s: "tight_sent env (put_tight hh c) got" using assms(2) by (simp add: tight_sent_def)
  have r: "length data + (length data + 99) div 100 + 12 \<le> tightAfterBufSize (put_tight hh c)" "tightAfterBufSize (put_tight hh c) \<le> 2 ^ 22"
    using assms(4) by (simp_all add: room_for_def)
  have u: "ublen (put_tight hh c) + 12 \<le> UPDATE_BUF_SIZE" using assms(3) by simp
  show "tight_out env (put_tight hh c) (\<lambda>bs. Q (hh @ bs)) (CompressData env sid data level (put_tight hh c))"
    by (rule tight_out_mono [OF CompressData_out [OF assms(1) s u r]]) (rule assms(5))
qed simp_all

lemma SendSolidRect_out:
  assumes "ublen cl \<le> UPDATE_BUF_SIZE" "tight_format (format cl)" "tight_sent env cl got"
    and "buf = concat (map (host_bytes (littleEndian srv) (bitsPerPixel (format cl))) (p # ps))"
  shows "tight_out env cl (tight_reads inflate (tlen (format cl)) w h (replicate (w * h) (tbytes srv (format cl) p)) got) (SendSolidRect env srv buf cl)"
proof -
  let ?fmt = "format cl"
  have b: "(if usePixelFormat24 ?fmt then Pack24 srv ?fmt (staleBytes env) buf 1 else take (bitsPerPixel ?fmt div 8) buf) = tbytes srv ?fmt p"
  proof (cases "usePixelFormat24 ?fmt")
    case True
    then have "bitsPerPixel ?fmt = 32" using assms(2) by (simp add: tight_format_def)
    then show ?thesis using Pack24_first [of buf srv p ps ?fmt "staleBytes env"] assms(4) True by simp
  next
    case False
    then show ?thesis using assms(4) by (simp add: tbytes_def)
  qed
  have l: "tlen ?fmt \<le> 4" using assms(2) by (auto simp: tlen_def tight_format_def valid_bpp_def)
  have e: "SendSolidRect env srv buf cl = (case make_room (1 + tlen ?fmt) cl of (False, c) \<Rightarrow> (False, c)
    | (True, c) \<Rightarrow> (True, put_tight (control rfbTightFill # tbytes srv ?fmt p) c))"
    unfolding SendSolidRect_def b Let_def length_tbytes ..
  have "tight_out env c (tight_reads inflate (tlen ?fmt) w h (replicate (w * h) (tbytes srv ?fmt p)) got)
     (True, put_tight (control rfbTightFill # tbytes srv ?fmt p) c)" if "ublen c + (1 + tlen ?fmt) \<le> UPDATE_BUF_SIZE" "tight_sent env c got" for c
    by (rule tight_out_end [where bs = "control rfbTightFill # tbytes srv ?fmt p" and got = got])
      (use that reads_solid [of "tbytes srv ?fmt p"] in \<open>simp_all add: tight_sent_def rfbTightFill_def\<close>)
  then show ?thesis unfolding e by (intro tight_out_room [OF assms(1) _ assms(3)]) (use l in \<open>auto simp: UPDATE_BUF_SIZE_def\<close>)
qed

text \<open>The setting of the other forms: a buffer with the pixels of the rectangle, and room for its data.\<close>

definition tight_setting :: "tight_env \<Rightarrow> (u8 list \<Rightarrow> u8 list) \<Rightarrow> server \<Rightarrow> rfbClientRec \<Rightarrow> (nat \<Rightarrow> u8 list) \<Rightarrow> u8 list \<Rightarrow> u32 list \<Rightarrow> nat \<Rightarrow> nat \<Rightarrow> bool" where
  "tight_setting env inflate srv cl got buf ps w h \<longleftrightarrow>
     tight_pair env inflate \<and> tight_sent env cl got \<and> ublen cl \<le> UPDATE_BUF_SIZE \<and> tight_format (format cl) \<and>
     holds_pixels srv (format cl) buf ps \<and> length ps = w * h \<and> room_for (w * h * (bitsPerPixel (format cl) div 8)) cl \<and> 0 < w"

abbreviation tight_shows :: "(u8 list \<Rightarrow> u8 list) \<Rightarrow> server \<Rightarrow> rfbPixelFormat \<Rightarrow> nat \<Rightarrow> nat \<Rightarrow> u32 list \<Rightarrow> (nat \<Rightarrow> u8 list) \<Rightarrow> u8 list \<Rightarrow> (nat \<Rightarrow> u8 list) \<Rightarrow> bool" where
  "tight_shows inflate srv fmt w h ps \<equiv> tight_reads inflate (tlen fmt) w h (map (tbytes srv fmt) ps)"

lemma tlen_bounds: "tight_format fmt \<Longrightarrow> 0 < tlen fmt \<and> tlen fmt \<le> bitsPerPixel fmt div 8 \<and> bitsPerPixel fmt div 8 \<le> 4"
  by (auto simp: tlen_def tight_format_def valid_bpp_def)

lemma read_sent_pixels: "read_pixels (tlen fmt) (length ps) (concat (map (tbytes srv fmt) ps) @ t) = (map (tbytes srv fmt) ps, t)"
  by (rule read_pixels_concat) simp

lemma full_data:
  assumes "tight_format fmt" "holds_pixels srv fmt buf ps"
  shows "(if usePixelFormat24 fmt then Pack24 srv fmt stale buf (length ps) else take (length ps * (bitsPerPixel fmt div 8)) buf) = concat (map (tbytes srv fmt) ps)"
proof (cases "usePixelFormat24 fmt")
  case True
  then have "bitsPerPixel fmt = 32" using assms(1) by (simp add: tight_format_def)
  then show ?thesis using Pack24_bytes [OF _ True, of buf srv ps stale] assms(2) True by (simp add: holds_pixels_def)
next
  case False
  then have "tbytes srv fmt = host_bytes (littleEndian srv) (bitsPerPixel fmt)" by (intro ext) (simp add: tbytes_def)
  then show ?thesis using False assms(2) by (simp add: holds_pixels_def length_pixels_buf)
qed

lemma SendFullColorRect_out:
  assumes "tight_setting env inflate srv cl got buf ps w h"
  shows "tight_out env cl (tight_shows inflate srv (format cl) w h ps got) (SendFullColorRect env srv buf w h cl)"
proof -
  let ?fmt = "format cl" and ?data = "concat (map (tbytes srv (format cl)) ps)"
  have a: "tight_pair env inflate" "tight_sent env cl got" "ublen cl \<le> UPDATE_BUF_SIZE" "tight_format ?fmt" "holds_pixels srv ?fmt buf ps"
    "length ps = w * h" "room_for (w * h * (bitsPerPixel ?fmt div 8)) cl" using assms by (simp_all add: tight_setting_def)
  have len: "length ?data = w * h * tlen ?fmt" using a(6) by (simp add: length_concat_map_const [where k = "tlen ?fmt"] mult.commute)
  note d = full_data [OF a(4,5), of "staleBytes env", unfolded a(6)]
  have r: "room_for (length ?data) cl" unfolding len by (rule room_for_less [OF a(7)]) (use tlen_bounds [OF a(4)] in simp)
  have c0: "control 0 = 0" by (simp add: control_def)
  have rd: "read_pixels (tlen ?fmt) (w * h) ?data = (map (tbytes srv ?fmt) ps, [])"
    using read_sent_pixels [of ?fmt ps srv "[]"] a(6) by simp
  show ?thesis unfolding SendFullColorRect_def Let_def
  proof (rule tight_out_room [OF a(3) _ a(2)])
    fix c assume c: "settings c = settings cl" "ublen c + (TIGHT_MIN_TO_COMPRESS + 1) \<le> UPDATE_BUF_SIZE" "tight_sent env c got"
      "tightAfterBufSize c = tightAfterBufSize cl"
    have f: "format c = ?fmt" using settings_fields(3) [OF c(1)] .
    show "tight_out env c (tight_shows inflate srv ?fmt w h ps got)
      (CompressData env 0 (if usePixelFormat24 (format c) then Pack24 srv (format c) (staleBytes env) buf (w * h)
         else take (w * h * (bitsPerPixel (format c) div 8)) buf) (rawZlibLevel (compress_conf c)) (put_tight [0] c))"
      unfolding f d
    proof (rule tight_out_block [OF a(1) c(3) _ room_for_same [OF r c(4)]])
      show "ublen c + length [0 :: u8] + 12 \<le> UPDATE_BUF_SIZE" using c(2) by (simp add: TIGHT_MIN_TO_COMPRESS_def)
    next
      fix bs got' assume "\<forall>rest. read_block inflate 0 (length ?data) (got, bs @ rest) = (?data, (got', rest))"
      from reads_full [OF this _ len rd]
      show "tight_shows inflate srv ?fmt w h ps got ([0] @ bs) got'" by (simp add: c0)
    qed
  qed (simp add: TIGHT_MIN_TO_COMPRESS_def UPDATE_BUF_SIZE_def)
qed

lemma SendMonoRect_out:
  assumes "tight_setting env inflate srv cl got buf ps w h" "set ps \<subseteq> {bg, fg}" "bg \<noteq> fg"
  shows "tight_out env cl (tight_shows inflate srv (format cl) w h ps got) (SendMonoRect env srv bg fg buf w h cl)"
proof -
  let ?fmt = "format cl" and ?data = "EncodeMonoRect bg ps w h"
  let ?hh = "[control (1 + rfbTightExplicitFilter), rfbTightFilterPalette, 1] @ concat (map (tbytes srv (format cl)) [bg, fg])"
  have a: "tight_pair env inflate" "tight_sent env cl got" "ublen cl \<le> UPDATE_BUF_SIZE" "tight_format ?fmt" "holds_pixels srv ?fmt buf ps"
    "length ps = w * h" "room_for (w * h * (bitsPerPixel ?fmt div 8)) cl" "0 < w" using assms by (simp_all add: tight_setting_def)
  note bp = holds_before [OF a(5)]
  note b = tlen_bounds [OF a(4)]
  note m = EncodeMonoRect_read [OF assms(3,2) a(6), of "tbytes srv ?fmt" "[]"]
  then have len: "length ?data = (w + 7) div 8 * h" by simp
  have "(w + 7) div 8 \<le> w" using a(8) by linarith
  then have "length ?data \<le> w * h * 1" unfolding len by simp
  also have "\<dots> \<le> w * h * (bitsPerPixel ?fmt div 8)" using b by (intro mult_le_mono2) simp
  finally have r: "room_for (length ?data) cl" by (rule room_for_less [OF a(7)])
  have hl: "length ?hh \<le> 3 + 2 * bitsPerPixel ?fmt div 8" using b a(4) by (auto simp: tight_format_def valid_bpp_def)
  have rd: "read_pixels (tlen ?fmt) 2 (concat (map (tbytes srv ?fmt) [bg, fg]) @ t) = ([tbytes srv ?fmt bg, tbytes srv ?fmt fg], t)" for t
    using read_sent_pixels [of ?fmt "[bg, fg]" srv t] by (simp add: numeral_2_eq_2)
  have pr: "packed_rows 1 [tbytes srv ?fmt bg, tbytes srv ?fmt fg] h w ?data = (map (tbytes srv ?fmt) ps, [])" using m by simp
  show ?thesis unfolding SendMonoRect_def Let_def bp
  proof (rule tight_out_room [OF a(3) _ a(2)])
    fix c assume c: "settings c = settings cl" "ublen c + (TIGHT_MIN_TO_COMPRESS + 6 + 2 * bitsPerPixel ?fmt div 8) \<le> UPDATE_BUF_SIZE"
      "tight_sent env c got" "tightAfterBufSize c = tightAfterBufSize cl"
    have f: "format c = ?fmt" using settings_fields(3) [OF c(1)] .
    show "tight_out env c (tight_shows inflate srv ?fmt w h ps got)
      (CompressData env 1 ?data (monoZlibLevel (compress_conf c)) (put_tight ([control (1 + rfbTightExplicitFilter), rfbTightFilterPalette, 1] @
              sent_pixels env srv (format c) [bg, fg]) c))"
      unfolding f sent_pixels_bytes [OF a(4)]
    proof (rule tight_out_block [OF a(1) c(3) _ room_for_same [OF r c(4)]])
      show "ublen c + length ?hh + 12 \<le> UPDATE_BUF_SIZE" using c(2) hl by (simp add: TIGHT_MIN_TO_COMPRESS_def)
    next
      fix bs got' assume "\<forall>rest. read_block inflate 1 (length ?data) (got, bs @ rest) = (?data, (got', rest))"
      from reads_mono [OF this _ len rd pr]
      show "tight_shows inflate srv ?fmt w h ps got (?hh @ bs) got'" by (simp add: rfbTightExplicitFilter_def rfbTightFilterPalette_def)
    qed
  qed (use b a(4) in \<open>auto simp: TIGHT_MIN_TO_COMPRESS_def UPDATE_BUF_SIZE_def tight_format_def valid_bpp_def\<close>)
qed

lemma SendIndexedRect_out:
  assumes "tight_setting env inflate srv cl got buf ps w h" "palette_ok (bitsPerPixel (format cl)) pal" "set ps \<subseteq> palette_colours pal"
    and "2 < paletteNumColors pal" "bitsPerPixel (format cl) \<noteq> 8"
  shows "tight_out env cl (tight_shows inflate srv (format cl) w h ps got) (SendIndexedRect env srv pal buf cl)"
proof -
  let ?fmt = "format cl" and ?data = "EncodeIndexedRect (bitsPerPixel (format cl)) pal 0 ps" and ?n = "paletteNumColors pal"
  define cols where "cols = map (\<lambda>i. node_rgb pal (entry_node pal i)) [0..<?n]"
  let ?hh = "[control (2 + rfbTightExplicitFilter), rfbTightFilterPalette, of_nat (?n - 1)] @ concat (map (tbytes srv (format cl)) cols)"
  have a: "tight_pair env inflate" "tight_sent env cl got" "ublen cl \<le> UPDATE_BUF_SIZE" "tight_format ?fmt" "holds_pixels srv ?fmt buf ps"
    "length ps = w * h" "room_for (w * h * (bitsPerPixel ?fmt div 8)) cl" using assms(1) by (simp_all add: tight_setting_def)
  note bp = holds_before [OF a(5)]
  note b = tlen_bounds [OF a(4)]
  have n: "?n \<le> 256" using assms(2) by (simp add: palette_ok_def)
  have len: "length ?data = w * h" using length_EncodeIndexedRect [OF assms(2,3)] a(6) by simp
  have "w * h * 1 \<le> w * h * (bitsPerPixel ?fmt div 8)" using b by (intro mult_le_mono2) simp
  then have r: "room_for (length ?data) cl" unfolding len by (intro room_for_less [OF a(7)]) simp
  have "length (concat (map (tbytes srv ?fmt) cols)) = tlen ?fmt * ?n" by (simp add: length_concat_map_const [where k = "tlen ?fmt"] cols_def)
  also have "\<dots> \<le> (bitsPerPixel ?fmt div 8) * ?n" using b by (intro mult_le_mono1) simp
  also have "\<dots> = ?n * bitsPerPixel ?fmt div 8" using a(4) by (auto simp: tight_format_def valid_bpp_def)
  finally have hl: "length ?hh \<le> 3 + ?n * bitsPerPixel ?fmt div 8" by simp
  have rd: "read_pixels (tlen ?fmt) ?n (concat (map (tbytes srv ?fmt) cols) @ t) = (map (tbytes srv ?fmt) cols, t)" for t
    using read_sent_pixels [of ?fmt cols srv t] by (simp add: cols_def)
  have ix: "map (\<lambda>b. map (tbytes srv ?fmt) cols ! unat b) ?data = map (tbytes srv ?fmt) ps"
    using EncodeIndexedRect_read [OF assms(2,3), of "tbytes srv ?fmt"] by (simp add: cols_def comp_def)
  have bpp: "\<not> (bitsPerPixel ?fmt \<noteq> 32 \<and> bitsPerPixel ?fmt \<noteq> 16)" using a(4) assms(5) by (auto simp: tight_format_def valid_bpp_def)
  show ?thesis unfolding SendIndexedRect_def Let_def bp if_not_P [OF bpp] cols_def [symmetric]
  proof (rule tight_out_room [OF a(3) _ a(2)])
    fix c assume c: "settings c = settings cl" "ublen c + (TIGHT_MIN_TO_COMPRESS + 6 + ?n * bitsPerPixel ?fmt div 8) \<le> UPDATE_BUF_SIZE"
      "tight_sent env c got" "tightAfterBufSize c = tightAfterBufSize cl"
    have f: "format c = ?fmt" using settings_fields(3) [OF c(1)] .
    show "tight_out env c (tight_shows inflate srv ?fmt w h ps got)
      (CompressData env 2 ?data (idxZlibLevel (compress_conf c)) (put_tight ([control (2 + rfbTightExplicitFilter), rfbTightFilterPalette, of_nat (?n - 1)] @
              sent_pixels env srv (format c) cols) c))"
      unfolding f sent_pixels_bytes [OF a(4)]
    proof (rule tight_out_block [OF a(1) c(3) _ room_for_same [OF r c(4)]])
      show "ublen c + length ?hh + 12 \<le> UPDATE_BUF_SIZE" using c(2) hl by (simp add: TIGHT_MIN_TO_COMPRESS_def)
    next
      fix bs got' assume "\<forall>rest. read_block inflate 2 (length ?data) (got, bs @ rest) = (?data, (got', rest))"
      from reads_indexed [OF this _ len assms(4) n rd ix]
      show "tight_shows inflate srv ?fmt w h ps got (?hh @ bs) got'" by (simp add: rfbTightExplicitFilter_def rfbTightFilterPalette_def)
    qed
  next
    have "?n * bitsPerPixel ?fmt div 8 \<le> 256 * 32 div 8" using n a(4) by (intro div_le_mono mult_le_mono) (auto simp: tight_format_def valid_bpp_def)
    then show "TIGHT_MIN_TO_COMPRESS + 6 + ?n * bitsPerPixel ?fmt div 8 \<le> UPDATE_BUF_SIZE" by (simp add: TIGHT_MIN_TO_COMPRESS_def UPDATE_BUF_SIZE_def)
  qed
qed

text \<open>The gradient filter, for pixels that are sent in three bytes.\<close>

lemma gradient_data:
  assumes "usePixelFormat24 fmt" "length ps = w * h"
  shows "map (map word_of_int) (restore_rows [255, 255, 255] (zero_row w) w
      (map (map uint) (fst (read_pixels 3 (w * h) (FilterGradient24 srv fmt ps w h)))) h) = map (tbytes srv fmt) ps"
    and "length (FilterGradient24 srv fmt ps w h) = w * h * 3"
proof -
  define comps where "comps = (\<lambda>pix :: u32. map (\<lambda>s. uint (drop_bit s pix AND 0xFF)) (pack_shifts srv fmt))"
  define gs where "gs = gradient_rows [255, 255, 255] (zero_row w) w (map comps ps) h"
  have ff: "drop_bit s p AND 0xFF = take_bit 8 (drop_bit s p)" for s and p :: u32
  proof -
    have "(0xFF :: u32) = mask 8" by (simp add: mask_eq_exp_minus_1)
    then show ?thesis by (simp only: take_bit_eq_mask)
  qed
  have range: "component_range [255, 255, 255] (comps p)" for p
  proof -
    have u: "0 \<le> uint (take_bit 8 q) \<and> uint (take_bit 8 q) \<le> 255" for q :: u32
      using take_bit_int_less_exp [of 8 "uint q"] by (simp add: unsigned_take_bit_eq)
    show ?thesis unfolding component_range_def comps_def ff pack_shifts_def Let_def by (cases "bigEndian (rfbServerFormat srv) = bigEndian fmt") (use u in auto)
  qed
  have r: "restore_rows [255, 255, 255] (zero_row w) w (map byte_triple gs) h = map comps ps" and lg: "length gs = w * h"
    using restore_rows_gradient [where tr = byte_triple, OF byte_congruent, of "zero_row w" w "map comps ps" h] assms(2) range
    by (simp_all add: gs_def zero_row_def)
  have f: "FilterGradient24 srv fmt ps w h = concat (map (map word_of_int) gs)"
    by (simp add: FilterGradient24_def gs_def comps_def)
  have g3: "length g = 3" if "g \<in> set gs" for g using that gradient_rows_length unfolding gs_def by blast
  have rp: "read_pixels 3 (w * h) (concat (map (map word_of_int) gs)) = (map (map word_of_int) gs, [])"
    using read_pixels_concat [of gs "map word_of_int" 3 "[]"] g3 lg by simp
  have "map (map uint) (map (map (word_of_int :: int \<Rightarrow> u8)) gs) = map byte_triple gs"
    using g3 byte_triple_map by (simp add: comp_def)
  then have "map (map uint) (fst (read_pixels 3 (w * h) (FilterGradient24 srv fmt ps w h))) = map byte_triple gs" unfolding f rp by simp
  moreover have "map (map word_of_int) (map comps ps) = map (tbytes srv fmt) ps"
    unfolding tbytes_24 [OF assms(1)] map_map
  proof (intro map_cong refl)
    fix p assume "p \<in> set ps"
    have uc: "word_of_int (uint (take_bit 8 q)) = (ucast q :: u8)" for q :: u32
      by (rule bit_word_eqI) (simp add: bit_simps)
    show "(map word_of_int \<circ> comps) p = map (\<lambda>s. ucast (drop_bit s p) :: u8) (pack_shifts srv fmt)"
      unfolding comp_def comps_def ff map_map by (intro map_cong refl) (rule uc)
  qed
  ultimately show "map (map word_of_int) (restore_rows [255, 255, 255] (zero_row w) w
      (map (map uint) (fst (read_pixels 3 (w * h) (FilterGradient24 srv fmt ps w h)))) h) = map (tbytes srv fmt) ps"
    using r by simp
  show "length (FilterGradient24 srv fmt ps w h) = w * h * 3"
    unfolding f using g3 lg by (simp add: length_concat_map_const [where k = 3])
qed

lemma SendGradientRect_out:
  assumes "tight_setting env inflate srv cl got buf ps w h" "usePixelFormat24 (format cl)"
  shows "tight_out env cl (tight_shows inflate srv (format cl) w h ps got) (SendGradientRect env srv buf w h cl)"
proof -
  let ?fmt = "format cl" and ?data = "FilterGradient24 srv (format cl) ps w h"
  let ?hh = "[control (3 + rfbTightExplicitFilter), rfbTightFilterGradient]"
  have a: "tight_pair env inflate" "tight_sent env cl got" "ublen cl \<le> UPDATE_BUF_SIZE" "tight_format ?fmt" "holds_pixels srv ?fmt buf ps"
    "length ps = w * h" "room_for (w * h * (bitsPerPixel ?fmt div 8)) cl" using assms(1) by (simp_all add: tight_setting_def)
  have b32: "bitsPerPixel ?fmt = 32" using a(4) assms(2) by (simp add: tight_format_def)
  have buf: "buf = concat (map (host_bytes (littleEndian srv) 32) ps)" using a(5) b32 by (simp add: holds_pixels_def)
  note gd = gradient_data [OF assms(2) a(6), of srv]
  have r: "room_for (length ?data) cl" unfolding gd(2) by (rule room_for_less [OF a(7)]) (use b32 in simp)
  note ld = load_packed [OF buf, of "staleBytes env", unfolded a(6)]
  have k3: "tlen ?fmt = 3" using assms(2) by (simp add: tlen_def)
  have e: "SendGradientRect env srv buf w h cl = (case make_room (TIGHT_MIN_TO_COMPRESS + 2) cl of (False, c) \<Rightarrow> (False, c)
    | (True, c) \<Rightarrow> CompressData env 3 ?data (gradientZlibLevel (compress_conf c)) (put_tight ?hh c))"
    unfolding SendGradientRect_def Let_def ld b32 using assms(2) by (simp cong: prod.case_cong bool.case_cong)
  show ?thesis unfolding e
  proof (rule tight_out_room [OF a(3) _ a(2)])
    fix c assume c: "settings c = settings cl" "ublen c + (TIGHT_MIN_TO_COMPRESS + 2) \<le> UPDATE_BUF_SIZE"
      "tight_sent env c got" "tightAfterBufSize c = tightAfterBufSize cl"
    show "tight_out env c (tight_shows inflate srv ?fmt w h ps got) (CompressData env 3 ?data (gradientZlibLevel (compress_conf c)) (put_tight ?hh c))"
    proof (rule tight_out_block [OF a(1) c(3) _ room_for_same [OF r c(4)]])
      show "ublen c + length ?hh + 12 \<le> UPDATE_BUF_SIZE" using c(2) by (simp add: TIGHT_MIN_TO_COMPRESS_def)
    next
      fix bs got' assume "\<forall>rest. read_block inflate 3 (length ?data) (got, bs @ rest) = (?data, (got', rest))"
      from reads_gradient [OF this _ gd(2) gd(1)]
      show "tight_shows inflate srv ?fmt w h ps got (?hh @ bs) got'" by (simp add: rfbTightExplicitFilter_def rfbTightFilterGradient_def)
    qed
  qed (simp add: TIGHT_MIN_TO_COMPRESS_def UPDATE_BUF_SIZE_def)
qed

end
