(* ===== verification/Tightrect.thy ===== *)
theory Tightrect
  imports Tightpix
begin

text \<open>
  The rectangles of the Tight encoding: what SendSubrect chooses, the sequence that rfbSendRectEncodingTight
  sends, and how the viewer reads it.
\<close>

section \<open>Settings\<close>

lemma tight_settings:
  assumes "settings a = settings b"
  shows "tightQualityLevel a = tightQualityLevel b" "tightCompressLevel a = tightCompressLevel b" "compress_conf a = compress_conf b"
    "source_pixels srv a = source_pixels srv b"
proof -
  have "tightQualityLevel (settings c) = tightQualityLevel c" "tightCompressLevel (settings c) = tightCompressLevel c" for c
    by (simp_all add: settings_def)
  then show "tightQualityLevel a = tightQualityLevel b" and t: "tightCompressLevel a = tightCompressLevel b" using assms by metis+
  show "compress_conf a = compress_conf b" by (simp add: compress_conf_def t)
  show "source_pixels srv a = source_pixels srv b" by (intro ext) (simp add: source_pixels_def source_settings(5) [OF assms])
qed

section \<open>One rectangle\<close>

text \<open>What the viewer shall see of a pixel of the screen.\<close>

definition tpixel :: "server \<Rightarrow> rfbClientRec \<Rightarrow> u8 list \<Rightarrow> u8 list" where
  "tpixel srv cl bs = tbytes srv (format cl) (pixel_value (littleEndian srv) bs)"

definition tight_pixels :: "server \<Rightarrow> rfbClientRec \<Rightarrow> rect \<Rightarrow> u8 list list" where
  "tight_pixels srv cl = (\<lambda>(x, y, w, h). map (tpixel srv cl) (source_pixels srv cl x y w h))"

definition tight_header :: "rect \<Rightarrow> u8 list" where
  "tight_header = (\<lambda>(x, y, w, h). rect_header (int x) (int y) (int w) (int h) rfbEncodingTight)"

lemma length_tight_header [simp]: "length (tight_header r) = 12"
  by (simp add: tight_header_def rect_header_def split: prod.split)

text \<open>A viewer reads the header and the data of a rectangle.\<close>

definition tight_rect_reads :: "(u8 list \<Rightarrow> u8 list) \<Rightarrow> server \<Rightarrow> rfbClientRec \<Rightarrow> rect \<Rightarrow> (nat \<Rightarrow> u8 list) \<Rightarrow> u8 list \<Rightarrow> (nat \<Rightarrow> u8 list) \<Rightarrow> bool" where
  "tight_rect_reads inflate srv cl = (\<lambda>(x, y, w, h) got bs got'.
     \<exists>body. bs = tight_header (x, y, w, h) @ body \<and> tight_reads inflate (tlen (format cl)) w h (tight_pixels srv cl (x, y, w, h)) got body got')"

lemma SendTightHeader_out:
  assumes "ublen cl \<le> UPDATE_BUF_SIZE" "tight_sent env cl got"
  shows "tight_out env cl (\<lambda>bs got'. bs = tight_header (x, y, w, h) \<and> got' = got) (SendTightHeader x y w h cl)"
  unfolding SendTightHeader_def
proof (rule tight_out_room [OF assms(1) _ assms(2)])
  fix c assume c: "settings c = settings cl" "ublen c + sz_rfbFramebufferUpdateRectHeader \<le> UPDATE_BUF_SIZE" "tight_sent env c got"
  show "tight_out env c (\<lambda>bs got'. bs = tight_header (x, y, w, h) \<and> got' = got)
    (True, count_rect rfbEncodingTight sz_rfbFramebufferUpdateRectHeader (put_buf (rect_header (int x) (int y) (int w) (int h) rfbEncodingTight) c))"
    by (rule tight_out_end [where bs = "tight_header (x, y, w, h)" and got = got])
      (use c length_tight_header [of "(x, y, w, h)"] in \<open>simp_all add: tight_sent_def tight_header_def sz_rfbFramebufferUpdateRectHeader_def\<close>)
qed (simp add: sz_rfbFramebufferUpdateRectHeader_def UPDATE_BUF_SIZE_def)

lemma SendTightHeader_size: "tightAfterBufSize (snd (SendTightHeader x y w h c)) = tightAfterBufSize c"
proof -
  obtain ok c1 where m: "make_room sz_rfbFramebufferUpdateRectHeader c = (ok, c1)" by fastforce
  have "tightAfterBufSize c1 = tightAfterBufSize c" using room_simps(4) [of sz_rfbFramebufferUpdateRectHeader c] unfolding m by simp
  then show ?thesis by (cases ok) (simp_all add: SendTightHeader_def m)
qed

text \<open>When nothing is lost: no JPEG, and the gradient filter only with three bytes for each pixel.\<close>

definition lossless :: "rfbClientRec \<Rightarrow> nat \<Rightarrow> bool" where
  "lossless cl n \<longleftrightarrow> tightQualityLevel cl = -1 \<and> tight_format (format cl) \<and>
     (usePixelFormat24 (format cl) \<or> bitsPerPixel (format cl) = 8 \<or> n < gradientMinRectSize (compress_conf cl))"

lemma lossless_settings: "lossless cl n \<Longrightarrow> settings c = settings cl \<Longrightarrow> lossless c n"
  using tight_settings [of c cl] settings_fields(3) [of c cl] by (simp add: lossless_def)

lemma SendSubrect_out:
  assumes "drawable srv cl" "lossless cl (w * h)" "tight_pair env inflate" "tight_sent env cl got" "ublen cl \<le> UPDATE_BUF_SIZE"
    and "0 < w" "0 < h" "room_for (w * h * (bitsPerPixel (format cl) div 8)) cl"
  shows "tight_out env cl (tight_rect_reads inflate srv cl (x, y, w, h) got) (SendSubrect env srv x y w h cl)"
proof -
  let ?fmt = "format cl" and ?bpp = "bitsPerPixel (format cl)"
  define ps where "ps = map (pixel_value (littleEndian srv)) (source_pixels srv cl x y w h)"
  define buf where "buf = pixels_at srv cl (fbptr srv cl x y) w h"
  have tf: "tight_format ?fmt" and q: "tightQualityLevel cl = -1" using assms(2) by (simp_all add: lossless_def)
  have hp: "holds_pixels srv ?fmt buf ps" unfolding buf_def ps_def by (rule source_holds_pixels [OF assms(1)])
  have len: "length ps = w * h" by (simp add: ps_def length_source_pixels)
  have ne: "ps \<noteq> []" using len assms(6,7) by auto
  have bpp: "(if ?bpp = 8 then 8 else if ?bpp = 16 then 16 else 32) = ?bpp" using tf by (auto simp: tight_format_def valid_bpp_def)
  have shown: "map (tbytes srv ?fmt) ps = tight_pixels srv cl (x, y, w, h)" by (simp add: ps_def tight_pixels_def tpixel_def)
  note bp = holds_before [OF hp]
  have body: "tight_out env c (tight_shows inflate srv ?fmt w h ps got) (send_colours env srv buf (FillPalette ?bpp (paletteMaxColors w h c) ps) x y w h c)"
    if c: "settings c = settings cl" "tight_sent env c got" "ublen c \<le> UPDATE_BUF_SIZE" "tightAfterBufSize c = tightAfterBufSize cl" for c
  proof -
    have f: "format c = ?fmt" using settings_fields(3) [OF c(1)] .
    have qc: "tightQualityLevel c = -1" using tight_settings(1) [OF c(1)] q by simp
    have set: "tight_setting env inflate srv c got buf ps w h"
      using assms(3,6) c(2,3) tf hp len room_for_same [OF assms(8) c(4)] by (simp add: tight_setting_def f)
    note colours = FillPalette_colours [OF ne, of ?bpp "paletteMaxColors w h c"]
    show ?thesis
    proof (cases "FillPalette ?bpp (paletteMaxColors w h c) ps")
      case FullColour
      show ?thesis
      proof (cases "DetectSmoothImage srv buf w h c")
        case True
        have "usePixelFormat24 (format c)"
        proof (rule ccontr)
          assume "\<not> usePixelFormat24 (format c)"
          then have "?bpp = 8 \<or> w * h < gradientMinRectSize (compress_conf c)" using lossless_settings [OF assms(2) c(1)] by (simp add: lossless_def f)
          then have "\<not> DetectSmoothImage srv buf w h c" using qc by (auto simp: DetectSmoothImage_def f Let_def)
          then show False using True by simp
        qed
        then show ?thesis using SendGradientRect_out [OF set] by (simp add: send_colours_def FullColour True qc f)
      next
        case False
        then show ?thesis using SendFullColorRect_out [OF set] by (simp add: send_colours_def FullColour f)
      qed
    next
      case OneColour
      have s: "set ps = {ps ! 0}" using colours by (simp add: OneColour)
      then have "ps = replicate (w * h) (ps ! 0)" using len by (metis replicate_eqI singletonD)
      then have m: "map (tbytes srv ?fmt) ps = replicate (w * h) (tbytes srv ?fmt (ps ! 0))" by (metis map_replicate)
      have "ps = ps ! 0 # tl ps" using ne by (cases ps) simp_all
      then have b: "buf = concat (map (host_bytes (littleEndian srv) (bitsPerPixel (format c))) (ps ! 0 # tl ps))" using hp by (simp add: holds_pixels_def f)
      show ?thesis using SendSolidRect_out [OF c(3) _ c(2) b, of inflate w h] tf by (simp add: send_colours_def OneColour m f)
    next
      case (TwoColours bg fg)
      then show ?thesis using colours SendMonoRect_out [OF set] by (simp add: send_colours_def f)
    next
      case (Palette pal)
      then show ?thesis using colours SendIndexedRect_out [OF set] by (simp add: send_colours_def f qc)
    qed
  qed
  have head: "tight_out env c (tight_rect_reads inflate srv cl (x, y, w, h) got)
      (case SendTightHeader x y w h c of (False, cl) \<Rightarrow> (False, cl) | (True, c) \<Rightarrow>
             let buf = pixels_at srv c (fbptr srv c x y) w h; bpp = bitsPerPixel (format c); bpp = (if bpp = 8 then 8 else if bpp = 16 then 16 else 32)
             in send_colours env srv buf (FillPalette bpp (paletteMaxColors w h c) (before_pixels srv bpp buf)) x y w h c)"
    if c: "settings c = settings cl" "tight_sent env c got" "ublen c \<le> UPDATE_BUF_SIZE" "tightAfterBufSize c = tightAfterBufSize cl" for c
  proof (rule tight_out_seq [OF SendTightHeader_out [OF c(3,2)]])
    fix c' bs got'
    assume c': "settings c' = settings c" "ublen c' \<le> UPDATE_BUF_SIZE" "tight_sent env c' got'" "bs = tight_header (x, y, w, h) \<and> got' = got"
      "SendTightHeader x y w h c = (True, c')" "tightAfterBufSize c \<le> tightAfterBufSize c'"
    have s: "settings c' = settings cl" using c'(1) c(1) by simp
    have t: "tightAfterBufSize c' = tightAfterBufSize cl" using SendTightHeader_size [of x y w h c] c(4) unfolding c'(5) by simp
    have e: "pixels_at srv c' (fbptr srv c' x y) w h = buf" by (simp add: buf_def source_settings(1,2) [OF s])
    have f: "format c' = ?fmt" using settings_fields(3) [OF s] .
    show "tight_out env c' (\<lambda>bs'. tight_rect_reads inflate srv cl (x, y, w, h) got (bs @ bs'))
      (let buf = pixels_at srv c' (fbptr srv c' x y) w h; bpp = bitsPerPixel (format c'); bpp = (if bpp = 8 then 8 else if bpp = 16 then 16 else 32)
             in send_colours env srv buf (FillPalette bpp (paletteMaxColors w h c') (before_pixels srv bpp buf)) x y w h c')"
      unfolding Let_def e f bpp bp
      by (rule tight_out_mono [OF body [OF s _ c'(2) t]]) (use c'(3,4) shown in \<open>auto simp: tight_rect_reads_def\<close>)
  qed
  define r where "r = (if ublen cl > 128 then rfbSendUpdateBuf cl else (True, cl))"
  have r: "tight_out env cl (\<lambda>bs got'. bs = [] \<and> got' = got) r"
    by (rule tight_out_sends [where bs = "[]" and got = got])
      (use assms(4,5) sends_SendUpdateBuf [of cl] in \<open>auto simp: r_def intro: sendsI\<close>)
  have tr: "tightAfterBufSize (snd r) = tightAfterBufSize cl" by (simp add: r_def)
  show ?thesis unfolding SendSubrect_def r_def [symmetric]
  proof (rule tight_out_seq [OF r])
    fix c and bs :: "u8 list" and got'
    assume c: "settings c = settings cl" "ublen c \<le> UPDATE_BUF_SIZE" "tight_sent env c got'" "bs = [] \<and> got' = got" "r = (True, c)"
    have g: "got' = got" and b: "bs = []" using c(4) by simp_all
    show "tight_out env c (\<lambda>bs'. tight_rect_reads inflate srv cl (x, y, w, h) got (bs @ bs'))
      (case SendTightHeader x y w h c of (False, cl) \<Rightarrow> (False, cl) | (True, c) \<Rightarrow>
             let buf = pixels_at srv c (fbptr srv c x y) w h; bpp = bitsPerPixel (format c); bpp = (if bpp = 8 then 8 else if bpp = 16 then 16 else 32)
             in send_colours env srv buf (FillPalette bpp (paletteMaxColors w h c) (before_pixels srv bpp buf)) x y w h c)"
      unfolding b append_Nil
      using head [OF c(1) _ c(2)] c(3,5) g tr by simp
  qed
qed

section \<open>The sequence\<close>

fun decode_tight_rects :: "(u8 list \<Rightarrow> u8 list) \<Rightarrow> nat \<Rightarrow> rect list \<Rightarrow> viewer \<Rightarrow> (u8 list \<times> u8 list list) list \<times> viewer" where
  "decode_tight_rects inflate k [] v = ([], v)"
| "decode_tight_rects inflate k ((x, y, w, h) # rs) (got, bs) =
    (let (px, v) = decode_tight inflate k w h (got, drop 12 bs); (pxs, v) = decode_tight_rects inflate k rs v
     in ((take 12 bs, px) # pxs, v))"

definition tight_shown :: "server \<Rightarrow> rfbClientRec \<Rightarrow> rect list \<Rightarrow> (u8 list \<times> u8 list list) list" where
  "tight_shown srv cl rs = map (\<lambda>r. (tight_header r, tight_pixels srv cl r)) rs"

definition tight_all_read :: "(u8 list \<Rightarrow> u8 list) \<Rightarrow> server \<Rightarrow> rfbClientRec \<Rightarrow> rect list \<Rightarrow> (nat \<Rightarrow> u8 list) \<Rightarrow> u8 list \<Rightarrow> (nat \<Rightarrow> u8 list) \<Rightarrow> bool" where
  "tight_all_read inflate srv cl rs got bs got' \<longleftrightarrow>
     (\<forall>rest. decode_tight_rects inflate (tlen (format cl)) rs (got, bs @ rest) = (tight_shown srv cl rs, (got', rest)))"

lemma tight_all_read_Nil: "tight_all_read inflate srv cl [] got [] got"
  by (simp add: tight_all_read_def tight_shown_def)

lemma tight_all_read_one:
  assumes "tight_rect_reads inflate srv cl r got bs got1" "tight_all_read inflate srv cl rs got1 bs' got'"
  shows "tight_all_read inflate srv cl (r # rs) got (bs @ bs') got'"
proof -
  obtain x y w h where r: "r = (x, y, w, h)" by (metis prod_cases4)
  obtain body where b: "bs = tight_header r @ body" "tight_reads inflate (tlen (format cl)) w h (tight_pixels srv cl r) got body got1"
    using assms(1) by (auto simp: tight_rect_reads_def r)
  have d: "drop 12 ((tight_header r @ body) @ t) = body @ t" "take 12 ((tight_header r @ body) @ t) = tight_header r" for t
    using length_tight_header [of r] by simp_all
  show ?thesis
    unfolding tight_all_read_def b(1) r tight_shown_def
  proof
    fix rest
    have 1: "decode_tight inflate (tlen (format cl)) w h (got, body @ bs' @ rest) = (tight_pixels srv cl r, (got1, bs' @ rest))"
      using b(2) by (simp add: tight_reads_def)
    have 2: "decode_tight_rects inflate (tlen (format cl)) rs (got1, bs' @ rest) = (tight_shown srv cl rs, (got', rest))"
      using assms(2) by (simp add: tight_all_read_def)
    show "decode_tight_rects inflate (tlen (format cl)) ((x, y, w, h) # rs) (got, ((tight_header (x, y, w, h) @ body) @ bs') @ rest) =
      (map (\<lambda>r. (tight_header r, tight_pixels srv cl r)) ((x, y, w, h) # rs), got', rest)"
      using 1 2 d [of "bs' @ rest"] by (simp add: r tight_shown_def)
  qed
qed

lemma decode_tight_rects_append:
  "decode_tight_rects inflate k (rs @ rs') v =
    (case decode_tight_rects inflate k rs v of (a, v) \<Rightarrow> case decode_tight_rects inflate k rs' v of (b, v) \<Rightarrow> (a @ b, v))"
  by (induction inflate k rs v rule: decode_tight_rects.induct) (simp_all split: prod.splits)

lemma tight_all_read_append:
  assumes "tight_all_read inflate srv cl rs got bs got1" "tight_all_read inflate srv cl rs' got1 bs' got'"
  shows "tight_all_read inflate srv cl (rs @ rs') got (bs @ bs') got'"
  using assms by (simp add: tight_all_read_def decode_tight_rects_append tight_shown_def)

text \<open>What is shown depends on the settings only.\<close>

lemma tight_pixels_settings: "settings c = settings cl \<Longrightarrow> tight_pixels srv c = tight_pixels srv cl"
proof -
  assume a: "settings c = settings cl"
  have "tpixel srv c = tpixel srv cl" by (intro ext) (simp add: tpixel_def settings_fields(3) [OF a])
  then show ?thesis by (intro ext) (simp add: tight_pixels_def tight_settings(4) [OF a])
qed

lemma tight_all_read_settings: "settings c = settings cl \<Longrightarrow> tight_all_read inflate srv c = tight_all_read inflate srv cl"
  by (intro ext) (simp add: tight_all_read_def tight_shown_def tight_pixels_settings [of c cl] settings_fields(3) [of c cl])

text \<open>What the encoder relies on, and keeps.\<close>

definition tight_ready :: "tight_env \<Rightarrow> (u8 list \<Rightarrow> u8 list) \<Rightarrow> server \<Rightarrow> rfbClientRec \<Rightarrow> (nat \<Rightarrow> u8 list) \<Rightarrow> bool" where
  "tight_ready env inflate srv cl got \<longleftrightarrow> drawable srv cl \<and> tight_pair env inflate \<and> tight_sent env cl got \<and> ublen cl \<le> UPDATE_BUF_SIZE"

lemma tight_ready_step:
  "tight_ready env inflate srv cl got \<Longrightarrow> settings c = settings cl \<Longrightarrow> tight_sent env c got' \<Longrightarrow> ublen c \<le> UPDATE_BUF_SIZE \<Longrightarrow>
    tight_ready env inflate srv c got'"
  by (auto simp: tight_ready_def intro: drawable_settings)

lemma room_for_grows:
  "room_for n cl \<Longrightarrow> tightAfterBufSize cl \<le> tightAfterBufSize c \<Longrightarrow> (tightAfterBufSize cl \<le> 2 ^ 22 \<longrightarrow> tightAfterBufSize c \<le> 2 ^ 22) \<Longrightarrow> room_for n c"
  by (simp add: room_for_def)

lemma send_subrects_out:
  "tight_ready env inflate srv cl got \<Longrightarrow>
    \<forall>r \<in> set rs. case r of (x, y, w, h) \<Rightarrow> 0 < w \<and> 0 < h \<and> lossless cl (w * h) \<and> room_for (w * h * (bitsPerPixel (format cl) div 8)) cl \<Longrightarrow>
    tight_out env cl (tight_all_read inflate srv cl rs got) (send_subrects env srv rs cl)"
proof (induction env srv rs cl arbitrary: got rule: send_subrects.induct)
  case (1 env srv cl)
  then show ?case by (auto simp: tight_ready_def tight_all_read_Nil intro!: tight_out_end [where bs = "[]"])
next
  case (2 env srv x y w h rs cl)
  have r: "0 < w" "0 < h" "lossless cl (w * h)" "room_for (w * h * (bitsPerPixel (format cl) div 8)) cl" using 2(3) by auto
  have ready: "drawable srv cl" "tight_pair env inflate" "tight_sent env cl got" "ublen cl \<le> UPDATE_BUF_SIZE"
    using 2(2) by (simp_all add: tight_ready_def)
  show ?case unfolding send_subrects.simps
  proof (rule tight_out_seq [OF SendSubrect_out [OF ready(1) r(3) ready(2,3,4) r(1,2,4)]])
    fix c bs got1
    assume c: "settings c = settings cl" "ublen c \<le> UPDATE_BUF_SIZE" "tight_sent env c got1" "tight_rect_reads inflate srv cl (x, y, w, h) got bs got1"
      "SendSubrect env srv x y w h cl = (True, c)" "tightAfterBufSize cl \<le> tightAfterBufSize c"
      "tightAfterBufSize cl \<le> 2 ^ 22 \<longrightarrow> tightAfterBufSize c \<le> 2 ^ 22"
    have "\<forall>r \<in> set rs. case r of (x, y, w, h) \<Rightarrow> 0 < w \<and> 0 < h \<and> lossless c (w * h) \<and> room_for (w * h * (bitsPerPixel (format c) div 8)) c"
      using 2(3) lossless_settings [OF _ c(1)] room_for_grows [OF _ c(6,7)] settings_fields(3) [OF c(1)] by fastforce
    then have "tight_out env c (tight_all_read inflate srv c rs got1) (send_subrects env srv rs c)"
      using 2(1) [OF c(5) [symmetric] refl tight_ready_step [OF 2(2) c(1,3,2)]] by simp
    then show "tight_out env c (\<lambda>bs'. tight_all_read inflate srv cl ((x, y, w, h) # rs) got (bs @ bs')) (send_subrects env srv rs c)"
      unfolding tight_all_read_settings [OF c(1)] by (rule tight_out_mono) (rule tight_all_read_one [OF c(4)])
  qed
qed

section \<open>Pieces\<close>

text \<open>Pixels of the client are those of the screen, so an area of one colour stays one.\<close>

lemma source_pixel_server:
  assumes "drawable srv cl" "server_pixel srv cl px py = server_pixel srv cl qx qy"
  shows "source_pixel srv cl px py = source_pixel srv cl qx qy"
proof -
  let ?b = "bitsPerPixel (rfbServerFormat srv)" and ?le = "littleEndian srv" and ?m = "scalingFrameBuffer cl"
  have b: "?b = 8 \<or> ?b = 16 \<or> ?b = 32" and sb: "sbitsPerPixel (rfbScreen srv) = ?b" and ok: "trans_ok srv cl"
    using assms(1) by (simp_all add: drawable_def valid_bpp_def)
  have sp: "server_pixel srv cl x y = load_pixel ?le ?b ?m (fbptr srv cl x y)" for x y
    using b by (auto simp: server_pixel_def fbptr_def sb mult.commute add.commute)
  have same: "load_pixel ?le ?b ?m (fbptr srv cl px py) = load_pixel ?le ?b ?m (fbptr srv cl qx qy)" using assms(2) unfolding sp .
  show ?thesis
  proof (cases "translateFn cl")
    case TransNone
    have k: "bitsPerPixel (format cl) = ?b" using ok TransNone by (simp add: trans_ok_def PF_EQ_bpp)
    have e: "source_pixel srv cl x y = host_bytes ?le ?b (load_pixel ?le ?b ?m (fbptr srv cl x y))" for x y
    proof -
      let ?bs = "map (\<lambda>i. ?m (fbptr srv cl x y + i)) [0..<?b div 8]"
      have "load_pixel ?le ?b ?m (fbptr srv cl x y) = pixel_value ?le ?bs" by (simp add: load_pixel_def pixel_value_def Let_def)
      moreover have "host_bytes ?le (8 * length ?bs) (pixel_value ?le ?bs) = ?bs" by (rule host_bytes_pixel_value) (use b in auto)
      moreover have "8 * length ?bs = ?b" using b by auto
      moreover have "source_pixel srv cl x y = ?bs"
        by (simp add: source_pixel_def pixels_at_def translate_rect_def TransNone rfbTranslateNone_def k Let_def)
      ultimately show ?thesis by metis
    qed
    show ?thesis unfolding e same ..
  next
    case (TransSingle i out)
    then show ?thesis using ok same
      by (simp add: source_pixel_def pixels_at_def translate_rect_def trans_ok_def rfbTranslateWithSingleTable_def trans_lines_def
          rfbInitTrueColourSingleTable_def)
  next
    case (TransRGB i out)
    then show ?thesis using ok same
      by (simp add: source_pixel_def pixels_at_def translate_rect_def trans_ok_def rfbTranslateWithRGBTables_def trans_lines_def
          rfbInitTrueColourRGBTables_def Let_def)
  qed
qed

lemma uniform_pixels:
  assumes "drawable srv cl" "uniform (server_pixel srv cl) c (x, y, w, h)" "0 < w" "0 < h"
  shows "source_pixels srv cl x y w h = replicate (w * h) (source_pixel srv cl x y)"
proof (rule replicate_eqI)
  show "length (source_pixels srv cl x y w h) = w * h" by (rule length_source_pixels)
next
  fix p assume "p \<in> set (source_pixels srv cl x y w h)"
  then obtain i j where ij: "i < w" "j < h" "p = source_pixel srv cl (x + i) (y + j)" by (auto simp: source_pixels_def)
  have "server_pixel srv cl (x + i) (y + j) = c" "server_pixel srv cl x y = c"
    using uniformD [OF assms(2)] ij(1,2) assms(3,4) by simp_all
  then show "p = source_pixel srv cl x y" using source_pixel_server [OF assms(1)] ij(3) by simp
qed

fun piece_rects :: "TIGHT_CONF \<Rightarrow> piece \<Rightarrow> rect list" where
  "piece_rects conf (Simple r) = simple_rects conf r"
| "piece_rects conf (Solid r) = [r]"

definition good_piece :: "server \<Rightarrow> rfbClientRec \<Rightarrow> piece \<Rightarrow> bool" where
  "good_piece srv cl p \<longleftrightarrow> solid_rect (piece_rect p) \<and> (\<forall>r. p = Solid r \<longrightarrow> (\<exists>c. uniform (server_pixel srv cl) c r))"

abbreviation tight_lossless :: "rfbClientRec \<Rightarrow> bool" where
  "tight_lossless cl \<equiv> lossless cl (maxRectSize (compress_conf cl))"

lemma solid_piece_out:
  assumes "tight_ready env inflate srv cl got" "tight_format (format cl)" "good_piece srv cl (Solid (x, y, w, h))"
  shows "tight_out env cl (tight_all_read inflate srv cl [(x, y, w, h)] got) (send_piece env srv (Solid (x, y, w, h)) cl)"
proof -
  have ready: "drawable srv cl" "tight_sent env cl got" "ublen cl \<le> UPDATE_BUF_SIZE" using assms(1) by (simp_all add: tight_ready_def)
  define p where "p = pixel_value (littleEndian srv) (source_pixel srv cl x y)"
  have wh: "0 < w" "0 < h" using assms(3) by (simp_all add: good_piece_def solid_rect_def)
  obtain c where u: "uniform (server_pixel srv cl) c (x, y, w, h)" using assms(3) by (auto simp: good_piece_def)
  have shown: "tight_pixels srv cl (x, y, w, h) = replicate (w * h) (tbytes srv (format cl) p)"
    by (simp add: tight_pixels_def uniform_pixels [OF ready(1) u wh] tpixel_def p_def)
  have "source_pixels srv cl x y 1 1 = [source_pixel srv cl x y]" by (simp add: source_pixels_def)
  then have buf: "pixels_at srv cl (fbptr srv cl x y) 1 1 = concat (map (host_bytes (littleEndian srv) (bitsPerPixel (format cl))) [p])"
    using source_holds_pixels [OF ready(1), of x y 1 1] by (simp add: holds_pixels_def p_def)
  show ?thesis unfolding send_piece.simps
  proof (rule tight_out_seq [OF SendTightHeader_out [OF ready(3,2)]])
    fix c bs got1
    assume c: "settings c = settings cl" "ublen c \<le> UPDATE_BUF_SIZE" "tight_sent env c got1" "bs = tight_header (x, y, w, h) \<and> got1 = got"
    note f = settings_fields(3) [OF c(1)]
    have b: "pixels_at srv c (fbptr srv c x y) 1 1 = concat (map (host_bytes (littleEndian srv) (bitsPerPixel (format c))) [p])"
      unfolding source_settings(1,2) [OF c(1)] f by (rule buf)
    have tf: "tight_format (format c)" using assms(2) by (simp add: f)
    show "tight_out env c (\<lambda>bs'. tight_all_read inflate srv cl [(x, y, w, h)] got (bs @ bs'))
      (SendSolidRect env srv (pixels_at srv c (fbptr srv c x y) 1 1) c)"
    proof (rule tight_out_mono [OF SendSolidRect_out [OF c(2) tf c(3) b, of inflate w h]])
      fix bs' got'
      assume "tight_reads inflate (tlen (format c)) w h (replicate (w * h) (tbytes srv (format c) p)) got1 bs' got'"
      then have "tight_rect_reads inflate srv cl (x, y, w, h) got (bs @ bs') got'"
        using c(4) shown by (auto simp: tight_rect_reads_def f)
      from tight_all_read_one [OF this tight_all_read_Nil] show "tight_all_read inflate srv cl [(x, y, w, h)] got (bs @ bs') got'" by simp
    qed
  qed
qed

lemma tight_out_grow:
  assumes "tight_out env (cl\<lparr>tightAfterBufSize := n\<rparr>) Q res" "tightAfterBufSize cl \<le> n" "n \<le> max (tightAfterBufSize cl) (2 ^ 22)"
  shows "tight_out env cl Q res"
proof (cases "fst res")
  case True
  then obtain bs got where o: "sends (cl\<lparr>tightAfterBufSize := n\<rparr>) bs res" "tight_sent env (snd res) got" "n \<le> tightAfterBufSize (snd res)"
    "n \<le> 2 ^ 22 \<longrightarrow> tightAfterBufSize (snd res) \<le> 2 ^ 22" "Q bs got" using assms(1) by (auto simp: tight_out_def)
  have "sends cl bs res" using sends_more [OF o(1), of cl "[]"] by simp
  moreover have "tightAfterBufSize cl \<le> tightAfterBufSize (snd res)" using o(3) assms(2) by simp
  moreover have "tightAfterBufSize cl \<le> 2 ^ 22 \<longrightarrow> tightAfterBufSize (snd res) \<le> 2 ^ 22" using o(4) assms(3) by auto
  ultimately show ?thesis using True o(2,5) unfolding tight_out_def by auto
qed (use assms(1) in \<open>simp add: tight_out_def\<close>)

lemma lossless_less: "lossless cl n \<Longrightarrow> m \<le> n \<Longrightarrow> lossless cl m"
  by (auto simp: lossless_def)

lemma SendRectSimple_out:
  assumes "tight_ready env inflate srv cl got" "tight_lossless cl" "tightCompressLevel cl < 10" "solid_rect r" "tightAfterBufSize cl \<le> 2 ^ 22"
  shows "tight_out env cl (tight_all_read inflate srv cl (simple_rects (compress_conf cl) r) got) (SendRectSimple env srv r cl)"
proof -
  let ?conf = "compress_conf cl" and ?k = "bitsPerPixel (format cl) div 8"
  define n where "n = maxRectSize ?conf * ?k"
  define m where "m = n + (n + 99) div 100 + 12"
  define cl' where "cl' = cl\<lparr>tightAfterBufSize := max (tightAfterBufSize cl) m\<rparr>"
  have good: "good_conf ?conf" using tightConf_good [OF assms(3)] by (simp add: compress_conf_def)
  have "?k \<le> 4" using assms(2) by (auto simp: lossless_def tight_format_def valid_bpp_def)
  then have "n \<le> 65536 * 4" unfolding n_def using good by (intro mult_le_mono) (simp_all add: good_conf_def)
  then have m22: "m \<le> 2 ^ 22" unfolding m_def by (simp add: div_le_mono le_trans [OF div_le_dividend] add_le_mono)
  have e: "SendRectSimple env srv r cl = send_subrects env srv (simple_rects ?conf r) cl'"
    unfolding SendRectSimple_def Let_def n_def [symmetric] m_def [symmetric] by (simp add: cl'_def max_def compress_conf_def)
  have s: "settings cl' = settings cl" "ublen cl' = ublen cl" "tight_sent env cl' got" "format cl' = format cl" "compress_conf cl' = ?conf"
    "tightQualityLevel cl' = tightQualityLevel cl"
    using assms(1) by (simp_all add: cl'_def tight_ready_def tight_sent_def compress_conf_def)
  have ready: "tight_ready env inflate srv cl' got" by (rule tight_ready_step [OF assms(1) s(1,3)]) (use assms(1) s(2) in \<open>simp add: tight_ready_def\<close>)
  have size: "tightAfterBufSize cl' = max (tightAfterBufSize cl) m" by (simp add: cl'_def)
  have rs: "case r' of (x, y, w, h) \<Rightarrow> 0 < w \<and> 0 < h \<and> lossless cl' (w * h) \<and> room_for (w * h * (bitsPerPixel (format cl') div 8)) cl'"
    if r': "r' \<in> set (simple_rects ?conf r)" for r'
  proof -
    obtain x y w h where xy: "r' = (x, y, w, h)" by (metis prod_cases4)
    have se: "0 < w" "0 < h" "w * h \<le> maxRectSize ?conf" using simple_rects_good(2) [OF good assms(4) r'] by (simp_all add: xy small_enough_def)
    have "lossless cl' (w * h)" using lossless_less [OF assms(2) se(3)] s(4-6) by (simp add: lossless_def)
    moreover have "room_for n cl'" using m22 assms(5) by (simp add: room_for_def size m_def [symmetric])
    then have "room_for (w * h * ?k) cl'" by (rule room_for_less) (use se(3) in \<open>simp add: n_def\<close>)
    ultimately show ?thesis using se s(4) by (simp add: xy)
  qed
  have "tight_out env cl' (tight_all_read inflate srv cl' (simple_rects ?conf r) got) (send_subrects env srv (simple_rects ?conf r) cl')"
    by (rule send_subrects_out [OF ready]) (use rs in blast)
  then have "tight_out env (cl\<lparr>tightAfterBufSize := max (tightAfterBufSize cl) m\<rparr>) (tight_all_read inflate srv cl (simple_rects ?conf r) got) (SendRectSimple env srv r cl)"
    unfolding tight_all_read_settings [OF s(1)] e cl'_def [symmetric] .
  then show ?thesis by (rule tight_out_grow) (use m22 in auto)
qed

lemma good_piece_settings: "settings c = settings cl \<Longrightarrow> good_piece srv c = good_piece srv cl"
proof -
  assume a: "settings c = settings cl"
  have "server_pixel srv c = server_pixel srv cl" by (intro ext) (simp add: server_pixel_def settings_fields(4,5) [OF a])
  then show ?thesis by (intro ext) (simp add: good_piece_def)
qed

lemma send_piece_out:
  assumes "tight_ready env inflate srv cl got" "tight_lossless cl" "tightCompressLevel cl < 10" "good_piece srv cl p" "tightAfterBufSize cl \<le> 2 ^ 22"
  shows "tight_out env cl (tight_all_read inflate srv cl (piece_rects (compress_conf cl) p) got) (send_piece env srv p cl)"
proof (cases p)
  case (Simple r)
  then show ?thesis using SendRectSimple_out [OF assms(1-3) _ assms(5)] assms(4) by (simp add: good_piece_def)
next
  case (Solid r)
  obtain x y w h where "r = (x, y, w, h)" by (metis prod_cases4)
  then show ?thesis using solid_piece_out [OF assms(1)] assms(2,4) Solid by (simp add: lossless_def)
qed

lemma send_pieces_out:
  "tight_ready env inflate srv cl got \<Longrightarrow> tight_lossless cl \<Longrightarrow> tightCompressLevel cl < 10 \<Longrightarrow> \<forall>p \<in> set ps. good_piece srv cl p \<Longrightarrow>
    tightAfterBufSize cl \<le> 2 ^ 22 \<Longrightarrow>
    tight_out env cl (tight_all_read inflate srv cl (concat (map (piece_rects (compress_conf cl)) ps)) got) (send_pieces env srv ps cl)"
proof (induction env srv ps cl arbitrary: got rule: send_pieces.induct)
  case (1 env srv cl)
  then show ?case by (auto simp: tight_ready_def tight_all_read_Nil intro!: tight_out_end [where bs = "[]"])
next
  case (2 env srv p ps cl)
  have gp: "good_piece srv cl p" using 2(5) by simp
  show ?case unfolding send_pieces.simps
  proof (rule tight_out_seq [OF send_piece_out [OF 2(2-4) gp 2(6)]])
    fix c bs got1
    assume c: "settings c = settings cl" "ublen c \<le> UPDATE_BUF_SIZE" "tight_sent env c got1"
      "tight_all_read inflate srv cl (piece_rects (compress_conf cl) p) got bs got1" "send_piece env srv p cl = (True, c)"
      "tightAfterBufSize cl \<le> 2 ^ 22 \<longrightarrow> tightAfterBufSize c \<le> 2 ^ 22"
    note t = tight_settings [OF c(1)]
    have l: "tight_lossless c" unfolding t(3) by (rule lossless_settings [OF 2(3) c(1)])
    have "tight_out env c (tight_all_read inflate srv c (concat (map (piece_rects (compress_conf c)) ps)) got1) (send_pieces env srv ps c)"
      by (rule 2(1) [OF c(5) [symmetric] refl tight_ready_step [OF 2(2) c(1,3,2)] l])
        (use 2(4-6) c(6) t(2) good_piece_settings [OF c(1)] in simp_all)
    then show "tight_out env c (\<lambda>bs'. tight_all_read inflate srv cl (concat (map (piece_rects (compress_conf cl)) (p # ps))) got (bs @ bs'))
        (send_pieces env srv ps c)"
      unfolding tight_all_read_settings [OF c(1)] t(3) list.map concat.simps
      by (rule tight_out_mono) (rule tight_all_read_append [OF c(4)])
  qed
qed

section \<open>The rectangles\<close>

definition tight_rects :: "server \<Rightarrow> rfbClientRec \<Rightarrow> rect \<Rightarrow> rect list" where
  "tight_rects srv cl = (\<lambda>(x, y, w, h). concat (map (piece_rects (compress_conf cl)) (tight_pieces srv cl x y w h)))"

lemma covered_concat: "covered px py (concat rss) = (\<Sum>rs \<leftarrow> rss. covered px py rs)"
  by (induction rss) (simp_all add: covered_simps)

lemma covered_piece:
  assumes "good_conf conf" "solid_rect (piece_rect p)"
  shows "covered px py (piece_rects conf p) = covered px py [piece_rect p]"
proof (cases p)
  case (Simple r)
  then show ?thesis using simple_rects_good(1) [OF assms(1), of r px py] assms(2) by (simp add: covered_def)
qed simp

lemma tight_rects_covered:
  assumes "tightCompressLevel cl < 10" "0 < w" "0 < h"
  shows "covered px py (tight_rects srv cl (x, y, w, h)) = of_bool (in_rect px py (x, y, w, h))"
proof -
  let ?conf = "compress_conf cl" and ?ps = "tight_pieces srv cl x y w h"
  have good: "good_conf ?conf" using tightConf_good [OF assms(1)] by (simp add: compress_conf_def)
  have p: "\<forall>p \<in> set ?ps. solid_rect (piece_rect p)" using tight_pieces_good [OF assms] by blast
  have "covered px py (concat (map (piece_rects ?conf) ps)) = covered px py (map piece_rect ps)" if "\<forall>p \<in> set ps. solid_rect (piece_rect p)" for ps
    using that by (induction ps) (use covered_piece [OF good, of _ px py] in \<open>auto simp: covered_def\<close>)
  then show ?thesis using p tight_pieces_covered [of px py srv cl x y w h] by (simp add: tight_rects_def)
qed

lemma tight_rects_sizes:
  assumes "tightCompressLevel cl < 10" "0 < w" "0 < h" "r \<in> set (tight_rects srv cl (x, y, w, h))"
  shows "small_enough (compress_conf cl) r \<or> solid_rect r \<and> (\<exists>c. uniform (server_pixel srv cl) c r)"
proof -
  obtain p where p: "p \<in> set (tight_pieces srv cl x y w h)" "r \<in> set (piece_rects (compress_conf cl) p)" using assms(4) by (auto simp: tight_rects_def)
  have good: "good_conf (compress_conf cl)" using tightConf_good [OF assms(1)] by (simp add: compress_conf_def)
  note g = tight_pieces_good [OF assms(1-3) p(1)]
  show ?thesis
  proof (cases p)
    case (Simple q)
    then have "solid_rect q" "r \<in> set (simple_rects (compress_conf cl) q)" using g p(2) by simp_all
    from simple_rects_good(2) [OF good this] show ?thesis ..
  next
    case (Solid q)
    then show ?thesis using g p(2) by auto
  qed
qed

section \<open>The properties\<close>

text \<open>
  C16: rfbSendRectEncodingTight cuts a rectangle into rectangles that partition it: each is small enough for
  the buffers of the compression level and not empty, or it is an area of one colour of the screen, found
  and extended by the search. Without the LastRect extension there are as many as the header of the
  update has announced.
\<close>

theorem tight_rectangles_partition:
  assumes "tightCompressLevel cl < 10" "0 < w" "0 < h"
  shows "covered px py (tight_rects srv cl (x, y, w, h)) = of_bool (in_rect px py (x, y, w, h)) \<and>
    (\<forall>r \<in> set (tight_rects srv cl (x, y, w, h)). small_enough (compress_conf cl) r \<or> solid_rect r \<and> (\<exists>c. uniform (server_pixel srv cl) c r)) \<and>
    (\<not> (enableLastRectEncoding cl \<and> MIN_SPLIT_RECT_SIZE \<le> w * h) \<longrightarrow> length (tight_rects srv cl (x, y, w, h)) = rfbNumCodedRectsTight cl w h)"
proof (intro conjI ballI impI)
  show "covered px py (tight_rects srv cl (x, y, w, h)) = of_bool (in_rect px py (x, y, w, h))" by (rule tight_rects_covered [OF assms])
next
  fix r assume "r \<in> set (tight_rects srv cl (x, y, w, h))"
  then show "small_enough (compress_conf cl) r \<or> solid_rect r \<and> (\<exists>c. uniform (server_pixel srv cl) c r)" by (rule tight_rects_sizes [OF assms])
next
  assume n: "\<not> (enableLastRectEncoding cl \<and> MIN_SPLIT_RECT_SIZE \<le> w * h)"
  then have "tight_pieces srv cl x y w h = [Simple (x, y, w, h)]" by (subst tight_pieces.simps) auto
  then show "length (tight_rects srv cl (x, y, w, h)) = rfbNumCodedRectsTight cl w h"
    using simple_rects_count [OF assms n, of x y] by (simp add: tight_rects_def)
qed

theorem tight_rectangles_partition_witness:
  "covered 600 20 (tight_rects demo_server demo_client (0, 0, 2000, 100)) = 1"
  using tight_rectangles_partition [of demo_client 2000 100 600 20 demo_server 0 0] by (simp add: demo_client_def in_rect_def)

text \<open>
  C15: A rectangle in the Tight encoding is what a viewer reads. Unless zlib reports an error or puts out more
  than the bound that the code relies on, or the connection is lost, the rectangles that are sent partition
  the rectangle; a viewer that inflates the four streams, after all that it has got of them, reads each
  header and then every pixel of the screen as it is translated for the client, and leaves the streams ready
  for the next rectangle. This holds where nothing is lossy by design: no JPEG quality is set, and if the
  level allows the gradient filter, pixels are sent in three bytes.
\<close>

definition tight_decoded :: "tight_env \<Rightarrow> (u8 list \<Rightarrow> u8 list) \<Rightarrow> server \<Rightarrow> rfbClientRec \<Rightarrow> rect \<Rightarrow> (nat \<Rightarrow> u8 list) \<Rightarrow> bool \<times> rfbClientRec \<Rightarrow> bool" where
  "tight_decoded env inflate srv cl r got res \<longleftrightarrow>
     (if fst res then
        \<exists>rects bs got'. sends cl bs res \<and> tight_sent env (snd res) got' \<and>
          (\<forall>px py. covered px py rects = of_bool (in_rect px py r)) \<and>
          decode_tight_rects inflate (tlen (format cl)) rects (got, bs) = (tight_shown srv cl rects, (got', []))
      else tight_fails env \<or> gone (snd res))"

theorem tight_rectangle_decodes:
  assumes "drawable srv cl" "tight_lossless cl" "tightCompressLevel cl < 10" "0 < w" "0 < h"
    and "ublen cl \<le> UPDATE_BUF_SIZE" "tightAfterBufSize cl \<le> 2 ^ 22" "tight_pair env inflate" "tight_sent env cl got"
  shows "tight_decoded env inflate srv cl (x, y, w, h) got (rfbSendRectEncodingTight env srv x y w h cl)"
proof -
  let ?res = "rfbSendRectEncodingTight env srv x y w h cl" and ?rs = "tight_rects srv cl (x, y, w, h)"
  have ready: "tight_ready env inflate srv cl got" using assms by (simp add: tight_ready_def)
  have pieces: "\<forall>p \<in> set (tight_pieces srv cl x y w h). good_piece srv cl p"
    using tight_pieces_good [OF assms(3-5)] by (auto simp: good_piece_def)
  have out: "tight_out env cl (tight_all_read inflate srv cl ?rs got) ?res"
    using send_pieces_out [OF ready assms(2,3) pieces assms(7)] by (simp add: rfbSendRectEncodingTight_def tight_rects_def)
  show ?thesis
  proof (cases "fst ?res")
    case True
    then obtain bs got' where o: "sends cl bs ?res" "tight_sent env (snd ?res) got'" "tight_all_read inflate srv cl ?rs got bs got'"
      using out by (auto simp: tight_out_def)
    have "decode_tight_rects inflate (tlen (format cl)) ?rs (got, bs @ []) = (tight_shown srv cl ?rs, (got', []))"
      using o(3) unfolding tight_all_read_def by blast
    then show ?thesis unfolding tight_decoded_def if_P [OF True]
      using o(1,2) tight_rects_covered [OF assms(3-5)] by (intro exI [of _ ?rs] exI [of _ bs] exI [of _ got']) simp
  next
    case False
    then show ?thesis using out by (simp add: tight_decoded_def tight_out_def)
  qed
qed

definition stored_env :: tight_env where
  "stored_env = \<lparr>deflateInit2 = (\<lambda>_. True), deflateParams = (\<lambda>_ _ _. True), deflateTight = (\<lambda>_ _ _ bs. Some bs), jpeg = (\<lambda>_ _ _. []), staleBytes = (\<lambda>_. 0)\<rparr>"

lemma stored_touts: "touts stored_env sid past blocks = Some (concat (map snd blocks))"
  by (induction stored_env sid past blocks rule: touts.induct) (simp_all add: stored_env_def)

theorem tight_rectangle_decodes_witness:
  "tight_decoded stored_env (\<lambda>bs. bs) demo_server demo_client (0, 0, 4, 3) (\<lambda>_. [])
    (rfbSendRectEncodingTight stored_env demo_server 0 0 4 3 demo_client)"
proof (rule tight_rectangle_decodes [OF demo_drawable _ _ _ _ demo_ublen])
  show "tight_lossless demo_client"
    by (simp add: lossless_def demo_client_def demo_format_def tight_format_def valid_bpp_def usePixelFormat24_def)
  show "tightCompressLevel demo_client < 10" "tightAfterBufSize demo_client \<le> 2 ^ 22" by (simp_all add: demo_client_def)
  show "tight_pair stored_env (\<lambda>bs. bs)" by (simp add: tight_pair_def stored_touts)
  show "tight_sent stored_env demo_client (\<lambda>_. [])" by (simp add: tight_sent_def demo_client_def)
qed simp_all

end
