(* ===== verification/Spec2Isabelle.thy ===== *)
theory Spec2Isabelle
  imports Rfb_Prelude D3des Vncauth Sockets Miregion Regionspec Regionop Regionalg Rfb_Types Auth Translate Updatebuf Subrects Rre Hextile
    Cursor Messages Clients Zlib Update Updatespec Mainloop Session Connection Zrle Zrlesend
    Tight Tightcode Tightspec Tightview Tightsend Tightpix Tightrect
begin

text \<open>
  The protocol core of OSXvnc, a VNC server for macOS.

  The server is the C program under \<^verbatim>\<open>OSXvnc-server\<close>. It accepts clients that speak the RFB protocol,
  authenticates them, keeps per client the region of the screen that has changed and the region the
  client has asked for, and sends the pixels of their intersection in the client's pixel format and
  in an encoding the client supports.

  The theories, from the bottom up:

  \<^item> \<open>Rfb_Prelude\<close>: byte, word and list facts, big endian integers.
  \<^item> \<open>D3des\<close> (\<^verbatim>\<open>d3des.c\<close>): the DES cipher of the VNC authentication, with its key schedule and S-boxes.
  \<^item> \<open>Vncauth\<close> (\<^verbatim>\<open>vncauth.c\<close>, \<^verbatim>\<open>storepasswd.c\<close>): stored passwords, challenges and responses.
  \<^item> \<open>Sockets\<close> (\<^verbatim>\<open>sockets.c\<close>): exact reads and writes over a socket that may deliver any part.
  \<^item> \<open>Miregion\<close> (\<^verbatim>\<open>miregion.c\<close>): the region code of the X server, \<open>Regionspec\<close> the sets of pixels it is
    about, \<open>Regionop\<close> the loop shared by union, intersection and difference, \<open>Regionalg\<close> the operations.
  \<^item> \<open>Rfb_Types\<close> (\<^verbatim>\<open>rfb.h\<close>, \<^verbatim>\<open>rfbproto.h\<close>): the client record, the globals, constants and headers.
  \<^item> \<open>Auth\<close> (\<^verbatim>\<open>auth.c\<close>): the authentication handshake as a state machine.
  \<^item> \<open>Translate\<close> (\<^verbatim>\<open>translate.c\<close> and its two templates): pixel format translation by tables.
  \<^item> \<open>Updatebuf\<close> (\<^verbatim>\<open>rfbserver.c\<close>): the output buffer of a client, the raw encoding, and what it means that
    a call sends a message.
  \<^item> \<open>Subrects\<close>: the search for single-coloured rectangles that three encoders share, with the locale
    \<open>subrect_codec\<close> for a layout of rectangles that can be read back.
  \<^item> \<open>Rre\<close> (\<^verbatim>\<open>rre.c\<close>, \<^verbatim>\<open>corre.c\<close>), \<open>Hextile\<close> (\<^verbatim>\<open>hextile.c\<close>): the encoders, each with the decoder of a viewer.
  \<^item> \<open>Cursor\<close> (\<^verbatim>\<open>mousecursor.c\<close>): shape and position of the cursor.
  \<^item> \<open>Messages\<close> (\<^verbatim>\<open>rfbserver.c\<close>): the messages of a connected client, one handler for each case of the switch;
    that they keep in step with the stream and keep the client fit for the encoders, and what the
    requests and the list of encodings do.

  \<^item> \<open>Clients\<close> (\<^verbatim>\<open>rfbserver.c\<close>): the list of clients, new connections, the version and initialisation
    messages, the dispatch on the state of the protocol, the end of a connection; \<^verbatim>\<open>printf\<close> and \<^verbatim>\<open>sscanf\<close> of the
    version string, which read back what they print.
  \<^item> \<open>Zlib\<close> (\<^verbatim>\<open>zlib.c\<close>): the zlib encoding around the deflater, which is a parameter.
  \<^item> \<open>Update\<close> (\<^verbatim>\<open>rfbserver.c\<close>, and the copy of the screen from \<^verbatim>\<open>main.c\<close>): sending an update, scaling and the
    number of rectangles. \<open>Updatespec\<close>: what an update shows. Its locale \<open>rect_encoder\<close> is the contract of an
    encoder with the loop over the rectangles, interpreted by the raw, RRE, CoRRE and hextile encoders.
  \<^item> \<open>Mainloop\<close> (\<^verbatim>\<open>main.c\<close>): the callback for screen changes, the output and the input thread, a changed
    resolution, new clients.
  \<^item> \<open>Session\<close>: the composition. The steps of a session are screen changes, requests, input events, the tests of
    the output thread and updates in any order; the viewer decodes what arrives. The invariants are that it shows the
    screen wherever the modified region does not say otherwise, and that the output thread does not
    sleep while a change is requested. Its clients are unscaled, prefer one of the four encodings
    without a compressor, and are sent no shape of the cursor.
  \<^item> \<open>Connection\<close>: a connection from the greeting to its end; the agreement on a version, the desktop that is
    not shared, and the end of the input thread, with the two cases in which it waits for ever.

  \<^item> \<open>Zrle\<close> (\<^verbatim>\<open>zrleEncode.h\<close>): a tile of the ZRLE encoding, its palette in a hash table, the choice between the five
    forms, and the decoder of a viewer. \<open>Zrlesend\<close> (\<^verbatim>\<open>zrle.cc\<close>, \<^verbatim>\<open>rdr/ZlibOutStream.cxx\<close>): the tiles of a rectangle, the
    stream that compresses them, and that a viewer reads every rectangle of a connection.
  \<^item> \<open>Tight\<close> (\<^verbatim>\<open>tight.c\<close>): the search for areas of one colour and the cutting into rectangles, which they partition.
    \<open>Tightcode\<close>: the palette, the conversions, the gradient filter, and the subencodings with their four
    compressed streams. \<open>Tightspec\<close>: the palette is a bijection that holds every colour. \<open>Tightview\<close>: the viewer
    undoes the conversions and the filter. \<open>Tightsend\<close>, \<open>Tightpix\<close>, \<open>Tightrect\<close>: a compressed block, the five
    lossless forms, and a whole rectangle, each sent and read.

  State. A C struct is a record (\<open>RegionRec\<close>, \<open>rfbPixelFormat\<close>, \<open>rfbScreenInfo\<close>, \<open>rfbClientRec\<close>), the
  globals of the server are the record \<open>server\<close>. A function that changes a client returns it updated;
  the region code, where arguments may be the same object, works on a store of regions. A socket is
  the list of answers the kernel will give to the calls of \<^verbatim>\<open>read\<close>, \<^verbatim>\<open>write\<close> and \<^verbatim>\<open>select\<close>, so a theorem
  over all such lists covers all ways a peer can behave. An empty script is a peer that has gone silent
  when it is read from, and one that takes everything when it is written to.

  Threads. Each client has an input and an output thread. A step of the model is what a thread does while
  it holds the lock of the client; the steps of different threads interleave at will. The parts that the
  code does without the lock are findings. \<open>outputWaiting\<close> tells that the output thread sleeps on the condition updateCond,
  \<open>pthread_cond_signal\<close> wakes it, \<open>output_test\<close> is what it does when awake; \<open>updateLocked\<close> tells that the input thread
  has kept the lock, and \<open>join_output\<close> is the end of the output thread, for which the input thread waits.

  Bounds. Loops whose end depends on the peer recurse over the script, which is finite; \<open>clientInput\<close>, which
  runs as long as its client, is a partial function whose value is \<open>None\<close> if it does not return: its loop always
  ends, but it may wait for its output thread for ever. No fuel is used.
  Shorts, bytes and words keep their width where the code can leave it.

  Not modelled: the encoding zlibhex, which enters an update as a parameter, as the functions for ZRLE and
  Tight do; the compressors of zlib and of the JPEG library; the clipboard extension with its pasteboard; reading the shape of the cursor
  and the screen from the window server; dimming, keyboard maps, option parsing, sockets that listen,
  logging, and the user interface.
\<close>

end
